(* ===== verification/Prelude.thy ===== *)
theory Prelude
  imports Main "HOL-Library.Word"
begin

text \<open>
  Shared vocabulary of the development: bytes, the fixed-width byte arrays of
  \<^verbatim>\<open>src/common\<close>, the unsigned 64-bit arithmetic of Go written out over \<^typ>\<open>nat\<close>,
  big-endian conversions (\<^verbatim>\<open>math/big\<close> and \<^verbatim>\<open>encoding/binary\<close>), and the lemmas about
  them that the component theories use.

  Conventions.  A Go \<^verbatim>\<open>uint64\<close> is a \<^typ>\<open>nat\<close>; wherever the Go expression can leave
  the 64-bit range the wrap-around is written with \<open>add64\<close>, \<open>sub64\<close> or \<open>mul64\<close>.  A
  \<^verbatim>\<open>*big.Int\<close> is an \<^typ>\<open>int\<close>.  A \<^verbatim>\<open>[20]byte\<close> address and a \<^verbatim>\<open>[32]byte\<close> hash are the
  160-bit and 256-bit words whose big-endian bytes they are, so that \<^verbatim>\<open>bytes.Compare\<close> on
  them is the unsigned order.
\<close>

type_synonym byte = "8 word"
type_synonym bytes = "byte list"
type_synonym address = "160 word"
type_synonym hash = "256 word"

text \<open>Collections the component theories extend and use.\<close>

named_theorems wrap64 \<open>64-bit operations that stay in range\<close>
named_theorems byte_simps \<open>big-endian conversions\<close>

section \<open>Unsigned 64-bit arithmetic\<close>

definition add64 :: "nat \<Rightarrow> nat \<Rightarrow> nat" where
  "add64 a b = (a + b) mod 2 ^ 64"

definition sub64 :: "nat \<Rightarrow> nat \<Rightarrow> nat" where
  "sub64 a b = (if b \<le> a then a - b else a + 2 ^ 64 - b)"

definition mul64 :: "nat \<Rightarrow> nat \<Rightarrow> nat" where
  "mul64 a b = (a * b) mod 2 ^ 64"

lemma add64_id [wrap64]: "a + b < 2 ^ 64 \<Longrightarrow> add64 a b = a + b"
  by (simp add: add64_def)

lemma sub64_id [wrap64]: "b \<le> a \<Longrightarrow> sub64 a b = a - b"
  by (simp add: sub64_def)

lemma mul64_id [wrap64]: "a * b < 2 ^ 64 \<Longrightarrow> mul64 a b = a * b"
  by (simp add: mul64_def)

lemma add64_less [simp]: "add64 a b < 2 ^ 64"
  by (simp add: add64_def)

lemma mul64_less [simp]: "mul64 a b < 2 ^ 64"
  by (simp add: mul64_def)

text \<open>\<^verbatim>\<open>int64\<close> arithmetic: two's complement reduction of an integer result.\<close>

definition wrap_int64 :: "int \<Rightarrow> int" where
  "wrap_int64 x = (x + 2 ^ 63) mod 2 ^ 64 - 2 ^ 63"

lemma wrap_int64_id [wrap64]: "- (2 ^ 63) \<le> x \<Longrightarrow> x < 2 ^ 63 \<Longrightarrow> wrap_int64 x = x"
  by (simp add: wrap_int64_def)

lemma wrap_int64_range: "- (2 ^ 63) \<le> wrap_int64 x \<and> wrap_int64 x < 2 ^ 63"
proof -
  have "0 \<le> (x + 2 ^ 63) mod 2 ^ 64" "(x + 2 ^ 63) mod 2 ^ 64 < (2 ^ 64 :: int)" by simp_all
  then show ?thesis by (simp add: wrap_int64_def)
qed

section \<open>Big-endian bytes\<close>

text \<open>\<open>be_nat\<close> is \<^verbatim>\<open>big.Int.SetBytes\<close>: the value of a big-endian byte string.\<close>

definition be_nat :: "bytes \<Rightarrow> nat" where
  "be_nat bs = foldl (\<lambda>n b. n * 256 + unat b) 0 bs"

text \<open>\<open>be_min\<close> is \<^verbatim>\<open>big.Int.Bytes\<close>: the minimal big-endian byte string of a value.\<close>

fun be_min :: "nat \<Rightarrow> bytes" where
  "be_min n = (if n = 0 then [] else be_min (n div 256) @ [word_of_nat (n mod 256)])"

declare be_min.simps [simp del]

text \<open>
  \<open>be_fixed k\<close> is \<^verbatim>\<open>big.Int.FillBytes\<close> into a \<open>k\<close>-byte buffer (and, at 8,
  \<^verbatim>\<open>binary.BigEndian.PutUint64\<close>).
\<close>

fun be_fixed :: "nat \<Rightarrow> nat \<Rightarrow> bytes" where
  "be_fixed 0 n = []"
| "be_fixed (Suc k) n = be_fixed k (n div 256) @ [word_of_nat (n mod 256)]"

lemma unat_byte_of_mod [simp]: "unat (word_of_nat (n mod 256) :: byte) = n mod 256"
  by (simp add: unat_of_nat)

lemma unat_byte_less [simp]: "unat (b :: byte) < 256"
  using unsigned_less [of b] by simp

lemma be_nat_Nil [simp]: "be_nat [] = 0"
  by (simp add: be_nat_def)

lemma be_nat_snoc [simp]: "be_nat (bs @ [b]) = be_nat bs * 256 + unat b"
  by (simp add: be_nat_def)

lemma be_nat_append [byte_simps]: "be_nat (as @ bs) = be_nat as * 256 ^ length bs + be_nat bs"
proof (induction bs rule: rev_induct)
  case Nil
  then show ?case by simp
next
  case (snoc b bs)
  have "be_nat (as @ bs @ [b]) = be_nat (as @ bs) * 256 + unat b"
    by (metis append_assoc be_nat_snoc)
  with snoc show ?case by (simp add: algebra_simps)
qed

lemma be_nat_Cons [byte_simps]: "be_nat (b # bs) = unat b * 256 ^ length bs + be_nat bs"
proof -
  have "be_nat [b] = unat b" using be_nat_snoc [of "[]" b] by simp
  then show ?thesis using be_nat_append [of "[b]" bs] by simp
qed

lemma be_nat_less: "be_nat bs < 256 ^ length bs"
proof (induction bs rule: rev_induct)
  case Nil
  then show ?case by simp
next
  case (snoc b bs)
  have "be_nat bs * 256 + unat b < (be_nat bs + 1) * 256"
    using unat_byte_less [of b] by simp
  also have "\<dots> \<le> 256 ^ length bs * 256"
    using snoc by (intro mult_right_mono) simp_all
  finally show ?case by (simp add: mult.commute)
qed

lemma length_be_fixed [simp]: "length (be_fixed k n) = k"
  by (induction k arbitrary: n) simp_all

lemma be_nat_be_fixed [byte_simps]: "be_nat (be_fixed k n) = n mod 256 ^ k"
proof (induction k arbitrary: n)
  case 0
  then show ?case by simp
next
  case (Suc k)
  have "(n div 256) mod 256 ^ k * 256 + n mod 256 = n mod (256 * 256 ^ k)"
    by (metis mod_mult2_eq mult.commute add.commute)
  with Suc show ?case by simp
qed

lemma be_fixed_be_nat [byte_simps]: "length bs = k \<Longrightarrow> be_fixed k (be_nat bs) = bs"
proof (induction k arbitrary: bs)
  case 0
  then show ?case by simp
next
  case (Suc k)
  then obtain as b where bs: "bs = as @ [b]" "length as = k"
    by (metis append_butlast_last_id length_0_conv length_butlast nat.simps(3) diff_Suc_1)
  have "(be_nat as * 256 + unat b) div 256 = be_nat as"
    using unat_byte_less [of b] by simp
  moreover have "(word_of_nat ((be_nat as * 256 + unat b) mod 256) :: byte) = b"
    using unat_byte_less [of b] by simp
  ultimately show ?case using Suc.IH [of as] bs by simp
qed

lemma be_fixed_inject:
  "be_fixed k m = be_fixed k n \<Longrightarrow> m < 256 ^ k \<Longrightarrow> n < 256 ^ k \<Longrightarrow> m = n"
  by (metis be_nat_be_fixed mod_less)

lemma be_min_0 [simp]: "be_min 0 = []"
  by (simp add: be_min.simps)

lemma be_min_pos: "0 < n \<Longrightarrow> be_min n = be_min (n div 256) @ [word_of_nat (n mod 256)]"
  by (subst be_min.simps) simp

lemma be_nat_be_min [simp]: "be_nat (be_min n) = n"
proof (induction n rule: be_min.induct)
  case (1 n)
  then show ?case by (cases "n = 0") (simp_all add: be_min_pos)
qed

lemma be_min_inject: "be_min m = be_min n \<Longrightarrow> m = n"
  by (metis be_nat_be_min)

lemma be_min_eq_Nil [simp]: "be_min n = [] \<longleftrightarrow> n = 0"
  by (cases "n = 0") (simp_all add: be_min_pos)

lemma hd_be_min: "0 < n \<Longrightarrow> hd (be_min n) \<noteq> 0"
proof (induction n rule: be_min.induct)
  case (1 n)
  show ?case
  proof (cases "n < 256")
    case True
    have "be_min n = [word_of_nat n]" using True "1.prems" by (simp add: be_min_pos)
    moreover have "unat (word_of_nat n :: byte) = n" using True by (simp add: unat_of_nat)
    ultimately show ?thesis using "1.prems" by (metis list.sel(1) unat_0 less_irrefl)
  next
    case False
    then have pos: "0 < n div 256" by simp
    then have "hd (be_min (n div 256)) \<noteq> 0" using "1.IH" "1.prems" by simp
    moreover have "be_min (n div 256) \<noteq> []" using pos by simp
    ultimately show ?thesis using "1.prems" by (simp add: be_min_pos [of n])
  qed
qed

text \<open>A byte string is the minimal one of its value when it has no leading zero byte.\<close>

lemma be_min_be_nat:
  assumes "bs = [] \<or> hd bs \<noteq> 0"
  shows "be_min (be_nat bs) = bs"
  using assms
proof (induction bs rule: rev_induct)
  case Nil
  then show ?case by simp
next
  case (snoc b bs)
  have ub: "unat b < 256" by simp
  show ?case
  proof (cases "bs = []")
    case True
    with snoc.prems have "0 < unat b" by (simp add: unat_gt_0)
    with True show ?thesis using be_nat_snoc [of "[]" b] by (simp add: be_min_pos)
  next
    case False
    with snoc have IH: "be_min (be_nat bs) = bs" by simp
    then have "be_nat bs \<noteq> 0" using False by (metis be_min_0)
    then have "be_min (be_nat bs * 256 + unat b) = be_min (be_nat bs) @ [b]"
      using ub by (subst be_min_pos) simp_all
    with IH show ?thesis by simp
  qed
qed

lemma length_be_min_le: "n < 256 ^ k \<Longrightarrow> length (be_min n) \<le> k"
proof (induction k arbitrary: n)
  case 0
  then show ?case by simp
next
  case (Suc k)
  show ?case
  proof (cases "n = 0")
    case True
    then show ?thesis by simp
  next
    case False
    have "n div 256 < 256 ^ k" using Suc.prems by (simp add: less_mult_imp_div_less mult.commute)
    then have "length (be_min (n div 256)) \<le> k" by (rule Suc.IH)
    with False show ?thesis by (simp add: be_min_pos)
  qed
qed

text \<open>\<^verbatim>\<open>big.Int.Bytes\<close> drops the sign: it is the minimal encoding of the absolute value.\<close>

definition big_bytes :: "int \<Rightarrow> bytes" where
  "big_bytes v = be_min (nat \<bar>v\<bar>)"

text \<open>The bytes of a 32-byte hash and of a 20-byte address (\<^verbatim>\<open>h[:]\<close>, \<^verbatim>\<open>a[:]\<close>) and back.\<close>

definition hash_bytes :: "hash \<Rightarrow> bytes" where
  "hash_bytes h = be_fixed 32 (unat h)"

definition addr_bytes :: "address \<Rightarrow> bytes" where
  "addr_bytes a = be_fixed 20 (unat a)"

lemma length_hash_bytes [simp]: "length (hash_bytes h) = 32"
  by (simp add: hash_bytes_def)

lemma length_addr_bytes [simp]: "length (addr_bytes a) = 20"
  by (simp add: addr_bytes_def)

lemma be_nat_hash_bytes [byte_simps]: "be_nat (hash_bytes h) = unat h"
proof -
  have "unat h < 2 ^ 256" using unsigned_less [of h] by simp
  then show ?thesis by (simp add: hash_bytes_def be_nat_be_fixed)
qed

lemma be_nat_addr_bytes [byte_simps]: "be_nat (addr_bytes a) = unat a"
proof -
  have "unat a < 2 ^ 160" using unsigned_less [of a] by simp
  then show ?thesis by (simp add: addr_bytes_def be_nat_be_fixed)
qed

lemma hash_bytes_inject [simp]: "hash_bytes h = hash_bytes k \<longleftrightarrow> h = k"
  by (metis be_nat_hash_bytes word_unat_eq_iff)

lemma addr_bytes_inject [simp]: "addr_bytes a = addr_bytes b \<longleftrightarrow> a = b"
  by (metis be_nat_addr_bytes word_unat_eq_iff)

section \<open>Lists\<close>

lemma append_eq_same_length:
  "as @ r = bs @ s \<Longrightarrow> length as = length bs \<Longrightarrow> as = bs \<and> r = s"
  by simp

end
