(* ===== verification/Encoding.thy ===== *)
theory Encoding
  imports Prelude
begin

text \<open>
  The package \<^verbatim>\<open>src/common\<close>: the canonical binary encoder every consensus hash goes through
  (\<^verbatim>\<open>encoding.go\<close>), event logs (\<^verbatim>\<open>log.go\<close>), the hex text form of hashes and addresses
  (\<^verbatim>\<open>primitives.go\<close>), the burn address and the denominations.  An encoder method appends to
  a buffer; the model of a method is the chunk it appends, and a sequence of calls is the
  concatenation of their chunks.

  The interface \<open>prefix_code\<close> is what the encoder promises its callers: an encoding
  followed by anything determines both the value and what follows.  It is interpreted on
  each encoder method, and the injectivity of the composed encodings of the later theories
  (transactions, headers, receipts, accounts) rests on it.
\<close>

section \<open>Encoder methods\<close>

definition enc_Uint64 :: "nat \<Rightarrow> bytes" where
  "enc_Uint64 v = be_fixed 8 v"

definition enc_Int64 :: "int \<Rightarrow> bytes" where
  "enc_Int64 v = enc_Uint64 (nat (v mod 2 ^ 64))"

definition enc_Bytes :: "bytes \<Rightarrow> bytes" where
  "enc_Bytes b = enc_Uint64 (length b) @ b"

text \<open>A nil \<^verbatim>\<open>*big.Int\<close> is \<^const>\<open>None\<close>; it encodes like zero.\<close>

definition enc_BigInt :: "int option \<Rightarrow> bytes" where
  "enc_BigInt v = (case v of None \<Rightarrow> enc_Bytes [] | Some x \<Rightarrow> enc_Bytes (big_bytes x))"

definition enc_OptionalAddress :: "address option \<Rightarrow> bytes" where
  "enc_OptionalAddress a = (case a of None \<Rightarrow> [0] | Some x \<Rightarrow> 1 # addr_bytes x)"

section \<open>Event logs\<close>

record evlog =
  log_address :: address
  log_topics :: "hash list"
  log_data :: bytes

definition log_EncodeInto :: "evlog \<Rightarrow> bytes" where
  "log_EncodeInto l =
     addr_bytes (log_address l) @
     enc_Uint64 (length (log_topics l)) @
     concat (map hash_bytes (log_topics l)) @
     enc_Bytes (log_data l)"

section \<open>Hex text\<close>

text \<open>
  \<^verbatim>\<open>encoding/hex\<close>: lower-case encoding; decoding accepts both cases, refuses any other
  character and an odd number of digits.
\<close>

definition hex_digit :: "nat \<Rightarrow> char" where
  "hex_digit n = ''0123456789abcdef'' ! n"

definition hex_val :: "char \<Rightarrow> nat option" where
  "hex_val c =
     (let k = of_char c :: nat in
      if 48 \<le> k \<and> k \<le> 57 then Some (k - 48)
      else if 97 \<le> k \<and> k \<le> 102 then Some (k - 87)
      else if 65 \<le> k \<and> k \<le> 70 then Some (k - 55)
      else None)"

fun hex_EncodeToString :: "bytes \<Rightarrow> string" where
  "hex_EncodeToString [] = []"
| "hex_EncodeToString (b # bs) =
     hex_digit (unat b div 16) # hex_digit (unat b mod 16) # hex_EncodeToString bs"

fun hex_DecodeString :: "string \<Rightarrow> bytes option" where
  "hex_DecodeString [] = Some []"
| "hex_DecodeString [c] = None"
| "hex_DecodeString (c # d # cs) =
     (case (hex_val c, hex_val d, hex_DecodeString cs) of
        (Some h, Some l, Some bs) \<Rightarrow> Some (word_of_nat (16 * h + l) # bs)
      | _ \<Rightarrow> None)"

definition trim_0x :: "string \<Rightarrow> string" where
  "trim_0x s = (if take 2 s = ''0x'' then drop 2 s else s)"

definition Hash_Hex :: "hash \<Rightarrow> string" where
  "Hash_Hex h = ''0x'' @ hex_EncodeToString (hash_bytes h)"

definition Address_Hex :: "address \<Rightarrow> string" where
  "Address_Hex a = ''0x'' @ hex_EncodeToString (addr_bytes a)"

definition HashFromBytes :: "bytes \<Rightarrow> hash option" where
  "HashFromBytes b = (if length b \<noteq> 32 then None else Some (word_of_nat (be_nat b)))"

definition AddressFromBytes :: "bytes \<Rightarrow> address option" where
  "AddressFromBytes b = (if length b \<noteq> 20 then None else Some (word_of_nat (be_nat b)))"

definition AddressFromHex :: "string \<Rightarrow> address option" where
  "AddressFromHex s = Option.bind (hex_DecodeString (trim_0x s)) AddressFromBytes"

definition HashFromHex :: "string \<Rightarrow> hash option" where
  "HashFromHex s = Option.bind (hex_DecodeString (trim_0x s)) HashFromBytes"

section \<open>Constants\<close>

definition BurnAddress :: address where
  "BurnAddress = 0xdEaD"

definition Decimals :: nat where
  "Decimals = 18"

definition OneLXS :: int where
  "OneLXS = 10 ^ Decimals"

definition LXS :: "int \<Rightarrow> int" where
  "LXS n = n * OneLXS"

section \<open>Encodings are self-delimiting\<close>

locale prefix_code =
  fixes enc :: "'a \<Rightarrow> bytes" and valid :: "'a \<Rightarrow> bool"
  assumes unique: "valid x \<Longrightarrow> valid y \<Longrightarrow> enc x @ r = enc y @ s \<Longrightarrow> x = y \<and> r = s"
begin

lemma inject: "valid x \<Longrightarrow> valid y \<Longrightarrow> enc x = enc y \<Longrightarrow> x = y"
  using unique [of x y "[]" "[]"] by simp

lemma unique_list:
  "list_all valid xs \<Longrightarrow> list_all valid ys \<Longrightarrow> length xs = length ys \<Longrightarrow>
   concat (map enc xs) @ r = concat (map enc ys) @ s \<Longrightarrow> xs = ys \<and> r = s"
proof (induction xs arbitrary: ys)
  case Nil
  then show ?case by simp
next
  case (Cons x xs)
  then obtain y ys' where ys: "ys = y # ys'" "length xs = length ys'"
    by (cases ys) simp_all
  with Cons.prems have
    "x = y \<and> concat (map enc xs) @ r = concat (map enc ys') @ s"
    by (intro unique) simp_all
  with Cons ys show ?case by simp
qed

end

interpretation uint64_code: prefix_code enc_Uint64 "\<lambda>v. v < 2 ^ 64"
proof unfold_locales
  fix x y :: nat and r s :: bytes
  assume bounds: "x < 2 ^ 64" "y < 2 ^ 64" and eq: "enc_Uint64 x @ r = enc_Uint64 y @ s"
  then have "be_fixed 8 x = be_fixed 8 y \<and> r = s"
    by (simp add: enc_Uint64_def)
  with bounds be_fixed_inject [of 8 x y] show "x = y \<and> r = s" by simp
qed

interpretation int64_code: prefix_code enc_Int64 "\<lambda>v. - (2 ^ 63) \<le> v \<and> v < 2 ^ 63"
proof unfold_locales
  fix x y :: int and r s :: bytes
  assume x: "- (2 ^ 63) \<le> x \<and> x < 2 ^ 63" and y: "- (2 ^ 63) \<le> y \<and> y < 2 ^ 63"
    and eq: "enc_Int64 x @ r = enc_Int64 y @ s"
  have "nat (x mod 2 ^ 64) < 2 ^ 64" "nat (y mod 2 ^ 64) < 2 ^ 64"
    by (simp_all add: nat_less_iff)
  then have "nat (x mod 2 ^ 64) = nat (y mod 2 ^ 64) \<and> r = s"
    using eq uint64_code.unique unfolding enc_Int64_def by blast
  then have "x mod 2 ^ 64 = y mod 2 ^ 64" and rs: "r = s"
    by (simp_all add: eq_nat_nat_iff)
  then have "(x + 2 ^ 63) mod 2 ^ 64 = (y + 2 ^ 63) mod 2 ^ 64"
    by (metis mod_add_left_eq)
  moreover have "(x + 2 ^ 63) mod 2 ^ 64 = x + 2 ^ 63" "(y + 2 ^ 63) mod 2 ^ 64 = y + 2 ^ 63"
    using x y by (auto intro!: mod_pos_pos_trivial)
  ultimately have "x = y" by linarith
  with rs show "x = y \<and> r = s" by (rule conjI [rotated])
qed

interpretation bytes_code: prefix_code enc_Bytes "\<lambda>b. length b < 2 ^ 64"
proof unfold_locales
  fix x y r s :: bytes
  assume "length x < 2 ^ 64" "length y < 2 ^ 64" "enc_Bytes x @ r = enc_Bytes y @ s"
  then show "x = y \<and> r = s"
    using uint64_code.unique [of "length x" "length y" "x @ r" "y @ s"]
    by (auto simp: enc_Bytes_def)
qed

interpretation hash_code: prefix_code hash_bytes "\<lambda>_. True"
  by unfold_locales simp

interpretation addr_code: prefix_code addr_bytes "\<lambda>_. True"
  by unfold_locales simp

interpretation bigint_code:
  prefix_code "\<lambda>v. enc_BigInt (Some v)" "\<lambda>v. 0 \<le> v \<and> length (big_bytes v) < 2 ^ 64"
proof unfold_locales
  fix x y :: int and r s :: bytes
  assume x: "0 \<le> x \<and> length (big_bytes x) < 2 ^ 64" and y: "0 \<le> y \<and> length (big_bytes y) < 2 ^ 64"
    and eq: "enc_BigInt (Some x) @ r = enc_BigInt (Some y) @ s"
  then have "big_bytes x = big_bytes y \<and> r = s"
    using bytes_code.unique [of "big_bytes x" "big_bytes y" r s] by (simp add: enc_BigInt_def)
  with x y show "x = y \<and> r = s"
    by (auto simp: big_bytes_def dest!: be_min_inject)
qed

interpretation optaddr_code: prefix_code enc_OptionalAddress "\<lambda>_. True"
proof unfold_locales
  fix x y :: "address option" and r s :: bytes
  assume "enc_OptionalAddress x @ r = enc_OptionalAddress y @ s"
  then show "x = y \<and> r = s"
    by (cases x; cases y) (auto simp: enc_OptionalAddress_def)
qed

definition log_valid :: "evlog \<Rightarrow> bool" where
  "log_valid l \<longleftrightarrow> length (log_topics l) < 2 ^ 64 \<and> length (log_data l) < 2 ^ 64"

interpretation log_code: prefix_code log_EncodeInto log_valid
proof unfold_locales
  fix x y :: evlog and r s :: bytes
  assume v: "log_valid x" "log_valid y" and eq: "log_EncodeInto x @ r = log_EncodeInto y @ s"
  have a: "log_address x = log_address y"
    and eq1: "enc_Uint64 (length (log_topics x)) @ concat (map hash_bytes (log_topics x)) @
        enc_Bytes (log_data x) @ r =
      enc_Uint64 (length (log_topics y)) @ concat (map hash_bytes (log_topics y)) @
        enc_Bytes (log_data y) @ s"
    using eq by (simp_all add: log_EncodeInto_def)
  have l: "length (log_topics x) = length (log_topics y)"
    and eq2: "concat (map hash_bytes (log_topics x)) @ enc_Bytes (log_data x) @ r =
      concat (map hash_bytes (log_topics y)) @ enc_Bytes (log_data y) @ s"
    using uint64_code.unique [OF _ _ eq1] v by (simp_all add: log_valid_def)
  have t: "log_topics x = log_topics y" and eq3: "enc_Bytes (log_data x) @ r = enc_Bytes (log_data y) @ s"
    using hash_code.unique_list [OF _ _ l eq2] by (simp_all add: list_all_iff)
  have "log_data x = log_data y \<and> r = s"
    using bytes_code.unique [OF _ _ eq3] v by (simp add: log_valid_def)
  with a t show "x = y \<and> r = s" by simp
qed

section \<open>The hex text form round-trips\<close>

lemma hex_val_digit:
  assumes "n < 16"
  shows "hex_val (hex_digit n) = Some n"
proof -
  have "\<forall>n\<in>set [0..<16]. hex_val (hex_digit n) = Some n" by code_simp
  with assms show ?thesis by simp
qed

lemma hex_Decode_Encode: "hex_DecodeString (hex_EncodeToString bs) = Some bs"
proof (induction bs)
  case Nil
  then show ?case by simp
next
  case (Cons b bs)
  have "unat b < 256" by simp
  then have "unat b div 16 < 16" by arith
  moreover have "16 * (unat b div 16) + unat b mod 16 = unat b" by simp
  ultimately show ?case using Cons by (simp add: hex_val_digit)
qed

lemma word_of_be_nat_hash: "word_of_nat (be_nat (hash_bytes h)) = h"
  by (simp add: be_nat_hash_bytes)

lemma word_of_be_nat_addr: "word_of_nat (be_nat (addr_bytes a)) = a"
  by (simp add: be_nat_addr_bytes)

lemma HashFromBytes_hash_bytes: "HashFromBytes (hash_bytes h) = Some h"
  by (simp add: HashFromBytes_def word_of_be_nat_hash)

lemma AddressFromBytes_addr_bytes: "AddressFromBytes (addr_bytes a) = Some a"
  by (simp add: AddressFromBytes_def word_of_be_nat_addr)

lemma trim_0x_prefix: "trim_0x (''0x'' @ s) = s"
  by (simp add: trim_0x_def)

lemma HashFromHex_Hex: "HashFromHex (Hash_Hex h) = Some h"
  unfolding HashFromHex_def Hash_Hex_def trim_0x_prefix hex_Decode_Encode
  by (simp add: HashFromBytes_hash_bytes)

lemma AddressFromHex_Hex: "AddressFromHex (Address_Hex a) = Some a"
  unfolding AddressFromHex_def Address_Hex_def trim_0x_prefix hex_Decode_Encode
  by (simp add: AddressFromBytes_addr_bytes)

lemma BurnAddress_literal:
  "AddressFromHex ''000000000000000000000000000000000000dEaD'' = Some BurnAddress"
proof -
  let ?bs = "[0, 0, 0, 0, 0, 0, 0, 0, 0, 0, 0, 0, 0, 0, 0, 0, 0, 0, 0xde, 0xad] :: bytes"
  have "hex_DecodeString ''000000000000000000000000000000000000dEaD'' = Some ?bs"
    by (simp add: hex_val_def)
  moreover have "be_nat ?bs = 0xdead" by (simp add: be_nat_def)
  ultimately show ?thesis
    by (simp add: AddressFromHex_def trim_0x_def AddressFromBytes_def BurnAddress_def
        del: hex_DecodeString.simps)
qed

end
