(* ===== verification/Rlp.thy ===== *)
theory Rlp
  imports Encoding
begin

text \<open>
  The package \<^verbatim>\<open>src/rlp\<close>: the Recursive Length Prefix codec that reads
  \<^verbatim>\<open>eth_sendRawTransaction\<close> bodies, and the second, encode-only copy of it in
  \<^verbatim>\<open>src/state/rlp.go\<close> that derives contract addresses.  Decoding returns the source's error
  values.  Shown: decoding inverts encoding, every accepted input is the canonical encoding
  of what it decodes to, and the two encoders agree.
\<close>

datatype rlp_error =
    ErrShortInput | ErrLeadingZero | ErrTrailing | ErrNested | ErrExpectList | ErrCanon

section \<open>Encoding\<close>

definition bigEndian :: "nat \<Rightarrow> bytes" where
  "bigEndian x = be_fixed 8 x"

fun trimLeadingZeros :: "bytes \<Rightarrow> bytes" where
  "trimLeadingZeros [] = []"
| "trimLeadingZeros (b # bs) = (if b = 0 then trimLeadingZeros bs else b # bs)"

definition lengthPrefix :: "nat \<Rightarrow> byte \<Rightarrow> bytes" where
  "lengthPrefix n offset =
     (if n < 56 then [offset + word_of_nat n]
      else (let lb = trimLeadingZeros (bigEndian n)
            in (offset + 55 + word_of_nat (length lb)) # lb))"

definition rlp_Bytes :: "bytes \<Rightarrow> bytes" where
  "rlp_Bytes b =
     (if length b = 1 \<and> hd b < 0x80 then [hd b]
      else lengthPrefix (length b) 0x80 @ b)"

definition rlp_Uint :: "nat \<Rightarrow> bytes" where
  "rlp_Uint x = rlp_Bytes (trimLeadingZeros (bigEndian x))"

definition rlp_Big :: "int option \<Rightarrow> bytes" where
  "rlp_Big x =
     (case x of None \<Rightarrow> rlp_Bytes []
      | Some v \<Rightarrow> if v = 0 then rlp_Bytes [] else rlp_Bytes (big_bytes v))"

definition rlp_List :: "bytes list \<Rightarrow> bytes" where
  "rlp_List items = (let payload = concat items in lengthPrefix (length payload) 0xc0 @ payload)"

section \<open>Decoding\<close>

text \<open>
  \<^verbatim>\<open>readLen\<close> accumulates the length as a \<^verbatim>\<open>uint64\<close>: at most eight bytes, so the
  accumulated value is the big-endian value without wrapping.
\<close>

definition readLen :: "bytes \<Rightarrow> nat \<Rightarrow> rlp_error + nat" where
  "readLen data nLen =
     (if length data < 1 + nLen then Inl ErrShortInput
      else let lb = take nLen (drop 1 data) in
        if hd lb = 0 then Inl ErrLeadingZero
        else let n = foldl (\<lambda>n c. (n * 256 + unat c) mod 2 ^ 64) 0 lb in
          if n < 56 then Inl ErrCanon
          else if n > length data - (1 + nLen) then Inl ErrShortInput
          else Inr n)"

definition readItem :: "bytes \<Rightarrow> rlp_error + (bytes \<times> bool \<times> bytes)" where
  "readItem data =
     (case data of [] \<Rightarrow> Inl ErrShortInput
      | b # _ \<Rightarrow>
        if b < 0x80 then Inr (take 1 data, False, drop 1 data)
        else if b < 0xb8 then
          (let n = unat (b - 0x80) in
           if length data < 1 + n then Inl ErrShortInput
           else let s = take n (drop 1 data) in
             if n = 1 \<and> hd s < 0x80 then Inl ErrCanon
             else Inr (s, False, drop (1 + n) data))
        else if b < 0xc0 then
          (let nLen = unat (b - 0xb7) in
           case readLen data nLen of Inl e \<Rightarrow> Inl e
           | Inr n \<Rightarrow>
             (let start = 1 + nLen in
              if length data < start + n then Inl ErrShortInput
              else Inr (take n (drop start data), False, drop (start + n) data)))
        else if b < 0xf8 then
          (let n = unat (b - 0xc0) in
           if length data < 1 + n then Inl ErrShortInput
           else Inr (take n (drop 1 data), True, drop (1 + n) data))
        else
          (let nLen = unat (b - 0xf7) in
           case readLen data nLen of Inl e \<Rightarrow> Inl e
           | Inr n \<Rightarrow>
             (let start = 1 + nLen in
              if length data < start + n then Inl ErrShortInput
              else Inr (take n (drop start data), True, drop (start + n) data))))"

text \<open>Every item consumes at least its first byte, so the element loop ends.\<close>

lemma readItem_rest_shorter:
  "readItem data = Inr (c, l, rest) \<Longrightarrow> length rest < length data"
  by (cases data) (auto simp: readItem_def Let_def split: if_splits sum.splits)

function decode_items :: "bytes \<Rightarrow> bytes list \<Rightarrow> rlp_error + bytes list" where
  "decode_items payload out =
     (if payload = [] then Inr out
      else case readItem payload of Inl e \<Rightarrow> Inl e
      | Inr (content, elemIsList, r) \<Rightarrow>
        if elemIsList then Inl ErrNested else decode_items r (out @ [content]))"
  by pat_completeness auto
termination
  by (relation "measure (\<lambda>(payload, out). length payload)")
    (auto simp: readItem_rest_shorter)

declare decode_items.simps [simp del]

definition DecodeList :: "bytes \<Rightarrow> rlp_error + bytes list" where
  "DecodeList data =
     (case readItem data of Inl e \<Rightarrow> Inl e
      | Inr (payload, isList, rest) \<Rightarrow>
        if \<not> isList then Inl ErrExpectList
        else if rest \<noteq> [] then Inl ErrTrailing
        else decode_items payload [])"

section \<open>The copy in the state package\<close>

definition st_rlpLength :: "nat \<Rightarrow> byte \<Rightarrow> bytes" where
  "st_rlpLength n offset =
     (if n < 56 then [offset + word_of_nat n]
      else (let lenBytes = dropWhile (\<lambda>b. b = 0) (be_fixed 8 n)
            in (offset + 55 + word_of_nat (length lenBytes)) # lenBytes))"

definition st_rlpBytes :: "bytes \<Rightarrow> bytes" where
  "st_rlpBytes b =
     (if length b = 1 \<and> hd b < 0x80 then [hd b]
      else st_rlpLength (length b) 0x80 @ b)"

definition st_rlpUint :: "nat \<Rightarrow> bytes" where
  "st_rlpUint x =
     (if x = 0 then st_rlpBytes [] else st_rlpBytes (dropWhile (\<lambda>b. b = 0) (be_fixed 8 x)))"

definition st_rlpList :: "bytes list \<Rightarrow> bytes" where
  "st_rlpList items = (let payload = concat items in st_rlpLength (length payload) 0xc0 @ payload)"

section \<open>Length prefixes\<close>

lemma trimLeadingZeros_dropWhile: "trimLeadingZeros bs = dropWhile (\<lambda>b. b = 0) bs"
  by (induction bs) simp_all

lemma be_nat_trim [simp]: "be_nat (trimLeadingZeros bs) = be_nat bs"
  by (induction bs) (simp_all add: byte_simps)

lemma trim_no_leading_zero: "trimLeadingZeros bs = [] \<or> hd (trimLeadingZeros bs) \<noteq> 0"
  by (induction bs) simp_all

lemma trim_bigEndian: "x < 2 ^ 64 \<Longrightarrow> trimLeadingZeros (bigEndian x) = be_min x"
proof -
  assume "x < 2 ^ 64"
  then have "be_nat (trimLeadingZeros (bigEndian x)) = x"
    by (simp add: bigEndian_def byte_simps)
  then show ?thesis
    using be_min_be_nat [OF trim_no_leading_zero, of "bigEndian x"] by simp
qed

lemma foldl_mod_be_nat:
  "length bs \<le> 8 \<Longrightarrow> foldl (\<lambda>n c. (n * 256 + unat (c :: byte)) mod 2 ^ 64) 0 bs = be_nat bs"
proof (induction bs rule: rev_induct)
  case Nil
  then show ?case by simp
next
  case (snoc c bs)
  have "be_nat (bs @ [c]) < 256 ^ length (bs @ [c])" by (rule be_nat_less)
  also have "\<dots> \<le> 256 ^ 8" using snoc.prems by (intro power_increasing) simp_all
  finally have "be_nat bs * 256 + unat c < 2 ^ 64" by simp
  with snoc show ?case by simp
qed

lemma length_be_min_range:
  assumes "56 \<le> n" "n < 2 ^ 64"
  shows "1 \<le> length (be_min n)" "length (be_min n) \<le> 8"
proof -
  have "be_min n \<noteq> []" using assms by simp
  then show "1 \<le> length (be_min n)" by (cases "be_min n") simp_all
  show "length (be_min n) \<le> 8" using assms by (intro length_be_min_le) simp
qed

text \<open>Reading a long length back: the case \<^verbatim>\<open>n >= 56\<close> of \<^verbatim>\<open>lengthPrefix\<close>.\<close>

lemma readLen_be_min:
  assumes "56 \<le> n" "n < 2 ^ 64" "n \<le> length r"
  shows "readLen (b # be_min n @ r) (length (be_min n)) = Inr n"
proof -
  have ne: "be_min n \<noteq> []" using assms by simp
  then have "hd (be_min n @ r) \<noteq> 0" using hd_be_min [of n] assms by simp
  moreover have "foldl (\<lambda>n c. (n * 256 + unat c) mod 2 ^ 64) 0 (be_min n) = n"
    using foldl_mod_be_nat [OF length_be_min_range(2) [OF assms(1,2)]] by simp
  ultimately show ?thesis
    using assms ne by (simp add: readLen_def Let_def hd_be_min)
qed

text \<open>Conversely an accepted long length is minimal.\<close>

lemma readLen_Inr:
  assumes "readLen data nLen = Inr n" "nLen \<le> 8" "0 < nLen"
  shows "take nLen (drop 1 data) = be_min n" "56 \<le> n" "1 + nLen + n \<le> length data"
    "n < 2 ^ 64"
proof -
  let ?lb = "take nLen (drop 1 data)"
  have len: "1 + nLen \<le> length data" and hd: "hd ?lb \<noteq> 0"
    and n: "n = foldl (\<lambda>n c. (n * 256 + unat c) mod 2 ^ 64) 0 ?lb"
    and b: "56 \<le> n" "n \<le> length data - (1 + nLen)"
    using assms(1) by (auto simp: readLen_def Let_def not_less split: if_splits)
  have "length ?lb \<le> 8" using assms(2) by simp
  then have nb: "n = be_nat ?lb" using n foldl_mod_be_nat by simp
  then show "?lb = be_min n" using be_min_be_nat [of ?lb] hd by simp
  show "56 \<le> n" by (rule b(1))
  show "1 + nLen + n \<le> length data" using len b(2) by simp
  have "be_nat ?lb < 256 ^ length ?lb" by (rule be_nat_less)
  also have "\<dots> \<le> 256 ^ 8" using assms(2) by (intro power_increasing) simp_all
  finally show "n < 2 ^ 64" using nb by simp
qed

section \<open>Decoding inverts encoding\<close>

lemma unat_byte_of: "n < 256 \<Longrightarrow> unat (word_of_nat n :: byte) = n"
  by (simp add: unat_of_nat)

lemma byte_tag:
  fixes offset :: byte
  assumes "unat offset + n < 256"
  shows "unat (offset + word_of_nat n) = unat offset + n"
    and "unat (offset + word_of_nat n - offset) = n"
proof -
  have "offset + word_of_nat n = word_of_nat (unat offset + n)" by simp
  then show "unat (offset + word_of_nat n) = unat offset + n"
    using assms unat_byte_of by metis
  show "unat (offset + word_of_nat n - offset) = n" using assms by (simp add: unat_byte_of)
qed

lemmas tag_less = word_less_nat_alt

lemma readItem_short_string:
  assumes "length b < 56" "\<not> (length b = 1 \<and> hd b < 0x80)"
  shows "readItem ((0x80 + word_of_nat (length b)) # b @ r) = Inr (b, False, r)"
proof -
  note t = byte_tag [of "0x80" "length b"]
  have "hd (b @ r) = hd b" if "length b = 1" using that by (cases b) simp_all
  then show ?thesis
    using assms t by (auto simp: readItem_def Let_def tag_less)
qed

lemma readItem_long_string:
  assumes "56 \<le> length b" "length b < 2 ^ 64"
  shows "readItem ((0x80 + 55 + word_of_nat (length (be_min (length b)))) # be_min (length b) @ b @ r) =
    Inr (b, False, r)"
proof -
  let ?L = "length (be_min (length b))"
  have L: "1 \<le> ?L" "?L \<le> 8" using length_be_min_range [OF assms] by simp_all
  have u: "unat (0xb7 + word_of_nat ?L :: byte) = 183 + ?L"
    "unat (0xb7 + word_of_nat ?L - 0xb7 :: byte) = ?L"
    using byte_tag [of "0xb7" ?L] L by simp_all
  have "readLen ((0xb7 + word_of_nat ?L) # be_min (length b) @ b @ r) ?L = Inr (length b)"
    using assms by (intro readLen_be_min) simp_all
  moreover have "b \<noteq> []" using assms(1) by auto
  ultimately show ?thesis
    using u L by (simp add: readItem_def Let_def tag_less)
qed

lemma readItem_Bytes:
  assumes "length b < 2 ^ 64"
  shows "readItem (rlp_Bytes b @ r) = Inr (b, False, r)"
proof (cases "length b = 1 \<and> hd b < 0x80")
  case True
  then obtain c where "b = [c]" by (cases b) simp_all
  with True show ?thesis by (simp add: rlp_Bytes_def readItem_def)
next
  case False
  then show ?thesis
    using assms readItem_short_string [of b r] readItem_long_string [of b r]
    by (auto simp: rlp_Bytes_def lengthPrefix_def Let_def trim_bigEndian not_less)
qed

lemma readItem_list_header:
  assumes "length p < 2 ^ 64"
  shows "readItem (lengthPrefix (length p) 0xc0 @ p @ r) = Inr (p, True, r)"
proof (cases "length p < 56")
  case True
  then show ?thesis using byte_tag [of "0xc0" "length p"]
    by (simp add: lengthPrefix_def readItem_def Let_def tag_less)
next
  case False
  let ?L = "length (be_min (length p))"
  have ne: "p \<noteq> []" using False by auto
  have L: "1 \<le> ?L" "?L \<le> 8" using length_be_min_range [of "length p"] assms False by simp_all
  have u: "unat (0xf7 + word_of_nat ?L :: byte) = 247 + ?L"
    "unat (0xf7 + word_of_nat ?L - 0xf7 :: byte) = ?L"
    using byte_tag [of "0xf7" ?L] L by simp_all
  have "readLen ((0xf7 + word_of_nat ?L) # be_min (length p) @ p @ r) ?L = Inr (length p)"
    using assms False by (intro readLen_be_min) simp_all
  then show ?thesis
    using u L False assms ne
    by (simp add: lengthPrefix_def readItem_def Let_def tag_less trim_bigEndian)
qed

lemma readItem_List:
  "length (concat items) < 2 ^ 64 \<Longrightarrow> readItem (rlp_List items @ r) = Inr (concat items, True, r)"
  using readItem_list_header [of "concat items" r] by (simp add: rlp_List_def Let_def)

lemma rlp_Bytes_nonempty [simp]: "rlp_Bytes b \<noteq> []"
  by (simp add: rlp_Bytes_def lengthPrefix_def Let_def)

lemma decode_items_encode:
  assumes "list_all (\<lambda>b. length b < 2 ^ 64) items"
  shows "decode_items (concat (map rlp_Bytes items)) out = Inr (out @ items)"
  using assms
proof (induction items arbitrary: out)
  case Nil
  then show ?case by (simp add: decode_items.simps)
next
  case (Cons b items)
  then show ?case
    by (subst decode_items.simps) (simp add: readItem_Bytes)
qed

lemma DecodeList_List:
  assumes "list_all (\<lambda>b. length b < 2 ^ 64) items"
    and "length (concat (map rlp_Bytes items)) < 2 ^ 64"
  shows "DecodeList (rlp_List (map rlp_Bytes items)) = Inr items"
  using readItem_List [OF assms(2), of "[]"] decode_items_encode [OF assms(1), of "[]"]
  by (simp add: DecodeList_def)

section \<open>Accepted input is canonical\<close>

text \<open>
  Whatever \<open>readItem\<close> accepts as a byte string is exactly what \<open>rlp_Bytes\<close> would have
  written, and whatever it accepts as a list has exactly the header \<open>rlp_List\<close> writes.
\<close>

lemma byte_sub_add: "(b :: byte) = t + word_of_nat (unat (b - t))"
  by simp

lemma unat_byte_sub: "t \<le> (b :: byte) \<Longrightarrow> unat (b - t) = unat b - unat t"
  by (simp add: unat_sub)

lemma take_drop_Cons: "n \<le> length xs \<Longrightarrow> take n xs @ drop n xs = xs"
  by simp

lemma long_form_split:
  assumes "readLen (b # ds) k = Inr n" "0 < k" "k \<le> 8"
  shows "b # ds = b # be_min n @ take n (drop k ds) @ drop (k + n) ds"
    and "k = length (be_min n)" and "56 \<le> n" and "length (take n (drop k ds)) = n" and "n < 2 ^ 64"
proof -
  note r = readLen_Inr [OF assms(1) assms(3) assms(2)]
  have k: "k \<le> length ds" using r(3) by simp
  have lb: "take k ds = be_min n" using r(1) by simp
  then show "k = length (be_min n)" using k by (metis length_take min.absorb2)
  show "56 \<le> n" by (rule r(2))
  show "length (take n (drop k ds)) = n" using r(3) by simp
  show "n < 2 ^ 64" by (rule r(4))
  have "ds = take k ds @ take n (drop k ds) @ drop n (drop k ds)" by (metis append_take_drop_id)
  then show "b # ds = b # be_min n @ take n (drop k ds) @ drop (k + n) ds"
    using lb by (simp add: add.commute)
qed

lemma readItem_string_canonical:
  assumes "readItem data = Inr (c, False, rest)"
  shows "data = rlp_Bytes c @ rest"
proof -
  obtain b ds where data: "data = b # ds"
    using assms by (cases data) (simp_all add: readItem_def)
  consider (single) "b < 0x80" | (short) "0x80 \<le> b" "b < 0xb8" | (long) "0xb8 \<le> b" "b < 0xc0"
    | (list) "0xc0 \<le> b"
    by (meson not_le)
  then show ?thesis
  proof cases
    case single
    then show ?thesis using assms data by (auto simp: readItem_def rlp_Bytes_def)
  next
    case short
    define n where "n = unat (b - 0x80)"
    have n: "n < 56" using short unat_byte_sub [of "0x80" b]
      by (simp add: n_def word_less_nat_alt word_le_nat_alt)
    have c: "c = take n ds" "rest = drop n ds" "n \<le> length ds" "\<not> (n = 1 \<and> hd c < 0x80)"
      using assms data short by (auto simp: readItem_def Let_def n_def not_less split: if_splits)
    have "b = 0x80 + word_of_nat n" unfolding n_def by (rule byte_sub_add)
    then show ?thesis using c n data
      by (auto simp: rlp_Bytes_def lengthPrefix_def)
  next
    case long
    define k where "k = unat (b - 0xb7)"
    have le: "0xb7 \<le> b" using long by (simp add: word_le_nat_alt)
    have k: "0 < k" "k \<le> 8" using long unat_byte_sub [OF le]
      by (simp_all add: k_def word_less_nat_alt word_le_nat_alt)
    have "\<not> b < 0x80" "\<not> b < 0xb8" using long by (simp_all add: word_less_nat_alt word_le_nat_alt)
    then obtain n where n: "readLen (b # ds) k = Inr n" "c = take n (drop k ds)" "rest = drop (k + n) ds"
      using assms data long by (auto simp: readItem_def Let_def k_def split: if_splits sum.splits)
    note f = long_form_split [OF n(1) k]
    have "b = 0xb7 + word_of_nat k" unfolding k_def by (rule byte_sub_add)
    then show ?thesis using f n data
      by (simp add: rlp_Bytes_def lengthPrefix_def Let_def trim_bigEndian)
  next
    case list
    then have "\<not> b < 0x80" "\<not> b < 0xb8" "\<not> b < 0xc0"
      by (simp_all add: word_less_nat_alt word_le_nat_alt)
    then show ?thesis using assms data
      by (auto simp: readItem_def Let_def split: if_splits sum.splits)
  qed
qed

lemma readItem_list_canonical:
  assumes "readItem data = Inr (p, True, rest)"
  shows "data = lengthPrefix (length p) 0xc0 @ p @ rest"
proof -
  obtain b ds where data: "data = b # ds"
    using assms by (cases data) (simp_all add: readItem_def)
  have nb: "0xc0 \<le> b"
    using assms data
    by (auto simp: readItem_def Let_def not_less split: if_splits sum.splits)
  then have ge: "\<not> b < 0x80" "\<not> b < 0xb8" "\<not> b < 0xc0"
    by (simp_all add: word_less_nat_alt word_le_nat_alt)
  show ?thesis
  proof (cases "b < 0xf8")
    case True
    define n where "n = unat (b - 0xc0)"
    have n: "n < 56" using True nb unat_byte_sub [of "0xc0" b]
      by (simp add: n_def word_less_nat_alt word_le_nat_alt)
    have c: "p = take n ds" "rest = drop n ds" "n \<le> length ds"
      using assms data ge True by (auto simp: readItem_def Let_def n_def not_less split: if_splits)
    have "b = 0xc0 + word_of_nat n" unfolding n_def by (rule byte_sub_add)
    then show ?thesis using c n data by (simp add: lengthPrefix_def)
  next
    case False
    define k where "k = unat (b - 0xf7)"
    have le: "0xf7 \<le> b" using False by (simp add: word_less_nat_alt word_le_nat_alt)
    have "248 \<le> unat b" using False by (simp add: word_less_nat_alt)
    moreover have "unat b < 256" by (rule unat_byte_less)
    moreover have "unat (b - 0xf7) = unat b - 247" using unat_byte_sub [OF le] by simp
    ultimately have k: "0 < k" "k \<le> 8" unfolding k_def by linarith+
    obtain n where n: "readLen (b # ds) k = Inr n" "p = take n (drop k ds)" "rest = drop (k + n) ds"
      using assms data ge False by (auto simp: readItem_def Let_def k_def split: if_splits sum.splits)
    note f = long_form_split [OF n(1) k]
    have "b = 0xf7 + word_of_nat k" unfolding k_def by (rule byte_sub_add)
    then show ?thesis using f n data
      by (simp add: lengthPrefix_def Let_def trim_bigEndian)
  qed
qed

lemma decode_items_canonical:
  "decode_items payload out = Inr items \<Longrightarrow>
   \<exists>more. items = out @ more \<and> payload = concat (map rlp_Bytes more)"
proof (induction payload out rule: decode_items.induct)
  case (1 payload out)
  show ?case
  proof (cases "payload = []")
    case True
    with "1.prems" show ?thesis by (simp add: decode_items.simps)
  next
    case False
    with "1.prems" obtain c r where item: "readItem payload = Inr (c, False, r)"
      and rec: "decode_items r (out @ [c]) = Inr items"
      by (subst (asm) decode_items.simps) (auto split: sum.splits if_splits)
    obtain more where "items = (out @ [c]) @ more" "r = concat (map rlp_Bytes more)"
      using "1.IH" [OF False item refl refl] rec by auto
    then show ?thesis using readItem_string_canonical [OF item]
      by (intro exI [of _ "c # more"]) simp
  qed
qed

lemma DecodeList_canonical:
  assumes "DecodeList data = Inr items"
  shows "data = rlp_List (map rlp_Bytes items)"
proof -
  obtain p where p: "readItem data = Inr (p, True, [])" and d: "decode_items p [] = Inr items"
    using assms by (auto simp: DecodeList_def split: sum.splits if_splits)
  have "p = concat (map rlp_Bytes items)" using decode_items_canonical [OF d] by simp
  with readItem_list_canonical [OF p] show ?thesis by (simp add: rlp_List_def Let_def)
qed

section \<open>The two encoders agree\<close>

lemma st_rlpBytes_eq: "st_rlpBytes b = rlp_Bytes b"
  by (simp add: st_rlpBytes_def rlp_Bytes_def st_rlpLength_def lengthPrefix_def
      trimLeadingZeros_dropWhile bigEndian_def Let_def)

lemma st_rlpUint_eq: "x < 2 ^ 64 \<Longrightarrow> st_rlpUint x = rlp_Uint x"
  by (auto simp: st_rlpUint_def rlp_Uint_def st_rlpBytes_eq trim_bigEndian
      simp flip: trimLeadingZeros_dropWhile bigEndian_def)

lemma st_rlpList_eq: "st_rlpList items = rlp_List items"
  by (simp add: st_rlpList_def rlp_List_def st_rlpLength_def lengthPrefix_def
      trimLeadingZeros_dropWhile bigEndian_def Let_def)

end
