(* ===== verification/Types.thy ===== *)
theory Types
  imports Rlp
begin

text \<open>
  The packages \<^verbatim>\<open>src/types\<close> and \<^verbatim>\<open>src/crypto\<close>: transactions and their two signing rules,
  sender recovery, stateless validation, headers, receipts and the Merkle commitment.

  Third-party code is the record \<open>crypto\<close>, an argument of every definition that uses it:
  Keccak-256 (\<^verbatim>\<open>golang.org/x/crypto/sha3\<close>), compact public-key recovery and the curve order
  (\<^verbatim>\<open>dcrec/secp256k1\<close>), and the group operations of \<^verbatim>\<open>clearmatics/bn256\<close>.  The atomic
  hash and sender caches of \<^verbatim>\<open>Transaction\<close> and \<^verbatim>\<open>Header\<close> hold the value of a pure function
  of the other fields and are not represented.
\<close>

record crypto =
  keccak256 :: "bytes \<Rightarrow> hash"
  recover_compact :: "bytes \<Rightarrow> hash \<Rightarrow> bytes option"
  curve_order :: nat
  g1_unmarshal_ok :: "bytes \<Rightarrow> bool"
  g2_unmarshal_ok :: "bytes \<Rightarrow> bool"
  g1_add :: "bytes \<Rightarrow> bytes \<Rightarrow> bytes"
  g1_scalar_mult :: "bytes \<Rightarrow> nat \<Rightarrow> bytes"
  pairing_check :: "(bytes \<times> bytes) list \<Rightarrow> bool"

text \<open>\<^verbatim>\<open>copy(a[:], h[12:])\<close>: the last 20 bytes of a 32-byte hash.\<close>

definition addr_of_hash :: "hash \<Rightarrow> address" where
  "addr_of_hash h = ucast h"

section \<open>Signature recovery (crypto/keys.go)\<close>

definition SignatureLength :: nat where
  "SignatureLength = 65"

definition checkLowS :: "crypto \<Rightarrow> bytes \<Rightarrow> bool" where
  "checkLowS E sig \<longleftrightarrow>
     length sig = SignatureLength \<and> be_nat (drop 33 sig) \<le> curve_order E div 2"

text \<open>
  \<^verbatim>\<open>RecoverCompact\<close> yields the uncompressed public key; the parameter returns its 64 bytes
  after the \<^verbatim>\<open>0x04\<close> tag, which is what \<^verbatim>\<open>PublicKey.Address\<close> hashes.
\<close>

definition RecoverAddress :: "crypto \<Rightarrow> hash \<Rightarrow> bytes \<Rightarrow> address option" where
  "RecoverAddress E digest sig =
     (if \<not> checkLowS E sig then None
      else case recover_compact E sig digest of None \<Rightarrow> None
      | Some pub \<Rightarrow> Some (addr_of_hash (keccak256 E pub)))"

section \<open>Transactions (types/tx.go)\<close>

record tx =
  tx_type :: nat
  tx_chainid :: nat
  tx_nonce :: nat
  tx_to :: "address option"
  tx_value :: "int option"
  tx_gaslimit :: nat
  tx_gasprice :: "int option"
  tx_data :: bytes
  tx_sig :: bytes

datatype tx_error =
    ErrTxType | ErrTxUnsigned | ErrBadSignature | ErrNegativeValue | ErrChainID
  | ErrNegativeGasPrice | ErrGasBelowIntrinsic
  | ErrEthFieldCount | ErrEthV | ErrEthField | ErrRlp rlp_error

definition TxTypeTransfer :: nat where "TxTypeTransfer = 0x00"
definition TxTypeEthLegacy :: nat where "TxTypeEthLegacy = 0x64"

definition isKnownTxType :: "nat \<Rightarrow> bool" where
  "isKnownTxType t \<longleftrightarrow> t = TxTypeTransfer \<or> t = TxTypeEthLegacy"

definition NewTransaction ::
  "nat \<Rightarrow> nat \<Rightarrow> address \<Rightarrow> int \<Rightarrow> nat \<Rightarrow> int \<Rightarrow> bytes \<Rightarrow> tx" where
  "NewTransaction chainID nonce to value gasLimit gasPrice data =
     \<lparr>tx_type = TxTypeTransfer, tx_chainid = chainID, tx_nonce = nonce, tx_to = Some to,
      tx_value = Some value, tx_gaslimit = gasLimit, tx_gasprice = Some gasPrice,
      tx_data = data, tx_sig = []\<rparr>"

definition addrBytes :: "address option \<Rightarrow> bytes" where
  "addrBytes to = (case to of None \<Rightarrow> [] | Some a \<Rightarrow> addr_bytes a)"

definition eth_signing_preimage :: "tx \<Rightarrow> bytes" where
  "eth_signing_preimage tx = rlp_List
     [rlp_Uint (tx_nonce tx), rlp_Big (tx_gasprice tx), rlp_Uint (tx_gaslimit tx),
      rlp_Bytes (addrBytes (tx_to tx)), rlp_Big (tx_value tx), rlp_Bytes (tx_data tx),
      rlp_Uint (tx_chainid tx), rlp_Bytes [], rlp_Bytes []]"

definition ethSigningHash :: "crypto \<Rightarrow> tx \<Rightarrow> hash" where
  "ethSigningHash E tx = keccak256 E (eth_signing_preimage tx)"

definition native_signing_preimage :: "tx \<Rightarrow> bytes" where
  "native_signing_preimage tx =
     enc_Uint64 (tx_type tx) @ enc_Uint64 (tx_chainid tx) @ enc_Uint64 (tx_nonce tx) @
     enc_OptionalAddress (tx_to tx) @ enc_BigInt (tx_value tx) @ enc_Uint64 (tx_gaslimit tx) @
     enc_BigInt (tx_gasprice tx) @ enc_Bytes (tx_data tx)"

definition SigningHash :: "crypto \<Rightarrow> tx \<Rightarrow> hash" where
  "SigningHash E tx =
     (if tx_type tx = TxTypeEthLegacy then ethSigningHash E tx
      else keccak256 E (native_signing_preimage tx))"

text \<open>\<^verbatim>\<open>EncodeEthRaw\<close> (types/eth.go); nil for a signature that is not 65 bytes.\<close>

definition EncodeEthRaw :: "tx \<Rightarrow> bytes" where
  "EncodeEthRaw tx =
     (if length (tx_sig tx) \<noteq> 65 then []
      else let recid = unat (hd (tx_sig tx) - 27);
               v = add64 (add64 (mul64 (tx_chainid tx) 2) 35) recid;
               r = int (be_nat (take 32 (drop 1 (tx_sig tx))));
               s = int (be_nat (drop 33 (tx_sig tx)))
           in rlp_List
             [rlp_Uint (tx_nonce tx), rlp_Big (tx_gasprice tx), rlp_Uint (tx_gaslimit tx),
              rlp_Bytes (addrBytes (tx_to tx)), rlp_Big (tx_value tx), rlp_Bytes (tx_data tx),
              rlp_Uint v, rlp_Big (Some r), rlp_Big (Some s)])"

definition ethRawHash :: "crypto \<Rightarrow> tx \<Rightarrow> hash" where
  "ethRawHash E tx = keccak256 E (EncodeEthRaw tx)"

definition tx_Hash :: "crypto \<Rightarrow> tx \<Rightarrow> hash" where
  "tx_Hash E tx =
     (if tx_type tx = TxTypeEthLegacy \<and> length (tx_sig tx) = 65 then ethRawHash E tx
      else keccak256 E (hash_bytes (SigningHash E tx) @ enc_Bytes (tx_sig tx)))"

definition tx_Sender :: "crypto \<Rightarrow> tx \<Rightarrow> tx_error + address" where
  "tx_Sender E tx =
     (if length (tx_sig tx) \<noteq> SignatureLength then Inl ErrTxUnsigned
      else case RecoverAddress E (SigningHash E tx) (tx_sig tx) of
        None \<Rightarrow> Inl ErrBadSignature
      | Some a \<Rightarrow> Inr a)"

section \<open>Intrinsic gas (types/block.go)\<close>

definition IntrinsicGas :: nat where "IntrinsicGas = 21000"
definition TxGasContractCreation :: nat where "TxGasContractCreation = 53000"
definition TxDataNonZeroGas :: nat where "TxDataNonZeroGas = 16"
definition TxDataZeroGas :: nat where "TxDataZeroGas = 4"

definition IntrinsicGasFor :: "bytes \<Rightarrow> bool \<Rightarrow> nat" where
  "IntrinsicGasFor data isCreate =
     foldl (\<lambda>gas b. add64 gas (if b = 0 then TxDataZeroGas else TxDataNonZeroGas))
       (if isCreate then TxGasContractCreation else IntrinsicGas) data"

definition tx_SanityCheck :: "crypto \<Rightarrow> tx \<Rightarrow> nat \<Rightarrow> tx_error + unit" where
  "tx_SanityCheck E tx chainID =
     (if \<not> isKnownTxType (tx_type tx) then Inl ErrTxType
      else if tx_chainid tx \<noteq> chainID then Inl ErrChainID
      else if (case tx_value tx of None \<Rightarrow> True | Some v \<Rightarrow> v < 0) then Inl ErrNegativeValue
      else if (case tx_gasprice tx of None \<Rightarrow> True | Some p \<Rightarrow> p < 0) then Inl ErrNegativeGasPrice
      else if tx_gaslimit tx < IntrinsicGasFor (tx_data tx) (tx_to tx = None)
        then Inl ErrGasBelowIntrinsic
      else if length (tx_sig tx) \<noteq> SignatureLength then Inl ErrTxUnsigned
      else case tx_Sender E tx of Inl e \<Rightarrow> Inl e | Inr _ \<Rightarrow> Inr ())"

text \<open>\<^verbatim>\<open>Cost\<close> dereferences the price and the value; on a nil field it panics, here \<^const>\<open>None\<close>.\<close>

definition tx_Cost :: "tx \<Rightarrow> int option" where
  "tx_Cost tx =
     (case (tx_gasprice tx, tx_value tx) of
        (Some p, Some v) \<Rightarrow> Some (int (tx_gaslimit tx) * p + v)
      | _ \<Rightarrow> None)"

section \<open>Legacy transactions from the wire (types/eth.go)\<close>

definition bytesToUint64 :: "bytes \<Rightarrow> tx_error + nat" where
  "bytesToUint64 b =
     (if length b > 8 then Inl ErrEthField
      else Inr (foldl (\<lambda>n c. (n * 256 + unat c) mod 2 ^ 64) 0 b))"

text \<open>EIP-155 \<^verbatim>\<open>v\<close>: the recovery id and the chain id, from its low 64 bits.\<close>

definition eth_v :: "nat \<Rightarrow> (nat \<times> nat) option" where
  "eth_v vv =
     (if vv = 27 \<or> vv = 28 then Some (vv - 27, 0)
      else if vv \<ge> 35 then (let x = vv - 35; recid = x mod 2 in Some (recid, (x - recid) div 2))
      else None)"

definition ParseEthLegacyTx :: "crypto \<Rightarrow> bytes \<Rightarrow> tx_error + tx" where
  "ParseEthLegacyTx E raw =
     (case DecodeList raw of Inl e \<Rightarrow> Inl (ErrRlp e)
      | Inr items \<Rightarrow>
        if length items \<noteq> 9 then Inl ErrEthFieldCount
        else case bytesToUint64 (items ! 0) of Inl e \<Rightarrow> Inl e
        | Inr nonce \<Rightarrow>
          case bytesToUint64 (items ! 2) of Inl e \<Rightarrow> Inl e
          | Inr gasLimit \<Rightarrow>
            case eth_v (be_nat (items ! 6) mod 2 ^ 64) of None \<Rightarrow> Inl ErrEthV
            | Some (recid, chainID) \<Rightarrow>
              if length (items ! 3) \<noteq> 0 \<and> length (items ! 3) \<noteq> 20 then Inl ErrEthField
              else let r = items ! 7; s = items ! 8 in
                if length r > 32 \<or> length s > 32 \<or> length r = 0 \<or> length s = 0
                then Inl ErrEthField
                else let tx = \<lparr>tx_type = TxTypeEthLegacy, tx_chainid = chainID, tx_nonce = nonce,
                     tx_to = (if items ! 3 = [] then None
                              else Some (word_of_nat (be_nat (items ! 3)))),
                     tx_value = Some (int (be_nat (items ! 4))), tx_gaslimit = gasLimit,
                     tx_gasprice = Some (int (be_nat (items ! 1))), tx_data = items ! 5,
                     tx_sig = word_of_nat (27 + recid) # replicate (32 - length r) 0 @ r @
                       replicate (32 - length s) 0 @ s\<rparr>
                  in case tx_Sender E tx of Inl e \<Rightarrow> Inl e | Inr _ \<Rightarrow> Inr tx)"

section \<open>Merkle commitment (types/merkle.go)\<close>

definition hashLeaf :: "crypto \<Rightarrow> bytes \<Rightarrow> hash" where
  "hashLeaf E data = keccak256 E (0x00 # data)"

definition hashNode :: "crypto \<Rightarrow> hash \<Rightarrow> hash \<Rightarrow> hash" where
  "hashNode E l r = keccak256 E (0x01 # hash_bytes l @ hash_bytes r)"

fun merkle_next :: "crypto \<Rightarrow> hash list \<Rightarrow> hash list" where
  "merkle_next E [] = []"
| "merkle_next E [h] = [h]"
| "merkle_next E (l # r # hs) = hashNode E l r # merkle_next E hs"

lemma length_merkle_next: "length (merkle_next E hs) = (length hs + 1) div 2"
  by (induction E hs rule: merkle_next.induct) simp_all

function merkle_layers :: "crypto \<Rightarrow> hash list \<Rightarrow> hash" where
  "merkle_layers E layer =
     (if length layer > 1 then merkle_layers E (merkle_next E layer) else hd layer)"
  by pat_completeness auto
termination
  by (relation "measure (\<lambda>(E, layer). length layer)") (auto simp: length_merkle_next)

declare merkle_layers.simps [simp del]

definition MerkleRoot :: "crypto \<Rightarrow> bytes list \<Rightarrow> hash" where
  "MerkleRoot E leaves = (if leaves = [] then 0 else merkle_layers E (map (hashLeaf E) leaves))"

definition TxRoot :: "crypto \<Rightarrow> tx list \<Rightarrow> hash" where
  "TxRoot E txs = MerkleRoot E (map (\<lambda>tx. hash_bytes (tx_Hash E tx)) txs)"

section \<open>Receipts (types/receipt.go)\<close>

definition ReceiptFailed :: nat where "ReceiptFailed = 0"
definition ReceiptSuccess :: nat where "ReceiptSuccess = 1"

record receipt =
  rc_status :: nat
  rc_cumulative :: nat
  rc_gasused :: nat
  rc_logs :: "evlog list"

definition receipt_encode :: "receipt \<Rightarrow> bytes" where
  "receipt_encode r =
     enc_Uint64 (rc_status r) @ enc_Uint64 (rc_cumulative r) @ enc_Uint64 (rc_gasused r) @
     enc_Uint64 (length (rc_logs r)) @ concat (map log_EncodeInto (rc_logs r))"

definition ReceiptRoot :: "crypto \<Rightarrow> receipt list \<Rightarrow> hash" where
  "ReceiptRoot E rs = MerkleRoot E (map receipt_encode rs)"

section \<open>Headers and blocks (types/block.go)\<close>

record header =
  hd_parent :: hash
  hd_height :: nat
  hd_timestamp :: int
  hd_txroot :: hash
  hd_receiptroot :: hash
  hd_stateroot :: hash
  hd_gasused :: nat
  hd_gaslimit :: nat
  hd_proposer :: address
  hd_difficulty :: nat
  hd_nonce :: nat

definition header_preimage :: "header \<Rightarrow> bytes" where
  "header_preimage h =
     hash_bytes (hd_parent h) @ enc_Uint64 (hd_height h) @ enc_Int64 (hd_timestamp h) @
     hash_bytes (hd_txroot h) @ hash_bytes (hd_receiptroot h) @ hash_bytes (hd_stateroot h) @
     enc_Uint64 (hd_gasused h) @ enc_Uint64 (hd_gaslimit h) @ addr_bytes (hd_proposer h) @
     enc_Uint64 (hd_difficulty h) @ enc_Uint64 (hd_nonce h)"

definition header_Hash :: "crypto \<Rightarrow> header \<Rightarrow> hash" where
  "header_Hash E h = keccak256 E (header_preimage h)"

record block =
  blk_header :: header
  blk_txs :: "tx list"

definition block_Hash :: "crypto \<Rightarrow> block \<Rightarrow> hash" where
  "block_Hash E b = header_Hash E (blk_header b)"

definition VerifyTxRoot :: "crypto \<Rightarrow> block \<Rightarrow> bool" where
  "VerifyTxRoot E b \<longleftrightarrow> TxRoot E (blk_txs b) = hd_txroot (blk_header b)"

end
