(* ===== verification/Types_Merkle.thy ===== *)
theory Types_Merkle
  imports Types
begin

text \<open>
  The Merkle commitment of \<^verbatim>\<open>src/types/merkle.go\<close> binds the ordered list of leaves: promotion
  of an odd node and the leaf and node tags leave no second list with the same root, unless
  Keccak collides on the strings hashed on the way (or hits the zero root of the empty list).
\<close>

section \<open>The Merkle root binds the list\<close>

text \<open>
  The byte strings \<open>MerkleRoot\<close> feeds to Keccak for a list of leaves.  Injectivity of the
  hash is asked only on these, never on all strings.
\<close>

fun merkle_node_inputs :: "hash list \<Rightarrow> bytes list" where
  "merkle_node_inputs [] = []"
| "merkle_node_inputs [h] = []"
| "merkle_node_inputs (l # r # hs) =
     (0x01 # hash_bytes l @ hash_bytes r) # merkle_node_inputs hs"

function merkle_layer_inputs :: "crypto \<Rightarrow> hash list \<Rightarrow> bytes list" where
  "merkle_layer_inputs E layer =
     (if length layer > 1
      then merkle_node_inputs layer @ merkle_layer_inputs E (merkle_next E layer) else [])"
  by pat_completeness auto
termination
  by (relation "measure (\<lambda>(E, layer). length layer)") (auto simp: length_merkle_next)

declare merkle_layer_inputs.simps [simp del]

definition merkle_inputs :: "crypto \<Rightarrow> bytes list \<Rightarrow> bytes list" where
  "merkle_inputs E leaves =
     map (\<lambda>l. 0x00 # l) leaves @ merkle_layer_inputs E (map (hashLeaf E) leaves)"

text \<open>Proof device: the tree whose root is being hashed.\<close>

datatype mtree = MLeaf bytes | MNode mtree mtree

fun mtree_hash :: "crypto \<Rightarrow> mtree \<Rightarrow> hash" where
  "mtree_hash E (MLeaf d) = hashLeaf E d"
| "mtree_hash E (MNode t u) = hashNode E (mtree_hash E t) (mtree_hash E u)"

fun fringe :: "mtree \<Rightarrow> bytes list" where
  "fringe (MLeaf d) = [d]"
| "fringe (MNode t u) = fringe t @ fringe u"

fun mtree_inputs :: "crypto \<Rightarrow> mtree \<Rightarrow> bytes set" where
  "mtree_inputs E (MLeaf d) = {0x00 # d}"
| "mtree_inputs E (MNode t u) =
     insert (0x01 # hash_bytes (mtree_hash E t) @ hash_bytes (mtree_hash E u))
       (mtree_inputs E t \<union> mtree_inputs E u)"

fun mtree_next :: "mtree list \<Rightarrow> mtree list" where
  "mtree_next [] = []"
| "mtree_next [t] = [t]"
| "mtree_next (t # u # ts) = MNode t u # mtree_next ts"

lemma mtree_next_hash: "map (mtree_hash E) (mtree_next ts) = merkle_next E (map (mtree_hash E) ts)"
  by (induction ts rule: mtree_next.induct) simp_all

lemma mtree_next_fringe: "concat (map fringe (mtree_next ts)) = concat (map fringe ts)"
  by (induction ts rule: mtree_next.induct) simp_all

lemma mtree_next_inputs:
  "\<Union> (mtree_inputs E ` set (mtree_next ts)) \<subseteq>
   set (merkle_node_inputs (map (mtree_hash E) ts)) \<union> \<Union> (mtree_inputs E ` set ts)"
  by (induction ts rule: mtree_next.induct) auto

lemma length_mtree_next: "length (mtree_next ts) = (length ts + 1) div 2"
  by (induction ts rule: mtree_next.induct) simp_all

lemma merkle_layers_tree:
  "ts \<noteq> [] \<Longrightarrow> \<exists>t. merkle_layers E (map (mtree_hash E) ts) = mtree_hash E t \<and>
     fringe t = concat (map fringe ts) \<and>
     mtree_inputs E t \<subseteq> set (merkle_layer_inputs E (map (mtree_hash E) ts)) \<union>
       \<Union> (mtree_inputs E ` set ts)"
proof (induction "length ts" arbitrary: ts rule: less_induct)
  case less
  show ?case
  proof (cases "length ts > 1")
    case True
    then have ne: "mtree_next ts \<noteq> []" using length_mtree_next [of ts] by (cases "mtree_next ts") auto
    have sh: "length (mtree_next ts) < length ts" using True by (simp add: length_mtree_next)
    obtain t where t: "merkle_layers E (map (mtree_hash E) (mtree_next ts)) = mtree_hash E t"
      "fringe t = concat (map fringe (mtree_next ts))"
      "mtree_inputs E t \<subseteq> set (merkle_layer_inputs E (map (mtree_hash E) (mtree_next ts))) \<union>
       \<Union> (mtree_inputs E ` set (mtree_next ts))"
      using less.hyps [OF sh ne] by blast
    have "merkle_layers E (map (mtree_hash E) ts) = mtree_hash E t"
      using t(1) True by (subst merkle_layers.simps) (simp add: mtree_next_hash)
    moreover have "mtree_inputs E t \<subseteq> set (merkle_layer_inputs E (map (mtree_hash E) ts)) \<union>
       \<Union> (mtree_inputs E ` set ts)"
      using t(3) True mtree_next_inputs [of E ts]
      by (subst merkle_layer_inputs.simps) (auto simp: mtree_next_hash)
    ultimately show ?thesis using t(2) by (auto simp: mtree_next_fringe)
  next
    case False
    with less.prems obtain t where "ts = [t]" by (cases ts) auto
    then show ?thesis by (intro exI [of _ t]) (simp add: merkle_layers.simps)
  qed
qed

lemma mtree_hash_inject:
  "inj_on (keccak256 E) (mtree_inputs E t \<union> mtree_inputs E u) \<Longrightarrow>
   mtree_hash E t = mtree_hash E u \<Longrightarrow> t = u"
proof (induction t arbitrary: u)
  case (MLeaf d)
  show ?case
  proof (cases u)
    case (MLeaf d')
    then have "keccak256 E (0x00 # d) = keccak256 E (0x00 # d')"
      using MLeaf.prems(2) by (simp add: hashLeaf_def)
    then have "(0x00 # d :: bytes) = 0x00 # d'" by (rule inj_onD [OF MLeaf.prems(1)]) (simp_all add: MLeaf)
    with MLeaf show ?thesis by simp
  next
    case (MNode u1 u2)
    let ?pu = "0x01 # hash_bytes (mtree_hash E u1) @ hash_bytes (mtree_hash E u2)"
    have "keccak256 E (0x00 # d) = keccak256 E ?pu"
      using MLeaf.prems(2) MNode by (simp add: hashLeaf_def hashNode_def)
    then have "(0x00 # d :: bytes) = ?pu" by (rule inj_onD [OF MLeaf.prems(1)]) (simp_all add: MNode)
    then show ?thesis by simp
  qed
next
  case (MNode t1 t2)
  let ?pt = "0x01 # hash_bytes (mtree_hash E t1) @ hash_bytes (mtree_hash E t2)"
  show ?case
  proof (cases u)
    case (MLeaf d)
    have "keccak256 E ?pt = keccak256 E (0x00 # d)"
      using MNode.prems(2) MLeaf by (simp add: hashLeaf_def hashNode_def)
    then have "?pt = 0x00 # d" by (rule inj_onD [OF MNode.prems(1)]) (simp_all add: MLeaf)
    then show ?thesis by simp
  next
    case (MNode u1 u2)
    let ?pu = "0x01 # hash_bytes (mtree_hash E u1) @ hash_bytes (mtree_hash E u2)"
    have "keccak256 E ?pt = keccak256 E ?pu"
      using MNode.prems(2) MNode by (simp add: hashNode_def)
    then have "?pt = ?pu" by (rule inj_onD [OF MNode.prems(1)]) (simp_all add: MNode)
    then have eq: "mtree_hash E t1 = mtree_hash E u1" "mtree_hash E t2 = mtree_hash E u2" by simp_all
    have "inj_on (keccak256 E) (mtree_inputs E t1 \<union> mtree_inputs E u1)"
      "inj_on (keccak256 E) (mtree_inputs E t2 \<union> mtree_inputs E u2)"
      using MNode.prems(1) MNode by (auto elim: inj_on_subset)
    with MNode.IH eq MNode show ?thesis by blast
  qed
qed

lemma MerkleRoot_tree:
  assumes "leaves \<noteq> []"
  obtains t where "MerkleRoot E leaves = mtree_hash E t" "fringe t = leaves"
    "mtree_inputs E t \<subseteq> set (merkle_inputs E leaves)"
proof -
  have m: "map (mtree_hash E) (map MLeaf leaves) = map (hashLeaf E) leaves" by simp
  have f: "concat (map fringe (map MLeaf leaves)) = leaves" by (induction leaves) simp_all
  have i: "\<Union> (mtree_inputs E ` set (map MLeaf leaves)) = set (map (\<lambda>l. 0x00 # l) leaves)" by auto
  obtain t where "merkle_layers E (map (hashLeaf E) leaves) = mtree_hash E t" "fringe t = leaves"
    "mtree_inputs E t \<subseteq> set (merkle_layer_inputs E (map (hashLeaf E) leaves)) \<union>
       set (map (\<lambda>l. 0x00 # l) leaves)"
    using merkle_layers_tree [of "map MLeaf leaves" E] assms unfolding m f i by auto
  then show ?thesis using assms that by (auto simp: MerkleRoot_def merkle_inputs_def)
qed

lemma mtree_hash_input: "\<exists>p \<in> mtree_inputs E t. mtree_hash E t = keccak256 E p"
  by (cases t) (auto simp: hashLeaf_def hashNode_def)

lemma MerkleRoot_binding_aux:
  assumes "inj_on (keccak256 E) (set (merkle_inputs E xs) \<union> set (merkle_inputs E ys))"
    and "0 \<notin> keccak256 E ` (set (merkle_inputs E xs) \<union> set (merkle_inputs E ys))"
    and "MerkleRoot E xs = MerkleRoot E ys"
  shows "xs = ys"
proof -
  have nz: "MerkleRoot E zs \<noteq> 0" if "zs \<noteq> []" "zs = xs \<or> zs = ys" for zs
  proof -
    obtain t where t: "MerkleRoot E zs = mtree_hash E t" "mtree_inputs E t \<subseteq> set (merkle_inputs E zs)"
      using MerkleRoot_tree [OF \<open>zs \<noteq> []\<close>] by metis
    obtain p where "p \<in> mtree_inputs E t" "mtree_hash E t = keccak256 E p"
      using mtree_hash_input by blast
    then show ?thesis using t that assms(2) by (metis Un_iff imageI subsetD)
  qed
  show ?thesis
  proof (cases "xs = [] \<or> ys = []")
    case True
    have "MerkleRoot E [] = 0" by (simp add: MerkleRoot_def)
    with True assms(3) nz show ?thesis by metis
  next
    case False
    then obtain t u where t: "MerkleRoot E xs = mtree_hash E t" "fringe t = xs"
        "mtree_inputs E t \<subseteq> set (merkle_inputs E xs)"
      and u: "MerkleRoot E ys = mtree_hash E u" "fringe u = ys"
        "mtree_inputs E u \<subseteq> set (merkle_inputs E ys)"
      using MerkleRoot_tree by metis
    have "inj_on (keccak256 E) (mtree_inputs E t \<union> mtree_inputs E u)"
      using assms(1) t(3) u(3) by (auto elim: inj_on_subset)
    then have "t = u" using mtree_hash_inject assms(3) t(1) u(1) by metis
    with t u show ?thesis by simp
  qed
qed

end
