(* ===== verification/Types_Codec.thy ===== *)
theory Types_Codec
  imports Types
begin

text \<open>
  What the encodings of \<^verbatim>\<open>src/types\<close> promise: the native signing preimage, the header
  preimage and the receipt encoding determine their fields; the native and the EIP-155 rule
  never hash the same string; a well-formed legacy transaction survives
  \<^verbatim>\<open>EncodeEthRaw\<close> followed by \<^verbatim>\<open>ParseEthLegacyTx\<close> unchanged.
\<close>

section \<open>Signing preimages, headers and receipts are encoded injectively\<close>

definition opt_bigint_valid :: "int option \<Rightarrow> bool" where
  "opt_bigint_valid v = (case v of None \<Rightarrow> False | Some x \<Rightarrow> 0 \<le> x \<and> length (big_bytes x) < 2 ^ 64)"

definition tx_wf :: "tx \<Rightarrow> bool" where
  "tx_wf tx \<longleftrightarrow> tx_type tx < 256 \<and> tx_chainid tx < 2 ^ 64 \<and> tx_nonce tx < 2 ^ 64 \<and>
     tx_gaslimit tx < 2 ^ 64 \<and> opt_bigint_valid (tx_value tx) \<and>
     opt_bigint_valid (tx_gasprice tx) \<and> length (tx_data tx) < 2 ^ 64"

interpretation optbig_code: prefix_code enc_BigInt opt_bigint_valid
proof unfold_locales
  fix x y :: "int option" and r s :: bytes
  assume "opt_bigint_valid x" "opt_bigint_valid y" "enc_BigInt x @ r = enc_BigInt y @ s"
  then show "x = y \<and> r = s"
    using bigint_code.unique by (auto simp: opt_bigint_valid_def split: option.splits)
qed

text \<open>One field at a time: the head chunk determines its value and what follows.\<close>

lemma native_preimage_inject:
  assumes t: "tx_wf t" and u: "tx_wf u"
    and eq: "native_signing_preimage t = native_signing_preimage u"
  shows "t\<lparr>tx_sig := s\<rparr> = u\<lparr>tx_sig := s\<rparr>"
proof -
  note wf = t [unfolded tx_wf_def] u [unfolded tx_wf_def]
  note eq0 = eq [unfolded native_signing_preimage_def]
  have 1: "tx_type t = tx_type u" and
    eq1: "enc_Uint64 (tx_chainid t) @ enc_Uint64 (tx_nonce t) @ enc_OptionalAddress (tx_to t) @
      enc_BigInt (tx_value t) @ enc_Uint64 (tx_gaslimit t) @ enc_BigInt (tx_gasprice t) @
      enc_Bytes (tx_data t) = enc_Uint64 (tx_chainid u) @ enc_Uint64 (tx_nonce u) @
      enc_OptionalAddress (tx_to u) @ enc_BigInt (tx_value u) @ enc_Uint64 (tx_gaslimit u) @
      enc_BigInt (tx_gasprice u) @ enc_Bytes (tx_data u)"
    using uint64_code.unique [OF _ _ eq0] wf by simp_all
  have 2: "tx_chainid t = tx_chainid u" and
    eq2: "enc_Uint64 (tx_nonce t) @ enc_OptionalAddress (tx_to t) @
      enc_BigInt (tx_value t) @ enc_Uint64 (tx_gaslimit t) @ enc_BigInt (tx_gasprice t) @
      enc_Bytes (tx_data t) = enc_Uint64 (tx_nonce u) @
      enc_OptionalAddress (tx_to u) @ enc_BigInt (tx_value u) @ enc_Uint64 (tx_gaslimit u) @
      enc_BigInt (tx_gasprice u) @ enc_Bytes (tx_data u)"
    using uint64_code.unique [OF _ _ eq1] wf by simp_all
  have 3: "tx_nonce t = tx_nonce u" and
    eq3: "enc_OptionalAddress (tx_to t) @
      enc_BigInt (tx_value t) @ enc_Uint64 (tx_gaslimit t) @ enc_BigInt (tx_gasprice t) @
      enc_Bytes (tx_data t) =
      enc_OptionalAddress (tx_to u) @ enc_BigInt (tx_value u) @ enc_Uint64 (tx_gaslimit u) @
      enc_BigInt (tx_gasprice u) @ enc_Bytes (tx_data u)"
    using uint64_code.unique [OF _ _ eq2] wf by simp_all
  have 4: "tx_to t = tx_to u" and
    eq4: "enc_BigInt (tx_value t) @ enc_Uint64 (tx_gaslimit t) @ enc_BigInt (tx_gasprice t) @
      enc_Bytes (tx_data t) =
      enc_BigInt (tx_value u) @ enc_Uint64 (tx_gaslimit u) @
      enc_BigInt (tx_gasprice u) @ enc_Bytes (tx_data u)"
    using optaddr_code.unique [OF _ _ eq3] by simp_all
  have 5: "tx_value t = tx_value u" and
    eq5: "enc_Uint64 (tx_gaslimit t) @ enc_BigInt (tx_gasprice t) @ enc_Bytes (tx_data t) =
      enc_Uint64 (tx_gaslimit u) @ enc_BigInt (tx_gasprice u) @ enc_Bytes (tx_data u)"
    using optbig_code.unique [OF _ _ eq4] wf by simp_all
  have 6: "tx_gaslimit t = tx_gaslimit u" and
    eq6: "enc_BigInt (tx_gasprice t) @ enc_Bytes (tx_data t) =
      enc_BigInt (tx_gasprice u) @ enc_Bytes (tx_data u)"
    using uint64_code.unique [OF _ _ eq5] wf by simp_all
  have 7: "tx_gasprice t = tx_gasprice u" and eq7: "enc_Bytes (tx_data t) = enc_Bytes (tx_data u)"
    using optbig_code.unique [OF _ _ eq6] wf by simp_all
  have "tx_data t = tx_data u" using bytes_code.inject [OF _ _ eq7] wf by simp
  with 1 2 3 4 5 6 7 show ?thesis by simp
qed

text \<open>
  The two signing rules never hash the same string: a native preimage starts with the zero
  high byte of the type, an RLP list with a byte of at least \<^verbatim>\<open>0xc0\<close>.
\<close>

lemma be_fixed_add: "be_fixed (k + m) n = be_fixed k (n div 256 ^ m) @ be_fixed m n"
  by (induction m arbitrary: n) (simp_all add: div_mult2_eq)

lemma hd_be_fixed_8: "n < 2 ^ 56 \<Longrightarrow> hd (be_fixed 8 n) = 0"
  using be_fixed_add [of 1 7 n] by simp

lemma be_fixed_8_ne: "be_fixed 8 n \<noteq> []"
  by (metis length_be_fixed list.size(3) zero_neq_numeral)

lemma hd_native_preimage: "tx_type t < 256 \<Longrightarrow> hd (native_signing_preimage t) = 0"
  using hd_be_fixed_8 [of "tx_type t"] be_fixed_8_ne [of "tx_type t"]
  by (simp add: native_signing_preimage_def enc_Uint64_def)

lemma hd_lengthPrefix:
  assumes "n < 2 ^ 64"
  shows "0xc0 \<le> hd (lengthPrefix n 0xc0)" and "lengthPrefix n 0xc0 \<noteq> []"
proof -
  show "lengthPrefix n 0xc0 \<noteq> []" by (simp add: lengthPrefix_def Let_def)
  show "0xc0 \<le> hd (lengthPrefix n 0xc0)"
  proof (cases "n < 56")
    case True
    then show ?thesis using byte_tag(1) [of "0xc0" n] by (simp add: lengthPrefix_def word_le_nat_alt)
  next
    case False
    then have "length (be_min n) \<le> 8" using length_be_min_range [of n] assms by simp
    then show ?thesis using byte_tag(1) [of "0xf7" "length (be_min n)"] False assms
      by (simp add: lengthPrefix_def Let_def trim_bigEndian word_le_nat_alt)
  qed
qed

lemma preimages_disjoint:
  assumes "tx_type t < 256" and "length (eth_signing_preimage u) < 2 ^ 64"
  shows "native_signing_preimage t \<noteq> eth_signing_preimage u"
proof
  assume eq: "native_signing_preimage t = eth_signing_preimage u"
  obtain items where items: "eth_signing_preimage u =
      lengthPrefix (length (concat items)) 0xc0 @ concat items"
    by (metis eth_signing_preimage_def rlp_List_def)
  then have len: "length (concat items) < 2 ^ 64" using assms(2) by simp
  have "hd (eth_signing_preimage u) = 0" using hd_native_preimage [OF assms(1)] eq by simp
  moreover have "hd (eth_signing_preimage u) = hd (lengthPrefix (length (concat items)) 0xc0)"
    using items hd_lengthPrefix(2) [OF len] by simp
  ultimately have "(0xc0 :: byte) \<le> 0" using hd_lengthPrefix(1) [OF len] by simp
  then show False by simp
qed

definition header_wf :: "header \<Rightarrow> bool" where
  "header_wf h \<longleftrightarrow> hd_height h < 2 ^ 64 \<and> - (2 ^ 63) \<le> hd_timestamp h \<and> hd_timestamp h < 2 ^ 63 \<and>
     hd_gasused h < 2 ^ 64 \<and> hd_gaslimit h < 2 ^ 64 \<and> hd_difficulty h < 2 ^ 64 \<and> hd_nonce h < 2 ^ 64"

lemma header_preimage_inject:
  assumes g: "header_wf g" and h: "header_wf h" and eq: "header_preimage g = header_preimage h"
  shows "g = h"
proof -
  note wf = g [unfolded header_wf_def] h [unfolded header_wf_def]
  have l: "length (enc_Uint64 n) = 8" "length (enc_Int64 i) = 8" for n i
    by (simp_all add: enc_Uint64_def enc_Int64_def)
  have *: "hd_parent g = hd_parent h" "enc_Uint64 (hd_height g) = enc_Uint64 (hd_height h)"
    "enc_Int64 (hd_timestamp g) = enc_Int64 (hd_timestamp h)"
    "hd_txroot g = hd_txroot h" "hd_receiptroot g = hd_receiptroot h"
    "hd_stateroot g = hd_stateroot h" "enc_Uint64 (hd_gasused g) = enc_Uint64 (hd_gasused h)"
    "enc_Uint64 (hd_gaslimit g) = enc_Uint64 (hd_gaslimit h)" "hd_proposer g = hd_proposer h"
    "enc_Uint64 (hd_difficulty g) = enc_Uint64 (hd_difficulty h)"
    "enc_Uint64 (hd_nonce g) = enc_Uint64 (hd_nonce h)"
    using eq by (simp_all add: header_preimage_def l)
  then have "hd_height g = hd_height h" "hd_timestamp g = hd_timestamp h"
    "hd_gasused g = hd_gasused h" "hd_gaslimit g = hd_gaslimit h"
    "hd_difficulty g = hd_difficulty h" "hd_nonce g = hd_nonce h"
    using uint64_code.inject int64_code.inject wf by blast+
  with * show ?thesis by simp
qed

definition receipt_wf :: "receipt \<Rightarrow> bool" where
  "receipt_wf r \<longleftrightarrow> rc_status r < 2 ^ 64 \<and> rc_cumulative r < 2 ^ 64 \<and> rc_gasused r < 2 ^ 64 \<and>
     length (rc_logs r) < 2 ^ 64 \<and> list_all log_valid (rc_logs r)"

lemma receipt_encode_inject:
  assumes q: "receipt_wf q" and r: "receipt_wf r" and eq: "receipt_encode q = receipt_encode r"
  shows "q = r"
proof -
  note wf = q [unfolded receipt_wf_def] r [unfolded receipt_wf_def]
  have l: "length (enc_Uint64 n) = 8" for n by (simp add: enc_Uint64_def)
  have *: "enc_Uint64 (rc_status q) = enc_Uint64 (rc_status r)"
    "enc_Uint64 (rc_cumulative q) = enc_Uint64 (rc_cumulative r)"
    "enc_Uint64 (rc_gasused q) = enc_Uint64 (rc_gasused r)"
    "enc_Uint64 (length (rc_logs q)) = enc_Uint64 (length (rc_logs r))"
    and logs: "concat (map log_EncodeInto (rc_logs q)) = concat (map log_EncodeInto (rc_logs r))"
    using eq by (simp_all add: receipt_encode_def l)
  have f: "rc_status q = rc_status r" "rc_cumulative q = rc_cumulative r"
    "rc_gasused q = rc_gasused r" "length (rc_logs q) = length (rc_logs r)"
    using * uint64_code.inject wf by blast+
  have "rc_logs q = rc_logs r"
    using log_code.unique_list [of "rc_logs q" "rc_logs r" "[]" "[]"] wf f(4) logs by simp
  with f show ?thesis by simp
qed

section \<open>Legacy transactions round-trip through the wire format\<close>

lemma be_nat_replicate_0: "be_nat (replicate n 0 @ bs) = be_nat bs"
  by (induction n) (simp_all add: byte_simps)

lemma pad_be_min:
  assumes "n < 256 ^ k"
  shows "replicate (k - length (be_min n)) 0 @ be_min n = be_fixed k n"
proof -
  let ?p = "replicate (k - length (be_min n)) 0 @ be_min n"
  have "length ?p = k" using length_be_min_le [OF assms] by simp
  then have "be_fixed k (be_nat ?p) = ?p" by (rule be_fixed_be_nat)
  then show ?thesis by (simp add: be_nat_replicate_0)
qed

lemma rlp_Uint_min: "x < 2 ^ 64 \<Longrightarrow> rlp_Uint x = rlp_Bytes (be_min x)"
  by (simp add: rlp_Uint_def trim_bigEndian)

lemma rlp_Big_min: "rlp_Big (Some v) = rlp_Bytes (big_bytes v)"
  by (simp add: rlp_Big_def big_bytes_def)

lemma bytesToUint64_min: "n < 2 ^ 64 \<Longrightarrow> bytesToUint64 (be_min n) = Inr n"
  using length_be_min_le [of n 8] foldl_mod_be_nat [of "be_min n"]
  by (simp add: bytesToUint64_def)

lemma eth_v_155: "recid < 2 \<Longrightarrow> eth_v (c * 2 + 35 + recid) = Some (recid, c)"
  by (simp add: eth_v_def Let_def)

definition eth_tx_wf :: "tx \<Rightarrow> bool" where
  "eth_tx_wf tx \<longleftrightarrow> tx_type tx = TxTypeEthLegacy \<and> tx_nonce tx < 2 ^ 64 \<and>
     tx_gaslimit tx < 2 ^ 64 \<and> tx_chainid tx * 2 + 36 < 2 ^ 64 \<and>
     (case tx_value tx of None \<Rightarrow> False | Some v \<Rightarrow> 0 \<le> v) \<and>
     (case tx_gasprice tx of None \<Rightarrow> False | Some p \<Rightarrow> 0 \<le> p) \<and>
     length (tx_sig tx) = 65 \<and> (hd (tx_sig tx) = 27 \<or> hd (tx_sig tx) = 28) \<and>
     be_nat (take 32 (drop 1 (tx_sig tx))) \<noteq> 0 \<and> be_nat (drop 33 (tx_sig tx)) \<noteq> 0"

definition eth_items :: "tx \<Rightarrow> bytes list" where
  "eth_items tx =
     [be_min (tx_nonce tx), big_bytes (the (tx_gasprice tx)), be_min (tx_gaslimit tx),
      addrBytes (tx_to tx), big_bytes (the (tx_value tx)), tx_data tx,
      be_min (tx_chainid tx * 2 + 35 + unat (hd (tx_sig tx) - 27)),
      be_min (be_nat (take 32 (drop 1 (tx_sig tx)))), be_min (be_nat (drop 33 (tx_sig tx)))]"

lemma recid_small: "(b :: byte) = 27 \<or> b = 28 \<Longrightarrow> unat (b - 27) < 2 \<and> word_of_nat (27 + unat (b - 27)) = b"
  by auto

lemma EncodeEthRaw_items:
  assumes "eth_tx_wf tx"
  shows "EncodeEthRaw tx = rlp_List (map rlp_Bytes (eth_items tx))"
proof -
  note wf = assms [unfolded eth_tx_wf_def]
  have r: "unat (hd (tx_sig tx) - 27) < 2" using wf recid_small by blast
  have v: "add64 (add64 (mul64 (tx_chainid tx) 2) 35) (unat (hd (tx_sig tx) - 27)) =
      tx_chainid tx * 2 + 35 + unat (hd (tx_sig tx) - 27)"
    using wf r by (simp add: wrap64)
  have big: "rlp_Big (Some (int n)) = rlp_Bytes (be_min n)" for n
    by (simp add: rlp_Big_min big_bytes_def)
  obtain vl p where "tx_value tx = Some vl" "tx_gasprice tx = Some p"
    using wf by (auto split: option.splits)
  then show ?thesis
    using wf r by (simp add: EncodeEthRaw_def eth_items_def Let_def v rlp_Uint_min rlp_Big_min
        big_bytes_def)
qed

lemma sig_rebuild:
  assumes "length sig = 65"
  shows "sig = hd sig # be_fixed 32 (be_nat (take 32 (drop 1 sig))) @ be_fixed 32 (be_nat (drop 33 sig))"
proof -
  have "be_fixed 32 (be_nat (take 32 (drop 1 sig))) = take 32 (drop 1 sig)"
    "be_fixed 32 (be_nat (drop 33 sig)) = drop 33 sig"
    using assms by (auto intro!: be_fixed_be_nat)
  moreover have "sig = hd sig # drop 1 sig" using assms by (cases sig) simp_all
  moreover have "drop 1 sig = take 32 (drop 1 sig) @ drop 33 sig"
    using append_take_drop_id [of 32 "drop 1 sig"] by simp
  ultimately show ?thesis by metis
qed

text \<open>What the parser rebuilds from the items of a well-formed transaction is the transaction.\<close>

lemma be_nat_take_less: "length bs = k \<Longrightarrow> be_nat bs < 256 ^ k"
  using be_nat_less by metis

lemma sig_from_items:
  assumes "eth_tx_wf tx"
  shows "word_of_nat (27 + unat (hd (tx_sig tx) - 27)) #
      replicate (32 - length (be_min (be_nat (take 32 (drop 1 (tx_sig tx)))))) 0 @
      be_min (be_nat (take 32 (drop 1 (tx_sig tx)))) @
      replicate (32 - length (be_min (be_nat (drop 33 (tx_sig tx))))) 0 @
      be_min (be_nat (drop 33 (tx_sig tx))) = tx_sig tx"
proof -
  have len: "length (tx_sig tx) = 65" and h: "hd (tx_sig tx) = 27 \<or> hd (tx_sig tx) = 28"
    using assms by (simp_all add: eth_tx_wf_def)
  have r: "be_nat (take 32 (drop 1 (tx_sig tx))) < 256 ^ 32"
    and s: "be_nat (drop 33 (tx_sig tx)) < 256 ^ 32"
    using len by (rule_tac be_nat_take_less, simp)+
  show ?thesis
    using sig_rebuild [OF len] pad_be_min [OF r] pad_be_min [OF s] recid_small [OF h]
    by (metis append_assoc)
qed

lemma addr_bytes_ne: "addr_bytes a \<noteq> []"
  by (metis length_addr_bytes list.size(3) zero_neq_numeral)

lemma ParseEthLegacyTx_EncodeEthRaw:
  assumes wf: "eth_tx_wf tx" and sender: "tx_Sender E tx = Inr a"
    and len: "length (EncodeEthRaw tx) < 2 ^ 64"
  shows "ParseEthLegacyTx E (EncodeEthRaw tx) = Inr tx"
proof -
  let ?items = "eth_items tx"
  have lenb: "length b \<le> length (rlp_Bytes b)" for b
    by (auto simp: rlp_Bytes_def)
  have pl: "length (concat (map rlp_Bytes ?items)) < 2 ^ 64"
    using len by (simp add: EncodeEthRaw_items [OF wf] rlp_List_def Let_def)
  have il: "list_all (\<lambda>b. length b < 2 ^ 64) ?items"
  proof -
    have "length b < 2 ^ 64" if "b \<in> set ?items" for b
    proof -
      have "length (rlp_Bytes b) \<le> length (concat (map rlp_Bytes ?items))"
        using that by (auto simp: length_concat intro!: member_le_sum_list)
      then show ?thesis using pl lenb [of b] by simp
    qed
    then show ?thesis by (simp add: list_all_iff)
  qed
  have dec: "DecodeList (EncodeEthRaw tx) = Inr ?items"
    unfolding EncodeEthRaw_items [OF wf] by (rule DecodeList_List [OF il pl])
  note w = wf [unfolded eth_tx_wf_def]
  have recid: "unat (hd (tx_sig tx) - 27) < 2" using w recid_small by blast
  have v: "tx_chainid tx * 2 + 35 + unat (hd (tx_sig tx) - 27) < 2 ^ 64" using w recid by simp
  obtain vl p where vp: "tx_value tx = Some vl" "0 \<le> vl" "tx_gasprice tx = Some p" "0 \<le> p"
    using w by (auto split: option.splits)
  have tol: "\<not> (length (addrBytes (tx_to tx)) \<noteq> 0 \<and> length (addrBytes (tx_to tx)) \<noteq> 20)"
    by (cases "tx_to tx") (simp_all add: addrBytes_def)
  have rs: "length (be_min (be_nat (take 32 (drop 1 (tx_sig tx))))) \<le> 32"
    "length (be_min (be_nat (drop 33 (tx_sig tx)))) \<le> 32"
    using w by (rule_tac length_be_min_le, rule_tac be_nat_take_less, simp)+
  have eta: "\<lparr>tx_type = TxTypeEthLegacy, tx_chainid = tx_chainid tx, tx_nonce = tx_nonce tx,
      tx_to = to, tx_value = Some vl, tx_gaslimit = tx_gaslimit tx, tx_gasprice = Some p,
      tx_data = tx_data tx, tx_sig = tx_sig tx\<rparr> = tx" if "to = tx_to tx" for to
    using w vp that by (intro tx.equality) simp_all
  show ?thesis
    unfolding ParseEthLegacyTx_def dec
    using w vp v recid tol rs sender sig_from_items [OF wf]
    by (cases "tx_to tx")
      (simp_all add: eth_items_def bytesToUint64_min eth_v_155 big_bytes_def Let_def addrBytes_def
        addr_bytes_ne word_of_be_nat_addr eta)
qed

end
