(* ===== verification/Types_Properties.thy ===== *)
theory Types_Properties
  imports Types_Merkle Types_Codec
begin

text \<open>
  The properties of the wire format and of the commitments: what bytes the RLP decoder
  accepts, what a signature, a header hash and a receipt root commit to, and that a legacy
  Ethereum transaction survives the trip through its raw encoding.  The theorems about hashes
  assume that Keccak separates the finitely many strings they hash, and nothing else about it.
\<close>

section \<open>An instance of the cryptographic parameters\<close>

text \<open>
  Concrete functions that satisfy the hypotheses of the theorems at concrete inputs: a hash that
  separates strings by length and last byte, and a recovery function that always succeeds.
\<close>

definition sample_keccak :: "bytes \<Rightarrow> hash" where
  "sample_keccak bs = word_of_nat (1 + 256 * length bs + unat (last bs))"

definition sample_crypto :: crypto where
  "sample_crypto = \<lparr>keccak256 = sample_keccak, recover_compact = (\<lambda>sig h. Some (hash_bytes h)),
     curve_order = 2 ^ 256 - 432420386565659656852420866394968145599,
     g1_unmarshal_ok = (\<lambda>b. True), g2_unmarshal_ok = (\<lambda>b. True),
     g1_add = (\<lambda>a b. a), g1_scalar_mult = (\<lambda>p k. p), pairing_check = (\<lambda>ps. True)\<rparr>"

definition sample_sig :: bytes where
  "sample_sig = 27 # replicate 31 0 @ [5] @ replicate 31 0 @ [9]"

definition sample_tx :: tx where
  "sample_tx = \<lparr>tx_type = TxTypeEthLegacy, tx_chainid = 1, tx_nonce = 3, tx_to = Some 7,
     tx_value = Some 1000, tx_gaslimit = 21000, tx_gasprice = Some 2, tx_data = [],
     tx_sig = sample_sig\<rparr>"

definition sample_header :: header where
  "sample_header = \<lparr>hd_parent = 1, hd_height = 2, hd_timestamp = 3, hd_txroot = 4,
     hd_receiptroot = 5, hd_stateroot = 6, hd_gasused = 7, hd_gaslimit = 8, hd_proposer = 9,
     hd_difficulty = 10, hd_nonce = 11\<rparr>"

definition sample_receipt :: receipt where
  "sample_receipt = \<lparr>rc_status = ReceiptSuccess, rc_cumulative = 21000, rc_gasused = 21000,
     rc_logs = [\<lparr>log_address = 7, log_topics = [1, 2], log_data = [3, 4]\<rparr>]\<rparr>"

section \<open>RLP\<close>

text \<open>
  C28 The RLP decoder accepts a byte string as a list of byte strings exactly when it is their
  encoding: encoding and decoding are inverse to each other, and no second, non-canonical
  encoding of the same items is accepted.
\<close>

theorem rlp_decode_iff_encode:
  assumes "list_all (\<lambda>b. length b < 2 ^ 64) items"
    and "length (concat (map rlp_Bytes items)) < 2 ^ 64"
  shows "DecodeList data = Inr items \<longleftrightarrow> data = rlp_List (map rlp_Bytes items)"
  using DecodeList_canonical DecodeList_List [OF assms] by blast

theorem rlp_decode_iff_encode_witness:
  "DecodeList [0xc4, 0x05, 0x80, 0x81, 0xff] = Inr [[5], [], [0xff]] \<longleftrightarrow>
     [0xc4, 0x05, 0x80, 0x81, 0xff] = rlp_List (map rlp_Bytes [[5], [], [0xff]])"
  by (rule rlp_decode_iff_encode) (simp_all add: rlp_Bytes_def lengthPrefix_def)

section \<open>Merkle commitments\<close>

text \<open>
  C30 A Merkle root determines the ordered list of leaves: if Keccak is injective on the finitely
  many strings hashed for the two lists and none of them hashes to zero, equal roots mean equal
  lists, also for lists of different lengths.
\<close>

theorem merkle_root_binding:
  assumes "inj_on (keccak256 E) (set (merkle_inputs E xs) \<union> set (merkle_inputs E ys))"
    and "0 \<notin> keccak256 E ` (set (merkle_inputs E xs) \<union> set (merkle_inputs E ys))"
    and "MerkleRoot E xs = MerkleRoot E ys"
  shows "xs = ys"
  using assms by (rule MerkleRoot_binding_aux)

lemma last_be_fixed: "0 < k \<Longrightarrow> last (be_fixed k n) = word_of_nat (n mod 256)"
  by (cases k) simp_all

lemma merkle_inputs_sample:
  "merkle_inputs sample_crypto [[1], [2]] =
     [[0, 1], [0, 2], 1 # hash_bytes (word_of_nat 514) @ hash_bytes (word_of_nat 515)]"
  by (simp add: merkle_inputs_def merkle_layer_inputs.simps hashLeaf_def sample_crypto_def
      sample_keccak_def)

theorem merkle_root_binding_witness:
  "rev [[2], [1]] = ([[1], [2]] :: bytes list)"
proof -
  have n: "hash_bytes 515 \<noteq> []" by (simp add: hash_bytes_def length_greater_0_conv [symmetric]
      del: length_greater_0_conv)
  have "last (hash_bytes 515) = 3" by (simp add: hash_bytes_def last_be_fixed)
  then have k: "sample_keccak [0, 1] = 514" "sample_keccak [0, 2] = 515"
    "sample_keccak (1 # hash_bytes 514 @ hash_bytes 515) = 16644"
    using n by (simp_all add: sample_keccak_def)
  have h: "keccak256 sample_crypto = sample_keccak" by (simp add: sample_crypto_def)
  have "inj_on (keccak256 sample_crypto) (set (merkle_inputs sample_crypto [[1], [2]]))"
    unfolding merkle_inputs_sample h by (simp add: k)
  moreover have "0 \<notin> keccak256 sample_crypto ` set (merkle_inputs sample_crypto [[1], [2]])"
    unfolding merkle_inputs_sample h by (simp add: k)
  ultimately show ?thesis
    by (intro merkle_root_binding [of sample_crypto]) simp_all
qed

section \<open>What a signature signs\<close>

definition signing_preimage :: "tx \<Rightarrow> bytes" where
  "signing_preimage t =
     (if tx_type t = TxTypeEthLegacy then eth_signing_preimage t else native_signing_preimage t)"

lemma SigningHash_preimage: "SigningHash E t = keccak256 E (signing_preimage t)"
  by (simp add: SigningHash_def signing_preimage_def ethSigningHash_def)

definition eth_signing_items :: "tx \<Rightarrow> bytes list" where
  "eth_signing_items t =
     [be_min (tx_nonce t), big_bytes (the (tx_gasprice t)), be_min (tx_gaslimit t),
      addrBytes (tx_to t), big_bytes (the (tx_value t)), tx_data t, be_min (tx_chainid t), [], []]"

lemma eth_preimage_items:
  assumes "tx_wf t"
  shows "eth_signing_preimage t = rlp_List (map rlp_Bytes (eth_signing_items t))"
  using assms
  by (auto simp: eth_signing_preimage_def eth_signing_items_def tx_wf_def opt_bigint_valid_def
      rlp_Uint_min rlp_Big_min split: option.splits)

lemma addrBytes_inject: "addrBytes a = addrBytes b \<Longrightarrow> a = b"
  by (auto simp: addrBytes_def split: option.splits dest: addr_bytes_inject [THEN iffD1] arg_cong [of _ _ length])

lemma rlp_item_shorter: "length b \<le> length (rlp_Bytes b)"
  by (auto simp: rlp_Bytes_def)

lemma rlp_List_items_short:
  assumes "length (rlp_List (map rlp_Bytes items)) < 2 ^ 64"
  shows "list_all (\<lambda>b. length b < 2 ^ 64) items \<and> length (concat (map rlp_Bytes items)) < 2 ^ 64"
proof -
  have l: "length (concat (map rlp_Bytes items)) < 2 ^ 64"
    using assms by (simp add: rlp_List_def Let_def)
  have "length b \<le> length (concat (map rlp_Bytes items))" if "b \<in> set items" for b
  proof -
    have "length (rlp_Bytes b) \<le> length (concat (map rlp_Bytes items))"
      using that by (induction items) auto
    then show ?thesis using rlp_item_shorter [of b] by linarith
  qed
  then show ?thesis using l by (fastforce simp: list_all_iff)
qed

lemma rlp_List_inject:
  assumes "length (rlp_List (map rlp_Bytes xs)) < 2 ^ 64"
    and "rlp_List (map rlp_Bytes xs) = rlp_List (map rlp_Bytes ys)"
  shows "xs = ys"
proof -
  have *: "DecodeList (rlp_List (map rlp_Bytes zs)) = Inr zs"
    if "length (rlp_List (map rlp_Bytes zs)) < 2 ^ 64" for zs
    using DecodeList_List [of zs] rlp_List_items_short [OF that] by blast
  have "DecodeList (rlp_List (map rlp_Bytes xs)) = Inr xs" by (rule * [OF assms(1)])
  moreover have "DecodeList (rlp_List (map rlp_Bytes xs)) = Inr ys"
    unfolding assms(2) by (rule * [OF assms(1) [unfolded assms(2)]])
  ultimately have "Inr xs = (Inr ys :: rlp_error + bytes list)" by (rule trans [OF sym])
  then show ?thesis by (rule sum.inject(2) [THEN iffD1])
qed

lemma big_bytes_inject: "0 \<le> x \<Longrightarrow> 0 \<le> y \<Longrightarrow> big_bytes x = big_bytes y \<Longrightarrow> x = y"
  using be_min_inject [of "nat x" "nat y"] by (simp add: big_bytes_def)

lemma eth_preimage_inject:
  assumes t: "tx_wf t" and u: "tx_wf u" and ty: "tx_type t = tx_type u"
    and len: "length (eth_signing_preimage t) < 2 ^ 64"
    and eq: "eth_signing_preimage t = eth_signing_preimage u"
  shows "t\<lparr>tx_sig := []\<rparr> = u\<lparr>tx_sig := []\<rparr>"
proof -
  have "eth_signing_items t = eth_signing_items u"
    using rlp_List_inject len eq eth_preimage_items t u by metis
  then have i: "be_min (tx_nonce t) = be_min (tx_nonce u)"
    "big_bytes (the (tx_gasprice t)) = big_bytes (the (tx_gasprice u))"
    "be_min (tx_gaslimit t) = be_min (tx_gaslimit u)" "addrBytes (tx_to t) = addrBytes (tx_to u)"
    "big_bytes (the (tx_value t)) = big_bytes (the (tx_value u))" "tx_data t = tx_data u"
    "be_min (tx_chainid t) = be_min (tx_chainid u)"
    by (simp_all add: eth_signing_items_def)
  have p: "tx_gasprice t = tx_gasprice u" and v: "tx_value t = tx_value u"
    using i(2,5) t u by (auto simp: tx_wf_def opt_bigint_valid_def split: option.splits
        dest: big_bytes_inject)
  show ?thesis
    using i p v ty by (intro tx.equality) (auto dest: be_min_inject addrBytes_inject)
qed

text \<open>
  C29 A signature binds the whole transaction: two well-formed transactions with the same signing
  hash, whether native or legacy Ethereum, agree in every field but the signature.  In
  particular a signature made under one format is never one under the other.
\<close>

theorem signing_hash_binding:
  assumes "tx_wf t" and "tx_wf u" and "isKnownTxType (tx_type t)" and "isKnownTxType (tx_type u)"
    and "length (signing_preimage t) < 2 ^ 64" and "length (signing_preimage u) < 2 ^ 64"
    and "inj_on (keccak256 E) {signing_preimage t, signing_preimage u}"
    and "SigningHash E t = SigningHash E u"
  shows "t\<lparr>tx_sig := []\<rparr> = u\<lparr>tx_sig := []\<rparr>"
proof -
  have eq: "signing_preimage t = signing_preimage u"
    by (rule inj_onD [OF assms(7)]) (use assms(8) in \<open>simp_all add: SigningHash_preimage\<close>)
  have s: "tx_type t < 256" "tx_type u < 256" using assms(1,2) by (simp_all add: tx_wf_def)
  have ty: "tx_type t = TxTypeEthLegacy \<longleftrightarrow> tx_type u = TxTypeEthLegacy"
    using preimages_disjoint s assms(5,6) eq by (metis signing_preimage_def)
  show ?thesis
  proof (cases "tx_type t = TxTypeEthLegacy")
    case True
    then show ?thesis
      using eth_preimage_inject [OF assms(1,2)] ty assms(5) eq by (metis signing_preimage_def)
  next
    case False
    then show ?thesis
      using native_preimage_inject [OF assms(1,2)] ty eq by (metis signing_preimage_def)
  qed
qed

theorem signing_hash_binding_witness:
  "sample_tx\<lparr>tx_sig := []\<rparr> = (sample_tx\<lparr>tx_sig := [1, 2]\<rparr>)\<lparr>tx_sig := []\<rparr>"
proof (rule signing_hash_binding [where E = sample_crypto])
  have p: "signing_preimage (sample_tx\<lparr>tx_sig := [1, 2]\<rparr>) = signing_preimage sample_tx"
    by (simp add: signing_preimage_def eth_signing_preimage_def native_signing_preimage_def)
  have l: "length (be_min n) \<le> 2" if "n < 65536" for n
    using length_be_min_le [of n 2] that by simp
  show w: "tx_wf sample_tx" "tx_wf (sample_tx\<lparr>tx_sig := [1, 2]\<rparr>)"
    using l [of 1000] l [of 2]
    by (simp_all add: sample_tx_def tx_wf_def TxTypeEthLegacy_def opt_bigint_valid_def big_bytes_def)
  show "isKnownTxType (tx_type sample_tx)" "isKnownTxType (tx_type (sample_tx\<lparr>tx_sig := [1, 2]\<rparr>))"
    by (simp_all add: sample_tx_def isKnownTxType_def)
  show len: "length (signing_preimage sample_tx) < 2 ^ 64"
    using eth_preimage_items [OF w(1)]
    by (simp add: signing_preimage_def sample_tx_def eth_signing_items_def be_min.simps
        big_bytes_def addrBytes_def addr_bytes_def rlp_List_def rlp_Bytes_def lengthPrefix_def)
  show "length (signing_preimage (sample_tx\<lparr>tx_sig := [1, 2]\<rparr>)) < 2 ^ 64"
    using len p by simp
  show "inj_on (keccak256 sample_crypto)
      {signing_preimage sample_tx, signing_preimage (sample_tx\<lparr>tx_sig := [1, 2]\<rparr>)}"
    by (simp add: p)
  show "SigningHash sample_crypto sample_tx =
      SigningHash sample_crypto (sample_tx\<lparr>tx_sig := [1, 2]\<rparr>)"
    by (simp add: SigningHash_preimage p)
qed

section \<open>Headers and receipts\<close>

text \<open>
  C32 A block header is bound by its hash, which is also what the miner grinds: equal hashes mean
  equal headers, field by field.
\<close>

theorem header_hash_binding:
  assumes "header_wf g" and "header_wf h"
    and "inj_on (keccak256 E) {header_preimage g, header_preimage h}"
    and "header_Hash E g = header_Hash E h"
  shows "g = h"
proof (rule header_preimage_inject [OF assms(1,2)])
  show "header_preimage g = header_preimage h"
    by (rule inj_onD [OF assms(3)]) (use assms(4) in \<open>simp_all add: header_Hash_def\<close>)
qed

theorem header_hash_binding_witness: "sample_header = sample_header\<lparr>hd_nonce := 11\<rparr>"
  by (rule header_hash_binding [where E = sample_crypto])
    (simp_all add: sample_header_def header_wf_def)

text \<open>
  C31 The receipt root determines every receipt of the block in order: status, cumulative and own
  gas, and every event with its address, topics and data.
\<close>

theorem receipt_root_binding:
  assumes "list_all receipt_wf qs" and "list_all receipt_wf rs"
    and "inj_on (keccak256 E)
      (set (merkle_inputs E (map receipt_encode qs)) \<union> set (merkle_inputs E (map receipt_encode rs)))"
    and "0 \<notin> keccak256 E `
      (set (merkle_inputs E (map receipt_encode qs)) \<union> set (merkle_inputs E (map receipt_encode rs)))"
    and "ReceiptRoot E qs = ReceiptRoot E rs"
  shows "qs = rs"
proof -
  have "map receipt_encode qs = map receipt_encode rs"
    using MerkleRoot_binding_aux assms(3,4,5) unfolding ReceiptRoot_def by blast
  then show ?thesis
  proof (rule map_inj_on)
    show "inj_on receipt_encode (set qs \<union> set rs)"
    proof (rule inj_onI)
      fix x y assume "x \<in> set qs \<union> set rs" "y \<in> set qs \<union> set rs" "receipt_encode x = receipt_encode y"
      moreover have "receipt_wf z" if "z \<in> set qs \<union> set rs" for z
        using that assms(1,2) by (auto simp: list_all_iff)
      ultimately show "x = y" using receipt_encode_inject by blast
    qed
  qed
qed

lemma sample_keccak_nonzero:
  assumes "length bs < 2 ^ 64"
  shows "sample_keccak bs \<noteq> 0"
proof -
  have "unat (last bs) < 256" by (rule unat_byte_less)
  then have "1 + 256 * length bs + unat (last bs) < 1 + 256 * 2 ^ 64 + 256" using assms by linarith
  also have "\<dots> \<le> (2 ^ 256 :: nat)" by simp
  finally have "1 + 256 * length bs + unat (last bs) < 2 ^ 256" .
  then have "\<not> 2 ^ 256 dvd 1 + 256 * length bs + unat (last bs)" by (intro nat_dvd_not_less) simp_all
  then show ?thesis unfolding sample_keccak_def word_of_nat_eq_0_iff by simp
qed

theorem receipt_root_binding_witness:
  "[sample_receipt] = [sample_receipt\<lparr>rc_gasused := 21000\<rparr>]"
proof (rule receipt_root_binding [where E = sample_crypto])
  have r: "sample_receipt\<lparr>rc_gasused := 21000\<rparr> = sample_receipt" by (simp add: sample_receipt_def)
  have w: "receipt_wf sample_receipt"
    by (simp add: receipt_wf_def sample_receipt_def ReceiptSuccess_def log_valid_def)
  have i: "merkle_inputs sample_crypto (map receipt_encode [sample_receipt]) =
      [0 # receipt_encode sample_receipt]"
    by (simp add: merkle_inputs_def merkle_layer_inputs.simps)
  have "length (receipt_encode sample_receipt) < 200"
    by (simp add: receipt_encode_def sample_receipt_def log_EncodeInto_def enc_Uint64_def
        enc_Bytes_def)
  then have "sample_keccak (0 # receipt_encode sample_receipt) \<noteq> 0"
    by (intro sample_keccak_nonzero) simp
  then show "0 \<notin> keccak256 sample_crypto `
      (set (merkle_inputs sample_crypto (map receipt_encode [sample_receipt])) \<union>
       set (merkle_inputs sample_crypto (map receipt_encode [sample_receipt\<lparr>rc_gasused := 21000\<rparr>])))"
    unfolding r i by (simp add: sample_crypto_def)
  show "inj_on (keccak256 sample_crypto)
      (set (merkle_inputs sample_crypto (map receipt_encode [sample_receipt])) \<union>
       set (merkle_inputs sample_crypto (map receipt_encode [sample_receipt\<lparr>rc_gasused := 21000\<rparr>])))"
    unfolding r i by simp
  show "list_all receipt_wf [sample_receipt]"
    "list_all receipt_wf [sample_receipt\<lparr>rc_gasused := 21000\<rparr>]"
    "ReceiptRoot sample_crypto [sample_receipt] =
       ReceiptRoot sample_crypto [sample_receipt\<lparr>rc_gasused := 21000\<rparr>]"
    unfolding r using w by simp_all
qed

section \<open>Legacy Ethereum transactions\<close>

text \<open>
  C33 A legacy Ethereum transaction whose sender is recoverable survives its raw encoding: the
  parser gives back exactly the transaction, signature and chain id included.
\<close>

theorem eth_raw_round_trip:
  assumes "eth_tx_wf tx" and "tx_Sender E tx = Inr a" and "length (EncodeEthRaw tx) < 2 ^ 64"
  shows "ParseEthLegacyTx E (EncodeEthRaw tx) = Inr tx"
  using assms by (rule ParseEthLegacyTx_EncodeEthRaw)

lemma sample_sig_parts:
  "length sample_sig = 65" "hd sample_sig = 27" "be_nat (take 32 (drop 1 sample_sig)) = 5"
  "be_nat (drop 33 sample_sig) = 9"
  by code_simp+

lemma sample_eth_wf: "eth_tx_wf sample_tx"
  by (simp add: eth_tx_wf_def sample_tx_def sample_sig_parts [simplified])

lemma sample_Sender: "\<exists>a. tx_Sender sample_crypto sample_tx = Inr a"
  using sample_sig_parts
  by (simp add: tx_Sender_def RecoverAddress_def checkLowS_def SignatureLength_def sample_tx_def
      sample_crypto_def)

theorem eth_raw_round_trip_witness:
  "ParseEthLegacyTx sample_crypto (EncodeEthRaw sample_tx) = Inr sample_tx"
proof -
  have "length (EncodeEthRaw sample_tx) < 2 ^ 64"
    unfolding EncodeEthRaw_items [OF sample_eth_wf]
    by (simp add: sample_tx_def eth_items_def be_min.simps sample_sig_parts [simplified]
        big_bytes_def addrBytes_def rlp_List_def rlp_Bytes_def lengthPrefix_def)
  then show ?thesis using eth_raw_round_trip [OF sample_eth_wf] sample_Sender by blast
qed

end
