(* ===== verification/World.thy ===== *)
theory World
  imports Types
begin

text \<open>
  The world state of \<^verbatim>\<open>src/state/state.go\<close>: accounts, the touched set, the event list, the
  burn total, and the undo journal behind the snapshot stack.  Every method is one
  definition; a Go map is a partial map, the touched map (whose values are only ever
  \<^verbatim>\<open>true\<close>) a set, and \<^verbatim>\<open>(prev, existed)\<close> of a journal entry an option.  A nil burn total
  reads as zero in every method (\<^verbatim>\<open>burnedOrZero\<close>), so the field is an integer.  Mutators copy
  an account before storing it, so accounts are values.
\<close>

section \<open>Accounts and the world\<close>

record account =
  acc_nonce :: nat
  acc_balance :: int
  acc_storage :: "hash \<rightharpoonup> hash"
  acc_code :: bytes

record block_context =
  bc_number :: nat
  bc_time :: nat
  bc_difficulty :: "int option"

record snapshot =
  sn_journal :: nat
  sn_logs :: nat
  sn_burned :: int

record journal_entry =
  je_addr :: address
  je_prev :: "account option"
  je_touched :: bool

record world =
  w_accounts :: "address \<rightharpoonup> account"
  w_touched :: "address set"
  w_snapshots :: "snapshot list"
  w_journal :: "journal_entry list"
  w_logs :: "evlog list"
  w_bctx :: block_context
  w_burned :: int

definition account_encode :: "account \<Rightarrow> bytes" where
  "account_encode a =
     (let keys = sorted_list_of_set (dom (acc_storage a)) in
      enc_Uint64 (acc_nonce a) @ enc_BigInt (Some (acc_balance a)) @
      enc_Uint64 (length keys) @
      concat (map (\<lambda>k. hash_bytes k @ hash_bytes (the (acc_storage a k))) keys) @
      (if length (acc_code a) > 0 then enc_Bytes (acc_code a) else []))"

definition SetBlockContext :: "world \<Rightarrow> nat \<Rightarrow> nat \<Rightarrow> nat \<Rightarrow> world" where
  "SetBlockContext w number timeSeconds difficulty =
     w\<lparr>w_bctx := \<lparr>bc_number = number, bc_time = timeSeconds,
        bc_difficulty = Some (int difficulty)\<rparr>\<rparr>"

definition world_New :: world where
  "world_New = \<lparr>w_accounts = Map.empty, w_touched = {}, w_snapshots = [], w_journal = [],
     w_logs = [], w_bctx = \<lparr>bc_number = 0, bc_time = 0, bc_difficulty = None\<rparr>, w_burned = 0\<rparr>"

text \<open>\<^verbatim>\<open>Copy\<close> carries everything over but the snapshot stack and the journal.\<close>

definition world_Copy :: "world \<Rightarrow> world" where
  "world_Copy w = w\<lparr>w_snapshots := [], w_journal := []\<rparr>"

definition ClearTouched :: "world \<Rightarrow> world" where
  "ClearTouched w = w\<lparr>w_touched := {}\<rparr>"

definition Touched :: "world \<Rightarrow> address list" where
  "Touched w = sorted_list_of_set (w_touched w)"

definition Exists :: "world \<Rightarrow> address \<Rightarrow> bool" where
  "Exists w a \<longleftrightarrow> w_accounts w a \<noteq> None"

definition empty_account :: account where
  "empty_account = \<lparr>acc_nonce = 0, acc_balance = 0, acc_storage = Map.empty, acc_code = []\<rparr>"

definition world_Get :: "world \<Rightarrow> address \<Rightarrow> account" where
  "world_Get w a = (case w_accounts w a of Some acc \<Rightarrow> acc | None \<Rightarrow> empty_account)"

definition account_vacant :: "account \<Rightarrow> bool" where
  "account_vacant acc \<longleftrightarrow> acc_nonce acc = 0 \<and> acc_balance acc = 0 \<and>
     acc_storage acc = Map.empty \<and> acc_code acc = []"

definition world_set :: "world \<Rightarrow> address \<Rightarrow> account \<Rightarrow> world" where
  "world_set w a acc =
     (let w1 = (if length (w_snapshots w) > 0
                then w\<lparr>w_journal := w_journal w @
                  [\<lparr>je_addr = a, je_prev = w_accounts w a, je_touched = (a \<in> w_touched w)\<rparr>]\<rparr>
                else w);
          w2 = w1\<lparr>w_touched := insert a (w_touched w1)\<rparr>
      in if account_vacant acc
         then w2\<lparr>w_accounts := (w_accounts w2)(a := None)\<rparr>
         else w2\<lparr>w_accounts := (w_accounts w2)(a \<mapsto> acc)\<rparr>)"

definition GetBalance :: "world \<Rightarrow> address \<Rightarrow> int" where
  "GetBalance w a = acc_balance (world_Get w a)"

definition GetNonce :: "world \<Rightarrow> address \<Rightarrow> nat" where
  "GetNonce w a = acc_nonce (world_Get w a)"

definition RestoreAccount ::
  "world \<Rightarrow> address \<Rightarrow> nat \<Rightarrow> int option \<Rightarrow> (hash \<rightharpoonup> hash) \<Rightarrow> bytes \<Rightarrow> world" where
  "RestoreAccount w a nonce balance storage code =
     world_set w a \<lparr>acc_nonce = nonce,
       acc_balance = (case balance of None \<Rightarrow> 0 | Some b \<Rightarrow> b),
       acc_storage = storage, acc_code = code\<rparr>"

definition SumBalances :: "world \<Rightarrow> int" where
  "SumBalances w = (\<Sum>a \<in> dom (w_accounts w). acc_balance (the (w_accounts w a)))"

definition GetStorage :: "world \<Rightarrow> address \<Rightarrow> hash \<Rightarrow> hash" where
  "GetStorage w a key =
     (case w_accounts w a of None \<Rightarrow> 0
      | Some acc \<Rightarrow> (case acc_storage acc key of None \<Rightarrow> 0 | Some v \<Rightarrow> v))"

definition SetStorage :: "world \<Rightarrow> address \<Rightarrow> hash \<Rightarrow> hash \<Rightarrow> world" where
  "SetStorage w a key value =
     (let acc = world_Get w a in
      world_set w a
        (if value = 0 then acc\<lparr>acc_storage := (acc_storage acc)(key := None)\<rparr>
         else acc\<lparr>acc_storage := (acc_storage acc)(key \<mapsto> value)\<rparr>))"

definition GetCode :: "world \<Rightarrow> address \<Rightarrow> bytes" where
  "GetCode w a = (case w_accounts w a of None \<Rightarrow> [] | Some acc \<Rightarrow> acc_code acc)"

definition SetCode :: "world \<Rightarrow> address \<Rightarrow> bytes \<Rightarrow> world" where
  "SetCode w a code = world_set w a ((world_Get w a)\<lparr>acc_code := code\<rparr>)"

definition SetNonce :: "world \<Rightarrow> address \<Rightarrow> nat \<Rightarrow> world" where
  "SetNonce w a nonce = world_set w a ((world_Get w a)\<lparr>acc_nonce := nonce\<rparr>)"

definition Credit :: "world \<Rightarrow> address \<Rightarrow> int \<Rightarrow> world" where
  "Credit w a amount =
     (let acc = world_Get w a in world_set w a (acc\<lparr>acc_balance := acc_balance acc + amount\<rparr>))"

definition AddBalance :: "world \<Rightarrow> address \<Rightarrow> int \<Rightarrow> world" where
  "AddBalance w a amount = Credit w a amount"

definition SubBalance :: "world \<Rightarrow> address \<Rightarrow> int \<Rightarrow> world" where
  "SubBalance w a amount =
     (let acc = world_Get w a in world_set w a (acc\<lparr>acc_balance := acc_balance acc - amount\<rparr>))"

section \<open>Snapshots\<close>

text \<open>\<^verbatim>\<open>Snapshot\<close> returns the id of the new savepoint: the length of the stack before it.\<close>

definition Snapshot :: "world \<Rightarrow> nat \<times> world" where
  "Snapshot w =
     (length (w_snapshots w),
      w\<lparr>w_snapshots := w_snapshots w @
        [\<lparr>sn_journal = length (w_journal w), sn_logs = length (w_logs w),
          sn_burned = w_burned w\<rparr>]\<rparr>)"

fun undo_entry ::
  "journal_entry \<Rightarrow> (address \<rightharpoonup> account) \<times> address set \<Rightarrow> (address \<rightharpoonup> account) \<times> address set" where
  "undo_entry e (accs, tch) =
     (accs(je_addr e := je_prev e),
      if je_touched e then insert (je_addr e) tch else tch - {je_addr e})"

text \<open>\<open>foldr\<close> undoes the last entry first, the order of the source's loop.\<close>

definition undo_journal ::
  "journal_entry list \<Rightarrow> (address \<rightharpoonup> account) \<times> address set \<Rightarrow> (address \<rightharpoonup> account) \<times> address set" where
  "undo_journal es s = foldr undo_entry es s"

definition RevertToSnapshot :: "world \<Rightarrow> nat \<Rightarrow> world" where
  "RevertToSnapshot w sid =
     (if sid \<ge> length (w_snapshots w) then w
      else let snap = w_snapshots w ! sid;
               (accs, tch) = undo_journal (drop (sn_journal snap) (w_journal w))
                 (w_accounts w, w_touched w)
           in w\<lparr>w_accounts := accs, w_touched := tch,
                w_journal := take (sn_journal snap) (w_journal w),
                w_logs := take (sn_logs snap) (w_logs w),
                w_burned := sn_burned snap,
                w_snapshots := take sid (w_snapshots w)\<rparr>)"

definition DiscardSnapshots :: "world \<Rightarrow> world" where
  "DiscardSnapshots w = w\<lparr>w_snapshots := [], w_journal := []\<rparr>"

definition AddLog :: "world \<Rightarrow> evlog \<Rightarrow> world" where
  "AddLog w l = w\<lparr>w_logs := w_logs w @ [l]\<rparr>"

definition LogCount :: "world \<Rightarrow> nat" where
  "LogCount w = length (w_logs w)"

definition LogsSince :: "world \<Rightarrow> nat \<Rightarrow> evlog list" where
  "LogsSince w start = (if start \<ge> length (w_logs w) then [] else drop start (w_logs w))"

section \<open>Burning and the state root\<close>

definition Burn :: "world \<Rightarrow> int \<Rightarrow> world" where
  "Burn w amount = (if amount \<le> 0 then w else w\<lparr>w_burned := w_burned w + amount\<rparr>)"

definition SetBurned :: "world \<Rightarrow> int option \<Rightarrow> world" where
  "SetBurned w v = w\<lparr>w_burned := (case v of None \<Rightarrow> 0 | Some x \<Rightarrow> x)\<rparr>"

definition root_leaf :: "world \<Rightarrow> address \<Rightarrow> bytes" where
  "root_leaf w a = addr_bytes a @ enc_Bytes (account_encode (the (w_accounts w a)))"

definition root_leaves :: "world \<Rightarrow> bytes list" where
  "root_leaves w = map (root_leaf w) (sorted_list_of_set (dom (w_accounts w)))"

definition world_Root :: "crypto \<Rightarrow> world \<Rightarrow> hash" where
  "world_Root E w =
     (let root = MerkleRoot E (root_leaves w) in
      if w_burned w = 0 then root
      else keccak256 E (hash_bytes root @ enc_BigInt (Some (w_burned w))))"

section \<open>Field equations\<close>

named_theorems world_simps \<open>how the mutators change the fields of the world\<close>

lemma world_set_accounts [world_simps]:
  "w_accounts (world_set w a acc) =
     (if account_vacant acc then (w_accounts w)(a := None) else (w_accounts w)(a \<mapsto> acc))"
  by (simp add: world_set_def Let_def)

lemma world_set_touched [world_simps]: "w_touched (world_set w a acc) = insert a (w_touched w)"
  by (simp add: world_set_def Let_def)

lemma world_set_snapshots [world_simps]: "w_snapshots (world_set w a acc) = w_snapshots w"
  by (simp add: world_set_def Let_def)

lemma world_set_journal [world_simps]:
  "w_journal (world_set w a acc) =
     (if w_snapshots w = [] then w_journal w
      else w_journal w @
        [\<lparr>je_addr = a, je_prev = w_accounts w a, je_touched = (a \<in> w_touched w)\<rparr>])"
  by (simp add: world_set_def Let_def)

lemma world_set_logs [world_simps]: "w_logs (world_set w a acc) = w_logs w"
  by (simp add: world_set_def Let_def)

lemma world_set_bctx [world_simps]: "w_bctx (world_set w a acc) = w_bctx w"
  by (simp add: world_set_def Let_def)

lemma world_set_burned [world_simps]: "w_burned (world_set w a acc) = w_burned w"
  by (simp add: world_set_def Let_def)

lemma vacant_iff: "account_vacant acc \<longleftrightarrow> acc = empty_account"
  by (cases acc) (simp add: account_vacant_def empty_account_def)

text \<open>Reading back: an account that was stored is found, whether or not it was vacant.\<close>

lemma world_Get_set [world_simps]:
  "world_Get (world_set w a acc) b = (if b = a then acc else world_Get w b)"
  by (auto simp: world_Get_def world_simps vacant_iff)

lemma GetBalance_set [world_simps]:
  "GetBalance (world_set w a acc) b = (if b = a then acc_balance acc else GetBalance w b)"
  by (simp add: GetBalance_def world_simps)

lemma GetNonce_set [world_simps]:
  "GetNonce (world_set w a acc) b = (if b = a then acc_nonce acc else GetNonce w b)"
  by (simp add: GetNonce_def world_simps)

lemma GetStorage_Get: "GetStorage w a k = (case acc_storage (world_Get w a) k of None \<Rightarrow> 0 | Some v \<Rightarrow> v)"
  by (simp add: GetStorage_def world_Get_def empty_account_def split: option.split)

lemma GetCode_Get: "GetCode w a = acc_code (world_Get w a)"
  by (simp add: GetCode_def world_Get_def empty_account_def split: option.split)

lemmas world_mutators =
  SetStorage_def SetCode_def SetNonce_def Credit_def AddBalance_def SubBalance_def RestoreAccount_def

section \<open>Reverting restores the world exactly\<close>

text \<open>
  \<open>world_ext w v\<close>: the world \<open>v\<close> was reached from \<open>w\<close> by mutations, nested snapshots and
  nested reverts.  The stacks only grew, and while a savepoint is active the new part of the
  journal undoes every account write made since.
\<close>

definition world_ext :: "world \<Rightarrow> world \<Rightarrow> bool" where
  "world_ext w v \<longleftrightarrow>
     (\<exists>jt st lt. w_journal v = w_journal w @ jt \<and> w_snapshots v = w_snapshots w @ st \<and>
        w_logs v = w_logs w @ lt \<and> w_bctx v = w_bctx w \<and>
        (w_snapshots w \<noteq> [] \<longrightarrow>
          undo_journal jt (w_accounts v, w_touched v) = (w_accounts w, w_touched w)))"

lemma world_ext_refl [simp, intro]: "world_ext w w"
  by (simp add: world_ext_def undo_journal_def)

lemma world_ext_trans: "world_ext u v \<Longrightarrow> world_ext v w \<Longrightarrow> world_ext u w"
  by (fastforce simp: world_ext_def undo_journal_def)

lemma undo_set:
  "undo_journal [\<lparr>je_addr = a, je_prev = w_accounts w a, je_touched = (a \<in> w_touched w)\<rparr>]
     (w_accounts (world_set w a acc), w_touched (world_set w a acc)) = (w_accounts w, w_touched w)"
  by (auto simp: undo_journal_def world_simps)

lemma world_ext_set: "world_ext w (world_set w a acc)"
proof (cases "w_snapshots w = []")
  case True
  then show ?thesis by (simp add: world_ext_def world_simps)
next
  case False
  then show ?thesis
    using undo_set [of a w acc] by (simp add: world_ext_def world_simps)
qed

lemma world_ext_AddLog: "world_ext w (AddLog w l)"
  by (auto simp: world_ext_def AddLog_def undo_journal_def)

lemma world_ext_Snapshot: "world_ext w (snd (Snapshot w))"
  by (auto simp: world_ext_def Snapshot_def undo_journal_def)

text \<open>The heart of the journal: whatever happened since, reverting gives back the very world.\<close>

lemma revert_exact:
  assumes "world_ext (snd (Snapshot w)) v"
  shows "RevertToSnapshot v (fst (Snapshot w)) = w"
proof -
  let ?s = "\<lparr>sn_journal = length (w_journal w), sn_logs = length (w_logs w), sn_burned = w_burned w\<rparr>"
  obtain jt st lt where v: "w_journal v = w_journal w @ jt"
    "w_snapshots v = (w_snapshots w @ [?s]) @ st" "w_logs v = w_logs w @ lt" "w_bctx v = w_bctx w"
    "undo_journal jt (w_accounts v, w_touched v) = (w_accounts w, w_touched w)"
    using assms by (auto simp: world_ext_def Snapshot_def)
  have nth: "w_snapshots v ! length (w_snapshots w) = ?s" by (simp add: v nth_append)
  have len: "length (w_snapshots w) < length (w_snapshots v)" by (simp add: v)
  have "RevertToSnapshot v (length (w_snapshots w)) =
      v\<lparr>w_accounts := w_accounts w, w_touched := w_touched w, w_journal := w_journal w,
        w_logs := w_logs w, w_burned := w_burned w, w_snapshots := w_snapshots w\<rparr>"
    using len by (simp add: RevertToSnapshot_def nth v(1,2,3,5) Let_def)
  also have "\<dots> = w" using v(4) by simp
  finally show ?thesis by (simp add: Snapshot_def)
qed

end
