(* ===== verification/Evm_Word.thy ===== *)
theory Evm_Word
  imports Types "HOL-Library.Signed_Division"
begin

text \<open>
  The arithmetic of the virtual machine (\<^verbatim>\<open>binop\<close> of \<^verbatim>\<open>src/vm/exec.go\<close> and the helpers around
  it): words are arbitrary-precision integers reduced modulo \<open>2 ^ 256\<close> when they are pushed.
  Every two-operand instruction is proved to be the 256-bit machine operation.
\<close>

section \<open>Opcodes (vm/opcodes.go)\<close>

text \<open>One constructor per named opcode; the runs of numbered opcodes carry their number.\<close>

datatype opcode =
    STOP | ADD | MUL | SUB | DIV | SDIV | MOD | SMOD | ADDMOD | MULMOD | EXP | SIGNEXTEND
  | LT | GT | SLT | SGT | EQ | ISZERO | AND | OR | XOR | NOT | BYTE | SHL | SHR | SAR
  | SHA3
  | ADDRESS | BALANCE | EXTCODESIZE | EXTCODECOPY | EXTCODEHASH | SELFBALANCE | ORIGIN | CALLER
  | CALLVALUE | CALLDATALOAD | CALLDATASIZE | CALLDATACOPY | GASPRICE
  | BLOCKHASH | COINBASE | TIMESTAMP | NUMBER | DIFFICULTY | CHAINID | BASEFEE
  | CODESIZE | CODECOPY | RETURNDATASIZE | RETURNDATACOPY | GASLIMIT
  | POP | MLOAD | MSTORE | MSTORE8 | SLOAD | SSTORE | JUMP | JUMPI | PC | MSIZE | GAS | JUMPDEST
  | MCOPY | PUSH0
  | PUSH nat | DUP nat | SWAP nat | LOG nat
  | CREATE | CREATE2 | CALL | RETURN | DELEGATECALL | STATICCALL | REVERT | INVALID
  | UNKNOWN byte

definition opcode_table :: "(nat \<times> opcode) list" where
  "opcode_table =
    [(0x00, STOP), (0x01, ADD), (0x02, MUL), (0x03, SUB), (0x04, DIV), (0x05, SDIV), (0x06, MOD),
     (0x07, SMOD), (0x08, ADDMOD), (0x09, MULMOD), (0x0a, EXP), (0x0b, SIGNEXTEND),
     (0x10, LT), (0x11, GT), (0x12, SLT), (0x13, SGT), (0x14, EQ), (0x15, ISZERO), (0x16, AND),
     (0x17, OR), (0x18, XOR), (0x19, NOT), (0x1a, BYTE), (0x1b, SHL), (0x1c, SHR), (0x1d, SAR),
     (0x20, SHA3),
     (0x30, ADDRESS), (0x31, BALANCE), (0x3b, EXTCODESIZE), (0x3c, EXTCODECOPY),
     (0x3f, EXTCODEHASH), (0x47, SELFBALANCE), (0x32, ORIGIN), (0x33, CALLER), (0x34, CALLVALUE),
     (0x35, CALLDATALOAD), (0x36, CALLDATASIZE), (0x37, CALLDATACOPY), (0x3a, GASPRICE),
     (0x40, BLOCKHASH), (0x41, COINBASE), (0x42, TIMESTAMP), (0x43, NUMBER), (0x44, DIFFICULTY),
     (0x46, CHAINID), (0x48, BASEFEE), (0x38, CODESIZE), (0x39, CODECOPY),
     (0x3d, RETURNDATASIZE), (0x3e, RETURNDATACOPY), (0x45, GASLIMIT),
     (0x50, POP), (0x51, MLOAD), (0x52, MSTORE), (0x53, MSTORE8), (0x54, SLOAD), (0x55, SSTORE),
     (0x56, JUMP), (0x57, JUMPI), (0x58, PC), (0x59, MSIZE), (0x5a, GAS), (0x5b, JUMPDEST),
     (0x5e, MCOPY), (0x5f, PUSH0),
     (0xf0, CREATE), (0xf5, CREATE2), (0xf1, CALL), (0xf3, RETURN), (0xf4, DELEGATECALL),
     (0xfa, STATICCALL), (0xfd, REVERT), (0xfe, INVALID)]"

definition decode_op :: "byte \<Rightarrow> opcode" where
  "decode_op b =
     (let n = unat b in
      if 0x60 \<le> n \<and> n \<le> 0x7f then PUSH (n - 0x60 + 1)
      else if 0x80 \<le> n \<and> n \<le> 0x8f then DUP (n - 0x80 + 1)
      else if 0x90 \<le> n \<and> n \<le> 0x9f then SWAP (n - 0x90 + 1)
      else if 0xa0 \<le> n \<and> n \<le> 0xa4 then LOG (n - 0xa0)
      else case map_of opcode_table n of Some op \<Rightarrow> op | None \<Rightarrow> UNKNOWN b)"

section \<open>math/big operations\<close>

definition big_And :: "int \<Rightarrow> int \<Rightarrow> int" where
  "big_And a b = semiring_bit_operations_class.and a b"

definition big_Or :: "int \<Rightarrow> int \<Rightarrow> int" where
  "big_Or a b = semiring_bit_operations_class.or a b"

definition big_Xor :: "int \<Rightarrow> int \<Rightarrow> int" where
  "big_Xor a b = semiring_bit_operations_class.xor a b"

text \<open>\<^verbatim>\<open>Quo\<close> and \<^verbatim>\<open>Rem\<close> truncate toward zero.\<close>

definition big_Quo :: "int \<Rightarrow> int \<Rightarrow> int" where
  "big_Quo a b = sgn a * sgn b * (\<bar>a\<bar> div \<bar>b\<bar>)"

definition big_Rem :: "int \<Rightarrow> int \<Rightarrow> int" where
  "big_Rem a b = a - big_Quo a b * b"

definition big_Uint64 :: "int \<Rightarrow> nat" where
  "big_Uint64 x = nat (\<bar>x\<bar> mod 2 ^ 64)"

definition big_IsUint64 :: "int \<Rightarrow> bool" where
  "big_IsUint64 x \<longleftrightarrow> 0 \<le> x \<and> x < 2 ^ 64"

fun bit_len :: "nat \<Rightarrow> nat" where
  "bit_len n = (if n = 0 then 0 else Suc (bit_len (n div 2)))"

declare bit_len.simps [simp del]

definition big_BitLen :: "int \<Rightarrow> nat" where
  "big_BitLen x = bit_len (nat \<bar>x\<bar>)"

section \<open>Word helpers (vm/stack.go, vm/exec.go)\<close>

definition tt256 :: int where "tt256 = 2 ^ 256"
definition tt256m1 :: int where "tt256m1 = 2 ^ 256 - 1"
definition tt255 :: int where "tt255 = 2 ^ 255"

definition wrap :: "int \<Rightarrow> int" where
  "wrap v = big_And v tt256m1"

definition toSigned :: "int \<Rightarrow> int" where
  "toSigned x = (if x < tt255 then x else x - tt256)"

definition toUnsigned :: "int \<Rightarrow> int" where
  "toUnsigned x = x mod tt256"

definition boolToInt :: "bool \<Rightarrow> int" where
  "boolToInt b = (if b then 1 else 0)"

definition byteLen :: "int \<Rightarrow> nat" where
  "byteLen x = (big_BitLen x + 7) div 8"

text \<open>
  The value \<^verbatim>\<open>binop\<close> computes for each instruction before the final \<^verbatim>\<open>wrap\<close>: \<open>a\<close> was on top of
  the stack, \<open>b\<close> below it.  The gas of \<^verbatim>\<open>EXP\<close> is charged where \<^verbatim>\<open>binop\<close> is run.
\<close>

definition binop_signextend :: "int \<Rightarrow> int \<Rightarrow> int" where
  "binop_signextend a b =
     (if a > 31 then b
      else let bitPos = 8 * big_Uint64 a + 7;
               mask = push_bit (bitPos + 1) 1 - 1
           in if bit b bitPos then big_Or b (big_Xor tt256m1 mask) else big_And b mask)"

definition binop_byte :: "int \<Rightarrow> int \<Rightarrow> int" where
  "binop_byte a b =
     (if a \<ge> 32 then 0
      else big_And (drop_bit (8 * (31 - big_Uint64 a)) b) 0xff)"

definition binop_sar :: "int \<Rightarrow> int \<Rightarrow> int" where
  "binop_sar a b =
     (let sb = toSigned b in
      if a \<ge> 256 then (if sb < 0 then tt256m1 else 0)
      else toUnsigned (drop_bit (big_Uint64 a) sb))"

definition binop_value :: "opcode \<Rightarrow> int \<Rightarrow> int \<Rightarrow> int" where
  "binop_value op a b =
     (case op of
        ADD \<Rightarrow> a + b
      | MUL \<Rightarrow> a * b
      | SUB \<Rightarrow> a - b
      | DIV \<Rightarrow> (if b = 0 then 0 else a div b)
      | SDIV \<Rightarrow> (if toSigned b = 0 then 0 else toUnsigned (big_Quo (toSigned a) (toSigned b)))
      | MOD \<Rightarrow> (if b = 0 then 0 else a mod b)
      | SMOD \<Rightarrow> (if toSigned b = 0 then 0 else toUnsigned (big_Rem (toSigned a) (toSigned b)))
      | SIGNEXTEND \<Rightarrow> binop_signextend a b
      | BYTE \<Rightarrow> binop_byte a b
      | EXP \<Rightarrow> a ^ nat b mod tt256
      | LT \<Rightarrow> boolToInt (a < b)
      | GT \<Rightarrow> boolToInt (a > b)
      | SLT \<Rightarrow> boolToInt (toSigned a < toSigned b)
      | SGT \<Rightarrow> boolToInt (toSigned a > toSigned b)
      | EQ \<Rightarrow> boolToInt (a = b)
      | AND \<Rightarrow> big_And a b
      | OR \<Rightarrow> big_Or a b
      | XOR \<Rightarrow> big_Xor a b
      | SHL \<Rightarrow> (if a \<ge> 256 then 0 else push_bit (big_Uint64 a) b)
      | SHR \<Rightarrow> (if a \<ge> 256 then 0 else drop_bit (big_Uint64 a) b)
      | SAR \<Rightarrow> binop_sar a b
      | _ \<Rightarrow> 0)"

definition is_binop :: "opcode \<Rightarrow> bool" where
  "is_binop op \<longleftrightarrow> op \<in> {ADD, MUL, SUB, DIV, SDIV, MOD, SMOD, SIGNEXTEND, EXP, LT, GT, SLT, SGT,
     EQ, AND, OR, XOR, BYTE, SHL, SHR, SAR}"

section \<open>Agreement with 256-bit machine arithmetic\<close>

text \<open>The instruction on 256-bit words, in the operations of the word library.\<close>

definition word_binop :: "opcode \<Rightarrow> hash \<Rightarrow> hash \<Rightarrow> hash" where
  "word_binop op x y =
     (case op of
        ADD \<Rightarrow> x + y
      | MUL \<Rightarrow> x * y
      | SUB \<Rightarrow> x - y
      | DIV \<Rightarrow> x div y
      | SDIV \<Rightarrow> word_of_int (sint x sdiv sint y)
      | MOD \<Rightarrow> (if y = 0 then 0 else x mod y)
      | SMOD \<Rightarrow> (if y = 0 then 0 else word_of_int (sint x smod sint y))
      | SIGNEXTEND \<Rightarrow> (if x > 31 then y else signed_take_bit (8 * unat x + 7) y)
      | BYTE \<Rightarrow> (if x > 31 then 0 else take_bit 8 (drop_bit (8 * (31 - unat x)) y))
      | EXP \<Rightarrow> x ^ unat y
      | LT \<Rightarrow> of_bool (x < y)
      | GT \<Rightarrow> of_bool (x > y)
      | SLT \<Rightarrow> of_bool (x <s y)
      | SGT \<Rightarrow> of_bool (y <s x)
      | EQ \<Rightarrow> of_bool (x = y)
      | AND \<Rightarrow> semiring_bit_operations_class.and x y
      | OR \<Rightarrow> semiring_bit_operations_class.or x y
      | XOR \<Rightarrow> semiring_bit_operations_class.xor x y
      | SHL \<Rightarrow> push_bit (unat x) y
      | SHR \<Rightarrow> drop_bit (unat x) y
      | SAR \<Rightarrow> signed_drop_bit (unat x) y
      | _ \<Rightarrow> 0)"

lemma wrap_mod: "wrap v = v mod 2 ^ 256"
proof -
  have m: "tt256m1 = mask 256" by (simp add: tt256m1_def mask_eq_exp_minus_1)
  show ?thesis
    unfolding wrap_def big_And_def m by (simp only: take_bit_eq_mask [symmetric] take_bit_eq_mod)
qed

lemma wrap_range: "0 \<le> wrap v" "wrap v < 2 ^ 256"
  by (simp_all add: wrap_mod)

lemma wrap_id: "0 \<le> v \<Longrightarrow> v < 2 ^ 256 \<Longrightarrow> wrap v = v"
  by (simp add: wrap_mod)

lemma wrap_uint: "wrap v = uint (word_of_int v :: hash)"
  by (simp add: wrap_mod uint_word_of_int)

lemma wrap_of_uint: "wrap (uint (x :: hash)) = uint x"
  by (simp add: wrap_uint)

lemma word_of_int_toUnsigned: "word_of_int (toUnsigned v) = (word_of_int v :: hash)"
  by (rule word_uint_eqI) (simp add: toUnsigned_def tt256_def uint_word_of_int)

lemma uint_hash_range: "0 \<le> uint (x :: hash)" "uint (x :: hash) < 2 ^ 256"
  using uint_lt2p [of x] by simp_all

lemma toSigned_uint: "toSigned (uint (x :: hash)) = sint x"
proof -
  have "bit (uint x) 255 \<longleftrightarrow> \<not> uint x < 2 ^ 255"
  proof (cases "uint x < 2 ^ 255")
    case True
    then have "uint x div 2 ^ 255 = 0" by (intro div_pos_pos_trivial) simp_all
    with True show ?thesis by (simp add: bit_iff_odd)
  next
    case False
    then have "uint x div 2 ^ 255 = 1"
      using uint_hash_range(2) [of x] by (intro int_div_pos_eq [where r = "uint x - 2 ^ 255"]) simp_all
    with False show ?thesis by (simp add: bit_iff_odd)
  qed
  moreover have "sint x = signed_take_bit 255 (uint x)" by (simp add: sint_uint)
  moreover have "take_bit 256 (uint x) = uint x"
    using uint_hash_range [of x] by (simp add: take_bit_int_eq_self)
  ultimately show ?thesis
    by (simp add: signed_take_bit_eq_take_bit_minus toSigned_def tt255_def tt256_def)
qed

lemma big_Quo_sdiv: "big_Quo a b = a sdiv b"
  by (simp add: big_Quo_def signed_divide_int_def)

lemma big_Rem_smod: "big_Rem a b = a smod b"
  by (simp only: big_Rem_def big_Quo_sdiv minus_sdiv_mult_eq_smod)

lemma big_Uint64_small: "0 \<le> a \<Longrightarrow> a < 2 ^ 64 \<Longrightarrow> big_Uint64 a = nat a"
  by (simp add: big_Uint64_def)

text \<open>Each instruction, as an equation between 256-bit words.\<close>

abbreviation (input) word256 :: "int \<Rightarrow> hash" where "word256 \<equiv> word_of_int"

lemma hash_bound: "uint (x :: hash) < 2 ^ 256"
  by (rule uint_hash_range)

lemma word_gt_31: "x > 31 \<Longrightarrow> uint (x :: hash) \<ge> 32" "\<not> x > 31 \<Longrightarrow> uint (x :: hash) < 32"
proof -
  have "x > 31 \<longleftrightarrow> uint x > 31" by (simp add: word_less_def)
  then show "x > 31 \<Longrightarrow> uint x \<ge> 32" "\<not> x > 31 \<Longrightarrow> uint x < 32" by linarith+
qed

lemma binop_add: "word256 (uint x + uint y) = x + y" by (simp add: wi_hom_add [symmetric])
lemma binop_mul: "word256 (uint x * uint y) = x * y" by (simp add: wi_hom_mult [symmetric])
lemma binop_sub: "word256 (uint x - uint y) = x - y" by (simp add: wi_hom_sub [symmetric])
lemma binop_div: "word256 (if uint y = 0 then 0 else uint x div uint y) = x div y"
  by (auto simp: word_div_def uint_0_iff)
lemma binop_mod: "word256 (if uint y = 0 then 0 else uint x mod uint y) = (if y = 0 then 0 else x mod y)"
  by (auto simp: word_mod_def uint_0_iff)
lemma binop_sdiv:
  "word256 (if toSigned (uint y) = 0 then 0 else toUnsigned (big_Quo (toSigned (uint x)) (toSigned (uint y)))) =
     word256 (sint (x :: hash) sdiv sint (y :: hash))"
  by (simp add: toSigned_uint big_Quo_sdiv word_of_int_toUnsigned sdiv_int_div_0)
lemma binop_smod:
  "word256 (if toSigned (uint y) = 0 then 0 else toUnsigned (big_Rem (toSigned (uint x)) (toSigned (uint y)))) =
     (if y = 0 then 0 else word256 (sint (x :: hash) smod sint (y :: hash)))"
proof -
  have "toSigned (uint y) = 0 \<longleftrightarrow> y = 0"
    using signed_word_eqI [of y 0] by (auto simp: toSigned_uint)
  then show ?thesis by (simp add: word_of_int_toUnsigned) (simp add: toSigned_uint big_Rem_smod)
qed
lemma binop_exp: "word256 (uint (x :: hash) ^ nat (uint y) mod tt256) = x ^ unat y"
proof -
  have "word256 (v mod tt256) = word256 v" for v using word_of_int_toUnsigned by (simp add: toUnsigned_def)
  then show ?thesis by (simp only: word_arith_power_alt unat_eq_nat_uint)
qed

lemma binop_cmp:
  fixes x y :: hash
  shows
  "word256 (boolToInt (uint x < uint y)) = of_bool (x < y)"
  "word256 (boolToInt (uint x > uint y)) = of_bool (x > y)"
  "word256 (boolToInt (uint x = uint y)) = of_bool (x = y)"
  "word256 (boolToInt (toSigned (uint x) < toSigned (uint y))) = of_bool (x <s y)"
  "word256 (boolToInt (toSigned (uint x) > toSigned (uint y))) = of_bool (y <s x)"
  by (simp_all add: boolToInt_def word_less_def word_sless_alt toSigned_uint word_uint_eq_iff)

lemma binop_bits:
  "word256 (big_And (uint x) (uint y)) = semiring_bit_operations_class.and x y"
  "word256 (big_Or (uint x) (uint y)) = semiring_bit_operations_class.or x y"
  "word256 (big_Xor (uint x) (uint y)) = semiring_bit_operations_class.xor x y"
  by (simp_all add: big_And_def big_Or_def big_Xor_def unsigned_and_eq [symmetric]
      unsigned_or_eq [symmetric] unsigned_xor_eq [symmetric])

lemma unat_ge_256: "uint x \<ge> 256 \<Longrightarrow> 256 \<le> unat x"
  using uint_nat [of x] by linarith

lemma binop_shl: "word256 (if uint (x :: hash) \<ge> 256 then 0 else push_bit (big_Uint64 (uint x)) (uint y)) =
  push_bit (unat x) (y :: hash)"
proof (cases "uint x \<ge> 256")
  case True
  then have "256 \<le> unat x" by (rule unat_ge_256)
  then show ?thesis using True by simp
next
  case False
  then have "big_Uint64 (uint x) = unat x" by (simp add: big_Uint64_small)
  then show ?thesis using False by (auto intro: bit_word_eqI simp: bit_simps)
qed

lemma binop_shr: "word256 (if uint (x :: hash) \<ge> 256 then 0 else drop_bit (big_Uint64 (uint x)) (uint y)) =
  drop_bit (unat x) (y :: hash)"
proof (cases "uint x \<ge> 256")
  case True
  then have "256 \<le> unat x" by (rule unat_ge_256)
  then show ?thesis using True by simp
next
  case False
  then have "big_Uint64 (uint x) = unat x" by (simp add: big_Uint64_small)
  then show ?thesis using False by (auto intro: bit_word_eqI simp: bit_simps)
qed

lemma binop_sar_word: "word256 (binop_sar (uint (x :: hash)) (uint y)) = signed_drop_bit (unat x) (y :: hash)"
proof (cases "uint x \<ge> 256")
  case True
  then have "256 \<le> unat x" by (rule unat_ge_256)
  then have "signed_drop_bit (unat x) y = (if bit y 255 then - 1 else 0)"
    by (simp add: signed_drop_bit_beyond)
  moreover have "bit y 255 \<longleftrightarrow> sint y < 0" using bit_last_iff [of y] by simp
  ultimately show ?thesis using True
    by (simp add: binop_sar_def toSigned_uint tt256m1_def Let_def)
next
  case False
  then have u: "big_Uint64 (uint x) = unat x" by (simp add: big_Uint64_small)
  have "word256 (drop_bit n (sint y)) = signed_drop_bit n y" for n
    by (simp flip: sint_signed_drop_bit_eq)
  then show ?thesis using False
    by (simp add: binop_sar_def Let_def u toSigned_uint word_of_int_toUnsigned)
qed

lemma binop_byte_word:
  "word256 (binop_byte (uint (x :: hash)) (uint y)) = (if x > 31 then 0 else take_bit 8 (drop_bit (8 * (31 - unat x)) (y :: hash)))"
proof (cases "x > 31")
  case True
  then show ?thesis using word_gt_31(1) [OF True] by (simp add: binop_byte_def)
next
  case False
  have s: "uint x < 32" by (rule word_gt_31(2) [OF False])
  then have u: "big_Uint64 (uint x) = unat x" by (simp add: big_Uint64_small)
  have "(0xff :: int) = mask 8" by (simp add: mask_eq_exp_minus_1)
  then have m: "big_And v 0xff = take_bit 8 v" for v by (simp only: big_And_def take_bit_eq_mask)
  show ?thesis using False s
    by (auto intro!: bit_word_eqI simp: binop_byte_def u m bit_simps)
qed

lemma binop_signextend_word:
  "word256 (binop_signextend (uint (x :: hash)) (uint y)) =
     (if x > 31 then y else signed_take_bit (8 * unat x + 7) (y :: hash))"
proof (cases "x > 31")
  case True
  then show ?thesis using word_gt_31(1) [OF True] by (simp add: binop_signextend_def)
next
  case False
  have s: "uint x < 32" by (rule word_gt_31(2) [OF False])
  then have u: "big_Uint64 (uint x) = unat x" by (simp add: big_Uint64_small)
  define p where "p = 8 * unat x + 7"
  have "unat x < 32" using s uint_nat [of x] by linarith
  then have p: "p < 256" by (simp add: p_def)
  have m: "(push_bit (p + 1) 1 - 1 :: int) = mask (Suc p)" "tt256m1 = mask 256"
    by (simp_all add: mask_eq_exp_minus_1 push_bit_eq_mult tt256m1_def)
  have bit: "bit (uint y) p \<longleftrightarrow> bit y p" by (simp add: bit_simps p)
  have e: "binop_signextend (uint x) (uint y) =
      (if bit y p then big_Or (uint y) (big_Xor (mask 256) (mask (Suc p)))
       else big_And (uint y) (mask (Suc p)))"
    using s by (simp only: binop_signextend_def u Let_def p_def [symmetric] bit m) simp
  have "word256 (binop_signextend (uint x) (uint y)) = signed_take_bit p y"
    by (rule bit_word_eqI)
      (use p in \<open>auto simp: e big_And_def big_Or_def big_Xor_def bit_simps min_def not_le
        le_less_Suc_eq less_Suc_eq\<close>)
  then show ?thesis using False by (simp add: p_def)
qed

text \<open>All twenty-one instructions at once.\<close>

lemma binop_word: "is_binop op \<Longrightarrow> word256 (binop_value op (uint x) (uint y)) = word_binop op x y"
  unfolding is_binop_def insert_iff empty_iff
  by (elim disjE FalseE)
    (simp_all only: binop_value_def word_binop_def opcode.case binop_add binop_mul binop_sub
      binop_div binop_mod binop_sdiv binop_smod binop_exp binop_cmp binop_bits binop_shl binop_shr
      binop_sar_word binop_byte_word binop_signextend_word)

lemma binop_agrees:
  "is_binop op \<Longrightarrow> wrap (binop_value op (uint x) (uint y)) = uint (word_binop op x y)"
  by (simp only: wrap_uint binop_word)

end
