(* ===== verification/Evm_Frame.thy ===== *)
theory Evm_Frame
  imports World Evm_Word
begin

text \<open>
  One call frame of the virtual machine: operand stack (\<^verbatim>\<open>src/vm/stack.go\<close>), memory
  (\<^verbatim>\<open>src/vm/memory.go\<close>), gas (\<^verbatim>\<open>src/vm/opcodes.go\<close>), the interpreter record and its primitive
  steps (\<^verbatim>\<open>src/vm/interpreter.go\<close>, \<^verbatim>\<open>src/vm/exec.go\<close>, \<^verbatim>\<open>src/vm/statedb.go\<close>).

  An operation of the interpreter is a function from the frame to an error or a value and the
  frame it leaves behind: the state written before an error stays written until the caller
  reverts it.  A Go run-time panic (a slice out of range, \<^verbatim>\<open>FillBytes\<close> on a value that does not
  fit, a nil interface) is the error \<open>GoPanic\<close>; it is proved never to occur.
\<close>

section \<open>Gas schedule (vm/opcodes.go)\<close>

definition LogGas :: nat where "LogGas = 375"
definition LogTopicGas :: nat where "LogTopicGas = 375"
definition LogDataGas :: nat where "LogDataGas = 8"
definition CallBaseGas :: nat where "CallBaseGas = 700"
definition CallValueGas :: nat where "CallValueGas = 9000"
definition Keccak256Gas :: nat where "Keccak256Gas = 30"
definition Keccak256WordGas :: nat where "Keccak256WordGas = 6"
definition CreateGas :: nat where "CreateGas = 32000"
definition CreateDataGas :: nat where "CreateDataGas = 200"
definition SloadGas :: nat where "SloadGas = 800"
definition SstoreSetGas :: nat where "SstoreSetGas = 20000"
definition SstoreResetGas :: nat where "SstoreResetGas = 5000"
definition SstoreNoopGas :: nat where "SstoreNoopGas = 800"

definition sstoreGas :: "hash \<Rightarrow> hash \<Rightarrow> nat" where
  "sstoreGas cur next =
     (if cur = next then SstoreNoopGas else if cur = 0 then SstoreSetGas else SstoreResetGas)"

definition isPush :: "opcode \<Rightarrow> nat option" where
  "isPush op = (case op of PUSH n \<Rightarrow> Some n | _ \<Rightarrow> None)"

definition gasCost :: "opcode \<Rightarrow> nat" where
  "gasCost op =
     (case op of
        PUSH n \<Rightarrow> 3 | DUP n \<Rightarrow> 3 | SWAP n \<Rightarrow> 3
      | ADD \<Rightarrow> 3 | SUB \<Rightarrow> 3 | NOT \<Rightarrow> 3 | LT \<Rightarrow> 3 | GT \<Rightarrow> 3 | EQ \<Rightarrow> 3 | ISZERO \<Rightarrow> 3
      | SLT \<Rightarrow> 3 | SGT \<Rightarrow> 3
      | BALANCE \<Rightarrow> 700 | EXTCODESIZE \<Rightarrow> 700 | EXTCODEHASH \<Rightarrow> 700 | EXTCODECOPY \<Rightarrow> 700
      | SELFBALANCE \<Rightarrow> 5
      | AND \<Rightarrow> 3 | OR \<Rightarrow> 3 | XOR \<Rightarrow> 3 | SHL \<Rightarrow> 3 | SHR \<Rightarrow> 3 | SAR \<Rightarrow> 3 | BYTE \<Rightarrow> 3
      | MUL \<Rightarrow> 5 | DIV \<Rightarrow> 5 | MOD \<Rightarrow> 5 | SDIV \<Rightarrow> 5 | SMOD \<Rightarrow> 5 | SIGNEXTEND \<Rightarrow> 5
      | ADDMOD \<Rightarrow> 8 | MULMOD \<Rightarrow> 8
      | EXP \<Rightarrow> 10
      | SHA3 \<Rightarrow> Keccak256Gas
      | POP \<Rightarrow> 2
      | MLOAD \<Rightarrow> 3 | MSTORE \<Rightarrow> 3 | MSTORE8 \<Rightarrow> 3
      | PC \<Rightarrow> 2 | MSIZE \<Rightarrow> 2 | GAS \<Rightarrow> 2
      | PUSH0 \<Rightarrow> 2
      | MCOPY \<Rightarrow> 3
      | ADDRESS \<Rightarrow> 2 | CALLER \<Rightarrow> 2 | CALLVALUE \<Rightarrow> 2 | CALLDATASIZE \<Rightarrow> 2 | GASLIMIT \<Rightarrow> 2
      | ORIGIN \<Rightarrow> 2 | GASPRICE \<Rightarrow> 2 | COINBASE \<Rightarrow> 2 | TIMESTAMP \<Rightarrow> 2
      | NUMBER \<Rightarrow> 2 | DIFFICULTY \<Rightarrow> 2 | CHAINID \<Rightarrow> 2 | BASEFEE \<Rightarrow> 2
      | BLOCKHASH \<Rightarrow> 20
      | CALLDATALOAD \<Rightarrow> 3 | CALLDATACOPY \<Rightarrow> 3
      | CODESIZE \<Rightarrow> 2 | CODECOPY \<Rightarrow> 3
      | RETURNDATASIZE \<Rightarrow> 2 | RETURNDATACOPY \<Rightarrow> 3
      | JUMP \<Rightarrow> 8 | JUMPI \<Rightarrow> 10 | JUMPDEST \<Rightarrow> 1
      | SLOAD \<Rightarrow> SloadGas
      | _ \<Rightarrow> 0)"

section \<open>Frames\<close>

definition maxStack :: nat where "maxStack = 1024"
definition MaxCallDepth :: nat where "MaxCallDepth = 1024"
definition MaxCodeSize :: nat where "MaxCodeSize = 24576"

datatype vm_error =
    ErrOutOfGas | ErrInvalidJump | ErrInvalidOpcode | ErrReverted bytes | ErrNoState
  | ErrReturnDataOutOfBounds | ErrStaticStateChange | ErrStackUnderflow | ErrStackOverflow
  | ErrPrecompile | GoPanic | NoFuel

record vm_context =
  cx_Address :: address
  cx_Caller :: address
  cx_Value :: "int option"
  cx_BlockGasLimit :: nat
  cx_Origin :: address
  cx_GasPrice :: "int option"
  cx_Coinbase :: address
  cx_BlockNumber :: nat
  cx_Time :: nat
  cx_Difficulty :: "int option"
  cx_ChainID :: nat
  cx_BaseFee :: "int option"
  cx_Static :: bool

text \<open>
  The field \<^verbatim>\<open>State\<close> of the Go context is the component \<open>f_state\<close>: frames share one mutable
  state, so it is threaded through.  The head of \<open>f_stack\<close> is the top of the operand stack.
\<close>

record frame =
  f_code :: bytes
  f_input :: bytes
  f_stack :: "int list"
  f_mem :: bytes
  f_pc :: nat
  f_gas :: nat
  f_jumps :: "bool list"
  f_jumped :: bool
  f_ctx :: vm_context
  f_depth :: nat
  f_retdata :: bytes
  f_state :: "world option"

record vm_result =
  res_ret :: bytes
  res_gasleft :: nat
  res_err :: "vm_error option"

type_synonym 'a vm = "frame \<Rightarrow> (vm_error + 'a) \<times> frame"

definition vret :: "'a \<Rightarrow> 'a vm" where
  "vret a = (\<lambda>f. (Inr a, f))"

definition vfail :: "vm_error \<Rightarrow> 'a vm" where
  "vfail e = (\<lambda>f. (Inl e, f))"

definition vbind :: "'a vm \<Rightarrow> ('a \<Rightarrow> 'b vm) \<Rightarrow> 'b vm" where
  "vbind m k = (\<lambda>f. case m f of (Inl e, f') \<Rightarrow> (Inl e, f') | (Inr a, f') \<Rightarrow> k a f')"

definition vget :: "(frame \<Rightarrow> 'a) \<Rightarrow> 'a vm" where
  "vget g = (\<lambda>f. (Inr (g f), f))"

definition vmod :: "(frame \<Rightarrow> frame) \<Rightarrow> unit vm" where
  "vmod h = (\<lambda>f. (Inr (), h f))"

text \<open>A Go expression that panics where the option is \<open>None\<close>.\<close>

definition vopt :: "'a option \<Rightarrow> 'a vm" where
  "vopt x = (case x of None \<Rightarrow> vfail GoPanic | Some a \<Rightarrow> vret a)"

text \<open>A check \<^verbatim>\<open>State == nil\<close> that returns \<^verbatim>\<open>ErrNoState\<close>, and a method call on the interface.\<close>

definition need_state :: "world vm" where
  "need_state = (\<lambda>f. case f_state f of None \<Rightarrow> (Inl ErrNoState, f) | Some w \<Rightarrow> (Inr w, f))"

definition deref_state :: "world vm" where
  "deref_state = (\<lambda>f. case f_state f of None \<Rightarrow> (Inl GoPanic, f) | Some w \<Rightarrow> (Inr w, f))"

definition put_state :: "world \<Rightarrow> unit vm" where
  "put_state w = vmod (\<lambda>f. f\<lparr>f_state := Some w\<rparr>)"

section \<open>The operand stack (vm/stack.go)\<close>

definition st_push :: "int \<Rightarrow> unit vm" where
  "st_push v = (\<lambda>f. if length (f_stack f) \<ge> maxStack then (Inl ErrStackOverflow, f)
     else (Inr (), f\<lparr>f_stack := wrap v # f_stack f\<rparr>))"

definition st_pop :: "int vm" where
  "st_pop = (\<lambda>f. case f_stack f of [] \<Rightarrow> (Inl ErrStackUnderflow, f)
     | v # s \<Rightarrow> (Inr v, f\<lparr>f_stack := s\<rparr>))"

definition st_peek :: "nat \<Rightarrow> int vm" where
  "st_peek n = (\<lambda>f. if n \<ge> length (f_stack f) then (Inl ErrStackUnderflow, f)
     else (Inr (f_stack f ! n), f))"

definition st_dup :: "nat \<Rightarrow> unit vm" where
  "st_dup n = vbind (st_peek (n - 1)) st_push"

definition st_swap :: "nat \<Rightarrow> unit vm" where
  "st_swap n = (\<lambda>f. if n \<ge> length (f_stack f) then (Inl ErrStackUnderflow, f)
     else (Inr (), f\<lparr>f_stack := (f_stack f)[0 := f_stack f ! n, n := f_stack f ! 0]\<rparr>))"

definition pop2 :: "(int \<times> int) vm" where
  "pop2 = vbind st_pop (\<lambda>a. vbind st_pop (\<lambda>b. vret (a, b)))"

definition pop3 :: "(int \<times> int \<times> int) vm" where
  "pop3 = vbind st_pop (\<lambda>a. vbind st_pop (\<lambda>b. vbind st_pop (\<lambda>c. vret (a, b, c))))"

section \<open>Memory (vm/memory.go)\<close>

text \<open>\<^verbatim>\<open>make([]byte, n)\<close> panics when \<open>n\<close> does not fit an \<^verbatim>\<open>int\<close>.\<close>

definition go_make :: "nat \<Rightarrow> bytes option" where
  "go_make n = (if n < 2 ^ 63 then Some (replicate n 0) else None)"

text \<open>\<^verbatim>\<open>copy(out, data[lo:hi])\<close> into a zeroed buffer; a slice expression with \<^verbatim>\<open>hi < lo\<close> panics.\<close>

definition copy_slice :: "bytes \<Rightarrow> bytes \<Rightarrow> nat \<Rightarrow> nat \<Rightarrow> bytes option" where
  "copy_slice out data lo hi =
     (if lo \<le> hi \<and> hi \<le> length data
      then let src = take (length out) (take (hi - lo) (drop lo data))
           in Some (src @ drop (length src) out)
      else None)"

definition mem_resize :: "bytes \<Rightarrow> nat \<Rightarrow> bytes" where
  "mem_resize m sz = (if length m < sz then m @ replicate (sz - length m) 0 else m)"

definition mem_set :: "bytes \<Rightarrow> nat \<Rightarrow> bytes \<Rightarrow> bytes option" where
  "mem_set m offset val =
     (if length val > 0
      then let hi = add64 offset (length val) in
           if offset \<le> hi \<and> hi \<le> length m
           then Some (take offset m @ val @ drop (offset + length val) m) else None
      else Some m)"

text \<open>\<^verbatim>\<open>FillBytes\<close> panics if the absolute value does not fit the buffer.\<close>

definition FillBytes :: "nat \<Rightarrow> int \<Rightarrow> bytes option" where
  "FillBytes k v = (if nat \<bar>v\<bar> < 256 ^ k then Some (be_fixed k (nat \<bar>v\<bar>)) else None)"

definition mem_set32 :: "bytes \<Rightarrow> nat \<Rightarrow> int \<Rightarrow> bytes option" where
  "mem_set32 m offset val = Option.bind (FillBytes 32 val) (mem_set m offset)"

definition mem_get :: "bytes \<Rightarrow> nat \<Rightarrow> nat \<Rightarrow> bytes option" where
  "mem_get m offset sz =
     Option.bind (go_make sz) (\<lambda>out.
       if sz = 0 \<or> offset \<ge> length m then Some out
       else copy_slice out m offset (min (add64 offset sz) (length m)))"

definition toWordSize :: "nat \<Rightarrow> nat" where
  "toWordSize n = add64 n 31 div 32"

definition memoryCost :: "nat \<Rightarrow> nat" where
  "memoryCost words = add64 (mul64 words 3) (mul64 words words div 512)"

definition maxMemBytes :: nat where "maxMemBytes = 2 ^ 32"

definition expansionGas :: "bytes \<Rightarrow> nat \<Rightarrow> nat \<Rightarrow> nat option" where
  "expansionGas m offset sz =
     (if sz = 0 then Some 0
      else let hi = add64 offset sz in
      if hi < offset then None
      else if hi > maxMemBytes then None
      else let newWords = toWordSize hi; oldWords = toWordSize (length m) in
      if newWords \<le> oldWords then Some 0
      else Some (sub64 (memoryCost newWords) (memoryCost oldWords)))"

section \<open>Interpreter primitives (vm/interpreter.go, vm/exec.go)\<close>

definition useGas :: "nat \<Rightarrow> unit vm" where
  "useGas cost = (\<lambda>f. if f_gas f < cost then (Inl ErrOutOfGas, f\<lparr>f_gas := 0\<rparr>)
     else (Inr (), f\<lparr>f_gas := f_gas f - cost\<rparr>))"

definition chargeMem :: "int \<Rightarrow> int \<Rightarrow> unit vm" where
  "chargeMem off sz =
     (if sz = 0 then vret ()
      else if \<not> big_IsUint64 off \<or> \<not> big_IsUint64 sz then vfail ErrOutOfGas
      else vbind (vget (\<lambda>f. expansionGas (f_mem f) (big_Uint64 off) (big_Uint64 sz))) (\<lambda>g.
        case g of None \<Rightarrow> vfail ErrOutOfGas
        | Some gas \<Rightarrow> vbind (useGas gas) (\<lambda>_.
            vmod (\<lambda>f. f\<lparr>f_mem := mem_resize (f_mem f) (add64 (big_Uint64 off) (big_Uint64 sz))\<rparr>))))"

text \<open>\<^verbatim>\<open>in.mem.get\<close> and \<^verbatim>\<open>in.mem.set\<close> on the frame.\<close>

definition read_mem :: "nat \<Rightarrow> nat \<Rightarrow> bytes vm" where
  "read_mem off sz = vbind (vget (\<lambda>f. mem_get (f_mem f) off sz)) vopt"

definition update_mem :: "(bytes \<Rightarrow> bytes option) \<Rightarrow> unit vm" where
  "update_mem upd = (\<lambda>f. case upd (f_mem f) of None \<Rightarrow> (Inl GoPanic, f)
     | Some m \<Rightarrow> (Inr (), f\<lparr>f_mem := m\<rparr>))"

definition write_mem :: "nat \<Rightarrow> bytes \<Rightarrow> unit vm" where
  "write_mem off val = update_mem (\<lambda>m. mem_set m off val)"

definition readMem :: "bytes vm" where
  "readMem =
     vbind st_pop (\<lambda>off. vbind st_pop (\<lambda>sz. vbind (chargeMem off sz) (\<lambda>_.
       read_mem (big_Uint64 off) (big_Uint64 sz))))"

definition getData :: "bytes \<Rightarrow> int \<Rightarrow> nat \<Rightarrow> bytes option" where
  "getData data offset sz =
     Option.bind (go_make sz) (\<lambda>out.
       if sz = 0 \<or> \<not> big_IsUint64 offset then Some out
       else let off = big_Uint64 offset in
         if off \<ge> length data then Some out
         else copy_slice out data off (min (add64 off sz) (length data)))"

text \<open>\<^verbatim>\<open>wordToHash\<close> fills 32 bytes, so it panics on a value of more than 256 bits.\<close>

definition wordToHash :: "int \<Rightarrow> hash option" where
  "wordToHash w = map_option (\<lambda>b. word_of_nat (be_nat b)) (FillBytes 32 w)"

definition wordToAddress :: "int \<Rightarrow> address option" where
  "wordToAddress w = map_option (\<lambda>h. word_of_nat (be_nat (drop 12 (hash_bytes h)))) (wordToHash w)"

definition bigOrZero :: "int option \<Rightarrow> int" where
  "bigOrZero v = (case v of None \<Rightarrow> 0 | Some x \<Rightarrow> x)"

definition jump :: "int \<Rightarrow> unit vm" where
  "jump dest =
     (if \<not> big_IsUint64 dest then vfail ErrInvalidJump
      else (\<lambda>f. let d = big_Uint64 dest in
        if d \<ge> length (f_jumps f) \<or> \<not> f_jumps f ! d then (Inl ErrInvalidJump, f)
        else (Inr (), f\<lparr>f_pc := d, f_jumped := True\<rparr>)))"

definition doPush :: "nat \<Rightarrow> unit vm" where
  "doPush n =
     vbind (vget (\<lambda>f. (f_code f, add64 (f_pc f) 1))) (\<lambda>(code, start).
       let buf = map (\<lambda>i. if add64 start i < length code then code ! add64 start i else 0) [0..<n] in
       vbind (vmod (\<lambda>f. f\<lparr>f_pc := add64 start n\<rparr>)) (\<lambda>_. st_push (int (be_nat buf))))"

function jumpdest_loop :: "bytes \<Rightarrow> nat \<Rightarrow> bool list \<Rightarrow> bool list" where
  "jumpdest_loop code i dests =
     (if i < length code
      then let op = decode_op (code ! i) in
           if op = JUMPDEST then jumpdest_loop code (i + 1) (dests[i := True])
           else case isPush op of
               Some n \<Rightarrow> jumpdest_loop code (i + (n + 1)) dests
             | None \<Rightarrow> jumpdest_loop code (i + 1) dests
      else dests)"
  by pat_completeness auto

termination
  by (relation "measure (\<lambda>(code, i, dests). length code - i)") auto

declare jumpdest_loop.simps [simp del]

definition analyseJumpdests :: "bytes \<Rightarrow> bool list" where
  "analyseJumpdests code = jumpdest_loop code 0 (replicate (length code) False)"

end
