(* ===== verification/Digest.thy ===== *)
theory Digest
  imports Prelude
begin

text \<open>
  The two hash functions behind the precompiled contracts 2 and 3: RIPEMD-160 as
  \<^verbatim>\<open>src/vm/ripemd160.go\<close> implements it, and SHA-256 of the Go standard library
  (\<^verbatim>\<open>crypto/sha256\<close>, FIPS 180-4).  Both work on 32-bit words.
\<close>

type_synonym w32 = "32 word"

definition rotl32 :: "w32 \<Rightarrow> nat \<Rightarrow> w32" where
  "rotl32 x n = semiring_bit_operations_class.or (push_bit n x) (drop_bit (32 - n) x)"

section \<open>RIPEMD-160 (vm/ripemd160.go)\<close>

definition ripemdF :: "nat \<Rightarrow> w32 \<Rightarrow> w32 \<Rightarrow> w32 \<Rightarrow> w32" where
  "ripemdF j x y z =
     (let conj = semiring_bit_operations_class.and; disj = semiring_bit_operations_class.or;
          exor = semiring_bit_operations_class.xor; comp = ring_bit_operations_class.not
      in if j < 16 then exor (exor x y) z
         else if j < 32 then disj (conj x y) (conj (comp x) z)
         else if j < 48 then exor (disj x (comp y)) z
         else if j < 64 then disj (conj x z) (conj y (comp z))
         else exor x (disj y (comp z)))"

definition ripemdKL :: "nat \<Rightarrow> w32" where
  "ripemdKL j = (if j < 16 then 0 else if j < 32 then 0x5A827999 else if j < 48 then 0x6ED9EBA1
     else if j < 64 then 0x8F1BBCDC else 0xA953FD4E)"

definition ripemdKR :: "nat \<Rightarrow> w32" where
  "ripemdKR j = (if j < 16 then 0x50A28BE6 else if j < 32 then 0x5C4DD124 else if j < 48 then 0x6D703EF3
     else if j < 64 then 0x7A6D76E9 else 0)"

definition ripemdRL :: "nat list" where
  "ripemdRL =
    [0, 1, 2, 3, 4, 5, 6, 7, 8, 9, 10, 11, 12, 13, 14, 15,
     7, 4, 13, 1, 10, 6, 15, 3, 12, 0, 9, 5, 2, 14, 11, 8,
     3, 10, 14, 4, 9, 15, 8, 1, 2, 7, 0, 6, 13, 11, 5, 12,
     1, 9, 11, 10, 0, 8, 12, 4, 13, 3, 7, 15, 14, 5, 6, 2,
     4, 0, 5, 9, 7, 12, 2, 10, 14, 1, 3, 8, 11, 6, 15, 13]"

definition ripemdRR :: "nat list" where
  "ripemdRR =
    [5, 14, 7, 0, 9, 2, 11, 4, 13, 6, 15, 8, 1, 10, 3, 12,
     6, 11, 3, 7, 0, 13, 5, 10, 14, 15, 8, 12, 4, 9, 1, 2,
     15, 5, 1, 3, 7, 14, 6, 9, 11, 8, 12, 2, 10, 0, 4, 13,
     8, 6, 4, 1, 3, 11, 15, 0, 5, 12, 2, 13, 9, 7, 10, 14,
     12, 15, 10, 4, 1, 5, 8, 7, 6, 2, 13, 14, 0, 3, 9, 11]"

definition ripemdSL :: "nat list" where
  "ripemdSL =
    [11, 14, 15, 12, 5, 8, 7, 9, 11, 13, 14, 15, 6, 7, 9, 8,
     7, 6, 8, 13, 11, 9, 7, 15, 7, 12, 15, 9, 11, 7, 13, 12,
     11, 13, 6, 7, 14, 9, 13, 15, 14, 8, 13, 6, 5, 12, 7, 5,
     11, 12, 14, 15, 14, 15, 9, 8, 9, 14, 5, 6, 8, 6, 5, 12,
     9, 15, 5, 11, 6, 8, 13, 12, 5, 12, 13, 14, 11, 8, 5, 6]"

definition ripemdSR :: "nat list" where
  "ripemdSR =
    [8, 9, 9, 11, 13, 15, 15, 5, 7, 7, 8, 11, 14, 14, 12, 6,
     9, 13, 15, 7, 12, 8, 9, 11, 7, 7, 12, 7, 6, 15, 13, 11,
     9, 7, 15, 11, 8, 6, 6, 14, 12, 13, 5, 14, 13, 13, 7, 5,
     15, 5, 8, 11, 14, 14, 6, 14, 6, 9, 12, 9, 12, 5, 15, 8,
     8, 5, 12, 9, 12, 5, 14, 6, 8, 13, 6, 5, 15, 13, 11, 11]"

type_synonym rmd_state = "w32 \<times> w32 \<times> w32 \<times> w32 \<times> w32"

definition ripemd_left :: "w32 list \<Rightarrow> nat \<Rightarrow> rmd_state \<Rightarrow> rmd_state" where
  "ripemd_left x j = (\<lambda>(a, b, c, d, e).
     let t = rotl32 (a + ripemdF j b c d + x ! (ripemdRL ! j) + ripemdKL j) (ripemdSL ! j) + e
     in (e, t, b, rotl32 c 10, d))"

definition ripemd_right :: "w32 list \<Rightarrow> nat \<Rightarrow> rmd_state \<Rightarrow> rmd_state" where
  "ripemd_right x j = (\<lambda>(a, b, c, d, e).
     let t = rotl32 (a + ripemdF (79 - j) b c d + x ! (ripemdRR ! j) + ripemdKR j) (ripemdSR ! j) + e
     in (e, t, b, rotl32 c 10, d))"

definition ripemd160Block :: "rmd_state \<Rightarrow> w32 list \<Rightarrow> rmd_state" where
  "ripemd160Block h x =
     (let (h0, h1, h2, h3, h4) = h;
          (al, bl, cl, dl, el) = fold (ripemd_left x) [0..<80] h;
          (ar, br, cr, dr, er) = fold (ripemd_right x) [0..<80] h
      in (h1 + cl + dr, h2 + dl + er, h3 + el + ar, h4 + al + br, h0 + bl + cr))"

text \<open>Little-endian 32-bit words of a byte string, and back.\<close>

fun le_words :: "bytes \<Rightarrow> w32 list" where
  "le_words (a # b # c # d # rest) =
     (ucast a + 256 * ucast b + 65536 * ucast c + 16777216 * ucast d) # le_words rest"
| "le_words _ = []"

definition le_bytes :: "nat \<Rightarrow> nat \<Rightarrow> bytes" where
  "le_bytes k n = rev (be_fixed k n)"

text \<open>The padding both digests share: 0x80, zeros to 56 modulo 64, then the bit length.\<close>

definition digest_pad :: "bytes \<Rightarrow> (nat \<Rightarrow> bytes) \<Rightarrow> bytes" where
  "digest_pad msg enc =
     msg @ [0x80] @ replicate ((119 - length msg mod 64) mod 64) 0 @ enc (mul64 (length msg) 8)"

function blocks64 :: "bytes \<Rightarrow> bytes list" where
  "blocks64 bs = (if bs = [] then [] else take 64 bs # blocks64 (drop 64 bs))"
  by pat_completeness auto

termination
  by (relation "measure length") (auto simp: neq_Nil_conv)

declare blocks64.simps [simp del]

definition ripemd160 :: "bytes \<Rightarrow> bytes" where
  "ripemd160 msg =
     (let padded = digest_pad msg (le_bytes 8);
          (a, b, c, d, e) = fold (\<lambda>blk h. ripemd160Block h (le_words blk)) (blocks64 padded)
            (0x67452301, 0xEFCDAB89, 0x98BADCFE, 0x10325476, 0xC3D2E1F0)
      in concat (map (\<lambda>w. le_bytes 4 (unat w)) [a, b, c, d, e]))"

section \<open>SHA-256 (Go standard library)\<close>

text \<open>
  FIPS 180-4 defines the constants by the first 32 bits of the fractional parts of the cube roots of
  the first 64 primes (round constants) and of the square roots of the first eight (initial state).
  \<open>root_bits k n i 0\<close> is the integer \<open>k\<close>-th root of \<open>n\<close>, found bit by bit from bit \<open>i - 1\<close> down.
\<close>

primrec root_bits :: "nat \<Rightarrow> nat \<Rightarrow> nat \<Rightarrow> nat \<Rightarrow> nat" where
  "root_bits k n 0 r = r"
| "root_bits k n (Suc i) r = root_bits k n i (if (r + 2 ^ i) ^ k \<le> n then r + 2 ^ i else r)"

definition sha256_primes :: "nat list" where
  "sha256_primes =
    [2, 3, 5, 7, 11, 13, 17, 19, 23, 29, 31, 37, 41, 43, 47, 53, 59, 61, 67, 71, 73, 79, 83, 89, 97,
     101, 103, 107, 109, 113, 127, 131, 137, 139, 149, 151, 157, 163, 167, 173, 179, 181, 191, 193,
     197, 199, 211, 223, 227, 229, 233, 239, 241, 251, 257, 263, 269, 271, 277, 281, 283, 293, 307,
     311]"

definition root_frac :: "nat \<Rightarrow> nat \<Rightarrow> w32" where
  "root_frac k p = of_nat (root_bits k (p * 2 ^ (32 * k)) 37 0)"

definition sha256_K :: "w32 list" where
  "sha256_K = map (root_frac 3) sha256_primes"

definition sha256_init :: "w32 list" where
  "sha256_init = map (root_frac 2) (take 8 sha256_primes)"

definition rotr32 :: "w32 \<Rightarrow> nat \<Rightarrow> w32" where
  "rotr32 x n = rotl32 x (32 - n)"

definition sha_xor3 :: "w32 \<Rightarrow> w32 \<Rightarrow> w32 \<Rightarrow> w32" where
  "sha_xor3 a b c = semiring_bit_operations_class.xor (semiring_bit_operations_class.xor a b) c"

fun be_words :: "bytes \<Rightarrow> w32 list" where
  "be_words (a # b # c # d # rest) =
     (16777216 * ucast a + 65536 * ucast b + 256 * ucast c + ucast d) # be_words rest"
| "be_words _ = []"

text \<open>The message schedule: sixteen words from the block, forty-eight derived.\<close>

definition sha_schedule :: "w32 list \<Rightarrow> w32 list" where
  "sha_schedule ws =
     fold (\<lambda>i w.
       let s0 = sha_xor3 (rotr32 (w ! (i - 15)) 7) (rotr32 (w ! (i - 15)) 18) (drop_bit 3 (w ! (i - 15)));
           s1 = sha_xor3 (rotr32 (w ! (i - 2)) 17) (rotr32 (w ! (i - 2)) 19) (drop_bit 10 (w ! (i - 2)))
       in w @ [w ! (i - 16) + s0 + w ! (i - 7) + s1]) [16..<64] ws"

type_synonym sha_state = "w32 \<times> w32 \<times> w32 \<times> w32 \<times> w32 \<times> w32 \<times> w32 \<times> w32"

definition sha_round :: "w32 \<times> w32 \<Rightarrow> sha_state \<Rightarrow> sha_state" where
  "sha_round = (\<lambda>(k, w) (a, b, c, d, e, f, g, h).
     let s1 = sha_xor3 (rotr32 e 6) (rotr32 e 11) (rotr32 e 25);
         ch = semiring_bit_operations_class.xor (semiring_bit_operations_class.and e f)
           (semiring_bit_operations_class.and (ring_bit_operations_class.not e) g);
         t1 = h + s1 + ch + k + w;
         s0 = sha_xor3 (rotr32 a 2) (rotr32 a 13) (rotr32 a 22);
         maj = sha_xor3 (semiring_bit_operations_class.and a b) (semiring_bit_operations_class.and a c)
           (semiring_bit_operations_class.and b c)
     in (t1 + (s0 + maj), a, b, c, d + t1, e, f, g))"

definition sha_block :: "bytes \<Rightarrow> sha_state \<Rightarrow> sha_state" where
  "sha_block blk = (\<lambda>(a, b, c, d, e, f, g, h).
     let (a', b', c', d', e', f', g', h') =
           fold sha_round (zip sha256_K (sha_schedule (be_words blk))) (a, b, c, d, e, f, g, h)
     in (a + a', b + b', c + c', d + d', e + e', f + f', g + g', h + h'))"

definition sha256 :: "bytes \<Rightarrow> bytes" where
  "sha256 msg =
     (let (a, b, c, d, e, f, g, h) = fold sha_block (blocks64 (digest_pad msg (be_fixed 8)))
        (sha256_init ! 0, sha256_init ! 1, sha256_init ! 2, sha256_init ! 3,
         sha256_init ! 4, sha256_init ! 5, sha256_init ! 6, sha256_init ! 7)
      in concat (map (\<lambda>w. be_fixed 4 (unat w)) [a, b, c, d, e, f, g, h]))"

section \<open>Sizes\<close>

lemma length_le_bytes [simp]: "length (le_bytes k n) = k"
  by (simp add: le_bytes_def)

lemma length_ripemd160 [simp]: "length (ripemd160 msg) = 20"
  by (simp add: ripemd160_def Let_def split: prod.split)

lemma length_sha256 [simp]: "length (sha256 msg) = 32"
  by (simp add: sha256_def Let_def split: prod.split)

text \<open>The padded message is a whole number of blocks, so the block loop reads no short block.\<close>

lemma digest_pad_blocks:
  assumes "\<And>n. length (enc n) = 8"
  shows "length (digest_pad msg enc) mod 64 = 0"
proof -
  define r where "r = length msg mod 64"
  have r: "r < 64" by (simp add: r_def)
  have "(length msg + x) mod 64 = (r + x) mod 64" for x by (simp add: r_def mod_add_left_eq)
  then have "(length msg + (1 + (119 - r) mod 64 + 8)) mod 64 = (r + (1 + (119 - r) mod 64 + 8)) mod 64"
    by blast
  also have "\<dots> = 0"
  proof (cases "r < 56")
    case True
    then have "(119 - r) mod 64 = 55 - r" by (simp add: mod_if)
    then show ?thesis using True by simp
  next
    case False
    then have "(119 - r) mod 64 = 119 - r" using r by simp
    then show ?thesis using False r by simp
  qed
  finally show ?thesis by (simp add: digest_pad_def assms r_def add.commute add.left_commute)
qed

end
