(* ===== verification/Evm_Precompiles.thy ===== *)
theory Evm_Precompiles
  imports Evm_Frame Digest
begin

text \<open>
  The precompiled contracts of \<^verbatim>\<open>src/vm/precompiles.go\<close>, \<^verbatim>\<open>src/vm/modexp.go\<close> and
  \<^verbatim>\<open>src/vm/bn256.go\<close>.  A gas function or a contract that would panic yields \<open>None\<close> and
  \<open>GoPanic\<close>; the theory shows that neither happens for any gas a block can carry, because
  the price of modular exponentiation bounds the lengths it allocates.
\<close>

record precompile =
  pc_gas :: "bytes \<Rightarrow> nat option"
  pc_run :: "bytes \<Rightarrow> vm_error + bytes"

section \<open>Hashes, identity and signature recovery (vm/precompiles.go)\<close>

definition linearWordGas :: "nat \<Rightarrow> nat \<Rightarrow> bytes \<Rightarrow> nat" where
  "linearWordGas base perWord input = add64 base (mul64 perWord (toWordSize (length input)))"

definition identityPrecompile :: precompile where
  "identityPrecompile = \<lparr>pc_gas = Some \<circ> linearWordGas 15 3, pc_run = Inr\<rparr>"

definition sha256Precompile :: precompile where
  "sha256Precompile = \<lparr>pc_gas = Some \<circ> linearWordGas 60 12, pc_run = Inr \<circ> sha256\<rparr>"

definition ripemd160Precompile :: precompile where
  "ripemd160Precompile = \<lparr>pc_gas = Some \<circ> linearWordGas 600 120,
     pc_run = (\<lambda>input. Inr (replicate 12 0 @ ripemd160 input))\<rparr>"

definition ecrecoverRun :: "crypto \<Rightarrow> bytes \<Rightarrow> vm_error + bytes" where
  "ecrecoverRun E input =
     (let inp = take 128 (input @ replicate 128 0) in
      if list_ex (\<lambda>b. b \<noteq> 0) (take 31 (drop 32 inp)) then Inr []
      else let v = inp ! 63 in
      if v \<noteq> 27 \<and> v \<noteq> 28 then Inr []
      else let digest = word_of_nat (be_nat (take 32 inp));
               sig = v # take 32 (drop 64 inp) @ take 32 (drop 96 inp)
           in case RecoverAddress E digest sig of
                None \<Rightarrow> Inr []
              | Some addr \<Rightarrow> Inr (replicate 12 0 @ addr_bytes addr))"

definition ecrecoverPrecompile :: "crypto \<Rightarrow> precompile" where
  "ecrecoverPrecompile E = \<lparr>pc_gas = (\<lambda>input. Some 3000), pc_run = ecrecoverRun E\<rparr>"

section \<open>Modular exponentiation (vm/modexp.go)\<close>

definition modexpQuadDivisor :: int where "modexpQuadDivisor = 20"

definition be_int :: "bytes \<Rightarrow> int" where
  "be_int b = int (be_nat b)"

definition modexpHeader :: "bytes \<Rightarrow> (int \<times> int \<times> int) option" where
  "modexpHeader input =
     Option.bind (getData input 0 32) (\<lambda>a. Option.bind (getData input 32 32) (\<lambda>b.
       Option.bind (getData input 64 32) (\<lambda>c. Some (be_int a, be_int b, be_int c))))"

definition adjustedFromHead :: "int \<Rightarrow> int \<Rightarrow> int" where
  "adjustedFromHead head base = (if head = 0 then base else base + int (big_BitLen head - 1))"

definition multComplexity :: "int \<Rightarrow> int" where
  "multComplexity x =
     (if x \<le> 64 then x * x
      else if x \<le> 1024 then x * x div 4 + x * 96 - 3072
      else x * x div 16 + x * 480 - 199680)"

text \<open>\<^verbatim>\<open>modexpGas\<close> in its three parts: the exponent head, the price, and their composition.\<close>

definition modexp_adjExpLen :: "bytes \<Rightarrow> int \<Rightarrow> int \<Rightarrow> int option" where
  "modexp_adjExpLen input expOff expLen =
     (if expLen \<le> 32
      then map_option (\<lambda>d. adjustedFromHead (be_int d) 0) (getData input expOff (big_Uint64 expLen))
      else map_option (\<lambda>d. adjustedFromHead (be_int d) ((expLen - 32) * 8)) (getData input expOff 32))"

definition modexp_price :: "int \<Rightarrow> int \<Rightarrow> nat" where
  "modexp_price maxLen adj0 =
     (let adjExpLen = (if adj0 < 1 then 1 else adj0);
          cost = multComplexity maxLen * adjExpLen div modexpQuadDivisor
      in if \<not> big_IsUint64 cost then 2 ^ 64 - 1 else big_Uint64 cost)"

definition modexpGas :: "bytes \<Rightarrow> nat option" where
  "modexpGas input =
     Option.bind (modexpHeader input) (\<lambda>(baseLen, expLen, modLen).
       map_option (modexp_price (if modLen > baseLen then modLen else baseLen))
         (modexp_adjExpLen input (96 + baseLen) expLen))"

definition go_panic :: "'a option \<Rightarrow> vm_error + 'a" where
  "go_panic x = (case x of None \<Rightarrow> Inl GoPanic | Some a \<Rightarrow> Inr a)"

definition modexpRun :: "bytes \<Rightarrow> vm_error + bytes" where
  "modexpRun input =
     go_panic (Option.bind (modexpHeader input) (\<lambda>(baseLenB, expLenB, modLenB).
       let baseLen = big_Uint64 baseLenB; expLen = big_Uint64 expLenB; modLen = big_Uint64 modLenB in
       if modLen = 0 then Some []
       else let baseOff = 96; expOff = baseOff + baseLenB; modOff = expOff + expLenB in
       Option.bind (getData input baseOff baseLen) (\<lambda>base.
       Option.bind (getData input expOff expLen) (\<lambda>exp.
       Option.bind (getData input modOff modLen) (\<lambda>modb.
       Option.bind (go_make modLen) (\<lambda>out.
         if be_int modb = 0 then Some out
         else FillBytes modLen (be_int base ^ nat (be_int exp) mod be_int modb)))))))"

definition modexpPrecompile :: precompile where
  "modexpPrecompile = \<lparr>pc_gas = modexpGas, pc_run = modexpRun\<rparr>"

section \<open>The pairing curve (vm/bn256.go)\<close>

definition bn256AddGas :: nat where "bn256AddGas = 150"
definition bn256ScalarMulGas :: nat where "bn256ScalarMulGas = 6000"
definition bn256PairingBase :: nat where "bn256PairingBase = 45000"
definition bn256PairingPer :: nat where "bn256PairingPer = 34000"
definition bn256PairSize :: nat where "bn256PairSize = 192"

text \<open>A parsed point is represented by the bytes it was parsed from.\<close>

definition newG1 :: "crypto \<Rightarrow> bytes \<Rightarrow> vm_error + bytes" where
  "newG1 E blob = (if g1_unmarshal_ok E blob then Inr blob else Inl ErrPrecompile)"

definition newG2 :: "crypto \<Rightarrow> bytes \<Rightarrow> vm_error + bytes" where
  "newG2 E blob = (if g2_unmarshal_ok E blob then Inr blob else Inl ErrPrecompile)"

definition sbind :: "'e + 'a \<Rightarrow> ('a \<Rightarrow> 'e + 'b) \<Rightarrow> 'e + 'b" where
  "sbind m k = (case m of Inl e \<Rightarrow> Inl e | Inr a \<Rightarrow> k a)"

definition bn256AddRun :: "crypto \<Rightarrow> bytes \<Rightarrow> vm_error + bytes" where
  "bn256AddRun E input =
     sbind (sbind (go_panic (getData input 0 64)) (newG1 E)) (\<lambda>x.
     sbind (sbind (go_panic (getData input 64 64)) (newG1 E)) (\<lambda>y.
       Inr (g1_add E x y)))"

definition bn256AddPrecompile :: "crypto \<Rightarrow> precompile" where
  "bn256AddPrecompile E = \<lparr>pc_gas = (\<lambda>input. Some bn256AddGas), pc_run = bn256AddRun E\<rparr>"

definition bn256ScalarMulRun :: "crypto \<Rightarrow> bytes \<Rightarrow> vm_error + bytes" where
  "bn256ScalarMulRun E input =
     sbind (sbind (go_panic (getData input 0 64)) (newG1 E)) (\<lambda>p.
     sbind (go_panic (getData input 64 32)) (\<lambda>k.
       Inr (g1_scalar_mult E p (be_nat k))))"

definition bn256ScalarMulPrecompile :: "crypto \<Rightarrow> precompile" where
  "bn256ScalarMulPrecompile E =
     \<lparr>pc_gas = (\<lambda>input. Some bn256ScalarMulGas), pc_run = bn256ScalarMulRun E\<rparr>"

function bn256_pairs :: "crypto \<Rightarrow> bytes \<Rightarrow> vm_error + (bytes \<times> bytes) list" where
  "bn256_pairs E input =
     (if input = [] then Inr []
      else sbind (newG1 E (take 64 input)) (\<lambda>c.
        sbind (newG2 E (take 128 (drop 64 input))) (\<lambda>t.
          sbind (bn256_pairs E (drop bn256PairSize input)) (\<lambda>rest. Inr ((c, t) # rest)))))"
  by pat_completeness auto

termination
  by (relation "measure (\<lambda>(E, input). length input)")
    (auto simp: bn256PairSize_def neq_Nil_conv)

declare bn256_pairs.simps [simp del]

definition bn256PairingRun :: "crypto \<Rightarrow> bytes \<Rightarrow> vm_error + bytes" where
  "bn256PairingRun E input =
     (if length input mod bn256PairSize \<noteq> 0 then Inl ErrPrecompile
      else sbind (bn256_pairs E input) (\<lambda>pairs.
        Inr (replicate 31 0 @ [if pairing_check E pairs then 1 else 0])))"

definition bn256PairingPrecompile :: "crypto \<Rightarrow> precompile" where
  "bn256PairingPrecompile E =
     \<lparr>pc_gas = (\<lambda>input. Some (add64 bn256PairingBase
        (mul64 (length input div bn256PairSize) bn256PairingPer))),
      pc_run = bn256PairingRun E\<rparr>"

section \<open>Dispatch\<close>

definition precompileFor :: "crypto \<Rightarrow> address \<Rightarrow> precompile option" where
  "precompileFor E addr =
     (let bs = addr_bytes addr in
      if list_ex (\<lambda>b. b \<noteq> 0) (take 19 bs) then None
      else let n = unat (bs ! 19) in
        if n = 1 then Some (ecrecoverPrecompile E)
        else if n = 2 then Some sha256Precompile
        else if n = 3 then Some ripemd160Precompile
        else if n = 4 then Some identityPrecompile
        else if n = 5 then Some modexpPrecompile
        else if n = 6 then Some (bn256AddPrecompile E)
        else if n = 7 then Some (bn256ScalarMulPrecompile E)
        else if n = 8 then Some (bn256PairingPrecompile E)
        else None)"

definition runPrecompile :: "precompile \<Rightarrow> bytes \<Rightarrow> nat \<Rightarrow> vm_result" where
  "runPrecompile p input gas =
     (case pc_gas p input of
        None \<Rightarrow> \<lparr>res_ret = [], res_gasleft = 0, res_err = Some GoPanic\<rparr>
      | Some cost \<Rightarrow>
          if gas < cost then \<lparr>res_ret = [], res_gasleft = 0, res_err = Some ErrOutOfGas\<rparr>
          else (case pc_run p input of
              Inl e \<Rightarrow> \<lparr>res_ret = [], res_gasleft = 0, res_err = Some e\<rparr>
            | Inr ret \<Rightarrow> \<lparr>res_ret = ret, res_gasleft = gas - cost, res_err = None\<rparr>))"

section \<open>No panic\<close>

text \<open>More gas than any block can carry; every allocation it pays for is far below \<open>2 ^ 63\<close>.\<close>

definition gas_cap :: nat where "gas_cap = 2 ^ 40"

lemma copy_slice_Some:
  assumes "lo \<le> hi" and "hi \<le> length data"
  shows "\<exists>r. copy_slice out data lo hi = Some r \<and> length r = length out"
  using assms by (auto simp: copy_slice_def Let_def)

lemma getData_Some:
  assumes "sz < 2 ^ 63" and "length data < 2 ^ 63"
  shows "\<exists>r. getData data off sz = Some r \<and> length r = sz"
proof (cases "sz = 0 \<or> \<not> big_IsUint64 off \<or> big_Uint64 off \<ge> length data")
  case True
  then show ?thesis using assms(1) by (auto simp: getData_def go_make_def Let_def)
next
  case False
  then have "add64 (big_Uint64 off) sz = big_Uint64 off + sz"
    using assms by (intro add64_id) simp
  then show ?thesis
    using False assms(1) copy_slice_Some [of "big_Uint64 off"
        "min (big_Uint64 off + sz) (length data)" data "replicate sz 0"]
    by (auto simp: getData_def go_make_def Let_def)
qed

lemma modexpHeader_Some:
  assumes "length input < 2 ^ 63"
  obtains a b c where "modexpHeader input = Some (a, b, c)" "0 \<le> a" "0 \<le> b" "0 \<le> c"
proof -
  obtain x y z where "getData input 0 32 = Some x" "getData input 32 32 = Some y"
    "getData input 64 32 = Some z"
    using getData_Some [of 32 input] assms by fastforce
  then show ?thesis using that by (simp add: modexpHeader_def be_int_def)
qed

lemma multComplexity_ge: "1 \<le> x \<Longrightarrow> x \<le> multComplexity x"
proof -
  assume x: "1 \<le> x"
  consider "x \<le> 64" | "64 < x" "x \<le> 1024" | "1024 < x" by linarith
  then show ?thesis
  proof cases
    case 1
    have "x * 1 \<le> x * x" using x by (intro mult_left_mono) simp_all
    then show ?thesis using 1 by (simp add: multComplexity_def)
  next
    case 2
    have "0 \<le> x * x div 4" using x by (simp add: pos_imp_zdiv_nonneg_iff)
    then show ?thesis using 2 by (simp add: multComplexity_def)
  next
    case 3
    have "0 \<le> x * x div 16" using x by (simp add: pos_imp_zdiv_nonneg_iff)
    then show ?thesis using 3 by (simp add: multComplexity_def)
  qed
qed

lemma multComplexity_nonneg: "0 \<le> x \<Longrightarrow> 0 \<le> multComplexity x"
  using multComplexity_ge [of x] by (cases "x = 0") (simp_all add: multComplexity_def)

text \<open>A paid call to the exponentiation has a zero modulus length or short operands.\<close>

lemma modexp_paid:
  assumes len: "length input < 2 ^ 63" and hdr: "modexpHeader input = Some (a, b, c)"
    and nn: "0 \<le> a" "0 \<le> b" "0 \<le> c"
    and cost: "modexpGas input = Some cost" "cost \<le> gas_cap" and c: "c \<noteq> 0"
  shows "a < 2 ^ 46 \<and> b < 2 ^ 46 \<and> c < 2 ^ 46"
proof -
  define m where "m = (if c > a then c else a)"
  obtain adj0 where adj0: "modexp_adjExpLen input (96 + a) b = Some adj0" "cost = modexp_price m adj0"
    using cost(1) hdr by (auto simp: modexpGas_def m_def)
  have big: "(b - 32) * 8 \<le> adj0" if "b > 32"
    using adj0(1) that by (auto simp: modexp_adjExpLen_def adjustedFromHead_def)
  define adj where "adj = (if adj0 < 1 then 1 else adj0)"
  define k where "k = multComplexity m * adj div 20"
  have m1: "1 \<le> m" "a \<le> m" "c \<le> m" using nn c by (auto simp: m_def)
  have mc: "m \<le> multComplexity m" by (rule multComplexity_ge [OF m1(1)])
  have adj1: "1 \<le> adj" by (simp add: adj_def)
  have k: "0 \<le> k" "k \<le> 2 ^ 40"
  proof -
    have "0 \<le> multComplexity m * adj" using mc m1 adj1 by simp
    then show "0 \<le> k" by (simp add: k_def pos_imp_zdiv_nonneg_iff)
    have "cost = (if \<not> big_IsUint64 k then 2 ^ 64 - 1 else big_Uint64 k)"
      using adj0(2) by (simp add: k_def adj_def Let_def modexp_price_def modexpQuadDivisor_def)
    with \<open>0 \<le> k\<close> cost(2) show "k \<le> 2 ^ 40"
      by (auto simp: gas_cap_def big_IsUint64_def big_Uint64_def split: if_splits)
  qed
  have "x < 20 * (2 ^ 40 + 1)" if "x div 20 \<le> 2 ^ 40" for x :: int
    using that mult_div_mod_eq [of 20 x] pos_mod_bound [of 20 x] by simp
  then have p: "multComplexity m * adj < 20 * (2 ^ 40 + 1)" using k(2) by (simp add: k_def)
  have "m * 1 \<le> multComplexity m * adj" using mc adj1 m1 by (intro mult_mono) simp_all
  then have ac: "m < 2 ^ 46" using p by simp
  have "1 * adj \<le> multComplexity m * adj" using mc adj1 m1 by (intro mult_mono) simp_all
  then have "adj < 2 ^ 46" using p by simp
  moreover have "(b - 32) * 8 \<le> adj" if "b > 32" using big [OF that] by (auto simp: adj_def)
  ultimately have "b < 2 ^ 46" by (cases "b > 32") simp_all
  then show ?thesis using ac m1 by linarith
qed

lemma FillBytes_be_int:
  assumes "be_int modb \<noteq> 0"
  shows "\<exists>r. FillBytes (length modb) (x mod be_int modb) = Some r"
proof -
  have "0 \<le> x mod be_int modb" "x mod be_int modb < be_int modb"
    using assms by (simp_all add: be_int_def)
  then have "nat \<bar>x mod be_int modb\<bar> < be_nat modb" by (simp add: be_int_def nat_less_iff)
  then have "nat \<bar>x mod be_int modb\<bar> < 256 ^ length modb" using be_nat_less [of modb] by linarith
  then show ?thesis by (simp add: FillBytes_def)
qed

lemma modexpRun_no_panic:
  assumes len: "length input < 2 ^ 63" and cost: "modexpGas input = Some cost" "cost \<le> gas_cap"
  shows "\<exists>r. modexpRun input = Inr r"
proof -
  obtain a b c where hdr: "modexpHeader input = Some (a, b, c)" and nn: "0 \<le> a" "0 \<le> b" "0 \<le> c"
    using modexpHeader_Some [OF len] .
  show ?thesis
  proof (cases "big_Uint64 c = 0")
    case True
    then show ?thesis by (simp add: modexpRun_def hdr go_panic_def Let_def)
  next
    case False
    then have "c \<noteq> 0" by (auto simp: big_Uint64_def)
    note s = modexp_paid [OF len hdr nn cost this]
    have u: "big_Uint64 a < 2 ^ 63" "big_Uint64 b < 2 ^ 63" "big_Uint64 c < 2 ^ 63"
      using s nn by (simp_all add: big_Uint64_small nat_less_iff)
    obtain x y z where g: "getData input 96 (big_Uint64 a) = Some x"
      "getData input (96 + a) (big_Uint64 b) = Some y"
      "getData input (96 + a + b) (big_Uint64 c) = Some z" "length z = big_Uint64 c"
      using getData_Some [OF u(1) len] getData_Some [OF u(2) len] getData_Some [OF u(3) len] by metis
    obtain r where "be_int z \<noteq> 0 \<Longrightarrow> FillBytes (big_Uint64 c) (be_int x ^ nat (be_int y) mod be_int z) = Some r"
      using FillBytes_be_int g(4) by metis
    then show ?thesis
      using False u(3) by (auto simp: modexpRun_def hdr go_panic_def Let_def g go_make_def)
  qed
qed

text \<open>What every precompiled contract keeps: it never panics and never returns more gas.\<close>

definition precompile_ok :: "precompile \<Rightarrow> bool" where
  "precompile_ok p \<longleftrightarrow>
     (\<forall>input. length input < 2 ^ 63 \<longrightarrow> (\<exists>cost. pc_gas p input = Some cost \<and>
        (cost \<le> gas_cap \<longrightarrow> pc_run p input \<notin> {Inl GoPanic, Inl NoFuel})))"

lemma getData_ok: "length input < 2 ^ 63 \<Longrightarrow> n < 2 ^ 63 \<Longrightarrow> \<exists>r. go_panic (getData input off n) = Inr r"
  using getData_Some [of n input off] by (auto simp: go_panic_def)

lemma newG_ok: "newG1 E b \<noteq> Inl GoPanic" "newG2 E b \<noteq> Inl GoPanic" "newG1 E b \<noteq> Inl NoFuel"
  "newG2 E b \<noteq> Inl NoFuel"
  by (simp_all add: newG1_def newG2_def)

lemma bn256_pairs_ok: "bn256_pairs E input \<notin> {Inl GoPanic, Inl NoFuel}"
proof (induction E input rule: bn256_pairs.induct)
  case (1 E input)
  then show ?case
    by (subst bn256_pairs.simps)
      (auto simp: sbind_def newG1_def newG2_def split: sum.splits if_splits)
qed

lemma precompile_ok_add: "precompile_ok (bn256AddPrecompile E)"
proof -
  have "bn256AddRun E input \<notin> {Inl GoPanic, Inl NoFuel}" if l: "length input < 2 ^ 63" for input
  proof -
    obtain x y where "go_panic (getData input 0 64) = Inr x" "go_panic (getData input 64 64) = Inr y"
      using getData_ok [OF l, of 64] by fastforce
    then show ?thesis by (auto simp: bn256AddRun_def sbind_def newG1_def)
  qed
  then show ?thesis by (simp add: precompile_ok_def bn256AddPrecompile_def)
qed

lemma precompile_ok_mul: "precompile_ok (bn256ScalarMulPrecompile E)"
proof -
  have "bn256ScalarMulRun E input \<notin> {Inl GoPanic, Inl NoFuel}" if l: "length input < 2 ^ 63" for input
  proof -
    obtain x y where "go_panic (getData input 0 64) = Inr x" "go_panic (getData input 64 32) = Inr y"
      using getData_ok [OF l, of 64] getData_ok [OF l, of 32] by fastforce
    then show ?thesis by (auto simp: bn256ScalarMulRun_def sbind_def newG1_def)
  qed
  then show ?thesis by (simp add: precompile_ok_def bn256ScalarMulPrecompile_def)
qed

lemma precompile_ok_pairing: "precompile_ok (bn256PairingPrecompile E)"
proof -
  have "bn256PairingRun E input \<notin> {Inl GoPanic, Inl NoFuel}" for input
    using bn256_pairs_ok [of E input]
    by (auto simp: bn256PairingRun_def sbind_def split: sum.splits)
  then show ?thesis by (simp add: precompile_ok_def bn256PairingPrecompile_def)
qed

lemma modexpGas_Some: "length input < 2 ^ 63 \<Longrightarrow> \<exists>cost. modexpGas input = Some cost"
proof -
  assume len: "length input < 2 ^ 63"
  obtain a b c where hdr: "modexpHeader input = Some (a, b, c)" and nn: "0 \<le> a" "0 \<le> b" "0 \<le> c"
    using modexpHeader_Some [OF len] .
  have "big_Uint64 b < 2 ^ 63" if "b \<le> 32" using that nn by (simp add: big_Uint64_small)
  then have "\<exists>x. modexp_adjExpLen input (96 + a) b = Some x"
    using getData_Some [OF _ len, of "big_Uint64 b" "96 + a"] getData_Some [OF _ len, of 32 "96 + a"]
    by (auto simp: modexp_adjExpLen_def)
  then show ?thesis by (auto simp: modexpGas_def hdr)
qed

lemma precompile_ok_modexp: "precompile_ok modexpPrecompile"
  unfolding precompile_ok_def modexpPrecompile_def precompile.simps
  using modexpGas_Some modexpRun_no_panic by (metis empty_iff insertE Inl_Inr_False)

lemma precompileFor_ok:
  assumes "precompileFor E a = Some p"
  shows "precompile_ok p"
proof -
  have "ecrecoverRun E input \<notin> {Inl GoPanic, Inl NoFuel}" for input
    by (simp add: ecrecoverRun_def Let_def split: option.split)
  then have "precompile_ok q" if "q \<in> {ecrecoverPrecompile E, sha256Precompile, ripemd160Precompile,
      identityPrecompile}" for q
    using that by (auto simp: precompile_ok_def ecrecoverPrecompile_def sha256Precompile_def
        ripemd160Precompile_def identityPrecompile_def)
  then show ?thesis
    using assms precompile_ok_modexp precompile_ok_add precompile_ok_mul precompile_ok_pairing
    by (auto simp: precompileFor_def Let_def split: if_splits)
qed

lemma runPrecompile_ok:
  assumes "precompileFor E a = Some p" and "length input < 2 ^ 63" and "gas \<le> gas_cap"
  shows "res_gasleft (runPrecompile p input gas) \<le> gas \<and>
    res_err (runPrecompile p input gas) \<notin> {Some GoPanic, Some NoFuel}"
proof -
  obtain cost where c: "pc_gas p input = Some cost"
    "cost \<le> gas_cap \<Longrightarrow> pc_run p input \<notin> {Inl GoPanic, Inl NoFuel}"
    using precompileFor_ok [OF assms(1)] assms(2) by (auto simp: precompile_ok_def)
  then show ?thesis
    using assms(3) by (cases "gas < cost") (auto simp: runPrecompile_def split: sum.split)
qed

end
