(* ===== verification/Evm_Exec.thy ===== *)
theory Evm_Exec
  imports Evm_Precompiles
begin

text \<open>
  The instructions (\<^verbatim>\<open>exec\<close> and \<^verbatim>\<open>opLog\<close> of \<^verbatim>\<open>src/vm/exec.go\<close>, \<^verbatim>\<open>opCall\<close> and \<^verbatim>\<open>opCreate\<close> of
  \<^verbatim>\<open>src/vm/call.go\<close>) and the interpreter loop (\<^verbatim>\<open>src/vm/interpreter.go\<close>).  The three mutually
  recursive Go functions \<^verbatim>\<open>execute\<close>, \<^verbatim>\<open>run\<close> and \<^verbatim>\<open>opCall\<close> are tied by a callback: an instruction
  takes the function that executes a sub-call, and \<open>run_fuel\<close> passes itself with less fuel.
\<close>

type_synonym callback =
  "bytes \<Rightarrow> bytes \<Rightarrow> nat \<Rightarrow> vm_context \<Rightarrow> nat \<Rightarrow> world option \<Rightarrow> vm_result \<times> world option"

section \<open>Arithmetic, hashing and the stack\<close>

definition binop :: "opcode \<Rightarrow> int \<Rightarrow> int \<Rightarrow> unit vm" where
  "binop op a b =
     vbind (if op = EXP then useGas (mul64 50 (byteLen b)) else vret ()) (\<lambda>_.
       st_push (wrap (binop_value op a b)))"

definition op_binop :: "opcode \<Rightarrow> unit vm" where
  "op_binop op = vbind pop2 (\<lambda>(a, b). binop op a b)"

definition op_modular :: "opcode \<Rightarrow> unit vm" where
  "op_modular op = vbind pop3 (\<lambda>(a, b, n).
     st_push (if n \<noteq> 0 then (if op = ADDMOD then a + b else a * b) mod n else 0))"

definition op_sha3 :: "crypto \<Rightarrow> unit vm" where
  "op_sha3 E = vbind pop2 (\<lambda>(off, sz).
     vbind (chargeMem off sz) (\<lambda>_.
     vbind (useGas (mul64 Keccak256WordGas (toWordSize (big_Uint64 sz)))) (\<lambda>_.
     vbind (read_mem (big_Uint64 off) (big_Uint64 sz)) (\<lambda>data.
       st_push (uint (keccak256 E data))))))"

definition op_iszero :: "unit vm" where
  "op_iszero = vbind st_pop (\<lambda>a. st_push (if a = 0 then 1 else 0))"

definition op_not :: "unit vm" where
  "op_not = vbind st_pop (\<lambda>a. st_push (wrap (big_Xor a tt256m1)))"

definition op_pop :: "unit vm" where
  "op_pop = vbind st_pop (\<lambda>_. vret ())"

section \<open>Memory and storage\<close>

definition op_mload :: "unit vm" where
  "op_mload = vbind st_pop (\<lambda>off. vbind (chargeMem off 32) (\<lambda>_.
     vbind (read_mem (big_Uint64 off) 32) (\<lambda>data. st_push (be_int data))))"

definition op_mstore :: "unit vm" where
  "op_mstore = vbind pop2 (\<lambda>(off, val). vbind (chargeMem off 32) (\<lambda>_.
     update_mem (\<lambda>m. mem_set32 m (big_Uint64 off) val)))"

definition op_mstore8 :: "unit vm" where
  "op_mstore8 = vbind pop2 (\<lambda>(off, val). vbind (chargeMem off 1) (\<lambda>_.
     write_mem (big_Uint64 off) [word_of_nat (big_Uint64 val mod 256)]))"

definition op_sload :: "unit vm" where
  "op_sload = vbind st_pop (\<lambda>key. vbind need_state (\<lambda>w.
     vbind (vget (\<lambda>f. cx_Address (f_ctx f))) (\<lambda>self.
     vbind (vopt (wordToHash key)) (\<lambda>kh. st_push (uint (GetStorage w self kh))))))"

definition op_sstore :: "unit vm" where
  "op_sstore = vbind (vget f_ctx) (\<lambda>ctx.
     if cx_Static ctx then vfail ErrStaticStateChange
     else vbind pop2 (\<lambda>(key, val). vbind need_state (\<lambda>w.
       vbind (vopt (wordToHash key)) (\<lambda>kh. vbind (vopt (wordToHash val)) (\<lambda>vh.
       vbind (useGas (sstoreGas (GetStorage w (cx_Address ctx) kh) vh)) (\<lambda>_.
         put_state (SetStorage w (cx_Address ctx) kh vh)))))))"

section \<open>The environment\<close>

text \<open>Instructions that push a value of the frame.\<close>

definition env_word :: "opcode \<Rightarrow> frame \<Rightarrow> int" where
  "env_word op f =
     (case op of
        ADDRESS \<Rightarrow> uint (cx_Address (f_ctx f))
      | CALLER \<Rightarrow> uint (cx_Caller (f_ctx f))
      | ORIGIN \<Rightarrow> uint (cx_Origin (f_ctx f))
      | GASPRICE \<Rightarrow> bigOrZero (cx_GasPrice (f_ctx f))
      | COINBASE \<Rightarrow> uint (cx_Coinbase (f_ctx f))
      | TIMESTAMP \<Rightarrow> int (cx_Time (f_ctx f))
      | NUMBER \<Rightarrow> int (cx_BlockNumber (f_ctx f))
      | DIFFICULTY \<Rightarrow> bigOrZero (cx_Difficulty (f_ctx f))
      | CHAINID \<Rightarrow> int (cx_ChainID (f_ctx f))
      | BASEFEE \<Rightarrow> bigOrZero (cx_BaseFee (f_ctx f))
      | CALLVALUE \<Rightarrow> bigOrZero (cx_Value (f_ctx f))
      | GASLIMIT \<Rightarrow> int (cx_BlockGasLimit (f_ctx f))
      | CALLDATASIZE \<Rightarrow> int (length (f_input f))
      | CODESIZE \<Rightarrow> int (length (f_code f))
      | PC \<Rightarrow> int (f_pc f)
      | MSIZE \<Rightarrow> int (length (f_mem f))
      | GAS \<Rightarrow> int (f_gas f)
      | RETURNDATASIZE \<Rightarrow> int (length (f_retdata f))
      | _ \<Rightarrow> 0)"

definition op_env :: "opcode \<Rightarrow> unit vm" where
  "op_env op = vbind (vget (env_word op)) st_push"

definition op_balance :: "unit vm" where
  "op_balance = vbind st_pop (\<lambda>addr. vbind need_state (\<lambda>w.
     vbind (vopt (wordToAddress addr)) (\<lambda>a. st_push (GetBalance w a))))"

definition op_selfbalance :: "unit vm" where
  "op_selfbalance = vbind need_state (\<lambda>w.
     vbind (vget (\<lambda>f. cx_Address (f_ctx f))) (\<lambda>a. st_push (GetBalance w a)))"

definition op_extcodesize :: "unit vm" where
  "op_extcodesize = vbind st_pop (\<lambda>addr. vbind need_state (\<lambda>w.
     vbind (vopt (wordToAddress addr)) (\<lambda>a. st_push (int (length (GetCode w a))))))"

definition op_extcodehash :: "crypto \<Rightarrow> unit vm" where
  "op_extcodehash E = vbind st_pop (\<lambda>addr. vbind need_state (\<lambda>w.
     vbind (vopt (wordToAddress addr)) (\<lambda>a.
       let code = GetCode w a in
       if length code > 0 then st_push (uint (keccak256 E code))
       else if GetBalance w a \<noteq> 0 \<or> GetNonce w a \<noteq> 0 then st_push (uint (keccak256 E []))
       else st_push 0)))"

definition op_blockhash :: "unit vm" where
  "op_blockhash = vbind st_pop (\<lambda>_. st_push 0)"

definition op_calldataload :: "unit vm" where
  "op_calldataload = vbind st_pop (\<lambda>off. vbind (vget (\<lambda>f. getData (f_input f) off 32)) (\<lambda>d.
     vbind (vopt d) (\<lambda>b. st_push (be_int b))))"

text \<open>The copy instructions: charge the window, three gas per word, then copy.\<close>

definition copy_to_mem :: "bytes \<Rightarrow> int \<Rightarrow> int \<Rightarrow> int \<Rightarrow> unit vm" where
  "copy_to_mem data memOff dataOff len =
     vbind (chargeMem memOff len) (\<lambda>_.
     vbind (useGas (mul64 3 (toWordSize (big_Uint64 len)))) (\<lambda>_.
     vbind (vopt (getData data dataOff (big_Uint64 len))) (\<lambda>b. write_mem (big_Uint64 memOff) b)))"

definition op_calldatacopy :: "unit vm" where
  "op_calldatacopy = vbind pop3 (\<lambda>(memOff, dataOff, len).
     vbind (vget f_input) (\<lambda>data. copy_to_mem data memOff dataOff len))"

definition op_codecopy :: "unit vm" where
  "op_codecopy = vbind pop3 (\<lambda>(memOff, codeOff, len).
     vbind (vget f_code) (\<lambda>code. copy_to_mem code memOff codeOff len))"

definition op_extcodecopy :: "unit vm" where
  "op_extcodecopy = vbind st_pop (\<lambda>addr. vbind pop3 (\<lambda>(memOff, codeOff, len).
     vbind need_state (\<lambda>w. vbind (vopt (wordToAddress addr)) (\<lambda>a.
       copy_to_mem (GetCode w a) memOff codeOff len))))"

definition op_returndatacopy :: "unit vm" where
  "op_returndatacopy = vbind pop3 (\<lambda>(memOff, dataOff, len). vbind (vget f_retdata) (\<lambda>rd.
     let hi = dataOff + len in
     if \<not> big_IsUint64 hi \<or> big_Uint64 hi > length rd then vfail ErrReturnDataOutOfBounds
     else vbind (chargeMem memOff len) (\<lambda>_.
       vbind (useGas (mul64 3 (toWordSize (big_Uint64 len)))) (\<lambda>_.
         write_mem (big_Uint64 memOff)
           (take (big_Uint64 hi - big_Uint64 dataOff) (drop (big_Uint64 dataOff) rd))))))"

definition op_mcopy :: "unit vm" where
  "op_mcopy = vbind pop3 (\<lambda>(destOff, srcOff, len).
     vbind (chargeMem destOff len) (\<lambda>_. vbind (chargeMem srcOff len) (\<lambda>_.
     vbind (useGas (mul64 3 (toWordSize (big_Uint64 len)))) (\<lambda>_.
     vbind (read_mem (big_Uint64 srcOff) (big_Uint64 len)) (\<lambda>b. write_mem (big_Uint64 destOff) b)))))"

section \<open>Jumps, events and results\<close>

definition op_jump :: "unit vm" where
  "op_jump = vbind st_pop jump"

definition op_jumpi :: "unit vm" where
  "op_jumpi = vbind pop2 (\<lambda>(dest, cond). if cond \<noteq> 0 then jump dest else vret ())"

fun pop_topics :: "nat \<Rightarrow> hash list vm" where
  "pop_topics 0 = vret []"
| "pop_topics (Suc n) = vbind st_pop (\<lambda>t. vbind (vopt (wordToHash t)) (\<lambda>h.
     vbind (pop_topics n) (\<lambda>hs. vret (h # hs))))"

definition opLog :: "nat \<Rightarrow> unit vm" where
  "opLog n = vbind (vget f_ctx) (\<lambda>ctx.
     if cx_Static ctx then vfail ErrStaticStateChange
     else vbind pop2 (\<lambda>(off, sz). vbind (pop_topics n) (\<lambda>topics.
       vbind (chargeMem off sz) (\<lambda>_.
       vbind (useGas (add64 LogGas (mul64 n LogTopicGas))) (\<lambda>_.
       vbind (useGas (mul64 LogDataGas (big_Uint64 sz))) (\<lambda>_.
       vbind need_state (\<lambda>w.
       vbind (read_mem (big_Uint64 off) (big_Uint64 sz)) (\<lambda>data.
         put_state (AddLog w \<lparr>log_address = cx_Address ctx, log_topics = topics, log_data = data\<rparr>)))))))))"

definition op_revert :: "(bool \<times> bytes) vm" where
  "op_revert = vbind readMem (\<lambda>data. vfail (ErrReverted data))"

section \<open>Calls (vm/call.go)\<close>

datatype call_mode = callRegular | callDelegate | callStatic

definition clampGas :: "int \<Rightarrow> nat" where
  "clampGas w = (if \<not> big_IsUint64 w then 2 ^ 64 - 1 else big_Uint64 w)"

definition call_give :: "nat \<Rightarrow> int \<Rightarrow> nat" where
  "call_give gas gasWord =
     (let give = gas - gas div 64 in if clampGas gasWord < give then clampGas gasWord else give)"

definition opCall_pops :: "call_mode \<Rightarrow> (int \<times> int \<times> int \<times> int \<times> int \<times> int \<times> int) vm" where
  "opCall_pops mode =
     vbind pop2 (\<lambda>(gasWord, toWord).
     vbind (if mode = callRegular then st_pop else vret 0) (\<lambda>value.
     vbind pop2 (\<lambda>(argsOff, argsSize). vbind pop2 (\<lambda>(retOff, retSize).
       vret (gasWord, toWord, value, argsOff, argsSize, retOff, retSize)))))"

definition moves_value :: "call_mode \<Rightarrow> int \<Rightarrow> bool" where
  "moves_value mode value \<longleftrightarrow> mode = callRegular \<and> value > 0"

definition call_context :: "vm_context \<Rightarrow> call_mode \<Rightarrow> address \<Rightarrow> int \<Rightarrow> vm_context" where
  "call_context ctx mode target value =
     (case mode of
        callDelegate \<Rightarrow> ctx
      | callStatic \<Rightarrow> ctx\<lparr>cx_Address := target, cx_Caller := cx_Address ctx, cx_Value := Some 0\<rparr>
      | callRegular \<Rightarrow> ctx\<lparr>cx_Address := target, cx_Caller := cx_Address ctx, cx_Value := Some value\<rparr>)
     \<lparr>cx_Static := (cx_Static ctx \<or> mode = callStatic)\<rparr>"

definition transfer :: "world \<Rightarrow> address \<Rightarrow> address \<Rightarrow> int \<Rightarrow> world" where
  "transfer w src dst value = AddBalance (SubBalance w src value) dst value"

text \<open>
  The part of \<^verbatim>\<open>opCall\<close> that runs the callee: hand over the gas, take a snapshot, move the value,
  execute, take back the rest of the gas, and undo the callee's writes if it failed.  A missing
  fuel or a panic of the callee is one of the whole run.
\<close>

definition sub_call ::
  "(world \<Rightarrow> vm_result \<times> world option) \<Rightarrow> nat \<Rightarrow> (world \<Rightarrow> world) \<Rightarrow> (vm_result \<times> nat) vm" where
  "sub_call callee give prep =
     vbind (vmod (\<lambda>f. f\<lparr>f_gas := f_gas f - give\<rparr>)) (\<lambda>_.
     vbind deref_state (\<lambda>w.
       let (snap, w1) = Snapshot w; (res, w2) = callee (prep w1) in
       vbind (vmod (\<lambda>f. f\<lparr>f_state := w2\<rparr>)) (\<lambda>_.
       if res_err res = Some NoFuel then vfail NoFuel
       else if res_err res = Some GoPanic then vfail GoPanic
       else vbind (vmod (\<lambda>f. f\<lparr>f_gas := add64 (f_gas f) (res_gasleft res)\<rparr>)) (\<lambda>_. vret (res, snap)))))"

definition revert_state :: "nat \<Rightarrow> unit vm" where
  "revert_state snap = vbind deref_state (\<lambda>w. put_state (RevertToSnapshot w snap))"

definition opCall_callee ::
  "crypto \<Rightarrow> callback \<Rightarrow> address \<Rightarrow> bytes \<Rightarrow> nat \<Rightarrow> vm_context \<Rightarrow> nat \<Rightarrow> world \<Rightarrow> vm_result \<times> world option" where
  "opCall_callee E cb target args give sub depth w =
     (case precompileFor E target of
        Some p \<Rightarrow> (runPrecompile p args give, Some w)
      | None \<Rightarrow> cb (GetCode w target) args give sub (depth + 1) (Some w))"

definition opCall_finish :: "int \<Rightarrow> int \<Rightarrow> vm_result \<times> nat \<Rightarrow> unit vm" where
  "opCall_finish retOff retSize = (\<lambda>(res, snap).
     vbind (vmod (\<lambda>f. f\<lparr>f_retdata := res_ret res\<rparr>)) (\<lambda>_.
     vbind (if res_err res \<noteq> None then revert_state snap else vret ()) (\<lambda>_.
     vbind (if retSize > 0
            then write_mem (big_Uint64 retOff)
              (take (min (big_Uint64 retSize) (length (res_ret res))) (res_ret res))
            else vret ()) (\<lambda>_.
       st_push (if res_err res \<noteq> None then 0 else 1)))))"

text \<open>Refusals that do not execute: the depth ceiling, then a balance below the value.\<close>

definition refused :: "bool \<Rightarrow> int \<Rightarrow> bool vm" where
  "refused checked value =
     vbind (vget f_depth) (\<lambda>depth.
       if depth \<ge> MaxCallDepth then vret True
       else if checked then vbind deref_state (\<lambda>w.
         vbind (vget (\<lambda>f. cx_Address (f_ctx f))) (\<lambda>self. vret (GetBalance w self < value)))
       else vret False)"

definition opCall_go ::
  "crypto \<Rightarrow> callback \<Rightarrow> call_mode \<Rightarrow> vm_context \<Rightarrow> address \<Rightarrow> int \<Rightarrow> bytes \<Rightarrow> nat \<Rightarrow> int \<Rightarrow> int \<Rightarrow> unit vm" where
  "opCall_go E cb mode ctx target value args give retOff retSize =
     vbind (vget f_depth) (\<lambda>depth.
       vbind (sub_call
           (opCall_callee E cb target args give (call_context ctx mode target value) depth) give
           (\<lambda>w. if moves_value mode value then transfer w (cx_Address ctx) target value else w))
         (opCall_finish retOff retSize))"

definition opCall_enter ::
  "crypto \<Rightarrow> callback \<Rightarrow> call_mode \<Rightarrow> vm_context \<Rightarrow> int \<Rightarrow> int \<Rightarrow> int \<Rightarrow> int \<Rightarrow> int \<Rightarrow> int \<Rightarrow> int \<Rightarrow> unit vm" where
  "opCall_enter E cb mode ctx gasWord toWord value argsOff argsSize retOff retSize =
     vbind (useGas (if moves_value mode value then CallBaseGas + CallValueGas else CallBaseGas)) (\<lambda>_.
     vbind (chargeMem argsOff argsSize) (\<lambda>_.
     vbind (chargeMem retOff retSize) (\<lambda>_.
     vbind (read_mem (big_Uint64 argsOff) (big_Uint64 argsSize)) (\<lambda>args.
     vbind (vopt (wordToAddress toWord)) (\<lambda>target.
     vbind (vget (\<lambda>f. call_give (f_gas f) gasWord)) (\<lambda>give.
     vbind (vmod (\<lambda>f. f\<lparr>f_retdata := []\<rparr>)) (\<lambda>_.
     vbind (refused (moves_value mode value) value) (\<lambda>no.
       if no then st_push 0
       else opCall_go E cb mode ctx target value args give retOff retSize))))))))"

definition opCall :: "crypto \<Rightarrow> callback \<Rightarrow> call_mode \<Rightarrow> unit vm" where
  "opCall E cb mode =
     vbind (opCall_pops mode) (\<lambda>(gasWord, toWord, value, argsOff, argsSize, retOff, retSize).
     vbind (vget f_ctx) (\<lambda>ctx.
       if moves_value mode value \<and> cx_Static ctx then vfail ErrStaticStateChange
       else opCall_enter E cb mode ctx gasWord toWord value argsOff argsSize retOff retSize))"

section \<open>Contract creation (vm/call.go)\<close>

definition createAddress :: "crypto \<Rightarrow> address \<Rightarrow> nat \<Rightarrow> address" where
  "createAddress E creator nonce =
     addr_of_hash (keccak256 E (rlp_List [rlp_Bytes (addr_bytes creator), rlp_Uint nonce]))"

definition create2Address :: "crypto \<Rightarrow> address \<Rightarrow> hash \<Rightarrow> bytes \<Rightarrow> address" where
  "create2Address E creator salt initCode =
     addr_of_hash (keccak256 E ([0xff] @ addr_bytes creator @ hash_bytes salt @
       hash_bytes (keccak256 E initCode)))"

definition create_context :: "vm_context \<Rightarrow> address \<Rightarrow> int \<Rightarrow> vm_context" where
  "create_context ctx newAddr value =
     ctx\<lparr>cx_Address := newAddr, cx_Caller := cx_Address ctx, cx_Value := Some value\<rparr>"

definition opCreate_finish :: "address \<Rightarrow> vm_result \<times> nat \<Rightarrow> unit vm" where
  "opCreate_finish newAddr = (\<lambda>(res, snap).
     if res_err res \<noteq> None
     then vbind (revert_state snap) (\<lambda>_.
       vbind (vmod (\<lambda>f. f\<lparr>f_retdata := res_ret res\<rparr>)) (\<lambda>_. st_push 0))
     else if length (res_ret res) > MaxCodeSize then vbind (revert_state snap) (\<lambda>_. st_push 0)
     else let codeGas = mul64 CreateDataGas (length (res_ret res)) in
       vbind (vget f_gas) (\<lambda>gas.
       if gas < codeGas then vbind (revert_state snap) (\<lambda>_. st_push 0)
       else vbind (vmod (\<lambda>f. f\<lparr>f_gas := f_gas f - codeGas\<rparr>)) (\<lambda>_.
         vbind deref_state (\<lambda>w. vbind (put_state (SetCode w newAddr (res_ret res))) (\<lambda>_.
         vbind (vmod (\<lambda>f. f\<lparr>f_retdata := []\<rparr>)) (\<lambda>_. st_push (uint newAddr)))))))"

definition opCreate_pops :: "bool \<Rightarrow> (int \<times> int \<times> int \<times> int) vm" where
  "opCreate_pops create2 =
     vbind pop3 (\<lambda>(value, off, sz).
     vbind (if create2 then st_pop else vret 0) (\<lambda>salt. vret (value, off, sz, salt)))"

text \<open>Derive the address, consume the creator's nonce, set the gas aside, check for a collision.\<close>

definition opCreate_go ::
  "callback \<Rightarrow> vm_context \<Rightarrow> address \<Rightarrow> int \<Rightarrow> bytes \<Rightarrow> nat \<Rightarrow> unit vm" where
  "opCreate_go cb ctx newAddr value initCode give =
     vbind (vget f_depth) (\<lambda>depth.
       vbind (sub_call (\<lambda>v. cb initCode [] give (create_context ctx newAddr value) (depth + 1) (Some v))
           give (\<lambda>v. if value > 0 then transfer v (cx_Address ctx) newAddr value else v))
         (opCreate_finish newAddr))"

definition opCreate_address :: "crypto \<Rightarrow> bool \<Rightarrow> address \<Rightarrow> nat \<Rightarrow> int \<Rightarrow> bytes \<Rightarrow> address vm" where
  "opCreate_address E create2 creator nonce salt initCode =
     (if create2 then vbind (vopt (wordToHash salt)) (\<lambda>s. vret (create2Address E creator s initCode))
      else vret (createAddress E creator nonce))"

definition opCreate_enter :: "crypto \<Rightarrow> callback \<Rightarrow> bool \<Rightarrow> vm_context \<Rightarrow> int \<Rightarrow> int \<Rightarrow> bytes \<Rightarrow> unit vm" where
  "opCreate_enter E cb create2 ctx value salt initCode =
     vbind deref_state (\<lambda>w. let creator = cx_Address ctx; nonce = GetNonce w creator in
     vbind (opCreate_address E create2 creator nonce salt initCode) (\<lambda>newAddr.
     let w1 = SetNonce w creator (add64 nonce 1) in
     vbind (put_state w1) (\<lambda>_.
     vbind (vget (\<lambda>f. f_gas f - f_gas f div 64)) (\<lambda>give.
       if GetNonce w1 newAddr \<noteq> 0 \<or> length (GetCode w1 newAddr) > 0
       then vbind (vmod (\<lambda>f. f\<lparr>f_gas := f_gas f - give\<rparr>)) (\<lambda>_. st_push 0)
       else opCreate_go cb ctx newAddr value initCode give))))"

definition opCreate :: "crypto \<Rightarrow> callback \<Rightarrow> bool \<Rightarrow> unit vm" where
  "opCreate E cb create2 =
     vbind (vget f_ctx) (\<lambda>ctx.
     if cx_Static ctx then vfail ErrStaticStateChange
     else vbind (opCreate_pops create2) (\<lambda>(value, off, sz, salt).
     vbind (useGas CreateGas) (\<lambda>_.
     vbind (chargeMem off sz) (\<lambda>_.
     vbind (if create2 then useGas (mul64 Keccak256WordGas (toWordSize (big_Uint64 sz))) else vret ()) (\<lambda>_.
     vbind (read_mem (big_Uint64 off) (big_Uint64 sz)) (\<lambda>initCode.
     vbind (vmod (\<lambda>f. f\<lparr>f_retdata := []\<rparr>)) (\<lambda>_.
     vbind (refused (value > 0) value) (\<lambda>no.
     if no then st_push 0 else opCreate_enter E cb create2 ctx value salt initCode))))))))"

section \<open>One instruction and the loop\<close>

text \<open>An instruction that does not stop the frame.\<close>

definition cont :: "unit vm \<Rightarrow> (bool \<times> bytes) vm" where
  "cont m = vbind m (\<lambda>_. vret (False, []))"

definition exec :: "crypto \<Rightarrow> callback \<Rightarrow> opcode \<Rightarrow> (bool \<times> bytes) vm" where
  "exec E cb op =
     (if is_binop op then cont (op_binop op)
      else case op of
        ADDMOD \<Rightarrow> cont (op_modular op) | MULMOD \<Rightarrow> cont (op_modular op)
      | SHA3 \<Rightarrow> cont (op_sha3 E)
      | ISZERO \<Rightarrow> cont op_iszero
      | NOT \<Rightarrow> cont op_not
      | POP \<Rightarrow> cont op_pop
      | MLOAD \<Rightarrow> cont op_mload
      | MSTORE \<Rightarrow> cont op_mstore
      | MSTORE8 \<Rightarrow> cont op_mstore8
      | SLOAD \<Rightarrow> cont op_sload
      | SSTORE \<Rightarrow> cont op_sstore
      | BALANCE \<Rightarrow> cont op_balance
      | SELFBALANCE \<Rightarrow> cont op_selfbalance
      | EXTCODESIZE \<Rightarrow> cont op_extcodesize
      | EXTCODEHASH \<Rightarrow> cont (op_extcodehash E)
      | BLOCKHASH \<Rightarrow> cont op_blockhash
      | CALLDATALOAD \<Rightarrow> cont op_calldataload
      | CALLDATACOPY \<Rightarrow> cont op_calldatacopy
      | CODECOPY \<Rightarrow> cont op_codecopy
      | EXTCODECOPY \<Rightarrow> cont op_extcodecopy
      | JUMP \<Rightarrow> cont op_jump
      | JUMPI \<Rightarrow> cont op_jumpi
      | JUMPDEST \<Rightarrow> cont (vret ())
      | MCOPY \<Rightarrow> cont op_mcopy
      | RETURNDATACOPY \<Rightarrow> cont op_returndatacopy
      | LOG n \<Rightarrow> cont (opLog n)
      | CREATE \<Rightarrow> cont (opCreate E cb False)
      | CREATE2 \<Rightarrow> cont (opCreate E cb True)
      | CALL \<Rightarrow> cont (opCall E cb callRegular)
      | DELEGATECALL \<Rightarrow> cont (opCall E cb callDelegate)
      | STATICCALL \<Rightarrow> cont (opCall E cb callStatic)
      | RETURN \<Rightarrow> vbind readMem (\<lambda>data. vret (True, data))
      | REVERT \<Rightarrow> op_revert
      | INVALID \<Rightarrow> vfail ErrInvalidOpcode
      | ADDRESS \<Rightarrow> cont (op_env op) | CALLER \<Rightarrow> cont (op_env op) | ORIGIN \<Rightarrow> cont (op_env op)
      | GASPRICE \<Rightarrow> cont (op_env op) | COINBASE \<Rightarrow> cont (op_env op) | TIMESTAMP \<Rightarrow> cont (op_env op)
      | NUMBER \<Rightarrow> cont (op_env op) | DIFFICULTY \<Rightarrow> cont (op_env op) | CHAINID \<Rightarrow> cont (op_env op)
      | BASEFEE \<Rightarrow> cont (op_env op) | CALLVALUE \<Rightarrow> cont (op_env op) | GASLIMIT \<Rightarrow> cont (op_env op)
      | CALLDATASIZE \<Rightarrow> cont (op_env op) | CODESIZE \<Rightarrow> cont (op_env op) | PUSH0 \<Rightarrow> cont (op_env op)
      | PC \<Rightarrow> cont (op_env op) | MSIZE \<Rightarrow> cont (op_env op) | GAS \<Rightarrow> cont (op_env op)
      | RETURNDATASIZE \<Rightarrow> cont (op_env op)
      | _ \<Rightarrow> vfail ErrInvalidOpcode)"

text \<open>
  One iteration of the loop of \<^verbatim>\<open>run\<close>: \<open>Some ret\<close> when it returns, \<open>None\<close> when it goes on.
\<close>

definition next_pc :: "unit vm" where
  "next_pc = vmod (\<lambda>f. if f_jumped f then f\<lparr>f_jumped := False\<rparr> else f\<lparr>f_pc := add64 (f_pc f) 1\<rparr>)"

definition advance :: "unit vm" where
  "advance = vmod (\<lambda>f. f\<lparr>f_pc := add64 (f_pc f) 1\<rparr>)"

definition dispatch :: "crypto \<Rightarrow> callback \<Rightarrow> opcode \<Rightarrow> bytes option vm" where
  "dispatch E cb op =
     (case op of
        STOP \<Rightarrow> vret (Some [])
      | PUSH n \<Rightarrow> vbind (doPush n) (\<lambda>_. vret None)
      | DUP n \<Rightarrow> vbind (st_dup n) (\<lambda>_. vbind advance (\<lambda>_. vret None))
      | SWAP n \<Rightarrow> vbind (st_swap n) (\<lambda>_. vbind advance (\<lambda>_. vret None))
      | _ \<Rightarrow> vbind (exec E cb op) (\<lambda>(done, ret).
          if done then vret (Some ret) else vbind next_pc (\<lambda>_. vret None)))"

definition step :: "crypto \<Rightarrow> callback \<Rightarrow> bytes option vm" where
  "step E cb =
     vbind (vget (\<lambda>f. decode_op (f_code f ! f_pc f))) (\<lambda>op.
     vbind (useGas (gasCost op)) (\<lambda>_. dispatch E cb op))"

definition new_frame ::
  "bytes \<Rightarrow> bytes \<Rightarrow> nat \<Rightarrow> vm_context \<Rightarrow> nat \<Rightarrow> world option \<Rightarrow> frame" where
  "new_frame code input gas ctx depth w =
     \<lparr>f_code = code, f_input = input, f_stack = [], f_mem = [], f_pc = 0, f_gas = gas,
      f_jumps = analyseJumpdests code, f_jumped = False, f_ctx = ctx, f_depth = depth,
      f_retdata = [], f_state = w\<rparr>"

text \<open>The gas policy of \<^verbatim>\<open>execute\<close>: a revert keeps the unspent gas, any other error burns it.\<close>

fun frame_result :: "(vm_error + bytes) \<times> frame \<Rightarrow> vm_result \<times> world option" where
  "frame_result (Inr ret, f) = (\<lparr>res_ret = ret, res_gasleft = f_gas f, res_err = None\<rparr>, f_state f)"
| "frame_result (Inl (ErrReverted ret), f) =
     (\<lparr>res_ret = ret, res_gasleft = f_gas f, res_err = Some (ErrReverted ret)\<rparr>, f_state f)"
| "frame_result (Inl e, f) = (\<lparr>res_ret = [], res_gasleft = 0, res_err = Some e\<rparr>, f_state f)"

definition execute_with :: "(frame \<Rightarrow> (vm_error + bytes) \<times> frame) \<Rightarrow> callback" where
  "execute_with run code input gas ctx depth w =
     frame_result (run (new_frame code input gas ctx depth w))"

primrec run_fuel :: "nat \<Rightarrow> crypto \<Rightarrow> frame \<Rightarrow> (vm_error + bytes) \<times> frame" where
  "run_fuel 0 E f = (Inl NoFuel, f)"
| "run_fuel (Suc n) E f =
     (if f_pc f < length (f_code f)
      then (case step E (execute_with (run_fuel n E)) f of
          (Inl e, f') \<Rightarrow> (Inl e, f')
        | (Inr (Some ret), f') \<Rightarrow> (Inr ret, f')
        | (Inr None, f') \<Rightarrow> run_fuel n E f')
      else (Inr [], f))"

text \<open>
  \<^verbatim>\<open>execute\<close> and \<^verbatim>\<open>Run\<close>: one more unit of fuel than gas is always enough, because every
  iteration that goes on has spent gas.
\<close>

definition execute :: "crypto \<Rightarrow> callback" where
  "execute E code input gas ctx depth w =
     execute_with (run_fuel (Suc gas) E) code input gas ctx depth w"

definition vm_Run :: "crypto \<Rightarrow> bytes \<Rightarrow> bytes \<Rightarrow> nat \<Rightarrow> vm_context \<Rightarrow> world option \<Rightarrow> vm_result \<times> world option" where
  "vm_Run E code input gas ctx w = execute E code input gas ctx 0 w"

end
