(* ===== verification/World_Laws.thy ===== *)
theory World_Laws
  imports World
begin

text \<open>
  The invariant of the world state and the laws its clients rely on: every mutator keeps the
  invariant, the sum of all balances moves by exactly what a mutator writes, and the touched set
  covers every account that changed.
\<close>

section \<open>Invariant\<close>

definition account_ok :: "account \<Rightarrow> bool" where
  "account_ok acc \<longleftrightarrow> acc_nonce acc < 2 ^ 64 \<and> 0 \<le> acc_balance acc \<and>
     finite (dom (acc_storage acc)) \<and> 0 \<notin> ran (acc_storage acc) \<and> length (acc_code acc) < 2 ^ 63"

definition world_ok :: "world \<Rightarrow> bool" where
  "world_ok w \<longleftrightarrow> finite (dom (w_accounts w)) \<and>
     (\<forall>a acc. w_accounts w a = Some acc \<longrightarrow> account_ok acc \<and> \<not> account_vacant acc)"

lemma account_ok_empty [simp]: "account_ok empty_account"
  by (simp add: account_ok_def empty_account_def)

lemma world_ok_Get: "world_ok w \<Longrightarrow> account_ok (world_Get w a)"
  by (auto simp: world_ok_def world_Get_def split: option.split)

lemma world_ok_set: "world_ok w \<Longrightarrow> account_ok acc \<Longrightarrow> world_ok (world_set w a acc)"
  by (auto simp: world_ok_def world_simps)

lemma world_ok_finite: "world_ok w \<Longrightarrow> finite (dom (w_accounts w))"
  by (simp add: world_ok_def)

lemma GetBalance_nonneg: "world_ok w \<Longrightarrow> 0 \<le> GetBalance w a"
  using world_ok_Get [of w a] by (simp add: GetBalance_def account_ok_def)

lemma GetNonce_less: "world_ok w \<Longrightarrow> GetNonce w a < 2 ^ 64"
  using world_ok_Get [of w a] by (simp add: GetNonce_def account_ok_def)

lemma GetCode_short: "world_ok w \<Longrightarrow> length (GetCode w a) < 2 ^ 63"
  using world_ok_Get [of w a] by (simp add: GetCode_Get account_ok_def)

lemma world_ok_SetStorage: "world_ok w \<Longrightarrow> world_ok (SetStorage w a k v)"
  using world_ok_Get [of w a]
  by (auto simp: SetStorage_def Let_def account_ok_def ran_def intro!: world_ok_set split: if_splits)

lemma world_ok_SetNonce: "world_ok w \<Longrightarrow> n < 2 ^ 64 \<Longrightarrow> world_ok (SetNonce w a n)"
  using world_ok_Get [of w a]
  by (auto simp: SetNonce_def account_ok_def intro!: world_ok_set)

lemma world_ok_SetCode: "world_ok w \<Longrightarrow> length c < 2 ^ 63 \<Longrightarrow> world_ok (SetCode w a c)"
  using world_ok_Get [of w a]
  by (auto simp: SetCode_def account_ok_def intro!: world_ok_set)

lemma world_ok_Credit: "world_ok w \<Longrightarrow> 0 \<le> GetBalance w a + v \<Longrightarrow> world_ok (Credit w a v)"
  using world_ok_Get [of w a]
  by (auto simp: Credit_def Let_def account_ok_def GetBalance_def intro!: world_ok_set)

lemma world_ok_SubBalance: "world_ok w \<Longrightarrow> v \<le> GetBalance w a \<Longrightarrow> world_ok (SubBalance w a v)"
  using world_ok_Get [of w a]
  by (auto simp: SubBalance_def Let_def account_ok_def GetBalance_def intro!: world_ok_set)

lemma world_ok_fields:
  "world_ok (AddLog w l) = world_ok w" "world_ok (snd (Snapshot w)) = world_ok w"
  "world_ok (Burn w v) = world_ok w" "world_ok (ClearTouched w) = world_ok w"
  "world_ok (DiscardSnapshots w) = world_ok w" "world_ok (world_Copy w) = world_ok w"
  "world_ok (SetBlockContext w n t d) = world_ok w"
  by (simp_all add: world_ok_def AddLog_def Snapshot_def Burn_def ClearTouched_def
      DiscardSnapshots_def world_Copy_def SetBlockContext_def)

lemma world_ok_New [simp]: "world_ok world_New"
  by (simp add: world_ok_def world_New_def)

section \<open>Balances after a mutation\<close>

lemma world_Get_fields [world_simps]:
  "world_Get (AddLog w l) b = world_Get w b" "world_Get (snd (Snapshot w)) b = world_Get w b"
  "world_Get (Burn w x) b = world_Get w b"
  by (simp_all add: world_Get_def AddLog_def Snapshot_def Burn_def)

lemma GetBalance_mutators [world_simps]:
  "GetBalance (SetStorage w a k v) b = GetBalance w b"
  "GetBalance (SetCode w a c) b = GetBalance w b"
  "GetBalance (SetNonce w a n) b = GetBalance w b"
  "GetBalance (Credit w a x) b = (if b = a then GetBalance w a + x else GetBalance w b)"
  "GetBalance (AddBalance w a x) b = (if b = a then GetBalance w a + x else GetBalance w b)"
  "GetBalance (SubBalance w a x) b = (if b = a then GetBalance w a - x else GetBalance w b)"
  "GetBalance (AddLog w l) b = GetBalance w b"
  "GetBalance (snd (Snapshot w)) b = GetBalance w b"
  "GetBalance (Burn w x) b = GetBalance w b"
  by (simp_all add: world_mutators Let_def world_simps GetBalance_def)

lemma GetNonce_mutators [world_simps]:
  "GetNonce (SetStorage w a k v) b = GetNonce w b"
  "GetNonce (SetCode w a c) b = GetNonce w b"
  "GetNonce (SetNonce w a n) b = (if b = a then n else GetNonce w b)"
  "GetNonce (Credit w a x) b = GetNonce w b"
  "GetNonce (AddBalance w a x) b = GetNonce w b"
  "GetNonce (SubBalance w a x) b = GetNonce w b"
  "GetNonce (AddLog w l) b = GetNonce w b"
  "GetNonce (snd (Snapshot w)) b = GetNonce w b"
  "GetNonce (Burn w x) b = GetNonce w b"
  by (simp_all add: world_mutators Let_def world_simps GetNonce_def)

lemma w_burned_mutators [world_simps]:
  "w_burned (SetStorage w a k v) = w_burned w" "w_burned (SetCode w a c) = w_burned w"
  "w_burned (SetNonce w a n) = w_burned w" "w_burned (Credit w a x) = w_burned w"
  "w_burned (AddBalance w a x) = w_burned w" "w_burned (SubBalance w a x) = w_burned w"
  "w_burned (AddLog w l) = w_burned w" "w_burned (snd (Snapshot w)) = w_burned w"
  by (simp_all add: world_mutators Let_def world_simps AddLog_def Snapshot_def)

section \<open>The sum of all balances\<close>

lemma SumBalances_set:
  assumes "finite (dom (w_accounts w))"
  shows "SumBalances (world_set w a acc) = SumBalances w - GetBalance w a + acc_balance acc"
proof -
  let ?m = "w_accounts w" and ?m' = "w_accounts (world_set w a acc)"
  let ?D = "dom ?m - {a}"
  have D: "finite ?D" using assms by simp
  have rest: "(\<Sum>b\<in>?D. acc_balance (the (?m' b))) = (\<Sum>b\<in>?D. acc_balance (the (?m b)))"
    by (rule sum.cong) (simp_all add: world_simps)
  have sum_at: "(\<Sum>b\<in>dom m. acc_balance (the (m b))) =
      (\<Sum>b\<in>dom m - {a}. acc_balance (the (m b))) + (case m a of None \<Rightarrow> 0 | Some x \<Rightarrow> acc_balance x)"
    if "finite (dom m)" for m :: "address \<rightharpoonup> account"
  proof (cases "m a")
    case None
    then have "dom m - {a} = dom m" by auto
    then show ?thesis using None by simp
  next
    case (Some x)
    then have "a \<in> dom m" by auto
    then show ?thesis using Some that by (simp add: sum.remove)
  qed
  have f': "finite (dom ?m')" using assms by (simp add: world_simps)
  have dom': "dom ?m' - {a} = ?D" by (auto simp: world_simps)
  have new: "(case ?m' a of None \<Rightarrow> 0 | Some x \<Rightarrow> acc_balance x) = acc_balance acc"
    by (simp add: world_simps account_vacant_def)
  have old: "(case ?m a of None \<Rightarrow> 0 | Some x \<Rightarrow> acc_balance x) = GetBalance w a"
    by (simp add: GetBalance_def world_Get_def empty_account_def split: option.split)
  have "SumBalances (world_set w a acc) = (\<Sum>b\<in>?D. acc_balance (the (?m b))) + acc_balance acc"
    unfolding SumBalances_def using sum_at [OF f'] new rest by (simp add: dom')
  moreover have "SumBalances w = (\<Sum>b\<in>?D. acc_balance (the (?m b))) + GetBalance w a"
    unfolding SumBalances_def using sum_at [OF assms] old by simp
  ultimately show ?thesis by simp
qed

lemma SumBalances_mutators [world_simps]:
  assumes "world_ok w"
  shows "SumBalances (SetStorage w a k v) = SumBalances w"
    and "SumBalances (SetCode w a c) = SumBalances w"
    and "SumBalances (SetNonce w a n) = SumBalances w"
    and "SumBalances (Credit w a x) = SumBalances w + x"
    and "SumBalances (AddBalance w a x) = SumBalances w + x"
    and "SumBalances (SubBalance w a x) = SumBalances w - x"
  using world_ok_finite [OF assms]
  by (auto simp: world_mutators Let_def SumBalances_set GetBalance_def)

lemma SumBalances_fields [world_simps]:
  "SumBalances (AddLog w l) = SumBalances w" "SumBalances (snd (Snapshot w)) = SumBalances w"
  "SumBalances (Burn w x) = SumBalances w" "SumBalances (ClearTouched w) = SumBalances w"
  "SumBalances (DiscardSnapshots w) = SumBalances w" "SumBalances (world_Copy w) = SumBalances w"
  "SumBalances (SetBlockContext w n t d) = SumBalances w"
  by (simp_all add: SumBalances_def AddLog_def Snapshot_def Burn_def ClearTouched_def
      DiscardSnapshots_def world_Copy_def SetBlockContext_def)

section \<open>The touched set covers every change\<close>

definition covers :: "world \<Rightarrow> world \<Rightarrow> bool" where
  "covers w v \<longleftrightarrow> w_touched w \<subseteq> w_touched v \<and>
     (\<forall>a. a \<notin> w_touched v \<longrightarrow> w_accounts v a = w_accounts w a) \<and>
     (finite (w_touched w) \<longrightarrow> finite (w_touched v))"

lemma covers_refl [simp, intro]: "covers w w"
  by (simp add: covers_def)

lemma covers_trans: "covers u v \<Longrightarrow> covers v w \<Longrightarrow> covers u w"
  by (auto simp: covers_def)

lemma covers_set: "covers w (world_set w a acc)"
  by (auto simp: covers_def world_simps)

lemma covers_mutators:
  "covers w (SetStorage w a k v)" "covers w (SetCode w a c)" "covers w (SetNonce w a n)"
  "covers w (Credit w a x)" "covers w (AddBalance w a x)" "covers w (SubBalance w a x)"
  "covers w (AddLog w l)" "covers w (snd (Snapshot w))" "covers w (Burn w x)"
  by (auto simp: world_mutators Let_def covers_set)
    (simp_all add: covers_def AddLog_def Snapshot_def Burn_def)

lemma world_ext_mutators:
  "world_ext w (SetStorage w a k v)" "world_ext w (SetCode w a c)" "world_ext w (SetNonce w a n)"
  "world_ext w (Credit w a x)" "world_ext w (AddBalance w a x)" "world_ext w (SubBalance w a x)"
  by (auto simp: world_mutators Let_def world_ext_set)

lemma world_ext_Burn: "world_ext w (Burn w x)"
  by (simp add: world_ext_def Burn_def undo_journal_def)

end
