(* ===== verification/Evm_Logic.thy ===== *)
theory Evm_Logic
  imports Evm_Exec World_Laws
begin

text \<open>
  A small program logic for interpreter operations.  \<open>vok G m Q f\<close>: run from the frame \<open>f\<close>,
  the operation \<open>m\<close> either fails with an error that is neither a panic nor missing fuel, leaving
  a frame in \<open>G\<close>, or returns a value and a frame related by \<open>Q\<close>.  The locale \<open>world_rel\<close> states
  what a relation between world states must satisfy for every execution to stay inside it.
\<close>

definition vok :: "(frame \<Rightarrow> bool) \<Rightarrow> 'a vm \<Rightarrow> ('a \<Rightarrow> frame \<Rightarrow> bool) \<Rightarrow> frame \<Rightarrow> bool" where
  "vok G m Q f \<longleftrightarrow> (case m f of
     (Inl e, f') \<Rightarrow> G f' \<and> e \<noteq> GoPanic \<and> e \<noteq> NoFuel | (Inr a, f') \<Rightarrow> Q a f')"

lemma vok_bind: "vok G m (\<lambda>a. vok G (k a) Q) f \<Longrightarrow> vok G (vbind m k) Q f"
  by (auto simp: vok_def vbind_def split: prod.splits sum.splits)

lemma vok_ret: "Q a f \<Longrightarrow> vok G (vret a) Q f"
  by (simp add: vok_def vret_def)

lemma vok_fail: "G f \<Longrightarrow> e \<noteq> GoPanic \<Longrightarrow> e \<noteq> NoFuel \<Longrightarrow> vok G (vfail e) Q f"
  by (simp add: vok_def vfail_def)

lemma vok_get: "Q (g f) f \<Longrightarrow> vok G (vget g) Q f"
  by (simp add: vok_def vget_def)

lemma vok_mod: "Q () (h f) \<Longrightarrow> vok G (vmod h) Q f"
  by (simp add: vok_def vmod_def)

lemma vok_opt: "x = Some a \<Longrightarrow> Q a f \<Longrightarrow> vok G (vopt x) Q f"
  by (simp add: vok_def vopt_def vret_def)

lemma vok_if: "(c \<Longrightarrow> vok G m Q f) \<Longrightarrow> (\<not> c \<Longrightarrow> vok G n Q f) \<Longrightarrow> vok G (if c then m else n) Q f"
  by simp

lemma vok_mono:
  assumes "vok G m Q f" and "\<And>f'. G f' \<Longrightarrow> G' f'" and "\<And>a f'. Q a f' \<Longrightarrow> Q' a f'"
  shows "vok G' m Q' f"
  using assms by (auto simp: vok_def split: prod.splits sum.splits)

section \<open>Frames in good standing\<close>

definition word_ok :: "int \<Rightarrow> bool" where
  "word_ok v \<longleftrightarrow> 0 \<le> v \<and> v < 2 ^ 256"

definition frame_inv :: "frame \<Rightarrow> bool" where
  "frame_inv f \<longleftrightarrow> list_all word_ok (f_stack f) \<and> length (f_mem f) \<le> 2 ^ 32 \<and> f_gas f \<le> gas_cap \<and>
     length (f_code f) < 2 ^ 63 \<and> length (f_input f) < 2 ^ 63 \<and>
     (\<exists>w. f_state f = Some w \<and> world_ok w)"

text \<open>What a run from \<open>f0\<close> may have changed when it is at \<open>f\<close>.\<close>

definition good :: "(bool \<Rightarrow> world \<Rightarrow> world \<Rightarrow> bool) \<Rightarrow> frame \<Rightarrow> frame \<Rightarrow> bool" where
  "good R f0 f \<longleftrightarrow> frame_inv f \<and> f_gas f \<le> f_gas f0 \<and> f_code f = f_code f0 \<and>
     f_input f = f_input f0 \<and> f_ctx f = f_ctx f0 \<and> f_depth f = f_depth f0 \<and>
     (\<exists>w0 w. f_state f0 = Some w0 \<and> f_state f = Some w \<and> world_ext w0 w \<and>
        R (cx_Static (f_ctx f0)) w0 w)"

lemma goodD:
  assumes "good R f0 f"
  shows "f_code f = f_code f0" "f_input f = f_input f0" "f_ctx f = f_ctx f0" "f_depth f = f_depth f0"
    "f_gas f \<le> f_gas f0" "f_gas f \<le> gas_cap" "length (f_mem f) \<le> 2 ^ 32"
    "length (f_code f) < 2 ^ 63" "length (f_input f) < 2 ^ 63" "frame_inv f"
  using assms unfolding good_def frame_inv_def by blast+

lemma good_state:
  assumes "good R f0 f"
  obtains w where "f_state f = Some w" "world_ok w"
  using assms by (auto simp: good_def frame_inv_def)

text \<open>Updates of the frame that leave the world alone.\<close>

lemma good_local:
  assumes "good R f0 f" and "list_all word_ok (f_stack f')" and "length (f_mem f') \<le> 2 ^ 32"
    and "f_gas f' \<le> f_gas f" and "f_code f' = f_code f" and "f_input f' = f_input f"
    and "f_ctx f' = f_ctx f" and "f_depth f' = f_depth f" and "f_state f' = f_state f"
  shows "good R f0 f'"
  using assms by (auto simp: good_def frame_inv_def)

lemma good_parts: "good R f0 f \<Longrightarrow> list_all word_ok (f_stack f)"
  by (simp add: good_def frame_inv_def)

lemma word_ok_wrap [simp]: "word_ok (wrap v)"
  using wrap_range [of v] by (simp add: word_ok_def)

section \<open>Primitive operations\<close>

text \<open>\<open>kept f f'\<close>: memory, gas and world of the frame are as before.\<close>

definition kept :: "frame \<Rightarrow> frame \<Rightarrow> bool" where
  "kept f f' \<longleftrightarrow> f_mem f' = f_mem f \<and> f_gas f' = f_gas f \<and> f_state f' = f_state f"

lemma vok_pop:
  assumes "good R f0 f"
    and "\<And>v f'. good R f0 f' \<Longrightarrow> kept f f' \<Longrightarrow> word_ok v \<Longrightarrow> Q v f'"
  shows "vok (good R f0) st_pop Q f"
proof (cases "f_stack f")
  case Nil
  then show ?thesis using assms(1) by (simp add: vok_def st_pop_def)
next
  case (Cons v s)
  have "good R f0 (f\<lparr>f_stack := s\<rparr>)"
    by (rule good_local [OF assms(1)]) (use Cons goodD [OF assms(1)] good_parts [OF assms(1)] in auto)
  moreover have "word_ok v" using Cons good_parts [OF assms(1)] by simp
  ultimately show ?thesis using Cons assms(2) by (simp add: vok_def st_pop_def kept_def)
qed

lemma vok_push:
  assumes "good R f0 f" and "\<And>f'. good R f0 f' \<Longrightarrow> kept f f' \<Longrightarrow> Q () f'"
  shows "vok (good R f0) (st_push v) Q f"
proof -
  have "good R f0 (f\<lparr>f_stack := wrap v # f_stack f\<rparr>)"
    by (rule good_local [OF assms(1)]) (use goodD [OF assms(1)] good_parts [OF assms(1)] in auto)
  then show ?thesis using assms by (simp add: vok_def st_push_def kept_def)
qed

lemma vok_useGas:
  assumes "good R f0 f"
    and "\<And>f'. good R f0 f' \<Longrightarrow> f_gas f' + c = f_gas f \<Longrightarrow> f_mem f' = f_mem f \<Longrightarrow>
      f_state f' = f_state f \<Longrightarrow> Q () f'"
  shows "vok (good R f0) (useGas c) Q f"
proof -
  have "good R f0 (f\<lparr>f_gas := g\<rparr>)" if "g \<le> f_gas f" for g
    by (rule good_local [OF assms(1)]) (use that goodD [OF assms(1)] good_parts [OF assms(1)] in auto)
  then show ?thesis using assms(2) by (simp add: vok_def useGas_def)
qed

text \<open>After a charge the window \<open>[off, off + sz)\<close> is addressable and small.\<close>

definition window :: "int \<Rightarrow> int \<Rightarrow> frame \<Rightarrow> bool" where
  "window off sz f \<longleftrightarrow> big_Uint64 sz \<le> 2 ^ 32 \<and>
     (sz = 0 \<or> big_Uint64 off + big_Uint64 sz \<le> length (f_mem f))"

lemma window_kept: "window off sz f \<Longrightarrow> length (f_mem f) \<le> length (f_mem f') \<Longrightarrow> window off sz f'"
  by (auto simp: window_def)

lemma expansionGas_Some:
  assumes "expansionGas m off sz = Some g" and "sz \<noteq> 0" and "off < 2 ^ 64" and "sz < 2 ^ 64"
  shows "add64 off sz = off + sz" "off + sz \<le> 2 ^ 32"
proof -
  have h: "off \<le> add64 off sz" "add64 off sz \<le> 2 ^ 32"
    using assms by (auto simp: expansionGas_def Let_def maxMemBytes_def split: if_splits)
  have "off + sz < 2 ^ 64"
  proof (rule ccontr)
    assume big: "\<not> off + sz < 2 ^ 64"
    have "add64 off sz = off + sz - 2 ^ 64"
      using big assms(3,4) by (simp add: add64_def mod_if)
    then have "add64 off sz < off" using big assms(4) by simp
    then show False using h(1) by simp
  qed
  then show "add64 off sz = off + sz" by (rule add64_id)
  then show "off + sz \<le> 2 ^ 32" using h(2) by simp
qed

lemma big_Uint64_less: "big_Uint64 x < 2 ^ 64"
  by (simp add: big_Uint64_def nat_less_iff)

lemma big_Uint64_zero_iff: "big_IsUint64 x \<Longrightarrow> big_Uint64 x = 0 \<longleftrightarrow> x = 0"
  by (auto simp: big_IsUint64_def big_Uint64_small)

lemma length_mem_resize: "length (mem_resize m n) = max (length m) n"
  by (simp add: mem_resize_def)

lemma vok_chargeMem:
  assumes g: "good R f0 f"
    and Q: "\<And>f'. good R f0 f' \<Longrightarrow> f_gas f' \<le> f_gas f \<Longrightarrow> length (f_mem f) \<le> length (f_mem f') \<Longrightarrow>
      f_state f' = f_state f \<Longrightarrow> window off sz f' \<Longrightarrow> Q () f'"
  shows "vok (good R f0) (chargeMem off sz) Q f"
proof -
  consider "sz = 0" | "sz \<noteq> 0" "\<not> big_IsUint64 off \<or> \<not> big_IsUint64 sz"
    | "sz \<noteq> 0" "big_IsUint64 off" "big_IsUint64 sz" by blast
  then show ?thesis
  proof cases
    case 1
    then show ?thesis using Q [OF g] by (simp add: chargeMem_def vok_ret window_def big_Uint64_def)
  next
    case 2
    then show ?thesis using g by (simp add: chargeMem_def vok_fail)
  next
    case 3
    show ?thesis
    proof (cases "expansionGas (f_mem f) (big_Uint64 off) (big_Uint64 sz)")
      case None
      then show ?thesis using 3 g by (simp add: chargeMem_def vbind_def vget_def vok_def vfail_def)
    next
      case (Some c)
      have nz: "big_Uint64 sz \<noteq> 0" using 3 big_Uint64_zero_iff by blast
      note e = expansionGas_Some [OF Some nz big_Uint64_less big_Uint64_less]
      have "vok (good R f0) (vbind (useGas c) (\<lambda>_. vmod (\<lambda>f. f\<lparr>f_mem :=
          mem_resize (f_mem f) (add64 (big_Uint64 off) (big_Uint64 sz))\<rparr>))) Q f"
      proof (rule vok_bind, rule vok_useGas [OF g], rule vok_mod, rule Q)
        fix f' assume f': "good R f0 f'" "f_gas f' + c = f_gas f" "f_mem f' = f_mem f" "f_state f' = f_state f"
        let ?f = "f'\<lparr>f_mem := mem_resize (f_mem f') (add64 (big_Uint64 off) (big_Uint64 sz))\<rparr>"
        show "good R f0 ?f"
          by (rule good_local [OF f'(1)])
            (use goodD [OF f'(1)] good_parts [OF f'(1)] e in \<open>simp_all add: length_mem_resize\<close>)
        show "f_gas ?f \<le> f_gas f" using f'(2) by simp
        show "length (f_mem f) \<le> length (f_mem ?f)" using f'(3) by (simp add: length_mem_resize)
        show "f_state ?f = f_state f" using f'(4) by simp
        show "window off sz ?f" using e by (simp add: window_def length_mem_resize)
      qed
      then show ?thesis using 3 Some by (simp add: chargeMem_def vbind_def vget_def vok_def)
    qed
  qed
qed

lemma mem_get_Some:
  assumes "sz \<le> 2 ^ 32" and "sz = 0 \<or> off + sz \<le> length m" and "length m \<le> 2 ^ 32"
  shows "\<exists>r. mem_get m off sz = Some r \<and> length r = sz"
proof (cases "sz = 0 \<or> off \<ge> length m")
  case True
  then show ?thesis using assms(1) by (auto simp: mem_get_def go_make_def)
next
  case False
  then have "add64 off sz = off + sz" using assms by (intro add64_id) simp
  then show ?thesis
    using False assms copy_slice_Some [of off "min (off + sz) (length m)" m "replicate sz 0"]
    by (auto simp: mem_get_def go_make_def)
qed

lemma vok_read_mem:
  assumes "good R f0 f" and "window off sz f"
    and "\<And>b. length b = big_Uint64 sz \<Longrightarrow> Q b f"
  shows "vok (good R f0) (read_mem (big_Uint64 off) (big_Uint64 sz)) Q f"
proof -
  have z: "big_Uint64 sz = 0" if "sz = 0" using that by (simp add: big_Uint64_def)
  obtain r where "mem_get (f_mem f) (big_Uint64 off) (big_Uint64 sz) = Some r" "length r = big_Uint64 sz"
    using mem_get_Some [of "big_Uint64 sz" "big_Uint64 off" "f_mem f"] assms(2) goodD(7) [OF assms(1)] z
    by (auto simp: window_def)
  then show ?thesis using assms(3) by (simp add: read_mem_def vbind_def vget_def vopt_def vok_def vret_def)
qed

lemma vok_update_mem:
  assumes "good R f0 f" and "upd (f_mem f) = Some m" and "length m = length (f_mem f)"
    and "\<And>f'. good R f0 f' \<Longrightarrow> f_gas f' = f_gas f \<Longrightarrow> length (f_mem f') = length (f_mem f) \<Longrightarrow>
      f_state f' = f_state f \<Longrightarrow> Q () f'"
  shows "vok (good R f0) (update_mem upd) Q f"
proof -
  have "good R f0 (f\<lparr>f_mem := m\<rparr>)"
    by (rule good_local [OF assms(1)])
      (use assms(3) goodD [OF assms(1)] good_parts [OF assms(1)] in auto)
  then show ?thesis using assms by (simp add: update_mem_def vok_def)
qed

lemma mem_set_Some:
  assumes "val = [] \<or> off + length val \<le> length m" and "length m \<le> 2 ^ 32"
  shows "\<exists>r. mem_set m off val = Some r \<and> length r = length m"
proof (cases "val = []")
  case False
  then have "add64 off (length val) = off + length val" using assms by (intro add64_id) simp
  then show ?thesis using False assms by (auto simp: mem_set_def Let_def)
qed (simp add: mem_set_def)

lemma vok_write_mem:
  assumes "good R f0 f" and "window off sz f" and "length b \<le> big_Uint64 sz"
    and "\<And>f'. good R f0 f' \<Longrightarrow> f_gas f' = f_gas f \<Longrightarrow> length (f_mem f') = length (f_mem f) \<Longrightarrow>
      f_state f' = f_state f \<Longrightarrow> Q () f'"
  shows "vok (good R f0) (write_mem (big_Uint64 off) b) Q f"
proof -
  have "b = [] \<or> big_Uint64 off + length b \<le> length (f_mem f)"
    using assms(2,3) by (auto simp: window_def big_Uint64_def)
  then obtain r where "mem_set (f_mem f) (big_Uint64 off) b = Some r" "length r = length (f_mem f)"
    using mem_set_Some [of b _ "f_mem f"] goodD(7) [OF assms(1)] by blast
  then show ?thesis unfolding write_mem_def by (intro vok_update_mem [OF assms(1)] assms(4))
qed

lemma FillBytes_word: "word_ok v \<Longrightarrow> FillBytes 32 v = Some (be_fixed 32 (nat v))"
  by (auto simp: word_ok_def FillBytes_def nat_less_iff)

lemma wordToHash_word: "word_ok v \<Longrightarrow> wordToHash v = Some (word_of_nat (nat v))"
proof -
  assume v: "word_ok v"
  then have "nat v < 256 ^ 32" by (simp add: word_ok_def nat_less_iff)
  then have "be_nat (be_fixed 32 (nat v)) = nat v" by (simp add: be_nat_be_fixed)
  then show ?thesis using FillBytes_word [OF v] by (simp add: wordToHash_def)
qed

lemma vok_wordToHash:
  assumes "word_ok v" and "\<And>h. Q h f"
  shows "vok G (vopt (wordToHash v)) Q f"
  using assms by (intro vok_opt [OF wordToHash_word])

lemma vok_wordToAddress:
  assumes "word_ok v" and "\<And>a. Q a f"
  shows "vok G (vopt (wordToAddress v)) Q f"
  using assms by (auto simp: wordToAddress_def wordToHash_word intro!: vok_opt)

lemma vok_getData:
  assumes "sz < 2 ^ 63" and "length data < 2 ^ 63" and "\<And>b. length b = sz \<Longrightarrow> Q b f"
  shows "vok G (vopt (getData data off sz)) Q f"
  using getData_Some [OF assms(1,2), of off] assms(3) by (auto intro!: vok_opt)

lemma vok_set32:
  assumes "good R f0 f" and "window off 32 f" and "word_ok v"
    and "\<And>f'. good R f0 f' \<Longrightarrow> f_gas f' = f_gas f \<Longrightarrow> length (f_mem f') = length (f_mem f) \<Longrightarrow>
      f_state f' = f_state f \<Longrightarrow> Q () f'"
  shows "vok (good R f0) (update_mem (\<lambda>m. mem_set32 m (big_Uint64 off) v)) Q f"
proof -
  have "vok (good R f0) (write_mem (big_Uint64 off) (be_fixed 32 (nat v))) Q f"
    by (rule vok_write_mem [OF assms(1,2)]) (use assms(4) in \<open>simp_all add: big_Uint64_def\<close>)
  then show ?thesis
    by (simp add: write_mem_def mem_set32_def FillBytes_word [OF assms(3)])
qed

lemma vok_need_state:
  assumes "good R f0 f" and "\<And>w. f_state f = Some w \<Longrightarrow> world_ok w \<Longrightarrow> Q w f"
  shows "vok (good R f0) need_state Q f"
proof -
  obtain w where "f_state f = Some w" "world_ok w" using good_state [OF assms(1)] .
  then show ?thesis using assms(2) by (simp add: vok_def need_state_def)
qed

lemma vok_deref_state:
  assumes "good R f0 f" and "\<And>w. f_state f = Some w \<Longrightarrow> world_ok w \<Longrightarrow> Q w f"
  shows "vok (good R f0) deref_state Q f"
proof -
  obtain w where "f_state f = Some w" "world_ok w" using good_state [OF assms(1)] .
  then show ?thesis using assms(2) by (simp add: vok_def deref_state_def)
qed

lemma vok_pop2:
  assumes "good R f0 f"
    and "\<And>a b f'. good R f0 f' \<Longrightarrow> kept f f' \<Longrightarrow> word_ok a \<Longrightarrow> word_ok b \<Longrightarrow> Q (a, b) f'"
  shows "vok (good R f0) pop2 Q f"
  unfolding pop2_def
  by (rule vok_bind, rule vok_pop [OF assms(1)], rule vok_bind, rule vok_pop, assumption, rule vok_ret)
    (auto simp: kept_def intro: assms(2))

lemma vok_pop3:
  assumes "good R f0 f"
    and "\<And>a b c f'. good R f0 f' \<Longrightarrow> kept f f' \<Longrightarrow> word_ok a \<Longrightarrow> word_ok b \<Longrightarrow> word_ok c \<Longrightarrow> Q (a, b, c) f'"
  shows "vok (good R f0) pop3 Q f"
  unfolding pop3_def
  by (rule vok_bind, rule vok_pop [OF assms(1)], rule vok_bind, rule vok_pop, assumption, rule vok_bind,
      rule vok_pop, assumption, rule vok_ret)
    (auto simp: kept_def intro: assms(2))

end
