(* ===== verification/Evm_Sound.thy ===== *)
theory Evm_Sound
  imports Evm_Logic
begin

text \<open>
  Every instruction keeps a frame in good standing.  The locale \<open>world_rel\<close> is the interface
  between the virtual machine and whatever one wants to know about the world state: a relation
  that holds across each single state operation the machine performs holds across a whole
  execution, however deep its calls nest and however they revert.
\<close>

lemma vok_split: "vok G (k a b) Q f \<Longrightarrow> vok G (case_prod k (a, b)) Q f"
  by simp

lemma vok_let: "vok G (k v) Q f \<Longrightarrow> vok G (Let v k) Q f"
  by simp

lemmas vok_control = vok_bind vok_ret vok_get vok_split vok_let vok_if

section \<open>What an instruction expects of a sub-call\<close>

definition call_ok ::
  "(bool \<Rightarrow> world \<Rightarrow> world \<Rightarrow> bool) \<Rightarrow> bool \<Rightarrow> nat \<Rightarrow> world \<Rightarrow> vm_result \<times> world option \<Rightarrow> bool" where
  "call_ok R static gas w r \<longleftrightarrow>
     (\<exists>v. snd r = Some v \<and> world_ok v \<and> world_ext w v \<and> R static w v) \<and>
     res_gasleft (fst r) \<le> gas \<and> res_err (fst r) \<noteq> Some GoPanic \<and> res_err (fst r) \<noteq> Some NoFuel"

definition callback_ok :: "(bool \<Rightarrow> world \<Rightarrow> world \<Rightarrow> bool) \<Rightarrow> nat \<Rightarrow> callback \<Rightarrow> bool" where
  "callback_ok R n cb \<longleftrightarrow>
     (\<forall>code input gas ctx depth w. length code < 2 ^ 63 \<longrightarrow> length input < 2 ^ 63 \<longrightarrow>
        gas \<le> gas_cap \<longrightarrow> gas < n \<longrightarrow> world_ok w \<longrightarrow>
        call_ok R (cx_Static ctx) gas w (cb code input gas ctx depth (Some w)))"

lemma world_ok_transfer:
  assumes "world_ok w" and "0 \<le> x" and "x \<le> GetBalance w a"
  shows "world_ok (transfer w a b x)"
proof -
  have s: "world_ok (SubBalance w a x)" by (rule world_ok_SubBalance [OF assms(1,3)])
  then show ?thesis
    using GetBalance_nonneg [OF s, of b] assms(2)
    by (simp add: transfer_def AddBalance_def world_ok_Credit)
qed

lemma world_ext_transfer: "world_ext w (transfer w a b x)"
  unfolding transfer_def by (rule world_ext_trans [OF world_ext_mutators(6) world_ext_mutators(5)])

locale world_rel =
  fixes R :: "bool \<Rightarrow> world \<Rightarrow> world \<Rightarrow> bool"
  assumes rel_refl: "R s w w"
    and rel_trans: "R s u v \<Longrightarrow> R s v w \<Longrightarrow> R s u w"
    and rel_weaken: "R True v w \<Longrightarrow> R s v w"
    and rel_Snapshot: "R s w (snd (Snapshot w))"
    and rel_SetStorage: "world_ok w \<Longrightarrow> R False w (SetStorage w a key val)"
    and rel_SetNonce: "world_ok w \<Longrightarrow> n = add64 (GetNonce w a) 1 \<Longrightarrow> R False w (SetNonce w a n)"
    and rel_SetCode: "world_ok w \<Longrightarrow> R False w (SetCode w a c)"
    and rel_AddLog: "R False w (AddLog w l)"
    and rel_transfer: "world_ok w \<Longrightarrow> 0 < amount \<Longrightarrow> amount \<le> GetBalance w a \<Longrightarrow> R False w (transfer w a b amount)"
begin

lemma good_refl: "frame_inv f \<Longrightarrow> good R f f"
  by (auto simp: good_def frame_inv_def rel_refl)

lemma vok_put:
  assumes "good R f0 f" and "f_state f = Some w" and "world_ok w'" and "world_ext w w'"
    and "R (cx_Static (f_ctx f0)) w w'"
    and "\<And>f'. good R f0 f' \<Longrightarrow> f_gas f' = f_gas f \<Longrightarrow> f_mem f' = f_mem f \<Longrightarrow> f_state f' = Some w' \<Longrightarrow> Q () f'"
  shows "vok (good R f0) (put_state w') Q f"
proof -
  have "good R f0 (f\<lparr>f_state := Some w'\<rparr>)"
    using assms(1-5) by (auto simp: good_def frame_inv_def intro: world_ext_trans rel_trans)
  then show ?thesis using assms(6) by (simp add: put_state_def vok_mod)
qed

lemma vok_useGas_pos:
  assumes "good R f0 f" and "0 < c"
    and "\<And>f'. good R f0 f' \<Longrightarrow> f_gas f' < f_gas f \<Longrightarrow> f_mem f' = f_mem f \<Longrightarrow>
      f_state f' = f_state f \<Longrightarrow> Q () f'"
  shows "vok (good R f0) (useGas c) Q f"
  by (rule vok_useGas [OF assms(1)]) (use assms(2) in \<open>auto intro: assms(3)\<close>)

lemma vok_put_SetStorage:
  assumes "good R f0 f" and "f_state f = Some w" and "world_ok w" and "\<not> cx_Static (f_ctx f0)"
    and "\<And>f'. good R f0 f' \<Longrightarrow> f_gas f' = f_gas f \<Longrightarrow> Q () f'"
  shows "vok (good R f0) (put_state (SetStorage w a k v)) Q f"
  by (rule vok_put [OF assms(1,2) world_ok_SetStorage [OF assms(3)] world_ext_mutators(1)])
    (use assms(4,5) rel_SetStorage [OF assms(3)] in simp_all)

lemma vok_put_AddLog:
  assumes "good R f0 f" and "f_state f = Some w" and "world_ok w" and "\<not> cx_Static (f_ctx f0)"
    and "\<And>f'. good R f0 f' \<Longrightarrow> f_gas f' = f_gas f \<Longrightarrow> Q () f'"
  shows "vok (good R f0) (put_state (AddLog w l)) Q f"
  by (rule vok_put [OF assms(1,2) _ world_ext_AddLog])
    (use assms(3,4,5) rel_AddLog in \<open>simp_all add: world_ok_fields\<close>)

abbreviation ok :: "'a vm \<Rightarrow> frame \<Rightarrow> bool" where
  "ok m f \<equiv> vok (good R f) m (\<lambda>_. good R f) f"

lemma ok_binop: "frame_inv f \<Longrightarrow> ok (op_binop op) f"
  unfolding op_binop_def binop_def
  by (drule good_refl, intro vok_control vok_pop2 vok_push vok_useGas)

lemma ok_modular: "frame_inv f \<Longrightarrow> ok (op_modular op) f"
  unfolding op_modular_def by (drule good_refl, intro vok_control vok_pop3 vok_push)

lemma ok_simple:
  assumes "frame_inv f"
  shows "ok op_iszero f" "ok op_not f" "ok op_pop f" "ok op_blockhash f" "ok (op_env op) f"
  using good_refl [OF assms]
  unfolding op_iszero_def op_not_def op_pop_def op_blockhash_def op_env_def
  by (auto intro!: vok_control vok_pop vok_push)

lemma ok_sha3: "frame_inv f \<Longrightarrow> ok (op_sha3 E) f"
  unfolding op_sha3_def
  by (drule good_refl, intro vok_control vok_pop2 vok_chargeMem vok_useGas vok_read_mem vok_push)
    (auto simp: window_def)

lemma ok_mload: "frame_inv f \<Longrightarrow> ok op_mload f"
proof -
  have n: "big_Uint64 32 = 32" by (simp add: big_Uint64_def)
  show "frame_inv f \<Longrightarrow> ok op_mload f"
    unfolding op_mload_def
    by (drule good_refl, intro vok_control vok_pop vok_chargeMem
        vok_read_mem [where sz = 32, unfolded n] vok_push)
qed

lemma ok_mstore: "frame_inv f \<Longrightarrow> ok op_mstore f"
  unfolding op_mstore_def
  by (drule good_refl, intro vok_control vok_pop2 vok_chargeMem vok_set32)

lemma ok_mstore8: "frame_inv f \<Longrightarrow> ok op_mstore8 f"
  unfolding op_mstore8_def
  by (drule good_refl, intro vok_control vok_pop2 vok_chargeMem vok_write_mem [where sz = 1])
    (auto simp: big_Uint64_def)

lemma ok_sload: "frame_inv f \<Longrightarrow> ok op_sload f"
  unfolding op_sload_def
  by (drule good_refl, intro vok_control vok_pop vok_need_state vok_wordToHash vok_push)

lemma ok_account:
  assumes "frame_inv f"
  shows "ok op_balance f" "ok op_selfbalance f" "ok op_extcodesize f" "ok (op_extcodehash E) f"
  using good_refl [OF assms]
  unfolding op_balance_def op_selfbalance_def op_extcodesize_def op_extcodehash_def
  by (auto intro!: vok_control vok_pop vok_need_state vok_wordToAddress vok_push)

lemma ok_calldataload: "frame_inv f \<Longrightarrow> ok op_calldataload f"
  unfolding op_calldataload_def
  by (drule good_refl, intro vok_control vok_pop vok_getData vok_push)
    (assumption | erule goodD(9) | simp)+

text \<open>The copy instructions share one lemma.\<close>

lemma vok_copy_to_mem:
  assumes "good R f0 f" and "length data < 2 ^ 63"
  shows "vok (good R f0) (copy_to_mem data memOff dataOff len) (\<lambda>_. good R f0) f"
  unfolding copy_to_mem_def
  by (intro vok_control vok_chargeMem [OF assms(1)] vok_useGas vok_getData assms(2)
      vok_write_mem [where sz = len])
    (auto simp: window_def)

lemma ok_calldatacopy: "frame_inv f \<Longrightarrow> ok op_calldatacopy f"
  unfolding op_calldatacopy_def
  by (drule good_refl, intro vok_control vok_pop3 vok_copy_to_mem)
    (assumption | erule goodD(9))+

lemma ok_codecopy: "frame_inv f \<Longrightarrow> ok op_codecopy f"
  unfolding op_codecopy_def
  by (drule good_refl, intro vok_control vok_pop3 vok_copy_to_mem)
    (assumption | erule goodD(8))+

lemma ok_extcodecopy: "frame_inv f \<Longrightarrow> ok op_extcodecopy f"
  unfolding op_extcodecopy_def
  by (drule good_refl, intro vok_control vok_pop vok_pop3 vok_need_state vok_wordToAddress
      vok_copy_to_mem GetCode_short)

lemma ok_jump_to: "good R f0 f \<Longrightarrow> vok (good R f0) (jump d) (\<lambda>_. good R f0) f"
proof -
  assume g: "good R f0 f"
  have "good R f0 (f\<lparr>f_pc := p, f_jumped := True\<rparr>)" for p
    by (rule good_local [OF g]) (use goodD(7) [OF g] good_parts [OF g] in simp_all)
  then show ?thesis using g by (simp add: jump_def vok_def vfail_def Let_def)
qed

lemma ok_jumps:
  assumes "frame_inv f"
  shows "ok op_jump f" "ok op_jumpi f"
  using good_refl [OF assms]
  unfolding op_jump_def op_jumpi_def
  by (auto intro!: vok_control vok_pop vok_pop2 ok_jump_to)

lemma ok_returndatacopy: "frame_inv f \<Longrightarrow> ok op_returndatacopy f"
proof -
  have slice: "length (take (big_Uint64 (d + n) - big_Uint64 d) (drop (big_Uint64 d) rd)) \<le> big_Uint64 n"
    if "word_ok d" "word_ok n" "big_IsUint64 (d + n)" for d n and rd :: bytes
  proof -
    have "0 \<le> d" "0 \<le> n" "d + n < 2 ^ 64" using that by (auto simp: word_ok_def big_IsUint64_def)
    then have "big_Uint64 (d + n) = big_Uint64 d + big_Uint64 n"
      by (simp add: big_Uint64_small nat_add_distrib)
    then show ?thesis by simp
  qed
  show "frame_inv f \<Longrightarrow> ok op_returndatacopy f"
    unfolding op_returndatacopy_def
    by (drule good_refl, intro vok_control vok_pop3 vok_fail vok_chargeMem vok_useGas)
      (auto simp del: length_take intro!: vok_write_mem slice elim: window_kept)
qed

lemma ok_mcopy: "frame_inv f \<Longrightarrow> ok op_mcopy f"
proof -
  assume "frame_inv f"
  then have g: "good R f f" by (rule good_refl)
  show ?thesis
    unfolding op_mcopy_def
  proof (intro vok_control vok_pop3 g)
    fix d src len f1 assume "good R f f1"
    then show "vok (good R f) (chargeMem d len) (\<lambda>_. vok (good R f) (vbind (chargeMem src len)
        (\<lambda>_. vbind (useGas (mul64 3 (toWordSize (big_Uint64 len)))) (\<lambda>_.
          vbind (read_mem (big_Uint64 src) (big_Uint64 len)) (\<lambda>b. write_mem (big_Uint64 d) b))))
        (\<lambda>_. good R f)) f1"
      by (intro vok_control vok_chargeMem vok_useGas vok_read_mem vok_write_mem [where sz = len])
        (auto simp: window_def)
  qed
qed

lemma ok_sstore:
  "frame_inv f \<Longrightarrow> vok (good R f) op_sstore (\<lambda>_ f'. good R f f' \<and> f_gas f' < f_gas f) f"
proof -
  assume "frame_inv f"
  then have g: "good R f f" by (rule good_refl)
  have pos: "0 < sstoreGas c v" for c v
    by (simp add: sstoreGas_def SstoreNoopGas_def SstoreSetGas_def SstoreResetGas_def)
  show ?thesis
    unfolding op_sstore_def
    by (intro vok_control vok_fail vok_pop2 vok_need_state vok_wordToHash vok_useGas_pos g pos
        vok_put_SetStorage)
      (auto simp: kept_def)
qed

lemma vok_pop_topics:
  assumes "good R f0 f"
    and "\<And>hs f'. good R f0 f' \<Longrightarrow> kept f f' \<Longrightarrow> Q hs f'"
  shows "vok (good R f0) (pop_topics n) Q f"
  using assms
proof (induction n arbitrary: f Q)
  case 0
  then show ?case by (simp add: vok_ret kept_def)
next
  case (Suc n)
  show ?case
    unfolding pop_topics.simps
  proof (intro vok_control vok_pop vok_wordToHash Suc.prems(1), assumption)
    fix v f' h assume a: "good R f0 f'" "kept f f'"
    show "vok (good R f0) (pop_topics n) (\<lambda>a. vok (good R f0) (vret (h # a)) Q) f'"
      by (rule Suc.IH [OF a(1)], rule vok_ret, rule Suc.prems(2)) (use a in \<open>auto simp: kept_def\<close>)
  qed
qed

lemma ok_opLog:
  assumes "n \<le> 4"
  shows "frame_inv f \<Longrightarrow> vok (good R f) (opLog n) (\<lambda>_ f'. good R f f' \<and> f_gas f' < f_gas f) f"
proof -
  assume "frame_inv f"
  then have g: "good R f f" by (rule good_refl)
  have c: "0 < add64 LogGas (mul64 n LogTopicGas)"
    using assms by (simp add: LogGas_def LogTopicGas_def wrap64)
  show ?thesis
    unfolding opLog_def
    by (intro vok_control vok_fail vok_pop2 vok_pop_topics vok_chargeMem vok_useGas vok_need_state
        vok_read_mem g vok_put_AddLog)
      (use c in \<open>auto simp: kept_def window_def\<close>)
qed

lemma vok_readMem:
  assumes "good R f0 f" and "\<And>b f'. good R f0 f' \<Longrightarrow> Q b f'"
  shows "vok (good R f0) readMem Q f"
  unfolding readMem_def
  by (intro vok_control vok_pop vok_chargeMem vok_read_mem assms)

lemma ok_return: "frame_inv f \<Longrightarrow> vok (good R f) (vbind readMem (\<lambda>data. vret (True, data))) (\<lambda>r f'. good R f f' \<and> fst r) f"
  by (drule good_refl, intro vok_control vok_readMem) simp_all

lemma ok_revert: "frame_inv f \<Longrightarrow> vok (good R f) op_revert Q f"
  unfolding op_revert_def by (drule good_refl, intro vok_control vok_readMem vok_fail) simp_all

lemma ok_dup: "frame_inv f \<Longrightarrow> ok (st_dup n) f"
proof -
  assume "frame_inv f"
  then have g: "good R f f" by (rule good_refl)
  then have *: "vok (good R f) (st_peek k) (\<lambda>_. good R f) f" for k
    by (simp add: vok_def st_peek_def)
  show ?thesis
    unfolding st_dup_def by (rule vok_bind, rule vok_mono [OF *]) (auto intro: vok_push)
qed

lemma ok_swap: "frame_inv f \<Longrightarrow> ok (st_swap n) f"
proof -
  assume f: "frame_inv f"
  then have g: "good R f f" by (rule good_refl)
  have "good R f (f\<lparr>f_stack := (f_stack f)[0 := f_stack f ! n, n := f_stack f ! 0]\<rparr>)"
    if "n < length (f_stack f)"
  proof (rule good_local [OF g])
    have "word_ok v" if "v \<in> set ((f_stack f)[0 := f_stack f ! n, n := f_stack f ! 0])" for v
    proof -
      have "v \<in> set (f_stack f)"
        using that \<open>n < length (f_stack f)\<close> by (auto dest!: set_update_subset_insert [THEN subsetD] intro!: nth_mem)
      then show ?thesis using good_parts [OF g] by (simp add: list_all_iff)
    qed
    then show "list_all word_ok
        (f_stack (f\<lparr>f_stack := (f_stack f)[0 := f_stack f ! n, n := f_stack f ! 0]\<rparr>))"
      by (simp add: list_all_iff)
  qed (use goodD(7) [OF g] in simp_all)
  then show ?thesis using g by (simp add: st_swap_def vok_def)
qed

lemma good_pc:
  assumes "good R f0 f"
  shows "good R f0 (f\<lparr>f_pc := p\<rparr>)" "good R f0 (f\<lparr>f_jumped := j\<rparr>)" "good R f0 (f\<lparr>f_retdata := d\<rparr>)"
  by (rule good_local [OF assms]; use goodD(7) [OF assms] good_parts [OF assms] in simp)+

lemma ok_doPush: "frame_inv f \<Longrightarrow> ok (doPush n) f"
  unfolding doPush_def
  by (drule good_refl, intro vok_control vok_mod vok_push good_pc(1))

text \<open>A frame whose world can be rolled back to \<open>w\<close>.\<close>

definition revertible :: "frame \<Rightarrow> world \<Rightarrow> frame \<Rightarrow> bool" where
  "revertible f0 w f \<longleftrightarrow> good R f0 f \<and> good R f0 (f\<lparr>f_state := Some w\<rparr>) \<and>
     (\<exists>v. f_state f = Some v \<and> world_ext (snd (Snapshot w)) v)"

lemma vok_revert:
  assumes "revertible f0 w f"
    and "\<And>f'. good R f0 f' \<Longrightarrow> f_gas f' = f_gas f \<Longrightarrow> f_mem f' = f_mem f \<Longrightarrow> Q () f'"
  shows "vok (good R f0) (revert_state (fst (Snapshot w))) Q f"
proof -
  obtain v where v: "f_state f = Some v" "world_ext (snd (Snapshot w)) v"
    using assms(1) by (auto simp: revertible_def)
  have "good R f0 (f\<lparr>f_state := Some w\<rparr>)" using assms(1) by (simp add: revertible_def)
  then have "Q () (f\<lparr>f_state := Some w\<rparr>)" by (rule assms(2)) simp_all
  then show ?thesis
    using v by (simp add: revert_state_def vbind_def deref_state_def put_state_def vmod_def vok_def
        revert_exact)
qed

lemma revertible_retdata:
  assumes "revertible f0 w f"
  shows "revertible f0 w (f\<lparr>f_retdata := d\<rparr>)"
proof -
  have "good R f0 (f\<lparr>f_retdata := d\<rparr>)" "good R f0 (f\<lparr>f_state := Some w\<rparr>\<lparr>f_retdata := d\<rparr>)"
    using assms good_pc(3) unfolding revertible_def by blast+
  moreover have "f\<lparr>f_state := Some w\<rparr>\<lparr>f_retdata := d\<rparr> = f\<lparr>f_retdata := d\<rparr>\<lparr>f_state := Some w\<rparr>"
    by (cases f) simp
  ultimately show ?thesis using assms by (simp add: revertible_def)
qed

lemma revertible_gas:
  assumes "revertible f0 w f" and "g \<le> f_gas f"
  shows "revertible f0 w (f\<lparr>f_gas := g\<rparr>)"
proof -
  have *: "good R f0 (h\<lparr>f_gas := g\<rparr>)" if "good R f0 h" "g \<le> f_gas h" for h
    by (rule good_local [OF that(1)]) (use that(2) goodD(7) [OF that(1)] good_parts [OF that(1)] in simp_all)
  then have "good R f0 (f\<lparr>f_gas := g\<rparr>)" "good R f0 (f\<lparr>f_state := Some w\<rparr>\<lparr>f_gas := g\<rparr>)"
    using assms unfolding revertible_def by simp_all
  moreover have "f\<lparr>f_state := Some w\<rparr>\<lparr>f_gas := g\<rparr> = f\<lparr>f_gas := g\<rparr>\<lparr>f_state := Some w\<rparr>"
    by (cases f) simp
  ultimately show ?thesis using assms(1) by (simp add: revertible_def)
qed

lemma vok_sub_call:
  assumes g: "good R f0 f" and st: "f_state f = Some w" and give: "give \<le> f_gas f"
    and prep: "world_ok (prep (snd (Snapshot w)))" "world_ext (snd (Snapshot w)) (prep (snd (Snapshot w)))"
      "R (cx_Static (f_ctx f0)) (snd (Snapshot w)) (prep (snd (Snapshot w)))"
    and callee: "call_ok R (cx_Static (f_ctx f0)) give (prep (snd (Snapshot w))) (callee (prep (snd (Snapshot w))))"
    and Q: "\<And>res f'. revertible f0 w f' \<Longrightarrow> f_mem f' = f_mem f \<Longrightarrow> f_gas f' \<le> f_gas f \<Longrightarrow>
      Q (res, fst (Snapshot w)) f'"
  shows "vok (good R f0) (sub_call callee give prep) Q f"
proof -
  let ?w1 = "snd (Snapshot w)"
  obtain res w2 where r: "callee (prep ?w1) = (res, Some w2)" and w2: "world_ok w2" "world_ext (prep ?w1) w2"
    "R (cx_Static (f_ctx f0)) (prep ?w1) w2" and res: "res_gasleft res \<le> give"
    "res_err res \<noteq> Some GoPanic" "res_err res \<noteq> Some NoFuel"
    using callee by (cases "callee (prep ?w1)") (auto simp: call_ok_def)
  obtain w0 where w0: "f_state f0 = Some w0" "world_ext w0 w" "R (cx_Static (f_ctx f0)) w0 w"
    using g st by (auto simp: good_def)
  have ext: "world_ext ?w1 w2" by (rule world_ext_trans [OF prep(2) w2(2)])
  have "world_ext w0 w2" by (rule world_ext_trans [OF w0(2) world_ext_trans [OF world_ext_Snapshot ext]])
  moreover have "R (cx_Static (f_ctx f0)) w0 w2"
    by (rule rel_trans [OF w0(3) rel_trans [OF rel_Snapshot rel_trans [OF prep(3) w2(3)]]])
  ultimately have rel: "\<exists>v. f_state f0 = Some v \<and> world_ext v w2 \<and> R (cx_Static (f_ctx f0)) v w2"
    using w0(1) by blast
  define f1 where "f1 = f\<lparr>f_state := Some w2, f_gas := add64 (f_gas f - give) (res_gasleft res)\<rparr>"
  have gas: "add64 (f_gas f - give) (res_gasleft res) = f_gas f - give + res_gasleft res"
    using give res(1) goodD(6) [OF g] by (intro add64_id) (simp add: gas_cap_def)
  have le: "f_gas f1 \<le> f_gas f" using give res(1) gas by (simp add: f1_def)
  have "good R f0 f1"
    using g rel w2(1) le by (auto simp: good_def frame_inv_def f1_def)
  moreover have "good R f0 (f1\<lparr>f_state := Some w\<rparr>)"
    by (rule good_local [OF g]) (use goodD(7) [OF g] good_parts [OF g] le st in \<open>simp_all add: f1_def\<close>)
  ultimately have "revertible f0 w f1" using ext by (simp add: revertible_def f1_def)
  then have "Q (res, fst (Snapshot w)) f1" by (rule Q) (use le in \<open>simp_all add: f1_def\<close>)
  then show ?thesis
    using st res(2,3) r
    by (simp add: sub_call_def vbind_def vmod_def deref_state_def vok_def vret_def case_prod_beta f1_def)
qed

lemma vok_refused:
  assumes "good R f0 f"
    and "Q True f"
    and "\<And>w. f_state f = Some w \<Longrightarrow> world_ok w \<Longrightarrow>
      (checked \<Longrightarrow> value \<le> GetBalance w (cx_Address (f_ctx f0))) \<Longrightarrow> Q False f"
  shows "vok (good R f0) (refused checked value) Q f"
proof -
  obtain w where w: "f_state f = Some w" "world_ok w" using good_state [OF assms(1)] .
  then have "Q (GetBalance w (cx_Address (f_ctx f0)) < value) f" if checked
    using assms(2,3) that by (cases "GetBalance w (cx_Address (f_ctx f0)) < value") auto
  then show ?thesis
    using assms w goodD(3) [OF assms(1)]
    by (auto simp: refused_def vbind_def vget_def vret_def deref_state_def vok_def)
qed

lemma rel_sub_static: "(s \<Longrightarrow> s') \<Longrightarrow> R s' v w \<Longrightarrow> R s v w"
  using rel_weaken by (cases s; cases s') auto

lemma call_ok_weaken: "(s \<Longrightarrow> s') \<Longrightarrow> call_ok R s' gas w r \<Longrightarrow> call_ok R s gas w r"
  unfolding call_ok_def using rel_sub_static by blast

lemma call_context_static: "cx_Static (call_context ctx mode target value) = (cx_Static ctx \<or> mode = callStatic)"
  by (simp add: call_context_def split: call_mode.split)

lemma opCall_callee_ok:
  assumes "callback_ok R n cb" and "give \<le> gas_cap" and "give < n" and "length args < 2 ^ 63" and "world_ok w"
  shows "call_ok R (cx_Static sub) give w (opCall_callee E cb target args give sub depth w)"
proof (cases "precompileFor E target")
  case None
  then show ?thesis
    using assms GetCode_short [OF assms(5), of target] by (simp add: opCall_callee_def callback_ok_def)
next
  case (Some p)
  then show ?thesis
    using runPrecompile_ok [OF Some assms(4,2)] assms(5) rel_refl
    by (auto simp: opCall_callee_def call_ok_def)
qed

lemma vok_opCall_finish:
  assumes "revertible f0 w f" and "window retOff retSize f"
    and "\<And>f'. good R f0 f' \<Longrightarrow> f_gas f' = f_gas f \<Longrightarrow> Q () f'"
  shows "vok (good R f0) (opCall_finish retOff retSize (res, fst (Snapshot w))) Q f"
proof -
  note r = revertible_retdata [OF assms(1), of "res_ret res"]
  then have g: "good R f0 (f\<lparr>f_retdata := res_ret res\<rparr>)" by (simp add: revertible_def)
  show ?thesis
    unfolding opCall_finish_def
    by (intro vok_split vok_bind vok_mod vok_if vok_revert [OF r] vok_ret
        vok_write_mem [where sz = retSize] vok_push g)
      (use assms(2) g in \<open>auto simp: window_def kept_def intro!: assms(3)\<close>)
qed

lemma call_give_le: "call_give gas word \<le> gas"
  by (simp add: call_give_def Let_def) linarith

lemma vok_opCall_go:
  assumes g: "good R f0 f" and st: "f_state f = Some w" "world_ok w"
    and mv: "moves_value mode v \<Longrightarrow> \<not> cx_Static (f_ctx f0) \<and> v \<le> GetBalance w (cx_Address (f_ctx f0))"
    and give: "give \<le> f_gas f" "give < n" and cb: "callback_ok R n cb"
    and args: "length args < 2 ^ 63" and win: "window ro rs f"
    and Q: "\<And>f'. good R f0 f' \<Longrightarrow> f_gas f' \<le> f_gas f \<Longrightarrow> Q () f'"
  shows "vok (good R f0) (opCall_go E cb mode (f_ctx f0) target v args give ro rs) Q f"
  unfolding opCall_go_def
proof (rule vok_bind, rule vok_get, rule vok_bind, rule vok_sub_call [OF g st(1) give(1)])
  let ?w1 = "snd (Snapshot w)"
  let ?w2 = "if moves_value mode v then transfer ?w1 (cx_Address (f_ctx f0)) target v else ?w1"
  have w1: "world_ok ?w1" using st(2) by (simp add: world_ok_fields)
  have bal: "0 < v" "v \<le> GetBalance ?w1 (cx_Address (f_ctx f0))" "\<not> cx_Static (f_ctx f0)"
    if "moves_value mode v" using mv [OF that] that by (simp_all add: moves_value_def world_simps)
  show w2: "world_ok ?w2" using w1 bal world_ok_transfer by auto
  show "world_ext ?w1 ?w2" using world_ext_transfer by simp
  show "R (cx_Static (f_ctx f0)) ?w1 ?w2" using bal rel_transfer [OF w1] rel_refl by auto
  have "give \<le> gas_cap" using give(1) goodD(6) [OF g] by linarith
  then show "call_ok R (cx_Static (f_ctx f0)) give ?w2
      (opCall_callee E cb target args give (call_context (f_ctx f0) mode target v) (f_depth f) ?w2)"
    by (intro call_ok_weaken [OF _ opCall_callee_ok [OF cb _ give(2) args w2]])
      (simp_all add: call_context_static)
  fix res f' assume "revertible f0 w f'" "f_mem f' = f_mem f" "f_gas f' \<le> f_gas f"
  then show "vok (good R f0) (opCall_finish ro rs (res, fst (Snapshot w))) Q f'"
    using win by (intro vok_opCall_finish) (auto simp: window_def intro!: Q)
qed

lemma vok_get_ctx: "good R f0 f \<Longrightarrow> Q (f_ctx f0) f \<Longrightarrow> vok (good R f0) (vget f_ctx) Q f"
  by (rule vok_get) (simp add: good_def)

lemma vok_opCall_enter:
  assumes g: "good R f0 f" and cb: "callback_ok R (f_gas f) cb" and to: "word_ok tw"
    and mv: "moves_value mode v \<Longrightarrow> \<not> cx_Static (f_ctx f0)"
  shows "vok (good R f0) (opCall_enter E cb mode (f_ctx f0) gw tw v ao as ro rs)
    (\<lambda>_ f'. good R f0 f' \<and> f_gas f' < f_gas f) f"
proof -
  have pos: "0 < (if moves_value mode v then CallBaseGas + CallValueGas else CallBaseGas)"
    by (simp add: CallBaseGas_def)
  show ?thesis
    unfolding opCall_enter_def
    by (intro vok_control vok_useGas_pos vok_chargeMem vok_read_mem vok_wordToAddress vok_mod
        vok_refused vok_push pos g to)
      (auto simp: window_def kept_def call_give_le mv intro!: good_pc
        vok_opCall_go [OF _ _ _ _ _ _ cb] le_less_trans [OF call_give_le])
qed

lemma ok_opCall:
  assumes cb: "callback_ok R (f_gas f) cb" and f: "frame_inv f"
  shows "vok (good R f) (opCall E cb mode) (\<lambda>_ f'. good R f f' \<and> f_gas f' < f_gas f) f"
proof -
  have pops: "vok (good R f) (opCall_pops mode) Q f"
    if "\<And>a b c d e g h f'. good R f f' \<Longrightarrow> kept f f' \<Longrightarrow> word_ok b \<Longrightarrow> Q (a, b, c, d, e, g, h) f'" for Q
    unfolding opCall_pops_def
    by (intro vok_control vok_pop2 vok_pop good_refl [OF f] that) (auto simp: kept_def)
  have enter: "vok (good R f) (opCall_enter E cb mode (f_ctx f) gw tw v ao as ro rs)
      (\<lambda>_ f'. good R f f' \<and> f_gas f' < f_gas f) f1"
    if "good R f f1" "kept f f1" "word_ok tw" "\<not> (moves_value mode v \<and> cx_Static (f_ctx f))"
    for f1 gw tw v ao as ro rs
    using vok_opCall_enter [OF that(1) _ that(3), of cb mode v] that(2,4) cb by (auto simp: kept_def)
  show ?thesis
    unfolding opCall_def
    by (rule vok_bind, rule pops)
      (auto intro!: vok_split vok_bind vok_get_ctx vok_if vok_fail enter)
qed

lemma vok_put_SetCode:
  assumes "good R f0 f" and "f_state f = Some w" and "world_ok w" and "\<not> cx_Static (f_ctx f0)"
    and "length c < 2 ^ 63" and "\<And>f'. good R f0 f' \<Longrightarrow> f_gas f' = f_gas f \<Longrightarrow> Q () f'"
  shows "vok (good R f0) (put_state (SetCode w a c)) Q f"
  by (rule vok_put [OF assms(1,2) world_ok_SetCode [OF assms(3,5)] world_ext_mutators(2)])
    (use assms(4,6) rel_SetCode [OF assms(3)] in simp_all)

lemma vok_put_SetNonce:
  assumes "good R f0 f" and "f_state f = Some w" and "world_ok w" and "\<not> cx_Static (f_ctx f0)"
    and "\<And>f'. good R f0 f' \<Longrightarrow> f_gas f' = f_gas f \<Longrightarrow> f_mem f' = f_mem f \<Longrightarrow>
      f_state f' = Some (SetNonce w a (add64 (GetNonce w a) 1)) \<Longrightarrow> Q () f'"
  shows "vok (good R f0) (put_state (SetNonce w a (add64 (GetNonce w a) 1))) Q f"
  by (rule vok_put [OF assms(1,2) world_ok_SetNonce [OF assms(3) add64_less] world_ext_mutators(3)])
    (use assms(4,5) rel_SetNonce [OF assms(3)] in simp_all)

lemma vok_revert_push:
  assumes "revertible f0 w f" and "\<And>f'. good R f0 f' \<Longrightarrow> f_gas f' = f_gas f \<Longrightarrow> Q () f'"
  shows "vok (good R f0) (vbind (revert_state (fst (Snapshot w))) (\<lambda>_. st_push x)) Q f"
  by (intro vok_bind vok_revert [OF assms(1)] vok_push) (auto simp: kept_def intro!: assms(2))

lemma vok_opCreate_finish:
  assumes r: "revertible f0 w f" and ns: "\<not> cx_Static (f_ctx f0)"
    and Q: "\<And>f'. good R f0 f' \<Longrightarrow> f_gas f' \<le> f_gas f \<Longrightarrow> Q () f'"
  shows "vok (good R f0) (opCreate_finish a (res, fst (Snapshot w))) Q f"
proof -
  define gas where "gas = mul64 CreateDataGas (length (res_ret res))"
  have g: "good R f0 f" using r by (simp add: revertible_def)
  have failed: "vok (good R f0) (vbind (revert_state (fst (Snapshot w))) (\<lambda>_. vbind
      (vmod (\<lambda>f. f\<lparr>f_retdata := res_ret res\<rparr>)) (\<lambda>_. st_push 0))) Q f"
    by (intro vok_bind vok_revert [OF r] vok_mod vok_push good_pc(3))
      (auto simp: kept_def intro!: Q)
  have refused: "vok (good R f0) (vbind (revert_state (fst (Snapshot w))) (\<lambda>_. st_push 0)) Q f"
    by (rule vok_revert_push [OF r]) (simp add: Q)
  have stored: "vok (good R f0) (vbind (vmod (\<lambda>f. f\<lparr>f_gas := f_gas f - gas\<rparr>)) (\<lambda>_. vbind deref_state
      (\<lambda>w. vbind (put_state (SetCode w a (res_ret res))) (\<lambda>_. vbind (vmod (\<lambda>f. f\<lparr>f_retdata := []\<rparr>))
      (\<lambda>_. st_push (uint a)))))) Q f"
    if "\<not> MaxCodeSize < length (res_ret res)"
  proof (rule vok_bind, rule vok_mod)
    have "good R f0 (f\<lparr>f_gas := f_gas f - gas\<rparr>)"
      using revertible_gas [OF r, of "f_gas f - gas"] by (simp add: revertible_def)
    then show "vok (good R f0) (vbind deref_state (\<lambda>w. vbind (put_state (SetCode w a (res_ret res)))
        (\<lambda>_. vbind (vmod (\<lambda>f. f\<lparr>f_retdata := []\<rparr>)) (\<lambda>_. st_push (uint a))))) Q
        (f\<lparr>f_gas := f_gas f - gas\<rparr>)"
      using ns that
      by (intro vok_bind vok_deref_state vok_put_SetCode vok_mod vok_push good_pc(3))
        (auto simp: kept_def MaxCodeSize_def intro!: Q)
  qed
  show ?thesis
    unfolding opCreate_finish_def Let_def
    by (intro vok_split vok_if failed refused vok_bind [of _ "vget f_gas"] vok_get
        stored [unfolded gas_def])
qed

lemma vok_opCreate_go:
  assumes g: "good R f0 f" and st: "f_state f = Some w" "world_ok w" and ns: "\<not> cx_Static (f_ctx f0)"
    and val: "0 < v \<Longrightarrow> v \<le> GetBalance w (cx_Address (f_ctx f0))"
    and give: "give \<le> f_gas f" "give < n" and cb: "callback_ok R n cb" and init: "length init < 2 ^ 63"
    and Q: "\<And>f'. good R f0 f' \<Longrightarrow> f_gas f' \<le> f_gas f \<Longrightarrow> Q () f'"
  shows "vok (good R f0) (opCreate_go cb (f_ctx f0) a v init give) Q f"
  unfolding opCreate_go_def
proof (rule vok_bind, rule vok_get, rule vok_bind, rule vok_sub_call [OF g st(1) give(1)])
  let ?w1 = "snd (Snapshot w)"
  let ?w2 = "if 0 < v then transfer ?w1 (cx_Address (f_ctx f0)) a v else ?w1"
  have w1: "world_ok ?w1" using st(2) by (simp add: world_ok_fields)
  have bal: "v \<le> GetBalance ?w1 (cx_Address (f_ctx f0))" if "0 < v"
    using val [OF that] by (simp add: world_simps)
  show w2: "world_ok ?w2" using w1 bal world_ok_transfer by auto
  show "world_ext ?w1 ?w2" using world_ext_transfer by simp
  show "R (cx_Static (f_ctx f0)) ?w1 ?w2" using ns bal rel_transfer [OF w1] rel_refl by auto
  have "give \<le> gas_cap" using give(1) goodD(6) [OF g] by linarith
  then have "call_ok R (cx_Static (create_context (f_ctx f0) a v)) give ?w2
      (cb init [] give (create_context (f_ctx f0) a v) (f_depth f + 1) (Some ?w2))"
    using cb init give(2) w2 by (simp add: callback_ok_def)
  then show "call_ok R (cx_Static (f_ctx f0)) give ?w2
      (cb init [] give (create_context (f_ctx f0) a v) (f_depth f + 1) (Some ?w2))"
    by (simp add: create_context_def)
  fix res f' assume "revertible f0 w f'" "f_mem f' = f_mem f" "f_gas f' \<le> f_gas f"
  then show "vok (good R f0) (opCreate_finish a (res, fst (Snapshot w))) Q f'"
    using ns by (intro vok_opCreate_finish) (auto intro!: Q)
qed

lemma vok_opCreate_address:
  assumes "word_ok salt" and "\<And>a. Q a f"
  shows "vok G (opCreate_address E create2 creator nonce salt init) Q f"
  unfolding opCreate_address_def by (intro vok_control vok_wordToHash assms)

lemma vok_opCreate_enter:
  assumes g: "good R f0 f" and ns: "\<not> cx_Static (f_ctx f0)" and salt: "word_ok salt"
    and bal: "\<And>w. f_state f = Some w \<Longrightarrow> 0 < v \<Longrightarrow> v \<le> GetBalance w (cx_Address (f_ctx f0))"
    and n: "f_gas f < n" and cb: "callback_ok R n cb" and init: "length init < 2 ^ 63"
    and Q: "\<And>f'. good R f0 f' \<Longrightarrow> f_gas f' \<le> f_gas f \<Longrightarrow> Q () f'"
  shows "vok (good R f0) (opCreate_enter E cb create2 (f_ctx f0) v salt init) Q f"
proof -
  have charged: "vok (good R f0) (vbind (vmod (\<lambda>f. f\<lparr>f_gas := f_gas f - give\<rparr>)) (\<lambda>_. st_push 0)) Q f'"
    if "good R f0 f'" "f_gas f' \<le> f_gas f" for f' give
  proof (intro vok_bind vok_mod vok_push)
    show "good R f0 (f'\<lparr>f_gas := f_gas f' - give\<rparr>)"
      by (rule good_local [OF that(1)]) (use goodD(7) [OF that(1)] good_parts [OF that(1)] in simp_all)
  qed (use that(2) in \<open>auto simp: kept_def intro!: Q\<close>)
  have go: "vok (good R f0) (opCreate_go cb (f_ctx f0) a v init (f_gas f' - f_gas f' div 64)) Q f'"
    if "f_state f = Some w" "world_ok w" "good R f0 f'" "f_gas f' = f_gas f"
      "f_state f' = Some (SetNonce w c (add64 (GetNonce w c) 1))" for a w f' c
    by (rule vok_opCreate_go [OF that(3,5) world_ok_SetNonce [OF that(2) add64_less] ns _ _ _ cb init])
      (use n bal that in \<open>auto simp: world_simps intro!: Q\<close>)
  show ?thesis
    unfolding opCreate_enter_def
    by (rule vok_bind, rule vok_deref_state [OF g], (rule vok_let)+, rule vok_bind,
        rule vok_opCreate_address [OF salt], rule vok_let, rule vok_bind, rule vok_put_SetNonce [OF g],
        assumption, assumption, rule ns, rule vok_bind, rule vok_get, rule vok_if, rule charged)
      (assumption, simp, rule go, assumption+)
qed

lemma ok_opCreate:
  assumes cb: "callback_ok R (f_gas f) cb" and f: "frame_inv f"
  shows "vok (good R f) (opCreate E cb create2) (\<lambda>_ f'. good R f f' \<and> f_gas f' < f_gas f) f"
proof -
  have pops: "vok (good R f) (opCreate_pops create2) Q f"
    if "\<And>a b c d f'. good R f f' \<Longrightarrow> kept f f' \<Longrightarrow> word_ok d \<Longrightarrow> Q (a, b, c, d) f'" for Q
    unfolding opCreate_pops_def
    by (intro vok_control vok_pop3 vok_pop good_refl [OF f] that) (auto simp: kept_def word_ok_def)
  have pos: "0 < CreateGas" by (simp add: CreateGas_def)
  have enter: "vok (good R f) (opCreate_enter E cb c2 (f_ctx f) v salt init)
      (\<lambda>_ f'. good R f f' \<and> f_gas f' < f_gas f) f1"
    if "good R f f1" "\<not> cx_Static (f_ctx f)" "word_ok salt" "f_state f1 = Some w"
      "0 < v \<Longrightarrow> v \<le> GetBalance w (cx_Address (f_ctx f))" "f_gas f1 < f_gas f" "length init \<le> 2 ^ 32"
    for f1 v salt init w c2
    by (rule vok_opCreate_enter [OF that(1-3) _ that(6) cb]) (use that in auto)
  show ?thesis
    unfolding opCreate_def
    by (rule vok_bind, rule vok_get, rule vok_if, rule vok_fail, (rule good_refl [OF f] | simp)+,
        rule vok_bind, rule pops, (rule vok_split)+, rule vok_bind, rule vok_useGas_pos [OF _ pos],
        assumption, intro vok_bind vok_chargeMem vok_if vok_useGas vok_ret vok_read_mem vok_mod
        vok_refused vok_push good_pc(3))
      (auto simp: kept_def window_def intro!: enter good_pc(3))
qed

lemma ok_cont: "ok m f \<Longrightarrow> vok (good R f) (cont m) (\<lambda>_. good R f) f"
  unfolding cont_def by (rule vok_bind, erule vok_mono) (auto intro: vok_ret)

lemma ok_cont_strict:
  "vok (good R f) m (\<lambda>_ f'. good R f f' \<and> f_gas f' < f_gas f) f \<Longrightarrow>
     vok (good R f) (cont m) (\<lambda>r f'. good R f f' \<and> (fst r \<or> f_gas f' < f_gas f)) f"
  unfolding cont_def by (rule vok_bind, erule vok_mono) (auto intro: vok_ret)

lemma ok_jumpdest: "frame_inv f \<Longrightarrow> ok (vret ()) f"
  by (intro vok_ret good_refl)

lemmas ok_instructions = ok_binop ok_modular ok_simple ok_sha3 ok_mload ok_mstore ok_mstore8 ok_sload
  ok_account ok_calldataload ok_calldatacopy ok_codecopy ok_extcodecopy ok_jumps ok_returndatacopy
  ok_mcopy ok_jumpdest

lemmas ok_instructions_strict = ok_sstore ok_opLog ok_opCall ok_opCreate

lemma ok_exec:
  assumes f: "frame_inv f" and cb: "callback_ok R (f_gas f) cb" and log: "\<And>n. op = LOG n \<Longrightarrow> n \<le> 4"
  shows "vok (good R f) (exec E cb op)
    (\<lambda>r f'. good R f f' \<and> (fst r \<or> 0 < gasCost op \<or> f_gas f' < f_gas f)) f"
proof -
  have bad: "vok (good R f) (vfail ErrInvalidOpcode) Q f" for Q :: "bool \<times> bytes \<Rightarrow> frame \<Rightarrow> bool"
    by (rule vok_fail) (simp_all add: good_refl [OF f])
  show ?thesis
    using log
    by (cases op)
      (simp_all add: exec_def is_binop_def gasCost_def ok_cont ok_cont_strict bad f cb
        ok_instructions ok_instructions_strict ok_revert Keccak256Gas_def SloadGas_def
        vok_mono [OF ok_return [OF f]])
qed

section \<open>The loop\<close>

lemma good_trans: "good R f g \<Longrightarrow> good R g h \<Longrightarrow> good R f h"
  unfolding good_def using world_ext_trans rel_trans by (metis (no_types, lifting) le_trans option.inject)

lemma vok_rebase:
  assumes "vok (good R g) m Q g" and "good R f g" and "\<And>a h. Q a h \<Longrightarrow> Q' a h"
  shows "vok (good R f) m Q' g"
  using assms(1) by (rule vok_mono) (use assms(2,3) good_trans in blast)+

lemma callback_ok_less: "callback_ok R n cb \<Longrightarrow> m \<le> n \<Longrightarrow> callback_ok R m cb"
  unfolding callback_ok_def by (meson less_le_trans)

lemma ok_next_pc: "good R f0 f \<Longrightarrow> vok (good R f0) (vbind next_pc (\<lambda>_. vret None))
  (\<lambda>r h. good R f0 h \<and> f_gas h = f_gas f) f"
  unfolding next_pc_def by (intro vok_bind vok_mod vok_ret) (simp add: good_pc)

lemma ok_dispatch:
  assumes f: "frame_inv f" and cb: "callback_ok R (f_gas f) cb" and log: "\<And>n. op = LOG n \<Longrightarrow> n \<le> 4"
  shows "vok (good R f) (dispatch E cb op)
    (\<lambda>r f'. good R f f' \<and> (r \<noteq> None \<or> 0 < gasCost op \<or> f_gas f' < f_gas f)) f"
proof -
  let ?Q = "\<lambda>r f'. good R f f' \<and> (r \<noteq> None \<or> 0 < gasCost op \<or> f_gas f' < f_gas f)"
  have exec: "vok (good R f) (vbind (exec E cb op) (\<lambda>(done, ret).
      if done then vret (Some ret) else vbind next_pc (\<lambda>_. vret None))) ?Q f"
  proof (rule vok_bind, rule vok_mono [OF ok_exec [OF f cb log]])
    fix r h assume "good R f h \<and> (fst r \<or> 0 < gasCost op \<or> f_gas h < f_gas f)"
    then show "vok (good R f) (case r of (done, ret) \<Rightarrow>
        if done then vret (Some ret) else vbind next_pc (\<lambda>_. vret None)) ?Q h"
      by (cases r) (auto intro!: vok_ret intro: vok_mono [OF ok_next_pc])
  qed auto
  have push: "vok (good R f) (vbind (doPush n) (\<lambda>_. vret None)) (\<lambda>_. good R f) f" for n
    by (rule vok_bind, rule vok_mono [OF ok_doPush [OF f]]) (auto intro: vok_ret)
  have stack: "vok (good R f) (vbind m (\<lambda>_. vbind advance (\<lambda>_. vret None))) (\<lambda>_. good R f) f"
    if "ok m f" for m :: "unit vm"
    by (rule vok_bind, rule vok_mono [OF that])
      (auto simp: advance_def good_pc intro!: vok_bind vok_mod vok_ret)
  have "op = STOP \<or> (\<exists>n. op = PUSH n) \<or> (\<exists>n. op = DUP n) \<or> (\<exists>n. op = SWAP n) \<or>
      dispatch E cb op = vbind (exec E cb op) (\<lambda>(done, ret).
        if done then vret (Some ret) else vbind next_pc (\<lambda>_. vret None))"
    by (cases op) (simp_all add: dispatch_def)
  then consider "op = STOP" | n where "op = PUSH n" | n where "op = DUP n" | n where "op = SWAP n"
    | "dispatch E cb op = vbind (exec E cb op) (\<lambda>(done, ret).
        if done then vret (Some ret) else vbind next_pc (\<lambda>_. vret None))" by blast
  then show ?thesis
  proof cases
    case 1
    then show ?thesis by (simp add: dispatch_def vok_ret good_refl [OF f])
  next
    case 2
    then show ?thesis using push by (simp add: dispatch_def gasCost_def)
  next
    case 3
    then show ?thesis using stack [OF ok_dup [OF f]] by (simp add: dispatch_def gasCost_def)
  next
    case 4
    then show ?thesis using stack [OF ok_swap [OF f]] by (simp add: dispatch_def gasCost_def)
  next
    case 5
    then show ?thesis using exec by simp
  qed
qed

lemma decode_op_log: "decode_op b = LOG n \<Longrightarrow> n \<le> 4"
proof -
  have "map_of opcode_table k \<noteq> Some (LOG n)" for k
    by (auto dest!: map_of_SomeD simp: opcode_table_def)
  then show "decode_op b = LOG n \<Longrightarrow> n \<le> 4"
    by (auto simp: decode_op_def Let_def split: if_splits option.splits)
qed

lemma ok_step:
  assumes f: "frame_inv f" and cb: "callback_ok R (f_gas f) cb"
  shows "vok (good R f) (step E cb) (\<lambda>r f'. good R f f' \<and> (r \<noteq> None \<or> f_gas f' < f_gas f)) f"
  unfolding step_def
proof (rule vok_bind, rule vok_get, rule vok_bind, rule vok_useGas [OF good_refl [OF f]])
  fix f1 assume 1: "good R f f1" "f_gas f1 + gasCost (decode_op (f_code f ! f_pc f)) = f_gas f"
  have "callback_ok R (f_gas f1) cb" by (rule callback_ok_less [OF cb]) (use 1 in simp)
  from ok_dispatch [OF goodD(10) [OF 1(1)] this decode_op_log]
  show "vok (good R f) (dispatch E cb (decode_op (f_code f ! f_pc f)))
      (\<lambda>r f'. good R f f' \<and> (r \<noteq> None \<or> f_gas f' < f_gas f)) f1"
  proof (rule vok_rebase [OF _ 1(1)])
    fix r h assume "good R f1 h \<and> (r \<noteq> None \<or> 0 < gasCost (decode_op (f_code f ! f_pc f)) \<or> f_gas h < f_gas f1)"
    then show "good R f h \<and> (r \<noteq> None \<or> f_gas h < f_gas f)"
      using good_trans [OF 1(1)] goodD(5) [of R f1 h] 1(2) by auto
  qed
qed

definition run_ok :: "frame \<Rightarrow> (vm_error + bytes) \<times> frame \<Rightarrow> bool" where
  "run_ok f r \<longleftrightarrow> good R f (snd r) \<and> fst r \<noteq> Inl GoPanic \<and> fst r \<noteq> Inl NoFuel"

lemma frame_result_ok:
  assumes "run_ok (new_frame code input gas ctx depth (Some w)) r"
  shows "call_ok R (cx_Static ctx) gas w (frame_result r)"
proof -
  obtain e f where r: "r = (e, f)" by fastforce
  have g: "good R (new_frame code input gas ctx depth (Some w)) f" "e \<noteq> Inl GoPanic" "e \<noteq> Inl NoFuel"
    using assms r by (simp_all add: run_ok_def)
  have "\<exists>v. f_state f = Some v \<and> world_ok v \<and> world_ext w v \<and> R (cx_Static ctx) w v" and "f_gas f \<le> gas"
    using g(1) by (auto simp: good_def frame_inv_def new_frame_def)
  then show ?thesis
    using g(2,3) r by (cases "(e, f)" rule: frame_result.cases) (auto simp: call_ok_def)
qed

lemma callback_run:
  assumes "\<And>f. frame_inv f \<Longrightarrow> f_gas f < n \<Longrightarrow> run_ok f (run_fuel n E f)"
  shows "callback_ok R n (execute_with (run_fuel n E))"
  unfolding callback_ok_def execute_with_def
  by (intro allI impI, rule frame_result_ok, rule assms) (simp_all add: new_frame_def frame_inv_def)

lemma run_fuel_ok: "frame_inv f \<Longrightarrow> f_gas f < n \<Longrightarrow> run_ok f (run_fuel n E f)"
proof (induction n arbitrary: f)
  case (Suc n)
  show ?case
  proof (cases "f_pc f < length (f_code f)")
    case False
    then show ?thesis using good_refl [OF Suc.prems(1)] by (simp add: run_ok_def)
  next
    case True
    have "callback_ok R (f_gas f) (execute_with (run_fuel n E))"
      by (rule callback_ok_less [OF callback_run [OF Suc.IH]]) (use Suc.prems(2) in simp_all)
    note st = ok_step [OF Suc.prems(1) this, of E, unfolded vok_def]
    obtain r f1 where 1: "step E (execute_with (run_fuel n E)) f = (r, f1)" by fastforce
    show ?thesis
    proof (cases r)
      case (Inl e)
      then show ?thesis using True 1 st by (simp add: run_ok_def)
    next
      case (Inr x)
      show ?thesis
      proof (cases x)
        case (Some ret)
        then show ?thesis using True 1 st Inr by (simp add: run_ok_def)
      next
        case None
        then have g: "good R f f1" "f_gas f1 < f_gas f" using 1 st Inr by simp_all
        then have "run_ok f1 (run_fuel n E f1)"
          using Suc.prems(2) by (intro Suc.IH) (auto dest: goodD(10))
        then show ?thesis using True 1 Inr None good_trans [OF g(1)] by (simp add: run_ok_def)
      qed
    qed
  qed
qed simp

text \<open>The contract of \<^verbatim>\<open>execute\<close>, for every relation that the state operations respect.\<close>

lemma execute_ok:
  assumes "world_ok w" and "gas \<le> gas_cap" and "length code < 2 ^ 63" and "length input < 2 ^ 63"
  shows "call_ok R (cx_Static ctx) gas w (execute E code input gas ctx depth (Some w))"
  unfolding execute_def execute_with_def
  by (rule frame_result_ok, rule run_fuel_ok) (use assms in \<open>simp_all add: new_frame_def frame_inv_def\<close>)

end

end
