(* ===== verification/Evm_Fuel.thy ===== *)
theory Evm_Fuel
  imports Evm_Sound
begin

text \<open>
  The fuel of the interpreter is a proof device: any amount above the gas gives the same result.
  A callback with more fuel refines one with less (\<open>below\<close>), instructions are monotone in their
  callback, and with enough gas accounted for the lesser run has not run dry.
\<close>

definition dry :: "(vm_error + 'a) \<times> frame \<Rightarrow> bool" where
  "dry r \<longleftrightarrow> fst r = Inl NoFuel"

definition below :: "'a vm \<Rightarrow> 'a vm \<Rightarrow> bool" where
  "below m n \<longleftrightarrow> (\<forall>f. dry (m f) \<or> m f = n f)"

definition cb_below :: "callback \<Rightarrow> callback \<Rightarrow> bool" where
  "cb_below c d \<longleftrightarrow> (\<forall>code input gas ctx depth w.
     res_err (fst (c code input gas ctx depth w)) = Some NoFuel \<or>
     c code input gas ctx depth w = d code input gas ctx depth w)"

lemma below_refl [simp, intro]: "below m m"
  by (simp add: below_def)

lemma below_bind:
  assumes "below m n" and "\<And>a. below (k a) (l a)"
  shows "below (vbind m k) (vbind n l)"
proof -
  have "dry (vbind m k f) \<or> vbind m k f = vbind n l f" for f
  proof (cases "dry (m f)")
    case True
    then show ?thesis by (auto simp: dry_def vbind_def split: prod.splits sum.splits)
  next
    case False
    then have "n f = m f" using assms(1) by (metis below_def)
    then show ?thesis
      using assms(2) by (auto simp: below_def vbind_def split: prod.splits sum.splits)
  qed
  then show ?thesis by (simp add: below_def)
qed

lemma below_if: "(c \<Longrightarrow> below m n) \<Longrightarrow> (\<not> c \<Longrightarrow> below m' n') \<Longrightarrow> below (if c then m else m') (if c then n else n')"
  by simp

lemma below_let: "(\<And>a. below (k a) (l a)) \<Longrightarrow> below (Let v k) (Let v l)"
  by simp

lemma below_prod: "(\<And>a b. below (k a b) (l a b)) \<Longrightarrow> below (case_prod k p) (case_prod l p)"
  by (cases p) simp

lemmas below_intros = below_bind below_if below_let below_prod below_refl

lemma below_sub_call:
  assumes "\<And>w. res_err (fst (c w)) = Some NoFuel \<or> c w = d w"
  shows "below (sub_call c give prep) (sub_call d give prep)"
  unfolding sub_call_def
proof (intro below_bind below_refl)
  fix w
  let ?v = "prep (snd (Snapshot w))"
  show "below
      (let (snap, w1) = Snapshot w; (res, w2) = c (prep w1) in vbind (vmod (\<lambda>f. f\<lparr>f_state := w2\<rparr>)) (\<lambda>_.
        if res_err res = Some NoFuel then vfail NoFuel else if res_err res = Some GoPanic then vfail GoPanic
        else vbind (vmod (\<lambda>f. f\<lparr>f_gas := add64 (f_gas f) (res_gasleft res)\<rparr>)) (\<lambda>_. vret (res, snap))))
      (let (snap, w1) = Snapshot w; (res, w2) = d (prep w1) in vbind (vmod (\<lambda>f. f\<lparr>f_state := w2\<rparr>)) (\<lambda>_.
        if res_err res = Some NoFuel then vfail NoFuel else if res_err res = Some GoPanic then vfail GoPanic
        else vbind (vmod (\<lambda>f. f\<lparr>f_gas := add64 (f_gas f) (res_gasleft res)\<rparr>)) (\<lambda>_. vret (res, snap))))"
  proof (cases "res_err (fst (c ?v)) = Some NoFuel")
    case True
    then show ?thesis
      by (auto simp: below_def dry_def vbind_def vmod_def vfail_def case_prod_beta Let_def)
  next
    case False
    then have "c ?v = d ?v" using assms by blast
    then show ?thesis by (simp add: case_prod_beta Let_def)
  qed
qed

lemma below_opCall:
  assumes "cb_below c d"
  shows "below (opCall E c mode) (opCall E d mode)"
proof -
  have "below (opCall_go E c mode ctx target v args give ro rs) (opCall_go E d mode ctx target v args give ro rs)"
    for ctx target v args give ro rs
    unfolding opCall_go_def
    by (intro below_intros below_sub_call)
      (use assms in \<open>auto simp: opCall_callee_def cb_below_def split: option.split\<close>)
  then show ?thesis unfolding opCall_def opCall_enter_def by (intro below_intros) auto
qed

lemma below_opCreate:
  assumes "cb_below c d"
  shows "below (opCreate E c create2) (opCreate E d create2)"
proof -
  have "below (opCreate_go c ctx a v init give) (opCreate_go d ctx a v init give)" for ctx a v init give
    unfolding opCreate_go_def
    by (intro below_intros below_sub_call) (use assms in \<open>auto simp: cb_below_def\<close>)
  then show ?thesis unfolding opCreate_def opCreate_enter_def by (intro below_intros) auto
qed

lemma below_exec:
  assumes "cb_below c d"
  shows "below (exec E c op) (exec E d op)"
proof -
  have "below (cont (opCall E c mode)) (cont (opCall E d mode))" for mode
    unfolding cont_def by (intro below_bind below_opCall [OF assms] below_refl)
  moreover have "below (cont (opCreate E c b)) (cont (opCreate E d b))" for b
    unfolding cont_def by (intro below_bind below_opCreate [OF assms] below_refl)
  ultimately show ?thesis by (cases op) (simp_all add: exec_def)
qed

lemma below_step: "cb_below c d \<Longrightarrow> below (step E c) (step E d)"
proof -
  assume cb: "cb_below c d"
  have "below (vbind (exec E c op) k) (vbind (exec E d op) k)" for op and k :: "bool \<times> bytes \<Rightarrow> bytes option vm"
    by (intro below_bind below_exec [OF cb] below_refl)
  then have "below (dispatch E c op) (dispatch E d op)" for op
    by (cases op) (simp_all add: dispatch_def)
  then show ?thesis unfolding step_def by (intro below_bind below_refl)
qed

lemma run_fuel_mono: "dry (run_fuel n E f) \<or> run_fuel n E f = run_fuel (Suc n) E f"
proof (induction n arbitrary: f)
  case 0
  show ?case by (simp add: dry_def)
next
  case (Suc n)
  have "cb_below (execute_with (run_fuel n E)) (execute_with (run_fuel (Suc n) E))"
    unfolding cb_below_def execute_with_def
  proof (intro allI)
    fix code input gas ctx depth w
    let ?f = "new_frame code input gas ctx depth w"
    show "res_err (fst (frame_result (run_fuel n E ?f))) = Some NoFuel \<or>
        frame_result (run_fuel n E ?f) = frame_result (run_fuel (Suc n) E ?f)"
    proof (cases "dry (run_fuel n E ?f)")
      case True
      then show ?thesis by (cases "run_fuel n E ?f") (simp add: dry_def)
    next
      case False
      then show ?thesis using Suc.IH by metis
    qed
  qed
  then have st: "dry (step E (execute_with (run_fuel n E)) f) \<or>
      step E (execute_with (run_fuel n E)) f = step E (execute_with (run_fuel (Suc n) E)) f"
    using below_step by (auto simp: below_def)
  obtain r g where rg: "step E (execute_with (run_fuel n E)) f = (r, g)" by fastforce
  show ?case
  proof (cases "f_pc f < length (f_code f) \<and> r \<noteq> Inl NoFuel")
    case False
    then show ?thesis using rg by (cases "f_pc f < length (f_code f)") (simp_all add: dry_def)
  next
    case True
    then have "step E (execute_with (run_fuel (Suc n) E)) f = (r, g)"
      using st rg by (simp add: dry_def)
    then show ?thesis
      using True rg Suc.IH [of g]
      by (simp add: dry_def del: run_fuel.simps) (simp add: dry_def split: sum.split option.split)
  qed
qed

lemma run_fuel_stable:
  assumes "m \<le> n" and "\<And>k. m \<le> k \<Longrightarrow> \<not> dry (run_fuel k E f)"
  shows "run_fuel n E f = run_fuel m E f"
  using assms(1)
proof (induction rule: dec_induct)
  case (step k)
  then show ?case using run_fuel_mono [of k E f] assms(2) by metis
qed simp

end
