(* ===== verification/Evm_Properties.thy ===== *)
theory Evm_Properties
  imports Types_Properties Evm_Fuel
begin

text \<open>
  What the virtual machine guarantees its callers, each an instance of the soundness of
  \<open>execute\<close> for one relation between world states.
\<close>

section \<open>Instances of the world relation\<close>

definition rel_any :: "bool \<Rightarrow> world \<Rightarrow> world \<Rightarrow> bool" where
  "rel_any s v w \<longleftrightarrow> True"

definition rel_supply :: "bool \<Rightarrow> world \<Rightarrow> world \<Rightarrow> bool" where
  "rel_supply s v w \<longleftrightarrow> SumBalances w = SumBalances v \<and> w_burned w = w_burned v"

definition rel_static :: "bool \<Rightarrow> world \<Rightarrow> world \<Rightarrow> bool" where
  "rel_static s v w \<longleftrightarrow> (s \<longrightarrow> w_accounts w = w_accounts v \<and> w_logs w = w_logs v \<and>
     w_touched w = w_touched v \<and> w_journal w = w_journal v \<and> w_burned w = w_burned v)"

definition rel_covers :: "bool \<Rightarrow> world \<Rightarrow> world \<Rightarrow> bool" where
  "rel_covers s v w \<longleftrightarrow> covers v w"

interpretation total_run: world_rel rel_any
  by unfold_locales (simp_all add: rel_any_def)

interpretation conserve: world_rel rel_supply
  by unfold_locales
    (simp_all add: rel_supply_def world_simps transfer_def world_ok_SubBalance)

interpretation readonly: world_rel rel_static
  by unfold_locales (auto simp: rel_static_def Snapshot_def)

interpretation touch: world_rel rel_covers
  by unfold_locales
    (auto simp: rel_covers_def transfer_def covers_mutators intro: covers_trans covers_mutators)

section \<open>Properties\<close>

text \<open>A context and a world to run things in.\<close>

definition sample_context :: vm_context where
  "sample_context = \<lparr>cx_Address = 0x1000, cx_Caller = 0x2000, cx_Value = Some 0,
     cx_BlockGasLimit = 30000000, cx_Origin = 0x2000, cx_GasPrice = Some 1, cx_Coinbase = 0x3000,
     cx_BlockNumber = 1, cx_Time = 1700000000, cx_Difficulty = Some 1000, cx_ChainID = 1337,
     cx_BaseFee = Some 0, cx_Static = False\<rparr>"

text \<open>
  C34 A run of the virtual machine on any code and input and on up to \<open>2 ^ 40\<close> gas, far above the block limit
  and the cap of read-only calls, returns: it neither exceeds the fuel nor panics, and it never leaves more
  gas than it was given.
\<close>

theorem vm_run_total:
  assumes "world_ok w" and "gas \<le> 2 ^ 40" and "length code < 2 ^ 63" and "length input < 2 ^ 63"
  shows "res_err (fst (vm_Run E code input gas ctx (Some w))) \<notin> {Some NoFuel, Some GoPanic} \<and>
    res_gasleft (fst (vm_Run E code input gas ctx (Some w))) \<le> gas"
  using total_run.execute_ok [OF assms(1) assms(2) [folded gas_cap_def] assms(3,4), of ctx E 0]
  by (simp add: vm_Run_def call_ok_def)

theorem vm_run_total_witness:
  "res_gasleft (fst (vm_Run sample_crypto [0x5b, 0x60, 0x00, 0x56] [] 1000 sample_context (Some world_New)))
     \<le> 1000"
  using vm_run_total [of world_New 1000 "[0x5b, 0x60, 0x00, 0x56]" "[]" sample_crypto sample_context]
  by simp

text \<open>
  The fuel of the interpreter is immaterial: with any amount above the gas the run gives exactly
  the result of \<^verbatim>\<open>execute\<close>, so the definition captures the unbounded loop of the source.
\<close>

theorem execute_fuel_irrelevant:
  assumes "world_ok w" and "gas \<le> 2 ^ 40" and "length code < 2 ^ 63" and "length input < 2 ^ 63"
    and "gas < n"
  shows "execute_with (run_fuel n E) code input gas ctx depth (Some w) =
    execute E code input gas ctx depth (Some w)"
proof -
  let ?f = "new_frame code input gas ctx depth (Some w)"
  have inv: "frame_inv ?f" using assms(1-4) by (simp add: new_frame_def frame_inv_def gas_cap_def)
  have wet: "\<not> dry (run_fuel m E ?f)" if "gas < m" for m
    using total_run.run_fuel_ok [OF inv, of m E] that by (simp add: total_run.run_ok_def dry_def new_frame_def)
  have "run_fuel n E ?f = run_fuel (Suc gas) E ?f"
    by (rule run_fuel_stable) (use assms(5) wet in simp_all)
  then show ?thesis by (simp add: execute_def execute_with_def del: run_fuel.simps)
qed

theorem execute_fuel_irrelevant_witness:
  "execute_with (run_fuel 5000 sample_crypto) [0x60, 0x01] [] 100 sample_context 0 (Some world_New) =
     execute sample_crypto [0x60, 0x01] [] 100 sample_context 0 (Some world_New)"
  by (rule execute_fuel_irrelevant) simp_all

text \<open>
  C35 Running contract code creates and destroys no value: whatever it calls, creates, reverts or
  fails with, the sum of all balances and the burn total are unchanged and the world stays
  well-formed (no negative balance, no stored zero slot, no empty account).
\<close>

theorem vm_run_conserves_value:
  assumes "world_ok w" and "gas \<le> 2 ^ 40" and "length code < 2 ^ 63" and "length input < 2 ^ 63"
  shows "\<exists>v. snd (vm_Run E code input gas ctx (Some w)) = Some v \<and> world_ok v \<and>
    SumBalances v = SumBalances w \<and> w_burned v = w_burned w"
  using conserve.execute_ok [OF assms(1) assms(2) [folded gas_cap_def] assms(3,4), of ctx E 0]
  by (auto simp: vm_Run_def call_ok_def rel_supply_def)

theorem vm_run_conserves_value_witness:
  "\<exists>v. snd (vm_Run sample_crypto [0x60, 0x05, 0x60, 0x00, 0x55] [] 100000 sample_context (Some world_New)) =
     Some v \<and> world_ok v \<and> SumBalances v = SumBalances world_New \<and> w_burned v = w_burned world_New"
  by (rule vm_run_conserves_value) simp_all

text \<open>
  C36 A static frame is read-only: accounts, storage, code, nonces, events, the burn total and even
  the touched set come out exactly as they went in, however the code nests its calls.
\<close>

theorem static_call_read_only:
  assumes "world_ok w" and "gas \<le> 2 ^ 40" and "length code < 2 ^ 63" and "length input < 2 ^ 63"
    and "cx_Static ctx"
  shows "\<exists>v. snd (execute E code input gas ctx depth (Some w)) = Some v \<and>
    w_accounts v = w_accounts w \<and> w_logs v = w_logs w \<and> w_touched v = w_touched w \<and>
    w_burned v = w_burned w"
  using readonly.execute_ok [OF assms(1) assms(2) [folded gas_cap_def] assms(3,4), of ctx E depth] assms(5)
  by (auto simp: call_ok_def rel_static_def)

theorem static_call_read_only_witness:
  "\<exists>v. snd (execute sample_crypto [0x60, 0x05, 0x60, 0x00, 0x55] [] 100000
      (sample_context\<lparr>cx_Static := True\<rparr>) 0 (Some world_New)) = Some v \<and>
    w_accounts v = w_accounts world_New \<and> w_logs v = w_logs world_New \<and>
    w_touched v = w_touched world_New \<and> w_burned v = w_burned world_New"
  by (rule static_call_read_only) simp_all

text \<open>
  C37 Rolling back is exact: take a snapshot, run any code, revert to the snapshot, and the world is
  the one before, in every component.
\<close>

theorem execute_then_revert:
  assumes "world_ok w" and "gas \<le> 2 ^ 40" and "length code < 2 ^ 63" and "length input < 2 ^ 63"
  shows "\<exists>v. snd (execute E code input gas ctx depth (Some (snd (Snapshot w)))) = Some v \<and>
    RevertToSnapshot v (fst (Snapshot w)) = w"
proof -
  have "world_ok (snd (Snapshot w))" using assms(1) by (simp add: world_ok_fields)
  from total_run.execute_ok [OF this assms(2) [folded gas_cap_def] assms(3,4), of ctx E depth]
  show ?thesis using revert_exact [of w] by (auto simp: call_ok_def)
qed

theorem execute_then_revert_witness:
  "\<exists>v. snd (execute sample_crypto [0x60, 0x05, 0x60, 0x00, 0x55] [] 100000 sample_context 0
      (Some (snd (Snapshot world_New)))) = Some v \<and>
    RevertToSnapshot v (fst (Snapshot world_New)) = world_New"
  by (rule execute_then_revert) simp_all

text \<open>
  C38 The touched set covers every change: an account that a run left out of the touched set is the
  same as before, so persisting the touched accounts persists the whole difference.
\<close>

theorem touched_covers_run:
  assumes "world_ok w" and "gas \<le> 2 ^ 40" and "length code < 2 ^ 63" and "length input < 2 ^ 63"
  shows "\<exists>v. snd (vm_Run E code input gas ctx (Some w)) = Some v \<and> w_touched w \<subseteq> w_touched v \<and>
    (\<forall>a. a \<notin> w_touched v \<longrightarrow> w_accounts v a = w_accounts w a)"
  using touch.execute_ok [OF assms(1) assms(2) [folded gas_cap_def] assms(3,4), of ctx E 0]
  by (auto simp: vm_Run_def call_ok_def rel_covers_def covers_def)

theorem touched_covers_run_witness:
  "\<exists>v. snd (vm_Run sample_crypto [0x60, 0x05, 0x60, 0x00, 0x55] [] 100000 sample_context (Some world_New)) =
     Some v \<and> w_touched world_New \<subseteq> w_touched v \<and>
     (\<forall>a. a \<notin> w_touched v \<longrightarrow> w_accounts v a = w_accounts world_New a)"
  by (rule touched_covers_run) simp_all

text \<open>
  C39 Every two-operand instruction is the operation of a 256-bit machine: the big-integer code,
  reduced modulo \<open>2 ^ 256\<close>, computes exactly addition, signed and unsigned division and remainder,
  exponentiation, sign extension, comparison, bitwise logic and the three shifts of 256-bit words,
  with division by zero giving zero.
\<close>

theorem binop_is_machine_arithmetic:
  assumes "is_binop op"
  shows "wrap (binop_value op (uint x) (uint y)) = uint (word_binop op x y)"
  using assms by (rule binop_agrees)

theorem binop_is_machine_arithmetic_witness:
  "wrap (binop_value SDIV (uint (- 7 :: hash)) (uint (2 :: hash))) = uint (word_binop SDIV (- 7) 2)"
  by (rule binop_is_machine_arithmetic) (simp add: is_binop_def)

section \<open>Jump destinations\<close>

text \<open>Instruction boundaries: where a straight pass over the code finds opcodes.\<close>

inductive boundary :: "bytes \<Rightarrow> nat \<Rightarrow> bool" for code where
  start: "boundary code 0"
| next_op: "boundary code i \<Longrightarrow> i < length code \<Longrightarrow>
    boundary code (i + 1 + (case isPush (decode_op (code ! i)) of None \<Rightarrow> 0 | Some n \<Rightarrow> n))"

inductive_cases boundaryE: "boundary code j"

definition next_boundary :: "bytes \<Rightarrow> nat \<Rightarrow> nat" where
  "next_boundary code i = i + 1 + (case isPush (decode_op (code ! i)) of None \<Rightarrow> 0 | Some n \<Rightarrow> n)"

lemma boundary_gap:
  "boundary code j \<Longrightarrow> boundary code i \<Longrightarrow> i < length code \<Longrightarrow> i < j \<Longrightarrow> next_boundary code i \<le> j"
proof (induction j arbitrary: i rule: less_induct)
  case (less j)
  from \<open>boundary code j\<close> \<open>i < j\<close> obtain k where k: "j = next_boundary code k" "boundary code k" "k < length code"
    by (auto simp: next_boundary_def elim: boundaryE)
  have "k < j" using k(1) by (simp add: next_boundary_def)
  consider "k = i" | "i < k" | "k < i" by linarith
  then show ?case
  proof cases
    case 1
    then show ?thesis using k by simp
  next
    case 2
    then have "next_boundary code i \<le> k" using less.IH [OF \<open>k < j\<close> k(2)] less.prems by blast
    then show ?thesis using \<open>k < j\<close> by simp
  next
    case 3
    then have "j \<le> i" using less.IH [OF \<open>i < j\<close> _ k(2,3)] less.prems k(1) by blast
    then show ?thesis using less.prems by simp
  qed
qed

text \<open>The loop invariant: up to \<open>i\<close> the marks are right, from \<open>i\<close> on there are none.\<close>

definition marks :: "bytes \<Rightarrow> nat \<Rightarrow> bool list \<Rightarrow> bool" where
  "marks code i dests \<longleftrightarrow> boundary code i \<and> length dests = length code \<and>
     (\<forall>j < length code. dests ! j \<longleftrightarrow> j < i \<and> boundary code j \<and> decode_op (code ! j) = JUMPDEST)"

lemma marks_step:
  assumes "marks code i dests" and "i < length code"
  shows "marks code (next_boundary code i) (if decode_op (code ! i) = JUMPDEST then dests[i := True] else dests)"
proof -
  have b: "boundary code i" using assms(1) by (simp add: marks_def)
  have nb: "boundary code (next_boundary code i)"
    using next_op [OF b assms(2)] by (simp add: next_boundary_def)
  have gap: "j < next_boundary code i \<longleftrightarrow> j < i \<or> j = i" if "boundary code j" for j
    using boundary_gap [OF that b assms(2)] by (fastforce simp: next_boundary_def not_less_iff_gr_or_eq)
  show ?thesis
    using assms nb b gap unfolding marks_def by (auto simp: nth_list_update)
qed

lemma marks_loop: "marks code i dests \<Longrightarrow> \<exists>j \<ge> length code. marks code j (jumpdest_loop code i dests)"
proof (induction code i dests rule: jumpdest_loop.induct)
  case (1 code i dests)
  show ?case
  proof (cases "i < length code")
    case False
    then show ?thesis using 1(4) by (intro exI [of _ i]) (simp add: jumpdest_loop.simps)
  next
    case True
    let ?op = "decode_op (code ! i)"
    note st = marks_step [OF 1(4) True]
    consider "?op = JUMPDEST" | n where "?op \<noteq> JUMPDEST" "isPush ?op = Some n"
      | "?op \<noteq> JUMPDEST" "isPush ?op = None" by (cases "isPush ?op") auto
    then show ?thesis
    proof cases
      case a: 1
      have "next_boundary code i = i + 1" by (simp add: next_boundary_def isPush_def a)
      then show ?thesis
        using 1(1) [OF True refl a] st a True by (subst jumpdest_loop.simps) auto
    next
      case a: 2
      have "next_boundary code i = i + (n + 1)" by (simp add: next_boundary_def a)
      then show ?thesis
        using 1(3) [OF True refl a] st a True by (subst jumpdest_loop.simps) auto
    next
      case a: 3
      have "next_boundary code i = i + 1" by (simp add: next_boundary_def a)
      then show ?thesis
        using 1(2) [OF True refl a] st a True by (subst jumpdest_loop.simps) auto
    qed
  qed
qed

text \<open>
  C40 The jump-destination analysis marks exactly the \<^verbatim>\<open>JUMPDEST\<close> bytes that stand at an
  instruction boundary, so no jump lands inside the data of a push.
\<close>

theorem jumpdest_analysis_exact:
  "length (analyseJumpdests code) = length code \<and>
    (\<forall>d. d < length code \<longrightarrow>
      (analyseJumpdests code ! d \<longleftrightarrow> boundary code d \<and> decode_op (code ! d) = JUMPDEST))"
  unfolding analyseJumpdests_def
  using marks_loop [of code 0 "replicate (length code) False"] start [of code]
  by (auto simp: marks_def)

theorem jumpdest_analysis_exact_witness:
  "analyseJumpdests [0x60, 0x5b, 0x5b] ! 2 \<longleftrightarrow>
    boundary [0x60, 0x5b, 0x5b] 2 \<and> decode_op ([0x60, 0x5b, 0x5b] ! 2) = JUMPDEST"
  using jumpdest_analysis_exact [of "[0x60, 0x5b, 0x5b]"] by simp

end
