(* ===== verification/Transition.thy ===== *)
theory Transition
  imports Evm_Properties
begin

text \<open>
  The state transition of \<^verbatim>\<open>src/state/transition.go\<close>: issuance, one transaction, one block, and the
  read-only probes.  A function that mutates its state argument returns the state beside its
  result; a Go panic is the error \<open>ErrBlockPanic\<close>, which is what the firewall of \<^verbatim>\<open>ApplyBlock\<close> turns
  it into.  The package variables that genesis sets are a record argument.
\<close>

section \<open>Issuance\<close>

definition BaseBlockReward :: int where "BaseBlockReward = 25 * 10 ^ 18"
definition HalvingInterval :: nat where "HalvingInterval = 1000000"

definition BlockRewardAt :: "nat \<Rightarrow> int" where
  "BlockRewardAt height = drop_bit (height div HalvingInterval) BaseBlockReward"

text \<open>
  \<^verbatim>\<open>CumulativeIssued\<close> (state.go) loops over eras until the next era starts above the height or the
  reward has reached zero.  \<open>None\<close> stands for a loop that did not end within the fuel.
\<close>

definition era_issued :: "nat \<Rightarrow> nat \<Rightarrow> int" where
  "era_issued h start =
     (let lo = (if start = 0 then 1 else start);
          last = sub64 (add64 start HalvingInterval) 1;
          hi = (if last > h then h else last)
      in if hi < lo then 0 else BlockRewardAt start * int (add64 (sub64 hi lo) 1))"

primrec issued_loop :: "nat \<Rightarrow> nat \<Rightarrow> nat \<Rightarrow> int \<Rightarrow> int option" where
  "issued_loop 0 h era acc = None"
| "issued_loop (Suc n) h era acc =
     (let start = mul64 era HalvingInterval in
      if start > h then Some acc
      else if BlockRewardAt start = 0 then Some acc
      else issued_loop n h (add64 era 1) (acc + era_issued h start))"

definition CumulativeIssued :: "nat \<Rightarrow> int option" where
  "CumulativeIssued h = issued_loop 100 h 0 0"

record reward_config =
  TreasuryRewardBasisPoints :: int
  TreasuryRewardAddress :: address

definition treasuryCut :: "reward_config \<Rightarrow> int \<Rightarrow> int" where
  "treasuryCut cfg reward = reward * TreasuryRewardBasisPoints cfg div 10000"

definition CreditBlockReward :: "reward_config \<Rightarrow> world \<Rightarrow> address \<Rightarrow> nat \<Rightarrow> world" where
  "CreditBlockReward cfg w miner height =
     (let reward = BlockRewardAt height in
      if TreasuryRewardBasisPoints cfg > 0 \<and> TreasuryRewardAddress cfg \<noteq> 0
      then let cut = treasuryCut cfg reward;
               w1 = (if TreasuryRewardAddress cfg = BurnAddress then Burn w cut
                     else Credit w (TreasuryRewardAddress cfg) cut)
           in Credit w1 miner (reward - cut)
      else Credit w miner reward)"

definition FeeBurnBasisPoints :: nat where "FeeBurnBasisPoints = 2000"

definition fee_burn :: "int \<Rightarrow> int" where
  "fee_burn fee = fee * int FeeBurnBasisPoints div 10000"

definition distributeFee :: "world \<Rightarrow> address \<Rightarrow> int \<Rightarrow> world" where
  "distributeFee w proposer fee =
     (let burn = fee_burn fee; tip = fee - burn in Credit (Burn w burn) proposer tip)"

section \<open>One transaction\<close>

datatype apply_error =
    ErrTx tx_error | ErrNonceTooLow | ErrNonceTooHigh | ErrInsufficient | ErrGasLimit
  | ErrBadStateRoot | ErrBadTxRoot | ErrBadReceiptRoot | ErrBadParent | ErrBadHeight
  | ErrBadTimestamp | ErrBadGasLimit | ErrGasUsedMismatch | ErrBlockPanic

text \<open>Why the call inside a transaction failed: a fault of the machine, or one of the deployment.\<close>

datatype call_error = VmErr vm_error | ErrContractCollision | ErrMaxCodeSize

definition codeDepositGas :: nat where "codeDepositGas = 200"

definition CreateAddress :: "crypto \<Rightarrow> address \<Rightarrow> nat \<Rightarrow> address" where
  "CreateAddress E sender nonce =
     addr_of_hash (keccak256 E (st_rlpList [st_rlpBytes (addr_bytes sender), st_rlpUint nonce]))"

text \<open>\<^verbatim>\<open>vm.Run\<close> on a bound state: the state comes back, never nil.\<close>

definition run_on :: "crypto \<Rightarrow> bytes \<Rightarrow> bytes \<Rightarrow> nat \<Rightarrow> vm_context \<Rightarrow> world \<Rightarrow> vm_result \<times> world" where
  "run_on E code input gas ctx w =
     (let (res, v) = vm_Run E code input gas ctx (Some w) in (res, case v of None \<Rightarrow> w | Some u \<Rightarrow> u))"

definition tx_env :: "world \<Rightarrow> tx \<Rightarrow> address \<Rightarrow> address \<Rightarrow> nat \<Rightarrow> address \<Rightarrow> int \<Rightarrow> vm_context" where
  "tx_env w tx sender coinbase blockGasLimit self value =
     \<lparr>cx_Address = self, cx_Caller = sender, cx_Value = Some value, cx_BlockGasLimit = blockGasLimit,
      cx_Origin = sender, cx_GasPrice = tx_gasprice tx, cx_Coinbase = coinbase,
      cx_BlockNumber = bc_number (w_bctx w), cx_Time = bc_time (w_bctx w),
      cx_Difficulty = bc_difficulty (w_bctx w), cx_ChainID = tx_chainid tx, cx_BaseFee = None,
      cx_Static = False\<rparr>"

text \<open>What the body of a transaction yields: the failure if any, the gas it used, and the state.\<close>

type_synonym body_outcome = "call_error option \<times> nat \<times> world"

definition deploy_result :: "address \<Rightarrow> nat \<Rightarrow> vm_result \<times> world \<Rightarrow> body_outcome" where
  "deploy_result addr gasBudget = (\<lambda>(res, w).
     let used = sub64 gasBudget (res_gasleft res) in
     case res_err res of
       Some e \<Rightarrow> (Some (VmErr e), used, w)
     | None \<Rightarrow>
         if length (res_ret res) > MaxCodeSize then (Some ErrMaxCodeSize, gasBudget, w)
         else let codeGas = mul64 codeDepositGas (length (res_ret res)) in
           if res_gasleft res < codeGas then (Some (VmErr ErrOutOfGas), gasBudget, w)
           else (None, add64 used codeGas, SetCode w addr (res_ret res)))"

definition call_result :: "nat \<Rightarrow> vm_result \<times> world \<Rightarrow> body_outcome" where
  "call_result gasBudget = (\<lambda>(res, w).
     (map_option VmErr (res_err res), sub64 gasBudget (res_gasleft res), w))"

definition tx_body ::
  "crypto \<Rightarrow> world \<Rightarrow> tx \<Rightarrow> address \<Rightarrow> address \<Rightarrow> nat \<Rightarrow> int \<Rightarrow> nat \<Rightarrow> body_outcome" where
  "tx_body E w tx sender coinbase blockGasLimit value gasBudget =
     (case tx_to tx of
        None \<Rightarrow>
          let addr = CreateAddress E sender (tx_nonce tx) in
          if GetNonce w addr \<noteq> 0 \<or> length (GetCode w addr) > 0
          then (Some ErrContractCollision, gasBudget, w)
          else deploy_result addr gasBudget
            (run_on E (tx_data tx) [] gasBudget (tx_env w tx sender coinbase blockGasLimit addr value)
              (Credit w addr value))
      | Some to \<Rightarrow>
          if length (GetCode w to) > 0
          then call_result gasBudget
            (let w1 = Credit w to value in
             run_on E (GetCode w1 to) (tx_data tx) gasBudget
               (tx_env w tx sender coinbase blockGasLimit to value) w1)
          else if to = BurnAddress then (None, 0, Burn w value)
          else (None, 0, Credit w to value))"

definition ReceiptStatus :: "call_error option \<Rightarrow> nat" where
  "ReceiptStatus e = (if e = None then ReceiptSuccess else ReceiptFailed)"

definition is_reverted :: "call_error option \<Rightarrow> bool" where
  "is_reverted e \<longleftrightarrow> (case e of Some (VmErr (ErrReverted _)) \<Rightarrow> True | _ \<Rightarrow> False)"

text \<open>Settling: undo a failed body, refund the unspent part of the fee, split the rest.\<close>

definition settle_gas :: "call_error option \<Rightarrow> nat \<Rightarrow> nat \<Rightarrow> nat" where
  "settle_gas e gasBudget vmGasUsed =
     (if e \<noteq> None \<and> \<not> is_reverted e then gasBudget else vmGasUsed)"

definition settle ::
  "world \<Rightarrow> call_error option \<Rightarrow> nat \<Rightarrow> address \<Rightarrow> address \<Rightarrow> int \<Rightarrow> int \<Rightarrow> nat \<Rightarrow> world" where
  "settle w e snap sender coinbase maxFee gasPrice gasUsed =
     (let w1 = (if e \<noteq> None then RevertToSnapshot w snap else DiscardSnapshots w);
          spent = int gasUsed * gasPrice;
          refund = maxFee - spent;
          w2 = (if refund > 0 then Credit w1 sender refund else w1)
      in distributeFee w2 coinbase spent)"

definition charge :: "world \<Rightarrow> address \<Rightarrow> int \<Rightarrow> world" where
  "charge w sender maxFee =
     (let acc = world_Get w sender in
      world_set w sender (acc\<lparr>acc_balance := acc_balance acc - maxFee, acc_nonce := add64 (acc_nonce acc) 1\<rparr>))"

definition tx_commit ::
  "crypto \<Rightarrow> world \<Rightarrow> tx \<Rightarrow> address \<Rightarrow> address \<Rightarrow> nat \<Rightarrow> nat \<Rightarrow> int \<Rightarrow> int \<Rightarrow>
     (apply_error + nat \<times> nat \<times> evlog list) \<times> world" where
  "tx_commit E w tx sender coinbase blockGasLimit intrinsic gasPrice value =
     (let maxFee = int (tx_gaslimit tx) * gasPrice;
          w1 = charge w sender maxFee;
          logStart = LogCount w1;
          (snap, w2) = Snapshot w1;
          w3 = SubBalance w2 sender value;
          gasBudget = sub64 (tx_gaslimit tx) intrinsic;
          (e, used, w4) = tx_body E w3 tx sender coinbase blockGasLimit value gasBudget
      in if e = Some (VmErr GoPanic) then (Inl ErrBlockPanic, w4)
         else let gasUsed = add64 intrinsic (settle_gas e gasBudget used);
                  w5 = settle w4 e snap sender coinbase maxFee gasPrice gasUsed
              in (Inr (gasUsed, ReceiptStatus e, LogsSince w5 logStart), w5))"

definition ApplyTx ::
  "crypto \<Rightarrow> world \<Rightarrow> tx \<Rightarrow> address \<Rightarrow> nat \<Rightarrow> (apply_error + nat \<times> nat \<times> evlog list) \<times> world" where
  "ApplyTx E w tx coinbase blockGasLimit =
     (case tx_Sender E tx of
        Inl err \<Rightarrow> (Inl (ErrTx err), w)
      | Inr sender \<Rightarrow>
          let acc = world_Get w sender;
              intrinsic = IntrinsicGasFor (tx_data tx) (tx_to tx = None) in
          if tx_nonce tx < acc_nonce acc then (Inl ErrNonceTooLow, w)
          else if tx_nonce tx > acc_nonce acc then (Inl ErrNonceTooHigh, w)
          else if tx_gaslimit tx < intrinsic then (Inl ErrGasLimit, w)
          else if blockGasLimit > 0 \<and> tx_gaslimit tx > blockGasLimit then (Inl ErrGasLimit, w)
          else (case (tx_gasprice tx, tx_value tx) of
              (Some gasPrice, Some value) \<Rightarrow>
                if acc_balance acc < the (tx_Cost tx) then (Inl ErrInsufficient, w)
                else tx_commit E w tx sender coinbase blockGasLimit intrinsic gasPrice value
            | _ \<Rightarrow> (Inl ErrBlockPanic, w)))"

section \<open>Probes (eth_call, eth_estimateGas)\<close>

definition probe_context :: "address \<Rightarrow> address \<Rightarrow> int \<Rightarrow> vm_context" where
  "probe_context self caller value =
     \<lparr>cx_Address = self, cx_Caller = caller, cx_Value = Some value, cx_BlockGasLimit = 0,
      cx_Origin = 0, cx_GasPrice = None, cx_Coinbase = 0, cx_BlockNumber = 0, cx_Time = 0,
      cx_Difficulty = None, cx_ChainID = 0, cx_BaseFee = None, cx_Static = False\<rparr>"

definition state_Call ::
  "crypto \<Rightarrow> world \<Rightarrow> address \<Rightarrow> address \<Rightarrow> bytes \<Rightarrow> nat \<Rightarrow> (bytes \<times> vm_error option) \<times> world" where
  "state_Call E w from to data gas =
     (let (res, w1) = run_on E (GetCode w to) data gas (probe_context to from 0) w
      in ((res_ret res, res_err res), w1))"

datatype probe_result = ProbeOk | ProbeRetry | ProbeHard call_error

definition ternErr :: "vm_error \<Rightarrow> probe_result" where
  "ternErr e = (if e = ErrOutOfGas then ProbeRetry else ProbeHard (VmErr e))"

definition probe_deploy :: "vm_result \<Rightarrow> probe_result" where
  "probe_deploy res =
     (case res_err res of
        Some e \<Rightarrow> ternErr e
      | None \<Rightarrow>
          if length (res_ret res) > MaxCodeSize then ProbeHard ErrMaxCodeSize
          else if res_gasleft res < mul64 codeDepositGas (length (res_ret res)) then ProbeRetry
          else ProbeOk)"

definition probe_run ::
  "crypto \<Rightarrow> world \<Rightarrow> address \<Rightarrow> address option \<Rightarrow> bytes \<Rightarrow> int \<Rightarrow> nat \<Rightarrow> probe_result \<times> world" where
  "probe_run E w from to data value budget =
     (case to of
        None \<Rightarrow>
          let self = CreateAddress E from (GetNonce w from);
              (res, w1) = run_on E data [] budget (probe_context self from value) (Credit w self value)
          in (probe_deploy res, w1)
      | Some t \<Rightarrow>
          if length (GetCode w t) = 0 then (ProbeOk, w)
          else let w1 = Credit w t value;
                   (res, w2) = run_on E (GetCode w1 t) data budget (probe_context t from value) w1
               in (case res_err res of Some e \<Rightarrow> ternErr e | None \<Rightarrow> ProbeOk, w2))"

definition probe ::
  "crypto \<Rightarrow> address \<Rightarrow> address option \<Rightarrow> bytes \<Rightarrow> int \<Rightarrow> world \<Rightarrow> nat \<Rightarrow> probe_result \<times> world" where
  "probe E from to data value w gasLimit =
     (let intrinsic = IntrinsicGasFor data (to = None) in
      if gasLimit < intrinsic then (ProbeRetry, w)
      else let (snap, w1) = Snapshot w;
               (r, w2) = probe_run E w1 from to data value (gasLimit - intrinsic)
           in (r, RevertToSnapshot w2 snap))"

function estimate_loop ::
  "(world \<Rightarrow> nat \<Rightarrow> probe_result \<times> world) \<Rightarrow> world \<Rightarrow> nat \<Rightarrow> nat \<Rightarrow> nat \<times> world" where
  "estimate_loop pr w lo hi =
     (if lo + 1 < hi
      then let mid = lo + (hi - lo) div 2; (r, w1) = pr w mid in
           if r = ProbeOk then estimate_loop pr w1 lo mid else estimate_loop pr w1 mid hi
      else (hi, w))"
  by pat_completeness auto

termination
  by (relation "measure (\<lambda>(pr, w, lo, hi). hi - lo)") auto

declare estimate_loop.simps [simp del]

definition EstimateGas ::
  "crypto \<Rightarrow> world \<Rightarrow> address \<Rightarrow> address option \<Rightarrow> bytes \<Rightarrow> int option \<Rightarrow> nat \<Rightarrow> (call_error + nat) \<times> world" where
  "EstimateGas E w from to data value gasCap =
     (let intrinsic = IntrinsicGasFor data (to = None);
          v = bigOrZero value;
          (r, w1) = probe E from to data v w gasCap
      in case r of
           ProbeHard e \<Rightarrow> (Inl e, w1)
         | ProbeRetry \<Rightarrow> (Inl (VmErr ErrOutOfGas), w1)
         | ProbeOk \<Rightarrow>
             let (g, w2) = estimate_loop (probe E from to data v) w1 (intrinsic - 1) gasCap
             in (Inr g, w2))"

section \<open>One block\<close>

definition GasLimitBoundDivisor :: nat where "GasLimitBoundDivisor = 1024"
definition MinBlockGasLimit :: nat where "MinBlockGasLimit = 1000000"

definition check_parent :: "crypto \<Rightarrow> header \<Rightarrow> header option \<Rightarrow> apply_error option" where
  "check_parent E h parent =
     (case parent of
        None \<Rightarrow> if hd_height h > 0 then Some ErrBadParent else None
      | Some p \<Rightarrow>
          if hd_parent h \<noteq> header_Hash E p then Some ErrBadParent
          else if hd_height h \<noteq> add64 (hd_height p) 1 then Some ErrBadHeight
          else if hd_timestamp h \<le> hd_timestamp p then Some ErrBadTimestamp
          else let lim = hd_gaslimit h; plim = hd_gaslimit p;
                   diff = (if lim < plim then plim - lim else lim - plim)
               in if lim < MinBlockGasLimit \<or> diff \<ge> plim div GasLimitBoundDivisor
                  then Some ErrBadGasLimit else None)"

fun apply_txs ::
  "crypto \<Rightarrow> address \<Rightarrow> nat \<Rightarrow> world \<Rightarrow> nat \<Rightarrow> receipt list \<Rightarrow> tx list \<Rightarrow>
     apply_error + world \<times> nat \<times> receipt list" where
  "apply_txs E proposer gasLimit w totalGas receipts [] = Inr (w, totalGas, receipts)"
| "apply_txs E proposer gasLimit w totalGas receipts (tx # txs) =
     (case ApplyTx E w tx proposer gasLimit of
        (Inl err, _) \<Rightarrow> Inl err
      | (Inr (used, status, logs), w1) \<Rightarrow>
          let total1 = add64 totalGas used in
          if total1 > gasLimit then Inl ErrGasLimit
          else apply_txs E proposer gasLimit w1 total1
            (receipts @ [\<lparr>rc_status = status, rc_cumulative = total1, rc_gasused = used, rc_logs = logs\<rparr>])
            txs)"

text \<open>Header timestamps are milliseconds (int64); the machine sees seconds (uint64).\<close>

definition block_seconds :: "int \<Rightarrow> nat" where
  "block_seconds ts = nat (ts mod 2 ^ 64) div 1000"

definition open_block :: "world \<Rightarrow> header \<Rightarrow> world" where
  "open_block w h =
     SetBlockContext (ClearTouched (world_Copy w)) (hd_height h) (block_seconds (hd_timestamp h)) (hd_difficulty h)"

definition ApplyBlock ::
  "crypto \<Rightarrow> reward_config \<Rightarrow> world \<Rightarrow> block \<Rightarrow> header option \<Rightarrow> apply_error + world \<times> receipt list" where
  "ApplyBlock E cfg parent b parentHeader =
     (let h = blk_header b in
      if \<not> VerifyTxRoot E b then Inl ErrBadTxRoot
      else case check_parent E h parentHeader of
        Some err \<Rightarrow> Inl err
      | None \<Rightarrow>
          (case apply_txs E (hd_proposer h) (hd_gaslimit h) (open_block parent h) 0 [] (blk_txs b) of
             Inl err \<Rightarrow> Inl err
           | Inr (w, totalGas, receipts) \<Rightarrow>
               if totalGas \<noteq> hd_gasused h then Inl ErrGasUsedMismatch
               else if ReceiptRoot E receipts \<noteq> hd_receiptroot h then Inl ErrBadReceiptRoot
               else let next = CreditBlockReward cfg w (hd_proposer h) (hd_height h) in
                 if world_Root E next \<noteq> hd_stateroot h then Inl ErrBadStateRoot
                 else Inr (next, receipts)))"

end
