(* ===== verification/Transition_Laws.thy ===== *)
theory Transition_Laws
  imports Transition
begin

text \<open>
  Laws of the state transition: fees, rewards, the body of a transaction and its settlement, each
  with what it does to the well-formedness of the world, to the supply (balances plus burn total),
  to the touched set and to the gas.
\<close>

section \<open>Supply\<close>

definition supply_of :: "world \<Rightarrow> int" where
  "supply_of w = SumBalances w + w_burned w"

named_theorems supply_simps \<open>how the supply changes\<close>

lemma w_burned_Burn: "0 \<le> x \<Longrightarrow> w_burned (Burn w x) = w_burned w + x"
  by (simp add: Burn_def)

lemma supply_fields [supply_simps]:
  "0 \<le> x \<Longrightarrow> supply_of (Burn w x) = supply_of w + x"
  "supply_of (ClearTouched w) = supply_of w" "supply_of (DiscardSnapshots w) = supply_of w"
  "supply_of (world_Copy w) = supply_of w" "supply_of (SetBlockContext w n t d) = supply_of w"
  "supply_of (snd (Snapshot w)) = supply_of w"
  by (simp_all add: supply_of_def world_simps w_burned_Burn)
    (simp_all add: ClearTouched_def DiscardSnapshots_def world_Copy_def SetBlockContext_def)

lemma supply_mutators [supply_simps]:
  assumes "world_ok w"
  shows "supply_of (Credit w a x) = supply_of w + x" "supply_of (SubBalance w a x) = supply_of w - x"
    "supply_of (SetCode w a c) = supply_of w"
  using assms by (simp_all add: supply_of_def world_simps)

text \<open>What a world may become in the course of a transaction.\<close>

definition keeps :: "world \<Rightarrow> world \<Rightarrow> bool" where
  "keeps w v \<longleftrightarrow> world_ok v \<and> covers w v \<and> w_burned w \<le> w_burned v"

lemma keeps_refl: "world_ok w \<Longrightarrow> keeps w w"
  by (simp add: keeps_def)

lemma keeps_trans: "keeps u v \<Longrightarrow> keeps v w \<Longrightarrow> keeps u w"
  unfolding keeps_def using covers_trans by fastforce

lemma keeps_ok: "keeps w v \<Longrightarrow> world_ok v"
  by (simp add: keeps_def)

lemma keeps_Credit: "world_ok w \<Longrightarrow> 0 \<le> x \<Longrightarrow> keeps w (Credit w a x)"
  using GetBalance_nonneg [of w a] by (simp add: keeps_def world_ok_Credit covers_mutators world_simps)

lemma keeps_SubBalance: "world_ok w \<Longrightarrow> x \<le> GetBalance w a \<Longrightarrow> keeps w (SubBalance w a x)"
  by (simp add: keeps_def world_ok_SubBalance covers_mutators world_simps)

lemma keeps_Burn: "world_ok w \<Longrightarrow> keeps w (Burn w x)"
  by (simp add: keeps_def world_ok_fields covers_mutators) (simp add: Burn_def)

lemma keeps_SetCode: "world_ok w \<Longrightarrow> length c < 2 ^ 63 \<Longrightarrow> keeps w (SetCode w a c)"
  by (simp add: keeps_def world_ok_SetCode covers_mutators world_simps)

lemma keeps_Snapshot: "world_ok w \<Longrightarrow> keeps w (snd (Snapshot w))"
  by (simp add: keeps_def world_ok_fields covers_mutators world_simps)

lemma keeps_Discard: "world_ok w \<Longrightarrow> keeps w (DiscardSnapshots w)"
  by (simp add: keeps_def world_ok_fields) (simp add: covers_def DiscardSnapshots_def)

section \<open>Fees and rewards\<close>

lemma fee_burn_bounds: "0 \<le> fee \<Longrightarrow> 0 \<le> fee_burn fee \<and> fee_burn fee \<le> fee"
proof -
  assume "0 \<le> fee"
  then have "fee * 2000 div 10000 \<le> fee * 10000 div 10000" by (intro zdiv_mono1) simp_all
  then show ?thesis using \<open>0 \<le> fee\<close> by (simp add: fee_burn_def FeeBurnBasisPoints_def pos_imp_zdiv_nonneg_iff)
qed

lemma distributeFee_ok:
  assumes "world_ok w" and "0 \<le> fee"
  shows "keeps w (distributeFee w a fee)" "supply_of (distributeFee w a fee) = supply_of w + fee"
proof -
  note b = fee_burn_bounds [OF assms(2)]
  have ok: "world_ok (Burn w (fee_burn fee))" using assms(1) by (simp add: world_ok_fields)
  show "keeps w (distributeFee w a fee)"
    unfolding distributeFee_def Let_def
    by (rule keeps_trans [OF keeps_Burn [OF assms(1)] keeps_Credit [OF ok]]) (use b in simp)
  show "supply_of (distributeFee w a fee) = supply_of w + fee"
    using b ok by (simp add: distributeFee_def Let_def supply_simps)
qed

lemma BlockRewardAt_nonneg [simp]: "0 \<le> BlockRewardAt h"
  by (simp add: BlockRewardAt_def BaseBlockReward_def)

definition reward_config_ok :: "reward_config \<Rightarrow> bool" where
  "reward_config_ok cfg \<longleftrightarrow> TreasuryRewardBasisPoints cfg \<le> 10000"

lemma treasuryCut_bounds:
  assumes "reward_config_ok cfg" and "0 < TreasuryRewardBasisPoints cfg" and "0 \<le> r"
  shows "0 \<le> treasuryCut cfg r" "treasuryCut cfg r \<le> r"
proof -
  show "0 \<le> treasuryCut cfg r"
    using assms by (simp add: treasuryCut_def pos_imp_zdiv_nonneg_iff)
  have "r * TreasuryRewardBasisPoints cfg \<le> r * 10000"
    using assms by (intro mult_left_mono) (simp_all add: reward_config_ok_def)
  then have "r * TreasuryRewardBasisPoints cfg div 10000 \<le> r * 10000 div 10000"
    by (intro zdiv_mono1) simp_all
  then show "treasuryCut cfg r \<le> r" by (simp add: treasuryCut_def)
qed

lemma CreditBlockReward_ok:
  assumes "reward_config_ok cfg" and "world_ok w"
  shows "keeps w (CreditBlockReward cfg w miner h) \<and>
    supply_of (CreditBlockReward cfg w miner h) = supply_of w + BlockRewardAt h"
proof (cases "TreasuryRewardBasisPoints cfg > 0 \<and> TreasuryRewardAddress cfg \<noteq> 0")
  case True
  let ?cut = "treasuryCut cfg (BlockRewardAt h)"
  let ?w = "if TreasuryRewardAddress cfg = BurnAddress then Burn w ?cut
    else Credit w (TreasuryRewardAddress cfg) ?cut"
  note b = treasuryCut_bounds [OF assms(1) conjunct1 [OF True] BlockRewardAt_nonneg [of h]]
  have k: "keeps w ?w" using assms(2) b by (simp add: keeps_Burn keeps_Credit)
  have s: "supply_of ?w = supply_of w + ?cut" using assms(2) b by (simp add: supply_simps)
  have eq: "CreditBlockReward cfg w miner h = Credit ?w miner (BlockRewardAt h - ?cut)"
    using True by (simp add: CreditBlockReward_def Let_def)
  have "keeps ?w (Credit ?w miner (BlockRewardAt h - ?cut))"
    by (rule keeps_Credit [OF keeps_ok [OF k]]) (use b in simp)
  moreover have "supply_of (Credit ?w miner (BlockRewardAt h - ?cut)) = supply_of ?w + (BlockRewardAt h - ?cut)"
    by (rule supply_mutators(1) [OF keeps_ok [OF k]])
  ultimately show ?thesis unfolding eq using keeps_trans [OF k] s by simp
next
  case False
  then have "CreditBlockReward cfg w miner h = Credit w miner (BlockRewardAt h)"
    by (auto simp: CreditBlockReward_def Let_def)
  then show ?thesis using assms(2) by (simp add: keeps_Credit supply_simps)
qed

section \<open>Running code\<close>

lemma run_on_ok:
  assumes "world_ok w" and "gas \<le> gas_cap" and "length code < 2 ^ 63" and "length input < 2 ^ 63"
    and r: "run_on E code input gas ctx w = (res, v)"
  shows "keeps w v" "world_ext w v" "supply_of v = supply_of w" "w_burned v = w_burned w"
    "res_gasleft res \<le> gas" "res_err res \<noteq> Some GoPanic" "res_err res \<noteq> Some NoFuel"
proof -
  let ?r = "execute E code input gas ctx 0 (Some w)"
  have c: "call_ok rel_supply (cx_Static ctx) gas w ?r" by (rule conserve.execute_ok [OF assms(1-4)])
  have t: "call_ok rel_covers (cx_Static ctx) gas w ?r" by (rule touch.execute_ok [OF assms(1-4)])
  have f: "fst ?r = res" "snd ?r = Some v"
    using r c by (auto simp: run_on_def vm_Run_def call_ok_def Let_def split: prod.splits)
  have s: "world_ok v" "world_ext w v" "rel_supply (cx_Static ctx) w v" using c f by (auto simp: call_ok_def)
  have k: "covers w v" using t f by (auto simp: call_ok_def rel_covers_def)
  show "keeps w v" "world_ext w v" "supply_of v = supply_of w" "w_burned v = w_burned w"
    using s k by (simp_all add: keeps_def supply_of_def rel_supply_def)
  show "res_gasleft res \<le> gas" "res_err res \<noteq> Some GoPanic" "res_err res \<noteq> Some NoFuel"
    using c f by (auto simp: call_ok_def)
qed

section \<open>The body of a transaction\<close>

definition body_ok :: "world \<Rightarrow> int \<Rightarrow> nat \<Rightarrow> body_outcome \<Rightarrow> bool" where
  "body_ok w value gasBudget = (\<lambda>(e, used, v).
     keeps w v \<and> world_ext w v \<and> (e = None \<longrightarrow> supply_of v = supply_of w + value) \<and> used \<le> gasBudget \<and>
     e \<noteq> Some (VmErr GoPanic) \<and> e \<noteq> Some (VmErr NoFuel))"

lemma deploy_result_ok:
  assumes "keeps w v" and "world_ext w v" and "supply_of v = supply_of w + value"
    and "res_gasleft res \<le> gasBudget" and "gasBudget < 2 ^ 63"
    and "res_err res \<noteq> Some GoPanic" and "res_err res \<noteq> Some NoFuel"
  shows "body_ok w value gasBudget (deploy_result addr gasBudget (res, v))"
proof -
  have ok: "world_ok v" by (rule keeps_ok [OF assms(1)])
  have sub: "sub64 gasBudget (res_gasleft res) = gasBudget - res_gasleft res"
    using assms(4) by (rule sub64_id)
  show ?thesis
  proof (cases "res_err res")
    case (Some e)
    then show ?thesis using assms by (auto simp: deploy_result_def body_ok_def sub)
  next
    case None
    let ?n = "length (res_ret res)"
    show ?thesis
    proof (cases "?n \<le> MaxCodeSize \<and> mul64 codeDepositGas ?n \<le> res_gasleft res")
      case True
      then have n: "?n < 2 ^ 63" by (simp add: MaxCodeSize_def)
      have le: "gasBudget - res_gasleft res + mul64 codeDepositGas ?n \<le> gasBudget"
        using conjunct2 [OF True] assms(4) by linarith
      then have add: "add64 (gasBudget - res_gasleft res) (mul64 codeDepositGas ?n) =
          gasBudget - res_gasleft res + mul64 codeDepositGas ?n"
        using assms(5) by (intro add64_id) simp
      have "keeps w (SetCode v addr (res_ret res))"
        by (rule keeps_trans [OF assms(1) keeps_SetCode [OF ok n]])
      moreover have "world_ext w (SetCode v addr (res_ret res))"
        by (rule world_ext_trans [OF assms(2) world_ext_mutators(2)])
      ultimately show ?thesis
        using True None assms(3) ok add le
        by (simp add: deploy_result_def body_ok_def sub Let_def supply_simps)
    next
      case False
      then show ?thesis using None assms by (auto simp: deploy_result_def body_ok_def sub Let_def)
    qed
  qed
qed

lemma call_result_ok:
  assumes "keeps w v" and "world_ext w v" and "supply_of v = supply_of w + value"
    and "res_gasleft res \<le> gasBudget"
    and "res_err res \<noteq> Some GoPanic" and "res_err res \<noteq> Some NoFuel"
  shows "body_ok w value gasBudget (call_result gasBudget (res, v))"
  using assms by (auto simp: call_result_def body_ok_def sub64_id)

text \<open>Crediting the value and running code on top of it.\<close>

lemma credit_run:
  assumes "world_ok w" and "0 \<le> value" and "gas \<le> gas_cap" and "length code < 2 ^ 63" and "length input < 2 ^ 63"
    and "run_on E code input gas ctx (Credit w a value) = (res, v)"
  shows "keeps w v" "world_ext w v" "supply_of v = supply_of w + value" "res_gasleft res \<le> gas"
    "res_err res \<noteq> Some GoPanic" "res_err res \<noteq> Some NoFuel"
proof -
  have k: "keeps w (Credit w a value)" by (rule keeps_Credit [OF assms(1,2)])
  note r = run_on_ok [OF keeps_ok [OF k] assms(3-6)]
  show "keeps w v" by (rule keeps_trans [OF k r(1)])
  show "world_ext w v" by (rule world_ext_trans [OF world_ext_mutators(4) r(2)])
  show "supply_of v = supply_of w + value" using r(3) assms(1) by (simp add: supply_simps)
  show "res_gasleft res \<le> gas" "res_err res \<noteq> Some GoPanic" "res_err res \<noteq> Some NoFuel" by (rule r)+
qed

lemma tx_body_ok:
  assumes "world_ok w" and "0 \<le> value" and "gasBudget \<le> gas_cap" and "length (tx_data tx) < 2 ^ 63"
  shows "body_ok w value gasBudget (tx_body E w tx sender coinbase lim value gasBudget)"
proof (cases "tx_to tx")
  case None
  let ?a = "CreateAddress E sender (tx_nonce tx)"
  show ?thesis
  proof (cases "GetNonce w ?a \<noteq> 0 \<or> length (GetCode w ?a) > 0")
    case True
    then show ?thesis using None assms(1,2) by (simp add: tx_body_def body_ok_def keeps_refl)
  next
    case False
    obtain res v where r: "run_on E (tx_data tx) [] gasBudget (tx_env w tx sender coinbase lim ?a value)
      (Credit w ?a value) = (res, v)" by fastforce
    have e: "length ([] :: bytes) < 2 ^ 63" and g: "gasBudget < 2 ^ 63"
      using assms(3) by (simp_all add: gas_cap_def)
    note c = credit_run [OF assms(1-4) e r]
    show ?thesis
      using False None r deploy_result_ok [OF c(1-4) g c(5,6), of ?a] by (simp add: tx_body_def Let_def)
  qed
next
  case (Some to)
  show ?thesis
  proof (cases "length (GetCode w to) > 0")
    case True
    let ?w = "Credit w to value" and ?ctx = "tx_env w tx sender coinbase lim to value"
    obtain res v where r: "run_on E (GetCode ?w to) (tx_data tx) gasBudget ?ctx ?w = (res, v)" by fastforce
    have c: "length (GetCode ?w to) < 2 ^ 63"
      by (rule GetCode_short [OF keeps_ok [OF keeps_Credit [OF assms(1,2)]]])
    show ?thesis
      using True Some r call_result_ok [OF credit_run [OF assms(1-3) c assms(4) r]]
      by (simp add: tx_body_def Let_def)
  next
    case False
    then show ?thesis
      using Some assms(1,2) world_ext_Burn world_ext_mutators(4)
      by (auto simp: tx_body_def body_ok_def keeps_Burn keeps_Credit supply_simps)
  qed
qed

section \<open>Settling a transaction\<close>

lemma charge_ok:
  assumes "world_ok w" and "maxFee \<le> GetBalance w sender"
  shows "world_ok (charge w sender maxFee)" "covers w (charge w sender maxFee)"
    "supply_of (charge w sender maxFee) = supply_of w - maxFee"
    "w_burned (charge w sender maxFee) = w_burned w"
    "GetBalance (charge w sender maxFee) a = (if a = sender then GetBalance w sender - maxFee else GetBalance w a)"
    "GetNonce (charge w sender maxFee) a = (if a = sender then add64 (GetNonce w sender) 1 else GetNonce w a)"
    "w_logs (charge w sender maxFee) = w_logs w" "w_snapshots (charge w sender maxFee) = w_snapshots w"
proof -
  have "account_ok ((world_Get w sender)\<lparr>acc_balance := acc_balance (world_Get w sender) - maxFee,
      acc_nonce := add64 (acc_nonce (world_Get w sender)) 1\<rparr>)"
    using world_ok_Get [OF assms(1), of sender] assms(2) by (simp add: account_ok_def GetBalance_def add64_def)
  then show "world_ok (charge w sender maxFee)"
    unfolding charge_def Let_def by (rule world_ok_set [OF assms(1)])
  show "supply_of (charge w sender maxFee) = supply_of w - maxFee"
    using world_ok_finite [OF assms(1)]
    by (simp add: charge_def Let_def supply_of_def SumBalances_set world_simps GetBalance_def)
qed (simp_all add: charge_def Let_def covers_set world_simps GetBalance_def GetNonce_def)

lemma settle_ok:
  assumes "world_ok (if e \<noteq> None then RevertToSnapshot w snap else DiscardSnapshots w)" (is "world_ok ?w1")
    and "0 \<le> gasPrice" and "int gasUsed * gasPrice \<le> maxFee"
  shows "keeps ?w1 (settle w e snap sender coinbase maxFee gasPrice gasUsed)"
    "supply_of (settle w e snap sender coinbase maxFee gasPrice gasUsed) = supply_of ?w1 + maxFee"
proof -
  let ?spent = "int gasUsed * gasPrice"
  let ?w2 = "if maxFee - ?spent > 0 then Credit ?w1 sender (maxFee - ?spent) else ?w1"
  have k: "keeps ?w1 ?w2" using assms(1) by (simp add: keeps_Credit keeps_refl)
  have s: "supply_of ?w2 = supply_of ?w1 + (maxFee - ?spent)" using assms(1,3) by (simp add: supply_simps)
  have sp: "0 \<le> ?spent" using assms(2) by simp
  have eq: "settle w e snap sender coinbase maxFee gasPrice gasUsed = distributeFee ?w2 coinbase ?spent"
    by (simp add: settle_def Let_def)
  note d = distributeFee_ok [OF keeps_ok [OF k] sp, of coinbase]
  show "keeps ?w1 (settle w e snap sender coinbase maxFee gasPrice gasUsed)"
    unfolding eq by (rule keeps_trans [OF k d(1)])
  show "supply_of (settle w e snap sender coinbase maxFee gasPrice gasUsed) = supply_of ?w1 + maxFee"
    unfolding eq using d(2) s by simp
qed

text \<open>A transaction whose body fails changes nothing but this: the fee and the nonce.\<close>

definition fee_only :: "world \<Rightarrow> address \<Rightarrow> address \<Rightarrow> int \<Rightarrow> int \<Rightarrow> world" where
  "fee_only w sender coinbase maxFee spent =
     (let w1 = charge w sender maxFee;
          w2 = (if maxFee - spent > 0 then Credit w1 sender (maxFee - spent) else w1)
      in distributeFee w2 coinbase spent)"

lemma fee_only_exact:
  assumes "0 \<le> spent" and "0 \<le> maxFee - spent"
  shows "world_Get (fee_only w sender coinbase maxFee spent) a = (world_Get w a)\<lparr>
      acc_nonce := (if a = sender then add64 (GetNonce w a) 1 else GetNonce w a),
      acc_balance := GetBalance w a - (if a = sender then spent else 0) +
        (if a = coinbase then spent - fee_burn spent else 0)\<rparr>"
    "a \<noteq> sender \<Longrightarrow> a \<noteq> coinbase \<Longrightarrow> w_accounts (fee_only w sender coinbase maxFee spent) a = w_accounts w a"
    "w_burned (fee_only w sender coinbase maxFee spent) = w_burned w + fee_burn spent"
proof -
  have get: "world_Get (Burn x y) c = world_Get x c" "world_Get (Credit x b y) c =
      (if c = b then (world_Get x c)\<lparr>acc_balance := acc_balance (world_Get x c) + y\<rparr> else world_Get x c)"
    "world_Get (charge x b y) c = (if c = b then (world_Get x c)\<lparr>acc_balance := acc_balance (world_Get x c) - y,
      acc_nonce := add64 (acc_nonce (world_Get x c)) 1\<rparr> else world_Get x c)" for x y b c
    by (simp add: Burn_def world_Get_def) (simp_all add: Credit_def charge_def Let_def world_simps)
  have burn: "0 \<le> fee_burn spent" using assms(1) by (simp add: fee_burn_def pos_imp_zdiv_nonneg_iff)
  show "world_Get (fee_only w sender coinbase maxFee spent) a = (world_Get w a)\<lparr>
      acc_nonce := (if a = sender then add64 (GetNonce w a) 1 else GetNonce w a),
      acc_balance := GetBalance w a - (if a = sender then spent else 0) +
        (if a = coinbase then spent - fee_burn spent else 0)\<rparr>"
    using assms(2) by (simp add: fee_only_def distributeFee_def Let_def get GetNonce_def GetBalance_def)
  show "w_accounts (fee_only w sender coinbase maxFee spent) a = w_accounts w a" if "a \<noteq> sender" "a \<noteq> coinbase"
    using that by (simp add: fee_only_def distributeFee_def charge_def Credit_def Burn_def Let_def world_simps)
  show "w_burned (fee_only w sender coinbase maxFee spent) = w_burned w + fee_burn spent"
    using burn by (simp add: fee_only_def distributeFee_def charge_def Credit_def Burn_def Let_def world_simps)
qed

lemma w_logs_mutators: "w_logs (Credit w a x) = w_logs w" "w_logs (Burn w x) = w_logs w"
  "w_logs (distributeFee w a x) = w_logs w" "w_logs (charge w a x) = w_logs w"
  by (simp_all add: Credit_def Burn_def distributeFee_def charge_def Let_def world_simps)

lemma w_logs_fee_only: "w_logs (fee_only w sender coinbase maxFee spent) = w_logs w"
  by (simp add: fee_only_def Let_def w_logs_mutators)

definition tx_funded :: "world \<Rightarrow> tx \<Rightarrow> address \<Rightarrow> nat \<Rightarrow> int \<Rightarrow> int \<Rightarrow> bool" where
  "tx_funded w tx sender intrinsic gasPrice value \<longleftrightarrow>
     world_ok w \<and> 0 \<le> gasPrice \<and> 0 \<le> value \<and> intrinsic \<le> tx_gaslimit tx \<and> tx_gaslimit tx \<le> gas_cap \<and>
     length (tx_data tx) < 2 ^ 63 \<and> int (tx_gaslimit tx) * gasPrice + value \<le> GetBalance w sender"

lemma body_of_commit:
  assumes "tx_funded w tx sender intrinsic gasPrice value"
  defines "maxFee \<equiv> int (tx_gaslimit tx) * gasPrice"
  defines "w1 \<equiv> charge w sender maxFee"
  defines "w3 \<equiv> SubBalance (snd (Snapshot w1)) sender value"
  assumes b: "tx_body E w3 tx sender coinbase lim value (tx_gaslimit tx - intrinsic) = (e, used, w4)"
  shows "world_ok w1" "covers w w1" "world_ext (snd (Snapshot w1)) w4" "keeps w1 w4"
    "e = None \<Longrightarrow> supply_of w4 = supply_of w1" "used \<le> tx_gaslimit tx - intrinsic"
    "e \<noteq> Some (VmErr GoPanic)" "e \<noteq> Some (VmErr NoFuel)" "supply_of w1 = supply_of w - maxFee"
    "w_burned w1 = w_burned w"
proof -
  have f: "world_ok w" "0 \<le> value" "tx_gaslimit tx - intrinsic \<le> gas_cap" "length (tx_data tx) < 2 ^ 63"
    and m: "maxFee \<le> GetBalance w sender" "value \<le> GetBalance w sender - maxFee"
    using assms(1) by (auto simp: tx_funded_def maxFee_def)
  note c = charge_ok [OF f(1) m(1), folded w1_def]
  show "world_ok w1" "covers w w1" "supply_of w1 = supply_of w - maxFee" "w_burned w1 = w_burned w" by (rule c)+
  have sn: "world_ok (snd (Snapshot w1))" using c(1) by (simp add: world_ok_fields)
  have v: "value \<le> GetBalance (snd (Snapshot w1)) sender"
    using m(2) c(5) [of sender] by (simp add: GetBalance_def world_simps)
  have k3: "keeps (snd (Snapshot w1)) w3" unfolding w3_def by (rule keeps_SubBalance [OF sn v])
  have s3: "supply_of w3 = supply_of w1 - value" using sn by (simp add: w3_def supply_simps)
  have body: "body_ok w3 value (tx_gaslimit tx - intrinsic) (e, used, w4)"
    using tx_body_ok [OF keeps_ok [OF k3] f(2-4), of E sender coinbase lim] b by simp
  show "world_ext (snd (Snapshot w1)) w4"
    using body world_ext_mutators(6) [of "snd (Snapshot w1)" sender "value"]
    by (auto simp: body_ok_def w3_def intro: world_ext_trans)
  show "keeps w1 w4"
    using body keeps_trans [OF keeps_Snapshot [OF c(1)] keeps_trans [OF k3]] by (auto simp: body_ok_def)
  show "e = None \<Longrightarrow> supply_of w4 = supply_of w1" using body s3 by (auto simp: body_ok_def)
  show "used \<le> tx_gaslimit tx - intrinsic" "e \<noteq> Some (VmErr GoPanic)" "e \<noteq> Some (VmErr NoFuel)"
    using body by (auto simp: body_ok_def)
qed

lemma tx_commit_ok:
  assumes "tx_funded w tx sender intrinsic gasPrice value"
  shows "\<exists>g st logs v. tx_commit E w tx sender coinbase lim intrinsic gasPrice value = (Inr (g, st, logs), v) \<and>
    keeps w v \<and> supply_of v = supply_of w \<and> intrinsic \<le> g \<and> g \<le> tx_gaslimit tx \<and>
    (st = ReceiptFailed \<longrightarrow> logs = [] \<and>
      v = fee_only w sender coinbase (int (tx_gaslimit tx) * gasPrice) (int g * gasPrice))"
proof -
  let ?max = "int (tx_gaslimit tx) * gasPrice" and ?budget = "tx_gaslimit tx - intrinsic"
  let ?w1 = "charge w sender ?max"
  let ?w3 = "SubBalance (snd (Snapshot ?w1)) sender value"
  obtain e used w4 where b: "tx_body E ?w3 tx sender coinbase lim value ?budget = (e, used, w4)"
    by (cases "tx_body E ?w3 tx sender coinbase lim value ?budget") auto
  note f = body_of_commit [OF assms b]
  have le: "intrinsic \<le> tx_gaslimit tx" "tx_gaslimit tx \<le> gas_cap" and p: "0 \<le> gasPrice"
    using assms by (auto simp: tx_funded_def)
  let ?sg = "settle_gas e ?budget used" and ?snap = "fst (Snapshot ?w1)"
  have sg: "?sg \<le> ?budget" using f(6) by (simp add: settle_gas_def)
  have g: "add64 intrinsic ?sg = intrinsic + ?sg"
    using sg le by (intro add64_id) (simp add: gas_cap_def)
  let ?g = "intrinsic + ?sg"
  let ?v = "settle w4 e ?snap sender coinbase ?max gasPrice ?g"
  have eq: "tx_commit E w tx sender coinbase lim intrinsic gasPrice value =
      (Inr (?g, ReceiptStatus e, LogsSince ?v (LogCount ?w1)), ?v)"
    using b f(7) le(1) g
    by (simp add: tx_commit_def Let_def sub64_id case_prod_beta)
  have rev: "RevertToSnapshot w4 ?snap = ?w1" by (rule revert_exact [OF f(3)])
  let ?u = "if e \<noteq> None then RevertToSnapshot w4 ?snap else DiscardSnapshots w4"
  have ku: "keeps w ?u"
    using keeps_trans [OF _ keeps_trans [OF f(4) keeps_Discard [OF keeps_ok [OF f(4)]]], of w] f(1,2,10) rev
    by (auto simp: keeps_def)
  have su: "supply_of ?u = supply_of w - ?max" using f(5,9) rev by (simp add: supply_simps)
  have gle: "?g \<le> tx_gaslimit tx" using sg le by linarith
  then have sp: "int ?g * gasPrice \<le> ?max" using p by (intro mult_right_mono) simp_all
  note st = settle_ok [OF keeps_ok [OF ku] p sp, of sender coinbase]
  have fail: "?v = fee_only w sender coinbase ?max (int ?g * gasPrice)" if "e \<noteq> None"
    using that rev by (simp add: settle_def fee_only_def Let_def)
  have logs: "LogsSince ?v (LogCount ?w1) = []" if "e \<noteq> None"
    using fail [OF that] by (simp add: LogsSince_def LogCount_def w_logs_fee_only w_logs_mutators)
  have "ReceiptStatus e = ReceiptFailed \<Longrightarrow> e \<noteq> None"
    by (cases e) (simp_all add: ReceiptStatus_def ReceiptSuccess_def ReceiptFailed_def)
  then show ?thesis
    using eq keeps_trans [OF ku st(1)] st(2) su gle fail logs by auto
qed

section \<open>Transactions and blocks\<close>

text \<open>What \<^verbatim>\<open>SanityCheck\<close> establishes, and that a Go slice has fewer than \<open>2 ^ 63\<close> bytes.\<close>

definition tx_sane :: "tx \<Rightarrow> bool" where
  "tx_sane tx \<longleftrightarrow> (\<exists>p v. tx_gasprice tx = Some p \<and> 0 \<le> p \<and> tx_value tx = Some v \<and> 0 \<le> v) \<and>
     length (tx_data tx) < 2 ^ 63"

lemma SanityCheck_sane:
  "tx_SanityCheck E tx cid = Inr u \<Longrightarrow> length (tx_data tx) < 2 ^ 63 \<Longrightarrow> tx_sane tx"
  by (auto simp: tx_SanityCheck_def tx_sane_def split: if_splits option.splits)

lemma ApplyTx_cases:
  assumes "world_ok w" and "tx_sane tx" and "0 < lim" and "lim \<le> gas_cap"
  obtains (refused) err where "ApplyTx E w tx coinbase lim = (Inl err, w)" "err \<noteq> ErrBlockPanic"
  | (applied) sender p v where "tx_Sender E tx = Inr sender" "tx_nonce tx = GetNonce w sender"
      "tx_gasprice tx = Some p" "tx_value tx = Some v"
      "tx_funded w tx sender (IntrinsicGasFor (tx_data tx) (tx_to tx = None)) p v"
      "ApplyTx E w tx coinbase lim =
        tx_commit E w tx sender coinbase lim (IntrinsicGasFor (tx_data tx) (tx_to tx = None)) p v"
proof -
  obtain p v where pv: "tx_gasprice tx = Some p" "0 \<le> p" "tx_value tx = Some v" "0 \<le> v"
    using assms(2) by (auto simp: tx_sane_def)
  note d = ApplyTx_def tx_Cost_def pv Let_def
  show ?thesis
  proof (cases "tx_Sender E tx")
    case (Inl err)
    then show ?thesis using refused by (simp add: d)
  next
    case (Inr sender)
    let ?acc = "world_Get w sender" and ?i = "IntrinsicGasFor (tx_data tx) (tx_to tx = None)"
    show ?thesis
    proof (cases "tx_nonce tx = acc_nonce ?acc \<and> ?i \<le> tx_gaslimit tx \<and> tx_gaslimit tx \<le> lim \<and>
        int (tx_gaslimit tx) * p + v \<le> acc_balance ?acc")
      case True
      then have "tx_funded w tx sender ?i p v"
        using assms pv by (auto simp: tx_funded_def tx_sane_def GetBalance_def)
      moreover have "ApplyTx E w tx coinbase lim = tx_commit E w tx sender coinbase lim ?i p v"
        using True Inr by (simp add: d)
      ultimately show ?thesis using applied Inr pv True by (simp add: GetNonce_def)
    next
      case False
      have "\<exists>err. ApplyTx E w tx coinbase lim = (Inl err, w) \<and> err \<noteq> ErrBlockPanic"
        using False Inr assms(3) by (auto simp: d)
      then show ?thesis using refused by blast
    qed
  qed
qed

lemma ApplyTx_ok:
  assumes "world_ok w" and "tx_sane tx" and "0 < lim" and "lim \<le> gas_cap"
    and "ApplyTx E w tx coinbase lim = (Inr (g, st, logs), v)"
  shows "keeps w v" "supply_of v = supply_of w" "g \<le> tx_gaslimit tx"
proof -
  have "keeps w v \<and> supply_of v = supply_of w \<and> g \<le> tx_gaslimit tx"
    using assms(1-4)
  proof (cases rule: ApplyTx_cases [where E = E and coinbase = coinbase])
    case (applied sender p u)
    with tx_commit_ok [OF applied(5), of E coinbase lim] assms(5) show ?thesis by auto
  qed (use assms(5) in auto)
  then show "keeps w v" "supply_of v = supply_of w" "g \<le> tx_gaslimit tx" by auto
qed

lemma apply_txs_ok:
  assumes "world_ok w" and "\<forall>tx \<in> set txs. tx_sane tx" and "0 < lim" and "lim \<le> gas_cap"
    and "apply_txs E proposer lim w acc rs txs = Inr (v, acc', rs')"
  shows "keeps w v \<and> supply_of v = supply_of w \<and> length rs' = length rs + length txs \<and>
    (acc \<le> lim \<longrightarrow> acc' \<le> lim)"
  using assms
proof (induction txs arbitrary: w acc rs)
  case Nil
  then show ?case by (simp add: keeps_refl)
next
  case (Cons tx txs)
  obtain g st logs w1 where a: "ApplyTx E w tx proposer lim = (Inr (g, st, logs), w1)"
    and t: "add64 acc g \<le> lim"
    and r: "apply_txs E proposer lim w1 (add64 acc g)
      (rs @ [\<lparr>rc_status = st, rc_cumulative = add64 acc g, rc_gasused = g, rc_logs = logs\<rparr>]) txs =
      Inr (v, acc', rs')"
    using Cons.prems(5) by (auto simp: Let_def split: prod.splits sum.splits if_splits)
  have sane: "tx_sane tx" "\<forall>tx \<in> set txs. tx_sane tx" using Cons.prems(2) by auto
  note k = ApplyTx_ok [OF Cons.prems(1) sane(1) Cons.prems(3,4) a]
  from Cons.IH [OF keeps_ok [OF k(1)] sane(2) Cons.prems(3,4) r] k t keeps_trans [OF k(1)]
  show ?case by auto
qed

lemma apply_txs_no_panic:
  assumes "world_ok w" and "\<forall>tx \<in> set txs. tx_sane tx" and "0 < lim" and "lim \<le> gas_cap"
  shows "apply_txs E proposer lim w acc rs txs \<noteq> Inl ErrBlockPanic"
  using assms
proof (induction txs arbitrary: w acc rs)
  case (Cons tx txs)
  have sane: "tx_sane tx" "\<forall>tx \<in> set txs. tx_sane tx" using Cons.prems(2) by auto
  show ?case
    using Cons.prems(1) sane(1) Cons.prems(3,4)
  proof (cases rule: ApplyTx_cases [where E = E and coinbase = proposer])
    case (applied sender p u)
    from tx_commit_ok [OF applied(5), of E proposer lim] applied(6)
    obtain g st logs v where "ApplyTx E w tx proposer lim = (Inr (g, st, logs), v)" "keeps w v" by auto
    then show ?thesis using Cons.IH [OF keeps_ok sane(2) Cons.prems(3,4)] by (auto simp: Let_def)
  qed auto
qed simp

lemma open_block_ok:
  "world_ok (open_block w h) = world_ok w" "supply_of (open_block w h) = supply_of w"
  "w_touched (open_block w h) = {}" "w_accounts (open_block w h) = w_accounts w"
  "w_burned (open_block w h) = w_burned w"
  by (simp_all add: open_block_def world_ok_fields supply_simps)
    (simp_all add: SetBlockContext_def ClearTouched_def world_Copy_def)

text \<open>Everything an accepted block went through.\<close>

lemma ApplyBlockE:
  assumes "ApplyBlock E cfg parent b ph = Inr (next, rs)"
  obtains w where "VerifyTxRoot E b" "check_parent E (blk_header b) ph = None"
    "apply_txs E (hd_proposer (blk_header b)) (hd_gaslimit (blk_header b)) (open_block parent (blk_header b)) 0 []
      (blk_txs b) = Inr (w, hd_gasused (blk_header b), rs)"
    "ReceiptRoot E rs = hd_receiptroot (blk_header b)"
    "next = CreditBlockReward cfg w (hd_proposer (blk_header b)) (hd_height (blk_header b))"
    "world_Root E next = hd_stateroot (blk_header b)"
  using assms
  by (auto simp: ApplyBlock_def Let_def split: if_splits option.splits sum.splits)

lemma ApplyBlock_ok:
  assumes "ApplyBlock E cfg parent b ph = Inr (next, rs)" and "reward_config_ok cfg" and "world_ok parent"
    and "\<forall>tx \<in> set (blk_txs b). tx_sane tx" and "0 < hd_gaslimit (blk_header b)" and "hd_gaslimit (blk_header b) \<le> gas_cap"
  shows "world_ok next" "supply_of next = supply_of parent + BlockRewardAt (hd_height (blk_header b))"
    "\<forall>a. a \<notin> w_touched next \<longrightarrow> w_accounts next a = w_accounts parent a"
    "w_burned parent \<le> w_burned next" "length rs = length (blk_txs b)"
    "hd_gasused (blk_header b) \<le> hd_gaslimit (blk_header b)" "finite (w_touched next)"
proof -
  let ?h = "blk_header b"
  obtain w where a: "apply_txs E (hd_proposer ?h) (hd_gaslimit ?h) (open_block parent ?h) 0 [] (blk_txs b) =
      Inr (w, hd_gasused ?h, rs)" and n: "next = CreditBlockReward cfg w (hd_proposer ?h) (hd_height ?h)"
    using assms(1) by (rule ApplyBlockE)
  have t: "keeps (open_block parent ?h) w \<and> supply_of w = supply_of (open_block parent ?h) \<and>
      length rs = length (blk_txs b) \<and> hd_gasused ?h \<le> hd_gaslimit ?h"
    using apply_txs_ok [OF _ assms(4-6) a] assms(3) by (simp add: open_block_ok)
  note r = CreditBlockReward_ok [OF assms(2) keeps_ok [OF conjunct1 [OF t]], of "hd_proposer ?h" "hd_height ?h", folded n]
  have k: "keeps (open_block parent ?h) next" using t r keeps_trans by blast
  show "world_ok next" by (rule keeps_ok [OF k])
  show "supply_of next = supply_of parent + BlockRewardAt (hd_height ?h)" using t r by (simp add: open_block_ok)
  show "\<forall>a. a \<notin> w_touched next \<longrightarrow> w_accounts next a = w_accounts parent a" "w_burned parent \<le> w_burned next"
    "finite (w_touched next)"
    using k by (auto simp: keeps_def covers_def open_block_ok)
  show "length rs = length (blk_txs b)" "hd_gasused ?h \<le> hd_gaslimit ?h" using t by simp_all
qed

end
