(* ===== verification/Issuance.thy ===== *)
theory Issuance
  imports Transition_Laws
begin

text \<open>
  The issuance schedule: the closed form over eras equals the sum of the rewards of all heights,
  and the reward reaches zero.
\<close>

lemma BlockRewardAt_div: "BlockRewardAt h = BaseBlockReward div 2 ^ (h div HalvingInterval)"
  by (simp add: BlockRewardAt_def drop_bit_eq_div)

lemma reward_era: "BlockRewardAt (era * HalvingInterval) = BaseBlockReward div 2 ^ era"
  by (simp add: BlockRewardAt_div HalvingInterval_def)

lemma reward_ends: "65 \<le> era \<Longrightarrow> BaseBlockReward div 2 ^ era = 0"
proof -
  assume "65 \<le> era"
  then have "(2 :: int) ^ 65 \<le> 2 ^ era" by (intro power_increasing) simp_all
  then show ?thesis by (intro div_pos_pos_trivial) (simp_all add: BaseBlockReward_def)
qed

lemma reward_mono: "h \<le> k \<Longrightarrow> BlockRewardAt k \<le> BlockRewardAt h"
proof -
  assume "h \<le> k"
  then have "(2 :: int) ^ (h div HalvingInterval) \<le> 2 ^ (k div HalvingInterval)"
    by (intro power_increasing div_le_mono) simp_all
  then show ?thesis
    unfolding BlockRewardAt_div by (intro zdiv_mono2) (simp_all add: BaseBlockReward_def)
qed

text \<open>All heights of one era have the same reward.\<close>

lemma reward_in_era:
  assumes "era * HalvingInterval \<le> i" and "i < era * HalvingInterval + HalvingInterval"
  shows "BlockRewardAt i = BlockRewardAt (era * HalvingInterval)"
proof -
  have "i div HalvingInterval = era"
    using assms by (simp add: HalvingInterval_def div_nat_eqI)
  then show ?thesis by (simp add: BlockRewardAt_div HalvingInterval_def)
qed

lemma era_issued_sum:
  assumes "era \<le> 64" and "era * HalvingInterval \<le> h"
  shows "era_issued h (era * HalvingInterval) =
    (\<Sum>i = max 1 (era * HalvingInterval)..min h (era * HalvingInterval + HalvingInterval - 1). BlockRewardAt i)"
proof -
  let ?s = "era * HalvingInterval"
  let ?lo = "max 1 ?s" and ?hi = "min h (?s + HalvingInterval - 1)"
  have small: "?s + HalvingInterval < 2 ^ 32" using assms(1) by (simp add: HalvingInterval_def)
  then have last: "sub64 (add64 ?s HalvingInterval) 1 = ?s + HalvingInterval - 1"
    by (simp add: add64_id sub64_id HalvingInterval_def)
  have lo: "(if ?s = 0 then 1 else ?s) = ?lo" by auto
  have hi: "(if ?s + HalvingInterval - 1 > h then h else ?s + HalvingInterval - 1) = ?hi" by auto
  have eq: "era_issued h ?s =
      (if ?hi < ?lo then 0 else BlockRewardAt ?s * int (add64 (sub64 ?hi ?lo) 1))"
    unfolding era_issued_def Let_def last lo hi by (rule refl)
  have "(\<Sum>i = ?lo..?hi. BlockRewardAt i) = (\<Sum>i = ?lo..?hi. BlockRewardAt ?s)"
    by (intro sum.cong refl reward_in_era) (auto simp: HalvingInterval_def)
  also have "\<dots> = BlockRewardAt ?s * int (?hi + 1 - ?lo)" by simp
  finally have sum: "(\<Sum>i = ?lo..?hi. BlockRewardAt i) = BlockRewardAt ?s * int (?hi + 1 - ?lo)" .
  show ?thesis
  proof (cases "?hi < ?lo")
    case True
    then have "?hi + 1 - ?lo = 0" by linarith
    with True show ?thesis unfolding sum eq by (simp only: if_True of_nat_0 mult_zero_right)
  next
    case False
    then have le: "?lo \<le> ?hi" by linarith
    have "?hi < 2 ^ 32" using small by linarith
    then have "?hi - ?lo + 1 < 2 ^ 64" by simp
    then have "add64 (sub64 ?hi ?lo) 1 = ?hi - ?lo + 1"
      unfolding sub64_id [OF le] by (rule add64_id)
    then have "add64 (sub64 ?hi ?lo) 1 = ?hi + 1 - ?lo" unfolding add_diff_assoc2 [OF le] .
    with False show ?thesis unfolding sum eq by (simp only: if_False)
  qed
qed

lemma sum_from_era:
  assumes "era * HalvingInterval \<le> h"
  shows "(\<Sum>i = max 1 (era * HalvingInterval)..h. BlockRewardAt i) =
    (\<Sum>i = max 1 (era * HalvingInterval)..min h (era * HalvingInterval + HalvingInterval - 1). BlockRewardAt i) +
    (\<Sum>i = max 1 ((era + 1) * HalvingInterval)..h. BlockRewardAt i)"
proof -
  let ?s = "era * HalvingInterval"
  have m: "max 1 ((era + 1) * HalvingInterval) = ?s + HalvingInterval" by (simp add: HalvingInterval_def)
  have "{max 1 ?s..h} = {max 1 ?s..min h (?s + HalvingInterval - 1)} \<union> {?s + HalvingInterval..h}"
    by (auto simp: HalvingInterval_def)
  moreover have "{max 1 ?s..min h (?s + HalvingInterval - 1)} \<inter> {?s + HalvingInterval..h} = {}"
    by (auto simp: HalvingInterval_def)
  ultimately show ?thesis unfolding m by (simp add: sum.union_disjoint)
qed

lemma issued_loop_sum:
  assumes "era \<le> 65" and "66 \<le> era + n"
  shows "issued_loop n h era acc = Some (acc + (\<Sum>i = max 1 (era * HalvingInterval)..h. BlockRewardAt i))"
  using assms
proof (induction n arbitrary: era acc)
  case 0
  then show ?case by simp
next
  case (Suc n)
  let ?s = "era * HalvingInterval"
  have s: "mul64 era HalvingInterval = ?s"
    using Suc.prems(1) by (intro mul64_id) (simp add: HalvingInterval_def)
  consider "h < ?s" | "?s \<le> h" "BlockRewardAt ?s = 0" | "?s \<le> h" "BlockRewardAt ?s \<noteq> 0" by linarith
  then show ?case
  proof cases
    case 1
    then show ?thesis by (simp add: s)
  next
    case 2
    have "BlockRewardAt i = 0" if "?s \<le> i" for i
      using reward_mono [OF that] BlockRewardAt_nonneg [of i] 2(2) by linarith
    then have "(\<Sum>i = max 1 ?s..h. BlockRewardAt i) = 0" by (intro sum.neutral) simp
    then show ?thesis using 2 by (simp add: s)
  next
    case 3
    then have e: "era \<le> 64" using reward_ends [of era] by (fastforce simp: reward_era not_le)
    then have a: "add64 era 1 = era + 1" by (intro add64_id) simp
    show ?thesis
      using 3 Suc.IH [of "era + 1" "acc + era_issued h ?s"] e Suc.prems(2)
        era_issued_sum [OF e 3(1)] sum_from_era [OF 3(1)] a
      by (simp add: s Let_def)
  qed
qed

lemma CumulativeIssued_sum: "CumulativeIssued h = Some (\<Sum>i = 1..h. BlockRewardAt i)"
  using issued_loop_sum [of 0 100 h 0] by (simp add: CumulativeIssued_def)

text \<open>One more block issues one more reward.\<close>

lemma CumulativeIssued_Suc:
  "CumulativeIssued (Suc h) = map_option (\<lambda>x. x + BlockRewardAt (Suc h)) (CumulativeIssued h)"
  by (simp add: CumulativeIssued_sum)

lemma CumulativeIssued_0: "CumulativeIssued 0 = Some 0"
  by (simp add: CumulativeIssued_sum)

section \<open>Total issuance\<close>

lemma geometric_rewards: "(\<Sum>e < Suc m. BaseBlockReward div 2 ^ e) + BaseBlockReward div 2 ^ m \<le> 2 * BaseBlockReward"
proof (induction m)
  case (Suc m)
  have "BaseBlockReward div 2 ^ Suc m = BaseBlockReward div 2 ^ m div 2"
    by (simp add: zdiv_zmult2_eq [symmetric] mult.commute)
  then have "2 * (BaseBlockReward div 2 ^ Suc m) \<le> BaseBlockReward div 2 ^ m" by linarith
  then show ?case using Suc by simp
qed simp

lemma rewards_of_eras:
  "(\<Sum>i < m * HalvingInterval. BlockRewardAt i) = int HalvingInterval * (\<Sum>e < m. BaseBlockReward div 2 ^ e)"
proof (induction m)
  case (Suc m)
  let ?s = "m * HalvingInterval"
  have "{..<Suc m * HalvingInterval} = {..<?s} \<union> {?s..<?s + HalvingInterval}" by auto
  then have "(\<Sum>i < Suc m * HalvingInterval. BlockRewardAt i) =
      (\<Sum>i < ?s. BlockRewardAt i) + (\<Sum>i = ?s..<?s + HalvingInterval. BlockRewardAt i)"
    by (simp only: sum.union_disjoint finite_lessThan finite_atLeastLessThan ivl_disj_int)
  also have "(\<Sum>i = ?s..<?s + HalvingInterval. BlockRewardAt i) = (\<Sum>i = ?s..<?s + HalvingInterval. BaseBlockReward div 2 ^ m)"
    by (intro sum.cong refl) (metis atLeastLessThan_iff reward_in_era reward_era)
  also have "\<dots> = int HalvingInterval * (BaseBlockReward div 2 ^ m)" by simp
  finally show ?case using Suc by (simp add: distrib_left)
qed simp

lemma issuance_less: "(\<Sum>i = 1..h. BlockRewardAt i) < 2 * int HalvingInterval * BaseBlockReward"
proof -
  let ?m = "h div HalvingInterval"
  have sub: "{1..h} \<subseteq> {..<Suc ?m * HalvingInterval} - {0}"
    using dividend_less_div_times [of HalvingInterval h] by (auto simp: HalvingInterval_def)
  have mem: "0 \<in> {..<Suc ?m * HalvingInterval}" by (simp add: HalvingInterval_def)
  have "(\<Sum>i = 1..h. BlockRewardAt i) \<le> (\<Sum>i \<in> {..<Suc ?m * HalvingInterval} - {0}. BlockRewardAt i)"
    by (rule sum_mono2 [OF _ sub]) simp_all
  also have "\<dots> = (\<Sum>i < Suc ?m * HalvingInterval. BlockRewardAt i) - BlockRewardAt 0"
    using mem by (subst sum_diff1) simp_all
  also have "BlockRewardAt 0 = BaseBlockReward" by (simp add: BlockRewardAt_div)
  also have "(\<Sum>i < Suc ?m * HalvingInterval. BlockRewardAt i) \<le> int HalvingInterval * (2 * BaseBlockReward)"
  proof -
    have "(\<Sum>e < Suc ?m. BaseBlockReward div 2 ^ e) \<le> 2 * BaseBlockReward"
      using geometric_rewards [of ?m] pos_imp_zdiv_nonneg_iff [of "2 ^ ?m" BaseBlockReward]
      by (simp add: BaseBlockReward_def)
    then show ?thesis unfolding rewards_of_eras by (intro mult_left_mono) simp_all
  qed
  finally show ?thesis by (simp add: BaseBlockReward_def)
qed

section \<open>The end of issuance\<close>

lemma rewards_over: "65 * HalvingInterval \<le> h \<Longrightarrow> BlockRewardAt h = 0"
  using reward_mono [of "65 * HalvingInterval" h] reward_ends [of 65] reward_era [of 65] by (intro antisym) simp_all

text \<open>One round of the loop at a literal number of rounds left.\<close>

lemma issued_loop_numeral:
  "issued_loop (numeral k) h era acc =
     (let start = mul64 era HalvingInterval in
      if start > h then Some acc
      else if BlockRewardAt start = 0 then Some acc
      else issued_loop (pred_numeral k) h (add64 era 1) (acc + era_issued h start))"
  by (simp only: numeral_eq_Suc issued_loop.simps)

lemma issued_at_end: "CumulativeIssued 65000000 = Some 49999974999999999974000000"
  by (simp add: CumulativeIssued_def issued_loop_numeral era_issued_def BlockRewardAt_div HalvingInterval_def
      BaseBlockReward_def mul64_def add64_def sub64_def Let_def)

lemma issued_in_all:
  assumes "65 * HalvingInterval \<le> h"
  shows "(\<Sum>i = 1..h. BlockRewardAt i) = 49999974999999999974000000"
proof -
  have h: "65000000 \<le> h" using assms by (simp add: HalvingInterval_def)
  have "(\<Sum>i = 1..h. BlockRewardAt i) = (\<Sum>i = 1..65000000. BlockRewardAt i)"
    by (rule sum.mono_neutral_right) (use h rewards_over in \<open>auto simp: HalvingInterval_def\<close>)
  then show ?thesis using issued_at_end by (simp add: CumulativeIssued_sum)
qed

end
