(* ===== verification/Pow.thy ===== *)
theory Pow
  imports Types
begin

text \<open>
  Proof of work and fork choice: \<^verbatim>\<open>src/core/pow.go\<close> and \<^verbatim>\<open>src/core/forkchoice.go\<close>.  int64 arithmetic
  wraps where the source computes in int64; the difficulty average is over big integers there
  and here.  A division by zero or an index out of range is \<open>None\<close>.
\<close>

section \<open>Targets\<close>

definition MinDifficulty :: nat where "MinDifficulty = 1"
definition TargetBlockTime :: int where "TargetBlockTime = 240000"
definition LwmaWindow :: nat where "LwmaWindow = 45"
definition maxTarget :: int where "maxTarget = 2 ^ 256 - 1"

definition powTarget :: "nat \<Rightarrow> int" where
  "powTarget difficulty = maxTarget div int (if difficulty = 0 then 1 else difficulty)"

definition PowTarget :: "nat \<Rightarrow> int" where
  "PowTarget difficulty = powTarget difficulty"

definition satisfiesPoW :: "crypto \<Rightarrow> header \<Rightarrow> bool" where
  "satisfiesPoW E h \<longleftrightarrow> uint (header_Hash E h) \<le> powTarget (hd_difficulty h)"

datatype pow_error = ErrBadDifficulty | ErrBadPoW

definition VerifyHeaderPoW :: "crypto \<Rightarrow> header \<Rightarrow> pow_error option" where
  "VerifyHeaderPoW E h =
     (if hd_difficulty h < MinDifficulty then Some ErrBadDifficulty
      else if \<not> satisfiesPoW E h then Some ErrBadPoW
      else None)"

section \<open>LWMA difficulty\<close>

text \<open>
  One pass over the window: the weighted sum of clamped solvetimes and the sum of difficulties.
  \<open>i\<close> is the weight of the next header and \<open>prev\<close> the (monotonised) timestamp before it.
\<close>

primrec lwma_sums :: "header list \<Rightarrow> int \<Rightarrow> int \<Rightarrow> int \<Rightarrow> int \<Rightarrow> int \<times> int" where
  "lwma_sums [] i prev L sumD = (L, sumD)"
| "lwma_sums (h # hs) i prev L sumD =
     (let ts = (if hd_timestamp h \<le> prev then wrap_int64 (prev + 1) else hd_timestamp h);
          d = wrap_int64 (ts - prev);
          st = (if d > 6 * TargetBlockTime then 6 * TargetBlockTime else d)
      in lwma_sums hs (i + 1) ts (wrap_int64 (L + wrap_int64 (i * st))) (sumD + int (hd_difficulty h)))"

definition clamp_difficulty :: "int \<Rightarrow> nat" where
  "clamp_difficulty next =
     (let d = (if 0 \<le> next \<and> next < 2 ^ 64 then nat next else 2 ^ 64 - 1)
      in if d < MinDifficulty then MinDifficulty else d)"

definition lwmaDifficulty :: "header list \<Rightarrow> nat option" where
  "lwmaDifficulty window =
     (case window of
        [] \<Rightarrow> None
      | first # hs \<Rightarrow>
          let N = int (length hs);
              (L0, sumD) = lwma_sums hs 1 (hd_timestamp first) 0 0;
              minL = wrap_int64 (N * N * TargetBlockTime) div 20;
              L = (if L0 < minL then minL else L0)
          in if N = 0 \<or> wrap_int64 (200 * L) = 0 then None
             else Some (clamp_difficulty
               (sumD div N * wrap_int64 (N * (N + 1) * TargetBlockTime * 99) div wrap_int64 (200 * L))))"

section \<open>Grinding\<close>

text \<open>
  \<^verbatim>\<open>Grind\<close> tries nonces until one wins or \<open>stop\<close> is closed (observed before the \<open>k\<close>-th try by
  \<open>stop k\<close>).  The loop has no bound of its own: \<open>None\<close> is a search still running after \<open>n\<close> tries.
\<close>

primrec grind_loop :: "nat \<Rightarrow> crypto \<Rightarrow> header \<Rightarrow> int \<Rightarrow> (nat \<Rightarrow> bool) \<Rightarrow> nat \<Rightarrow> nat \<Rightarrow> ((nat \<times> bool) \<times> header) option" where
  "grind_loop 0 E h target stop k nonce = None"
| "grind_loop (Suc n) E h target stop k nonce =
     (if stop k then Some ((nonce, False), h)
      else let h1 = h\<lparr>hd_nonce := nonce\<rparr> in
        if uint (header_Hash E h1) \<le> target then Some ((nonce, True), h1)
        else grind_loop n E h1 target stop (Suc k) (add64 nonce 1))"

definition Grind :: "nat \<Rightarrow> crypto \<Rightarrow> header \<Rightarrow> int \<Rightarrow> nat \<Rightarrow> (nat \<Rightarrow> bool) \<Rightarrow> ((nat \<times> bool) \<times> header) option" where
  "Grind n E h target start stop = grind_loop n E h target stop 0 start"

definition mine :: "nat \<Rightarrow> crypto \<Rightarrow> header \<Rightarrow> (nat \<Rightarrow> bool) \<Rightarrow> (bool \<times> header) option" where
  "mine n E h stop = map_option (\<lambda>((_, ok), h1). (ok, h1)) (Grind n E h (powTarget (hd_difficulty h)) 0 stop)"

section \<open>Fork choice\<close>

record tip =
  tip_header :: header
  tip_td :: int

fun bytes_Compare :: "bytes \<Rightarrow> bytes \<Rightarrow> int" where
  "bytes_Compare [] [] = 0"
| "bytes_Compare [] (b # bs) = - 1"
| "bytes_Compare (a # as) [] = 1"
| "bytes_Compare (a # as) (b # bs) =
     (if a < b then - 1 else if b < a then 1 else bytes_Compare as bs)"

definition Better :: "crypto \<Rightarrow> tip \<Rightarrow> tip \<Rightarrow> bool" where
  "Better E candidate current \<longleftrightarrow>
     (if tip_td candidate \<noteq> tip_td current then tip_td candidate > tip_td current
      else bytes_Compare (hash_bytes (header_Hash E (tip_header candidate)))
             (hash_bytes (header_Hash E (tip_header current))) < 0)"

end
