(* ===== verification/Pow_Laws.thy ===== *)
theory Pow_Laws
  imports Pow Types_Properties
begin

text \<open>
  Laws of proof of work and fork choice: the bounds of the difficulty retarget, what grinding
  finds, and that the fork choice is a strict total order, so nodes that know the same tips agree.
\<close>

section \<open>The retarget stays within its bounds\<close>

definition tri :: "int \<Rightarrow> nat \<Rightarrow> int" where
  "tri i n = (\<Sum>k < n. i + int k)"

lemma tri_Suc: "tri i (Suc n) = i + tri (i + 1) n"
  by (simp add: tri_def sum.lessThan_Suc_shift add.assoc del: sum.lessThan_Suc)

lemma tri_nonneg: "0 \<le> i \<Longrightarrow> 0 \<le> tri i n"
  by (simp add: tri_def sum_nonneg)

lemma tri_1: "2 * tri 1 n = int n * (int n + 1)"
  by (induction n) (simp_all add: tri_def algebra_simps)

lemma solvetime_bounds:
  assumes "0 \<le> prev" and "prev < 2 ^ 62 + i" and "0 \<le> ts0" and "ts0 < 2 ^ 62" and "1 \<le> i" and "i < 2 ^ 20"
  defines "ts \<equiv> if ts0 \<le> prev then wrap_int64 (prev + 1) else ts0"
  defines "st \<equiv> (let d = wrap_int64 (ts - prev) in if d > 6 * TargetBlockTime then 6 * TargetBlockTime else d)"
  shows "0 \<le> ts" "ts < 2 ^ 62 + (i + 1)" "1 \<le> st" "st \<le> 6 * TargetBlockTime"
proof -
  have w: "wrap_int64 (prev + 1) = prev + 1" using assms(1,2,6) by (intro wrap_int64_id) simp_all
  show ts: "0 \<le> ts" "ts < 2 ^ 62 + (i + 1)" using assms(1-6) by (simp_all add: ts_def w)
  have d: "wrap_int64 (ts - prev) = ts - prev"
    using ts assms(1,2,6) by (intro wrap_int64_id) simp_all
  have "1 \<le> ts - prev" by (simp add: ts_def w)
  then show "1 \<le> st" "st \<le> 6 * TargetBlockTime" by (simp_all add: st_def d Let_def TargetBlockTime_def)
qed

lemma lwma_sums_bounds:
  assumes "\<forall>h \<in> set hs. 0 \<le> hd_timestamp h \<and> hd_timestamp h < 2 ^ 62" and "0 \<le> prev" and "prev < 2 ^ 62 + i"
    and "1 \<le> i" and "i + int (length hs) < 2 ^ 20" and "0 \<le> L"
    and "L + 6 * TargetBlockTime * tri i (length hs) < 2 ^ 62"
  shows "L + tri i (length hs) \<le> fst (lwma_sums hs i prev L sumD) \<and>
    fst (lwma_sums hs i prev L sumD) \<le> L + 6 * TargetBlockTime * tri i (length hs) \<and>
    snd (lwma_sums hs i prev L sumD) = sumD + (\<Sum>h \<leftarrow> hs. int (hd_difficulty h))"
  using assms
proof (induction hs arbitrary: i prev L sumD)
  case Nil
  then show ?case by (simp add: tri_def)
next
  case (Cons h hs)
  let ?ts = "if hd_timestamp h \<le> prev then wrap_int64 (prev + 1) else hd_timestamp h"
  let ?st = "let d = wrap_int64 (?ts - prev) in if d > 6 * TargetBlockTime then 6 * TargetBlockTime else d"
  define st where "st = ?st"
  let ?T = "6 * TargetBlockTime" and ?n = "length hs"
  have i: "i < 2 ^ 20" using Cons.prems(5) by simp
  have t: "0 \<le> hd_timestamp h" "hd_timestamp h < 2 ^ 62" using Cons.prems(1) by auto
  note b = solvetime_bounds [OF Cons.prems(2,3) t Cons.prems(4) i, folded st_def]
  have big: "(2 :: int) ^ 62 < 2 ^ 63" "- (2 ^ 63) \<le> (0 :: int)" by simp_all
  have n0: "0 \<le> tri (i + 1) ?n" using Cons.prems(4) by (intro tri_nonneg) simp
  have lo: "i \<le> i * st" using b(3) Cons.prems(4) by (metis mult.right_neutral mult_left_mono order.trans zero_le_one)
  have hi: "i * st \<le> ?T * i" using mult_left_mono [OF b(4), of i] Cons.prems(4) by (simp add: mult.commute)
  have T: "0 \<le> ?T" by (simp add: TargetBlockTime_def)
  have bound: "L + ?T * i + ?T * tri (i + 1) ?n < 2 ^ 62"
    using Cons.prems(7) by (simp add: tri_Suc algebra_simps)
  have n1: "0 \<le> ?T * tri (i + 1) ?n" using T n0 by (rule mult_nonneg_nonneg)
  have w1: "wrap_int64 (i * st) = i * st"
    using lo hi bound n1 big Cons.prems(4,6) by (intro wrap_int64_id) linarith+
  have w2: "wrap_int64 (L + i * st) = L + i * st"
    using lo hi bound n1 big Cons.prems(4,6) by (intro wrap_int64_id) linarith+
  have eq: "lwma_sums (h # hs) i prev L sumD =
      lwma_sums hs (i + 1) ?ts (L + i * st) (sumD + int (hd_difficulty h))"
    by (simp only: lwma_sums.simps Let_def w1 [unfolded st_def Let_def] w2 [unfolded st_def Let_def] st_def)
  have last: "L + i * st + ?T * tri (i + 1) ?n < 2 ^ 62" using hi bound by linarith
  have pos: "0 \<le> L + i * st" using lo Cons.prems(4,6) by linarith
  have IH: "L + i * st + tri (i + 1) ?n \<le> fst (lwma_sums (h # hs) i prev L sumD) \<and>
      fst (lwma_sums (h # hs) i prev L sumD) \<le> L + i * st + ?T * tri (i + 1) ?n \<and>
      snd (lwma_sums (h # hs) i prev L sumD) = sumD + int (hd_difficulty h) + (\<Sum>h \<leftarrow> hs. int (hd_difficulty h))"
    unfolding eq
    by (rule Cons.IH) (use Cons.prems b(1,2) last pos in simp_all)
  have e: "?T * tri i (Suc ?n) = ?T * i + ?T * tri (i + 1) ?n" by (simp add: tri_Suc distrib_left)
  show ?case using IH lo hi e by (simp add: tri_Suc)
qed

lemma clamp_difficulty_bounds: "1 \<le> clamp_difficulty x" "clamp_difficulty x < 2 ^ 64"
  by (auto simp: clamp_difficulty_def MinDifficulty_def Let_def)

lemma clamp_difficulty_le: "0 \<le> x \<Longrightarrow> int (clamp_difficulty x) \<le> max 1 x"
  by (auto simp: clamp_difficulty_def MinDifficulty_def Let_def)

lemma clamp_difficulty_ge: "y \<le> x \<Longrightarrow> y < 2 ^ 64 \<Longrightarrow> 0 \<le> x \<Longrightarrow> y \<le> int (clamp_difficulty x)"
  by (auto simp: clamp_difficulty_def MinDifficulty_def Let_def)

text \<open>The window of a retarget: plausible timestamps, one to \<open>LwmaWindow\<close> solvetimes.\<close>

definition lwma_window_ok :: "header list \<Rightarrow> bool" where
  "lwma_window_ok window \<longleftrightarrow> 2 \<le> length window \<and> length window \<le> LwmaWindow + 1 \<and>
     (\<forall>h \<in> set window. 0 \<le> hd_timestamp h \<and> hd_timestamp h < 2 ^ 62 \<and> hd_difficulty h < 2 ^ 64)"

definition average_difficulty :: "header list \<Rightarrow> int" where
  "average_difficulty window =
     (\<Sum>h \<leftarrow> tl window. int (hd_difficulty h)) div int (length window - 1)"

lemma lwma_L:
  assumes "lwma_window_ok (first # hs)"
  defines "N \<equiv> int (length hs)"
  shows "\<exists>L. N * N * 12000 \<le> L \<and> L \<le> 3 * TargetBlockTime * (N * (N + 1)) \<and>
    lwmaDifficulty (first # hs) = Some (clamp_difficulty
      (average_difficulty (first # hs) * (N * (N + 1) * TargetBlockTime * 99) div (200 * L)))"
proof -
  have N: "1 \<le> N" "N \<le> 45" and t: "0 \<le> hd_timestamp first" "hd_timestamp first < 2 ^ 62 + 1"
    using assms(1) by (auto simp: lwma_window_ok_def LwmaWindow_def N_def)
  have NN: "1 \<le> N * N" "N * N \<le> 45 * 45" "N * (N + 1) \<le> 45 * 46" "0 \<le> N * (N + 1)" "N * N \<le> N * (N + 1)"
    using N mult_mono [of 1 N 1 N] mult_mono [of N 45 N 45] mult_mono [of N 45 "N + 1" 46] mult_mono [of N N N "N + 1"]
    by simp_all
  have tr: "6 * TargetBlockTime * tri 1 (length hs) = 3 * TargetBlockTime * (N * (N + 1))"
    using tri_1 [of "length hs"] by (simp add: N_def)
  obtain L0 sumD where s: "lwma_sums hs 1 (hd_timestamp first) 0 0 = (L0, sumD)" by fastforce
  have b: "0 \<le> L0 \<and> L0 \<le> 3 * TargetBlockTime * (N * (N + 1)) \<and> sumD = (\<Sum>h \<leftarrow> hs. int (hd_difficulty h))"
    using lwma_sums_bounds [of hs "hd_timestamp first" 1 0 0] assms(1) t N NN tr tri_nonneg [of 1 "length hs"]
    by (auto simp: s lwma_window_ok_def TargetBlockTime_def N_def)
  define L where "L = (if L0 < N * N * 12000 then N * N * 12000 else L0)"
  have m: "wrap_int64 (N * N * TargetBlockTime) div 20 = N * N * 12000"
    using NN by (subst wrap_int64_id) (simp_all add: TargetBlockTime_def)
  have Lb: "N * N * 12000 \<le> L" "L \<le> 3 * TargetBlockTime * (N * (N + 1))"
    using b NN by (auto simp: L_def TargetBlockTime_def)
  have w: "wrap_int64 (200 * L) = 200 * L" using Lb NN by (intro wrap_int64_id) (simp_all add: TargetBlockTime_def)
  have w2: "wrap_int64 (N * (N + 1) * TargetBlockTime * 99) = N * (N + 1) * TargetBlockTime * 99"
    using NN by (intro wrap_int64_id) (simp_all add: TargetBlockTime_def)
  have "lwmaDifficulty (first # hs) = (if N = 0 \<or> 200 * L = 0 then None else Some (clamp_difficulty
      (sumD div N * (N * (N + 1) * TargetBlockTime * 99) div (200 * L))))"
    by (simp only: lwmaDifficulty_def list.case Let_def s prod.case N_def [symmetric] m
        L_def [symmetric] w w2)
  also have "\<dots> = Some (clamp_difficulty (sumD div N * (N * (N + 1) * TargetBlockTime * 99) div (200 * L)))"
    using N(1) Lb(1) NN(1) by (subst if_not_P) auto
  finally have "lwmaDifficulty (first # hs) = Some (clamp_difficulty
      (sumD div N * (N * (N + 1) * TargetBlockTime * 99) div (200 * L)))" .
  then show ?thesis using Lb b by (auto simp: average_difficulty_def N_def)
qed

lemma lwma_window_Cons:
  assumes "lwma_window_ok window"
  obtains first hs where "window = first # hs" "hs \<noteq> []"
  using assms by (cases window) (auto simp: lwma_window_ok_def dest: Suc_le_length_iff [THEN iffD1])

lemma average_bounds:
  assumes "lwma_window_ok window"
  shows "0 \<le> average_difficulty window" "average_difficulty window < 2 ^ 64"
proof -
  obtain first hs where w: "window = first # hs" "hs \<noteq> []"
    using assms by (rule lwma_window_Cons)
  let ?s = "\<Sum>h \<leftarrow> hs. int (hd_difficulty h)"
  have p: "0 < int (length hs)" using w(2) by simp
  have nn: "0 \<le> ?s" by (rule sum_list_nonneg) auto
  then show "0 \<le> average_difficulty window" by (simp add: average_difficulty_def w(1) pos_imp_zdiv_nonneg_iff [OF p])
  have "?s \<le> (\<Sum>h \<leftarrow> hs. 2 ^ 64 - 1)"
    using assms by (intro sum_list_mono) (auto simp: w(1) lwma_window_ok_def)
  also have "\<dots> = int (length hs) * (2 ^ 64 - 1)" by (simp add: sum_list_triv)
  finally have "?s div int (length hs) \<le> int (length hs) * (2 ^ 64 - 1) div int (length hs)"
    using p by (intro zdiv_mono1)
  then show "average_difficulty window < 2 ^ 64" using p by (simp add: average_difficulty_def w(1))
qed

lemma div_cancel_common: "0 < (c :: int) \<Longrightarrow> a * c div (b * c) = a div b"
  by simp

lemma lwma_bounds:
  assumes "lwma_window_ok window"
  defines "N \<equiv> int (length window - 1)" and "A \<equiv> average_difficulty window"
  shows "\<exists>d. lwmaDifficulty window = Some d \<and> 1 \<le> d \<and> d < 2 ^ 64 \<and>
    A * 99 div 600 \<le> int d \<and> 10 * N * int d \<le> max (10 * N) (99 * (N + 1) * A)"
proof -
  obtain first hs where w: "window = first # hs" "hs \<noteq> []"
    using assms(1) by (rule lwma_window_Cons)
  note A = average_bounds [OF assms(1), folded A_def]
  have N: "1 \<le> N" using w by (cases hs) (simp_all add: N_def)
  have NN: "0 < N * N" "0 < N * (N + 1)" using N by simp_all
  obtain L where L: "N * N * 12000 \<le> L" "L \<le> 3 * TargetBlockTime * (N * (N + 1))"
    and d: "lwmaDifficulty window =
      Some (clamp_difficulty (A * (N * (N + 1) * TargetBlockTime * 99) div (200 * L)))"
    using lwma_L [of first hs] assms(1) by (auto simp: w(1) N_def A_def)
  let ?n = "A * (N * (N + 1) * TargetBlockTime * 99)"
  let ?x = "?n div (200 * L)"
  have n: "0 \<le> ?n" using A(1) NN by (simp add: TargetBlockTime_def)
  have L0: "0 < L" using L(1) NN by linarith
  have x0: "0 \<le> ?x" using n L0 by (simp add: pos_imp_zdiv_nonneg_iff)
  have "?x \<le> ?n div (200 * (N * N * 12000))"
    using L(1) n NN by (intro zdiv_mono2) simp_all
  also have "\<dots> = 99 * (N + 1) * A * (N * 240000) div (10 * N * (N * 240000))"
    by (simp add: TargetBlockTime_def algebra_simps)
  also have "\<dots> = 99 * (N + 1) * A div (10 * N)" using N by (intro div_cancel_common) simp
  finally have "10 * N * ?x \<le> 10 * N * (99 * (N + 1) * A div (10 * N))" using N by (intro mult_left_mono) simp_all
  also have "\<dots> \<le> 99 * (N + 1) * A" 
    using N mult_div_mod_eq [of "10 * N" "99 * (N + 1) * A"] pos_mod_sign [of "10 * N" "99 * (N + 1) * A"] by linarith
  finally have up: "10 * N * ?x \<le> 99 * (N + 1) * A" .
  have "A * 99 div 600 = A * 99 * (N * (N + 1) * 240000) div (600 * (N * (N + 1) * 240000))"
    using NN(2) by (intro div_cancel_common [symmetric]) simp
  also have "\<dots> = ?n div (200 * (3 * TargetBlockTime * (N * (N + 1))))"
    by (simp add: TargetBlockTime_def algebra_simps)
  also have "\<dots> \<le> ?x" using L(2) L0 by (intro zdiv_mono2 [OF n]) linarith+
  finally have lo: "A * 99 div 600 \<le> ?x" .
  have "A * 99 div 600 < 2 ^ 64" using A by linarith
  then have ge: "A * 99 div 600 \<le> int (clamp_difficulty ?x)" using lo x0 by (intro clamp_difficulty_ge)
  have "10 * N * int (clamp_difficulty ?x) \<le> 10 * N * max 1 ?x"
    using N clamp_difficulty_le [OF x0] by (intro mult_left_mono) simp_all
  then have "10 * N * int (clamp_difficulty ?x) \<le> max (10 * N) (99 * (N + 1) * A)"
    using up by (auto simp: max_def split: if_splits)
  then show ?thesis using d ge clamp_difficulty_bounds [of ?x] by blast
qed

section \<open>Grinding\<close>

lemma grind_loop_sound:
  "grind_loop n E h target stop k nonce = Some ((r, True), h') \<Longrightarrow>
    h' = h\<lparr>hd_nonce := r\<rparr> \<and> uint (header_Hash E h') \<le> target"
proof (induction n arbitrary: h k nonce)
  case (Suc n)
  then show ?case
    by (fastforce simp: Let_def split: if_splits)
qed simp

text \<open>If a try wins before the search is stopped, the search returns the first such try.\<close>

lemma grind_loop_live:
  assumes "\<forall>j < m. \<not> uint (header_Hash E (h\<lparr>hd_nonce := (nonce + j) mod 2 ^ 64\<rparr>)) \<le> target"
    and "uint (header_Hash E (h\<lparr>hd_nonce := (nonce + m) mod 2 ^ 64\<rparr>)) \<le> target"
    and "\<forall>j \<le> m. \<not> stop (k + j)" and "m < n" and "nonce < 2 ^ 64"
  shows "grind_loop n E h target stop k nonce =
    Some (((nonce + m) mod 2 ^ 64, True), h\<lparr>hd_nonce := (nonce + m) mod 2 ^ 64\<rparr>)"
  using assms
proof (induction m arbitrary: n h k nonce)
  case 0
  then obtain n' where "n = Suc n'" by (cases n) auto
  with 0 show ?case by (simp add: Let_def)
next
  case (Suc m)
  obtain n' where n: "n = Suc n'" "m < n'" using Suc.prems(4) by (cases n) auto
  have "\<not> stop k" using Suc.prems(3) by (metis add.right_neutral le0)
  moreover have "\<not> uint (header_Hash E (h\<lparr>hd_nonce := nonce\<rparr>)) \<le> target"
    using Suc.prems(1,5) by (auto dest: spec [of _ 0])
  ultimately have step: "grind_loop n E h target stop k nonce =
      grind_loop n' E (h\<lparr>hd_nonce := nonce\<rparr>) target stop (Suc k) (add64 nonce 1)"
    by (simp add: n Let_def)
  have shift: "(add64 nonce 1 + j) mod 2 ^ 64 = (nonce + Suc j) mod 2 ^ 64" for j
    by (simp add: add64_def mod_add_left_eq)
  have "grind_loop n' E (h\<lparr>hd_nonce := nonce\<rparr>) target stop (Suc k) (add64 nonce 1) =
      Some (((add64 nonce 1 + m) mod 2 ^ 64, True),
        (h\<lparr>hd_nonce := nonce\<rparr>)\<lparr>hd_nonce := (add64 nonce 1 + m) mod 2 ^ 64\<rparr>)"
  proof (rule Suc.IH)
    show "\<forall>j \<le> m. \<not> stop (Suc k + j)" using Suc.prems(3) by (metis Suc_le_mono add_Suc_shift)
    show "\<forall>j < m. \<not> uint (header_Hash E ((h\<lparr>hd_nonce := nonce\<rparr>)\<lparr>hd_nonce := (add64 nonce 1 + j) mod 2 ^ 64\<rparr>)) \<le> target"
      unfolding shift using Suc.prems(1) by auto
    show "uint (header_Hash E ((h\<lparr>hd_nonce := nonce\<rparr>)\<lparr>hd_nonce := (add64 nonce 1 + m) mod 2 ^ 64\<rparr>)) \<le> target"
      unfolding shift using Suc.prems(2) by simp
    show "add64 nonce 1 < 2 ^ 64" by (rule add64_less)
  qed (rule n(2))
  then show ?case unfolding step shift by simp
qed

section \<open>Fork choice\<close>

text \<open>
  The contract of \<^verbatim>\<open>ForkChoice\<close>: total on tips that differ in their block hash (\<open>key\<close>), never
  preferring each of two tips to the other, and a weak order.  What follows for a node: the head it ends with
  depends on the set of tips it has seen, not on the order they arrived in.
\<close>

locale fork_choice =
  fixes better :: "'t \<Rightarrow> 't \<Rightarrow> bool" and key :: "'t \<Rightarrow> 'k"
  assumes choice_total: "key a \<noteq> key b \<Longrightarrow> better a b \<or> better b a"
    and choice_asym: "better a b \<Longrightarrow> \<not> better b a"
    and choice_negtrans: "\<not> better a b \<Longrightarrow> \<not> better b c \<Longrightarrow> \<not> better a c"
begin

definition pick :: "'t \<Rightarrow> 't \<Rightarrow> 't" where
  "pick current candidate = (if better candidate current then candidate else current)"

definition head_after :: "'t \<Rightarrow> 't list \<Rightarrow> 't" where
  "head_after current tips = foldl pick current tips"

lemma head_after_in: "head_after current tips \<in> insert current (set tips)"
  by (induction tips arbitrary: current) (auto simp: head_after_def pick_def split: if_splits)

lemma pick_best: "\<not> better current (pick current c)" "\<not> better c (pick current c)"
  using choice_asym by (auto simp: pick_def)

lemma head_after_best: "t \<in> insert current (set tips) \<Longrightarrow> \<not> better t (head_after current tips)"
proof (induction tips arbitrary: current t)
  case Nil
  then show ?case using choice_asym by (auto simp: head_after_def)
next
  case (Cons c tips)
  have "head_after current (c # tips) = head_after (pick current c) tips" by (simp add: head_after_def)
  moreover have "\<not> better (pick current c) (head_after (pick current c) tips)" using Cons.IH by simp
  ultimately show ?case
    using Cons.prems Cons.IH pick_best choice_negtrans by (metis insertE insert_iff list.simps(15))
qed

lemma head_after_agree:
  assumes "insert c (set tips) = insert c' (set tips')"
  shows "key (head_after c tips) = key (head_after c' tips')"
proof (rule ccontr)
  assume "key (head_after c tips) \<noteq> key (head_after c' tips')"
  then have "better (head_after c tips) (head_after c' tips') \<or> better (head_after c' tips') (head_after c tips)"
    by (rule choice_total)
  then show False
    using head_after_best head_after_in assms by metis
qed

end

text \<open>\<^verbatim>\<open>bytes.Compare\<close> on equally long strings is comparison of the numbers they spell.\<close>

lemma bytes_Compare_sign:
  "length as = length bs \<Longrightarrow> (bytes_Compare as bs < 0 \<longleftrightarrow> be_nat as < be_nat bs)"
proof (induction as bs rule: bytes_Compare.induct)
  case (4 a as b bs)
  have l: "be_nat as < 256 ^ length bs" "be_nat bs < 256 ^ length bs"
    using be_nat_less [of as] be_nat_less [of bs] 4(2) by simp_all
  have less: "unat x * 256 ^ length bs + i < unat y * 256 ^ length bs + j"
    if "x < y" "i < 256 ^ length bs" for x y :: byte and i j
  proof -
    have "unat x + 1 \<le> unat y" using that(1) by (simp add: word_less_nat_alt)
    then have "(unat x + 1) * 256 ^ length bs \<le> unat y * 256 ^ length bs" by (rule mult_right_mono) simp
    then show ?thesis using that(2) by simp
  qed
  consider "a < b" | "b < a" | "a = b" by fastforce
  then show ?case
  proof cases
    case 1
    then show ?thesis using less [OF 1 l(1), of "be_nat bs"] 4(2) by (simp add: be_nat_Cons)
  next
    case 2
    then have "\<not> be_nat (a # as) < be_nat (b # bs)"
      using less [OF 2 l(2), of "be_nat as"] 4(2) by (simp add: be_nat_Cons)
    then show ?thesis using 2 by simp
  next
    case 3
    then show ?thesis using 4 by (simp add: be_nat_Cons)
  qed
qed simp_all

lemma Better_iff:
  "Better E a b \<longleftrightarrow> tip_td a > tip_td b \<or>
     tip_td a = tip_td b \<and> header_Hash E (tip_header a) < header_Hash E (tip_header b)"
  by (auto simp: Better_def bytes_Compare_sign be_nat_hash_bytes word_less_nat_alt)

interpretation heaviest: fork_choice "Better E" "\<lambda>t. header_Hash E (tip_header t)" for E
  by unfold_locales (auto simp: Better_iff)

end
