(* ===== verification/Genesis.thy ===== *)
theory Genesis
  imports Issuance Pow_Laws
begin

text \<open>
  Block zero (\<^verbatim>\<open>src/core/genesis.go\<close>).  The allocation map is the list of its entries in the order
  Go iterates over it; results hold for every order.  An absent balance is the nil \<^verbatim>\<open>*BigStr\<close> or its
  nil number.  The fields read from JSON text (\<^verbatim>\<open>LoadGenesis\<close>, \<^verbatim>\<open>Save\<close>) are file I/O.
\<close>

record genesis =
  g_TotalSupply :: "int option"
  g_ChainID :: nat
  g_Timestamp :: int
  g_GasLimit :: nat
  g_Alloc :: "(address \<times> int option) list"
  g_Difficulty :: nat
  g_TreasuryReward :: address
  g_TreasuryRewardBps :: nat

datatype genesis_error =
    ErrZeroChainID | ErrGenesisGasLimit | ErrTreasuryBps | ErrTreasuryHalfSet
  | ErrNilAllocation address | ErrNegativeAllocation address | ErrSupplyMismatch

fun alloc_sum :: "(address \<times> int option) list \<Rightarrow> int \<Rightarrow> genesis_error + int" where
  "alloc_sum [] acc = Inr acc"
| "alloc_sum ((a, None) # rest) acc = Inl (ErrNilAllocation a)"
| "alloc_sum ((a, Some bal) # rest) acc =
     (if bal < 0 then Inl (ErrNegativeAllocation a) else alloc_sum rest (acc + bal))"

definition genesis_Validate :: "genesis \<Rightarrow> genesis_error + unit" where
  "genesis_Validate g =
     (if g_ChainID g = 0 then Inl ErrZeroChainID
      else if g_GasLimit g < MinBlockGasLimit then Inl ErrGenesisGasLimit
      else if g_TreasuryRewardBps g > 10000 then Inl ErrTreasuryBps
      else if (g_TreasuryRewardBps g > 0) \<noteq> (g_TreasuryReward g \<noteq> 0) then Inl ErrTreasuryHalfSet
      else case alloc_sum (g_Alloc g) 0 of
        Inl e \<Rightarrow> Inl e
      | Inr acc \<Rightarrow>
          (case g_TotalSupply g of
             None \<Rightarrow> Inr ()
           | Some supply \<Rightarrow> if acc \<noteq> supply then Inl ErrSupplyMismatch else Inr ()))"

definition genesis_Supply :: "genesis \<Rightarrow> int" where
  "genesis_Supply g = foldl (\<lambda>acc (a, bal). case bal of None \<Rightarrow> acc | Some b \<Rightarrow> acc + b) 0 (g_Alloc g)"

definition chainTag :: "crypto \<Rightarrow> nat \<Rightarrow> hash" where
  "chainTag E chainID = keccak256 E (map of_char ''lxs/genesis/v1'' @ enc_Uint64 chainID)"

text \<open>Crediting a nil balance panics: \<open>None\<close>.\<close>

fun credit_alloc :: "(address \<times> int option) list \<Rightarrow> world \<Rightarrow> world option" where
  "credit_alloc [] w = Some w"
| "credit_alloc ((a, None) # rest) w = None"
| "credit_alloc ((a, Some bal) # rest) w = credit_alloc rest (Credit w a bal)"

definition genesis_header :: "crypto \<Rightarrow> genesis \<Rightarrow> world \<Rightarrow> header" where
  "genesis_header E g w =
     \<lparr>hd_parent = chainTag E (g_ChainID g), hd_height = 0, hd_timestamp = g_Timestamp g,
      hd_txroot = TxRoot E [], hd_receiptroot = ReceiptRoot E [], hd_stateroot = world_Root E w,
      hd_gasused = 0, hd_gaslimit = g_GasLimit g, hd_proposer = 0,
      hd_difficulty = (if g_Difficulty g = 0 then MinDifficulty else g_Difficulty g), hd_nonce = 0\<rparr>"

definition genesis_Build :: "crypto \<Rightarrow> genesis \<Rightarrow> (world \<times> block) option" where
  "genesis_Build E g =
     (case credit_alloc (g_Alloc g) world_New of
        None \<Rightarrow> None
      | Some w \<Rightarrow> Some (w, \<lparr>blk_header = genesis_header E g w, blk_txs = []\<rparr>))"

text \<open>The reward split that \<^verbatim>\<open>NewBlockchain\<close> loads from genesis.\<close>

definition genesis_rewards :: "genesis \<Rightarrow> reward_config" where
  "genesis_rewards g =
     \<lparr>TreasuryRewardBasisPoints = int (g_TreasuryRewardBps g), TreasuryRewardAddress = g_TreasuryReward g\<rparr>"

section \<open>A valid genesis builds\<close>

definition alloc_value :: "(address \<times> int option) list \<Rightarrow> int" where
  "alloc_value xs = (\<Sum>(a, bal) \<leftarrow> xs. bigOrZero bal)"

lemma alloc_sum_value: "alloc_sum xs s = Inr t \<Longrightarrow> t = s + alloc_value xs"
  by (induction xs s rule: alloc_sum.induct) (auto simp: alloc_value_def bigOrZero_def split: if_splits)

lemma genesis_Supply_value: "genesis_Supply g = alloc_value (g_Alloc g)"
proof -
  have "foldl (\<lambda>acc (a, bal). case bal of None \<Rightarrow> acc | Some b \<Rightarrow> acc + b) s xs = s + alloc_value xs" for s xs
    by (induction xs arbitrary: s) (auto simp: alloc_value_def bigOrZero_def split: option.split)
  then show ?thesis by (simp add: genesis_Supply_def)
qed

lemma credit_alloc_ok:
  "alloc_sum xs s = Inr t \<Longrightarrow> world_ok w \<Longrightarrow> w_burned w = 0 \<Longrightarrow>
    \<exists>v. credit_alloc xs w = Some v \<and> world_ok v \<and> w_burned v = 0 \<and> supply_of v = supply_of w + alloc_value xs"
proof (induction xs s arbitrary: w rule: alloc_sum.induct)
  case (3 a bal rest acc)
  then have b: "0 \<le> bal" and s: "alloc_sum rest (acc + bal) = Inr t" by (auto split: if_splits)
  have k: "keeps w (Credit w a bal)" using 3(3) b by (rule keeps_Credit)
  from 3(1) [OF _ s keeps_ok [OF k]] b 3(3,4) show ?case
    by (auto simp: alloc_value_def bigOrZero_def supply_simps world_simps)
qed (simp_all add: alloc_value_def)

lemma supply_New: "supply_of world_New = 0" "w_burned world_New = 0"
  by (simp_all add: world_New_def supply_of_def SumBalances_def)

lemma genesis_ok:
  assumes "genesis_Validate g = Inr ()"
  obtains w b where "genesis_Build E g = Some (w, b)" "world_ok w" "w_burned w = 0"
    "SumBalances w = genesis_Supply g" "blk_header b = genesis_header E g w" "blk_txs b = []"
    "reward_config_ok (genesis_rewards g)" "MinBlockGasLimit \<le> g_GasLimit g"
proof -
  obtain s where s: "alloc_sum (g_Alloc g) 0 = Inr s"
    using assms by (auto simp: genesis_Validate_def split: if_splits sum.splits)
  obtain v where "credit_alloc (g_Alloc g) world_New = Some v" "world_ok v" "w_burned v = 0"
    "supply_of v = alloc_value (g_Alloc g)"
    using credit_alloc_ok [OF s world_ok_New] by (auto simp: supply_New)
  then show ?thesis
    using that [of v "\<lparr>blk_header = genesis_header E g v, blk_txs = []\<rparr>"] assms
    by (auto simp: genesis_Build_def genesis_Supply_value supply_of_def reward_config_ok_def
        genesis_rewards_def genesis_Validate_def split: if_splits)
qed

section \<open>Chains of blocks\<close>

text \<open>
  The block/state pairs a node can reach: genesis, then one accepted block after another, and the same
  accounts and burn total again with other bookkeeping (after a restart, say).  The
  transactions have passed \<^verbatim>\<open>SanityCheck\<close>, which \<^verbatim>\<open>InsertBlock\<close> runs before \<^verbatim>\<open>ApplyBlock\<close>; the bounds
  on the gas limit and the height are those of the arithmetic proved free of overflow.
\<close>

inductive chain :: "crypto \<Rightarrow> genesis \<Rightarrow> header \<Rightarrow> world \<Rightarrow> bool" for E g where
  chain_genesis: "genesis_Validate g = Inr () \<Longrightarrow> genesis_Build E g = Some (w, b) \<Longrightarrow>
    chain E g (blk_header b) w"
| chain_block: "chain E g h w \<Longrightarrow> ApplyBlock E (genesis_rewards g) w b (Some h) = Inr (w', rs) \<Longrightarrow>
    \<forall>tx \<in> set (blk_txs b). tx_SanityCheck E tx (g_ChainID g) = Inr () \<and> length (tx_data tx) < 2 ^ 63 \<Longrightarrow>
    hd_gaslimit (blk_header b) \<le> gas_cap \<Longrightarrow> hd_height h + 1 < 2 ^ 64 \<Longrightarrow>
    chain E g (blk_header b) w'"
| chain_reload: "chain E g h w \<Longrightarrow> w_accounts v = w_accounts w \<Longrightarrow> w_burned v = w_burned w \<Longrightarrow> chain E g h v"

inductive_cases chainE: "chain E g h w"

text \<open>\<^verbatim>\<open>CheckConservation\<close> (blockchain.go) at a head of the given height.\<close>

definition CheckConservation :: "int \<Rightarrow> nat \<Rightarrow> world \<Rightarrow> bool" where
  "CheckConservation genesisSupply height w \<longleftrightarrow>
     (case CumulativeIssued height of
        None \<Rightarrow> False
      | Some issued \<Rightarrow> SumBalances w + w_burned w = genesisSupply + issued)"

lemma check_parent_ok:
  assumes "check_parent E h (Some p) = None"
  shows "hd_parent h = header_Hash E p" "hd_height h = add64 (hd_height p) 1"
    "hd_timestamp p < hd_timestamp h" "MinBlockGasLimit \<le> hd_gaslimit h"
  using assms by (auto simp: check_parent_def Let_def split: if_splits)

lemma chain_invariant:
  "chain E g h w \<Longrightarrow> genesis_Validate g = Inr () \<and> world_ok w \<and> 0 \<le> w_burned w \<and>
    MinBlockGasLimit \<le> hd_gaslimit h \<and> world_Root E w = hd_stateroot h \<and>
    supply_of w = genesis_Supply g + (\<Sum>i = 1..hd_height h. BlockRewardAt i)"
proof (induction rule: chain.induct)
  case (chain_genesis w b)
  obtain w' b' where g: "genesis_Build E g = Some (w', b')" "world_ok w'" "w_burned w' = 0"
    "SumBalances w' = genesis_Supply g" "blk_header b' = genesis_header E g w'" "MinBlockGasLimit \<le> g_GasLimit g"
    using genesis_ok [OF chain_genesis(1), of E] by metis
  then show ?case using chain_genesis by (simp add: genesis_header_def supply_of_def)
next
  case (chain_block h w b w' rs)
  let ?h = "blk_header b"
  obtain v where a: "check_parent E ?h (Some h) = None" "world_Root E w' = hd_stateroot ?h"
    using ApplyBlockE [OF chain_block(2)] by metis
  note p = check_parent_ok [OF a(1)]
  have height: "hd_height ?h = hd_height h + 1" using p(2) add64_id [OF chain_block(5)] by simp
  have cfg: "reward_config_ok (genesis_rewards g)"
    using chain_block.IH by (auto simp: reward_config_ok_def genesis_rewards_def genesis_Validate_def split: if_splits)
  have sane: "\<forall>tx \<in> set (blk_txs b). tx_sane tx" using chain_block(3) SanityCheck_sane by blast
  have lim: "0 < hd_gaslimit ?h" using p(4) by (simp add: MinBlockGasLimit_def)
  have ok: "world_ok w" using chain_block.IH by simp
  note r = ApplyBlock_ok [OF chain_block(2) cfg ok sane lim chain_block(4)]
  show ?case using r(1,2,4) p(4) a(2) chain_block.IH height by simp
next
  case (chain_reload h w v)
  then have "root_leaf v = root_leaf w" by (simp add: root_leaf_def fun_eq_iff)
  then have "world_Root E v = world_Root E w" using chain_reload(2,3) by (simp add: world_Root_def root_leaves_def Let_def)
  moreover have "world_ok v = world_ok w" "supply_of v = supply_of w"
    using chain_reload(2,3) by (simp_all add: world_ok_def supply_of_def SumBalances_def)
  ultimately show ?case using chain_reload(3,4) by simp
qed

end
