(* ===== verification/Transition_Properties.thy ===== *)
theory Transition_Properties
  imports Genesis
begin

text \<open>
  What the state transition guarantees: conservation and atomicity of transactions, the exact
  effect of a transfer, what a failed transaction costs, block acceptance, the issuance schedule
  and gas estimation.
\<close>

section \<open>Samples\<close>

lemma be_nat_zeros: "be_nat (replicate n 0) = 0"
  by (induction n) (simp_all add: be_nat_Cons)

definition sample_call :: "address option \<Rightarrow> tx" where
  "sample_call t = sample_tx\<lparr>tx_to := t, tx_gaslimit := 60000\<rparr>"

definition sample_sender :: "address option \<Rightarrow> address" where
  "sample_sender t = projr (tx_Sender sample_crypto (sample_call t))"

definition sample_world :: "address option \<Rightarrow> world" where
  "sample_world t = RestoreAccount world_New (sample_sender t) 3 (Some 1000000) Map.empty []"

lemma sample_call_sender: "tx_Sender sample_crypto (sample_call t) = Inr (sample_sender t)"
  by (simp add: sample_sender_def tx_Sender_def sample_call_def sample_tx_def sample_sig_def SignatureLength_def
      RecoverAddress_def checkLowS_def sample_crypto_def be_nat_Cons be_nat_append be_nat_zeros)

lemma sample_call_fields:
  "tx_nonce (sample_call t) = 3" "tx_to (sample_call t) = t" "tx_gasprice (sample_call t) = Some 2"
  "tx_value (sample_call t) = Some 1000" "tx_data (sample_call t) = []" "tx_gaslimit (sample_call t) = 60000"
  by (simp_all add: sample_call_def sample_tx_def)

lemma IntrinsicGas_empty: "IntrinsicGasFor [] c = (if c then 53000 else 21000)"
  by (simp add: IntrinsicGasFor_def TxGasContractCreation_def IntrinsicGas_def)

lemma sample_sane:
  "tx_SanityCheck sample_crypto (sample_call t) 1 = Inr ()" "length (tx_data (sample_call t)) < 2 ^ 63"
proof -
  have "length (tx_sig (sample_call t)) = SignatureLength"
    by (simp add: sample_call_def sample_tx_def sample_sig_def SignatureLength_def)
  then show "tx_SanityCheck sample_crypto (sample_call t) 1 = Inr ()"
    by (simp add: tx_SanityCheck_def sample_call_sender)
      (simp add: sample_call_def sample_tx_def isKnownTxType_def IntrinsicGas_empty)
qed (simp add: sample_call_def sample_tx_def)

lemma sample_world_ok: "world_ok (sample_world t)"
  unfolding sample_world_def RestoreAccount_def
  by (rule world_ok_set [OF world_ok_New]) (simp add: account_ok_def)

lemma sample_world_facts:
  "GetBalance (sample_world t) (sample_sender t) = 1000000"
  "GetNonce (sample_world t) (sample_sender t) = 3" "GetCode (sample_world t) a = []"
  by (simp_all add: sample_world_def RestoreAccount_def world_simps GetCode_Get)
    (simp add: world_Get_def world_New_def empty_account_def)

section \<open>Transactions\<close>

text \<open>
  C2 One transaction, whatever code it runs: either it is refused and the state is untouched, or it
  is applied and balances plus burn total are unchanged, the world stays well-formed, the gas used
  lies between the intrinsic gas and the gas limit, and every changed account is in the touched
  set.  It never panics.
\<close>

theorem apply_tx_conserves:
  assumes "world_ok w" and "tx_SanityCheck E tx cid = Inr ()" and "length (tx_data tx) < 2 ^ 63"
    and "0 < lim" and "lim \<le> 2 ^ 40"
  shows "case ApplyTx E w tx coinbase lim of
      (Inl err, v) \<Rightarrow> v = w \<and> err \<noteq> ErrBlockPanic
    | (Inr (gasUsed, status, logs), v) \<Rightarrow>
        SumBalances v + w_burned v = SumBalances w + w_burned w \<and> world_ok v \<and>
        IntrinsicGasFor (tx_data tx) (tx_to tx = None) \<le> gasUsed \<and> gasUsed \<le> tx_gaslimit tx \<and>
        (\<forall>a. a \<notin> w_touched v \<longrightarrow> w_accounts v a = w_accounts w a)"
proof -
  have lim: "lim \<le> gas_cap" using assms(5) by (simp add: gas_cap_def)
  show ?thesis
    using assms(1) SanityCheck_sane [OF assms(2,3)] assms(4) lim
  proof (cases rule: ApplyTx_cases [where E = E and coinbase = coinbase])
    case (applied sender p u)
    with tx_commit_ok [OF applied(5), of E coinbase lim] show ?thesis
      by (auto simp: keeps_def covers_def supply_of_def)
  qed auto
qed

theorem apply_tx_conserves_witness:
  "case ApplyTx sample_crypto (sample_world (Some 7)) (sample_call (Some 7)) 5 1000000 of
      (Inl err, v) \<Rightarrow> v = sample_world (Some 7) \<and> err \<noteq> ErrBlockPanic
    | (Inr (gasUsed, status, logs), v) \<Rightarrow>
        SumBalances v + w_burned v = SumBalances (sample_world (Some 7)) + w_burned (sample_world (Some 7)) \<and>
        world_ok v \<and>
        IntrinsicGasFor (tx_data (sample_call (Some 7))) (tx_to (sample_call (Some 7)) = None) \<le> gasUsed \<and>
        gasUsed \<le> tx_gaslimit (sample_call (Some 7)) \<and>
        (\<forall>a. a \<notin> w_touched v \<longrightarrow> w_accounts v a = w_accounts (sample_world (Some 7)) a)"
  by (rule apply_tx_conserves [OF sample_world_ok sample_sane]) simp_all

text \<open>Balances and nonces through the settlement of a transfer.\<close>

lemma RevertDiscard_fields [world_simps]:
  "GetBalance (DiscardSnapshots w) a = GetBalance w a" "GetNonce (DiscardSnapshots w) a = GetNonce w a"
  "w_burned (DiscardSnapshots w) = w_burned w" "GetCode (DiscardSnapshots w) a = GetCode w a"
  by (simp_all add: DiscardSnapshots_def GetBalance_def GetNonce_def world_Get_def GetCode_def)

lemma charge_code: "GetCode (charge w s m) a = GetCode w a"
  by (simp add: charge_def Let_def GetCode_Get world_simps)

lemma SubBalance_code: "GetCode (SubBalance w s m) a = GetCode w a"
  by (simp add: SubBalance_def Let_def GetCode_Get world_simps)

lemma distributeFee_fields:
  assumes "0 \<le> fee"
  shows "GetBalance (distributeFee w c fee) a = GetBalance w a + (if a = c then fee - fee_burn fee else 0)"
    "GetNonce (distributeFee w c fee) a = GetNonce w a"
    "w_burned (distributeFee w c fee) = w_burned w + fee_burn fee"
  using fee_burn_bounds [OF assms]
  by (simp_all add: distributeFee_def Let_def world_simps w_burned_Burn)

lemma refund_fields:
  assumes "0 \<le> r"
  shows "GetBalance (if 0 < r then Credit w s r else w) a = GetBalance w a + (if a = s then r else 0)"
    "GetNonce (if 0 < r then Credit w s r else w) a = GetNonce w a"
    "w_burned (if 0 < r then Credit w s r else w) = w_burned w"
  using assms by (auto simp: world_simps)

lemma tx_commit_transfer:
  assumes f: "tx_funded w tx sender intrinsic p v" and to: "tx_to tx = Some t" "GetCode w t = []" "t \<noteq> BurnAddress"
  defines "spent \<equiv> int intrinsic * p"
  shows "\<exists>u. tx_commit E w tx sender coinbase lim intrinsic p v = (Inr (intrinsic, ReceiptSuccess, []), u) \<and>
    (\<forall>a. GetBalance u a = GetBalance w a - (if a = sender then spent + v else 0) +
      (if a = t then v else 0) + (if a = coinbase then spent - fee_burn spent else 0)) \<and>
    (\<forall>a. GetNonce u a = (if a = sender then add64 (GetNonce w a) 1 else GetNonce w a)) \<and>
    w_burned u = w_burned w + fee_burn spent"
proof -
  let ?max = "int (tx_gaslimit tx) * p"
  let ?w1 = "charge w sender ?max"
  let ?w3 = "SubBalance (snd (Snapshot ?w1)) sender v"
  let ?w4 = "DiscardSnapshots (Credit ?w3 t v)"
  let ?u = "distributeFee (if 0 < ?max - spent then Credit ?w4 sender (?max - spent) else ?w4) coinbase spent"
  have le: "intrinsic \<le> tx_gaslimit tx" "tx_gaslimit tx \<le> gas_cap" and p: "0 \<le> p" "0 \<le> v" and ok: "world_ok w"
    and m: "?max \<le> GetBalance w sender"
    using f by (auto simp: tx_funded_def)
  have sp: "0 \<le> spent" "0 \<le> ?max - spent"
    using p le mult_right_mono [of "int intrinsic" "int (tx_gaslimit tx)" p] by (simp_all add: spent_def)
  have code: "GetCode ?w3 t = []"
    using to(2) by (simp add: SubBalance_code charge_code) (simp add: GetCode_Get world_simps charge_code [unfolded GetCode_Get])
  have body: "tx_body E ?w3 tx sender coinbase lim v n = (None, 0, Credit ?w3 t v)" for n
    using to code by (simp add: tx_body_def)
  have i: "add64 intrinsic 0 = intrinsic" using le by (intro add64_id [THEN trans]) (simp_all add: gas_cap_def)
  have logs: "w_logs ?u = w_logs ?w1"
    by (simp add: w_logs_mutators DiscardSnapshots_def SubBalance_def Let_def world_simps Snapshot_def)
  have st: "settle (Credit ?w3 t v) None snap sender coinbase ?max p intrinsic = ?u" for snap
    unfolding settle_def spent_def Let_def by simp
  have ls: "LogsSince ?u (LogCount ?w1) = []" unfolding LogsSince_def LogCount_def logs by simp
  have eq: "tx_commit E w tx sender coinbase lim intrinsic p v = (Inr (intrinsic, ReceiptSuccess, []), ?u)"
    unfolding tx_commit_def Let_def case_prod_beta body
    by (simp only: fst_conv snd_conv settle_gas_def i st ls ReceiptStatus_def simp_thms option.distinct if_True if_False)
  note c = charge_ok [OF ok m]
  have bal: "GetBalance ?u a = GetBalance w a - (if a = sender then spent + v else 0) +
      (if a = t then v else 0) + (if a = coinbase then spent - fee_burn spent else 0)" for a
    using sp(2) by (simp add: distributeFee_fields [OF sp(1)] refund_fields [OF sp(2)] world_simps c(5))
  have non: "GetNonce ?u a = (if a = sender then add64 (GetNonce w a) 1 else GetNonce w a)" for a
    using sp(2) by (simp add: distributeFee_fields [OF sp(1)] refund_fields [OF sp(2)] world_simps c(6))
  have brn: "w_burned ?u = w_burned w + fee_burn spent"
    using sp(2) by (simp add: distributeFee_fields [OF sp(1)] refund_fields [OF sp(2)] world_simps c(4))
  show ?thesis using eq bal non brn by blast
qed


text \<open>
  C21 A plain transfer does exactly what it says: the sender pays the value and the intrinsic gas, the
  receiver gets the value, the proposer the fee less the burned fifth, and the burn total grows by
  that fifth; no other balance moves, only the sender's nonce advances, and by one.
\<close>

theorem transfer_exact:
  assumes "world_ok w" and "tx_Sender E tx = Inr sender" and "tx_nonce tx = GetNonce w sender"
    and "tx_to tx = Some t" and "GetCode w t = []" and "t \<noteq> BurnAddress"
    and "tx_gasprice tx = Some p" and "0 \<le> p" and "tx_value tx = Some v" and "0 \<le> v"
    and "IntrinsicGasFor (tx_data tx) False \<le> tx_gaslimit tx" and "tx_gaslimit tx \<le> lim" and "lim \<le> 2 ^ 40"
    and "length (tx_data tx) < 2 ^ 63" and "int (tx_gaslimit tx) * p + v \<le> GetBalance w sender"
  shows "\<exists>u. ApplyTx E w tx coinbase lim = (Inr (IntrinsicGasFor (tx_data tx) False, ReceiptSuccess, []), u) \<and>
    (let fee = int (IntrinsicGasFor (tx_data tx) False) * p; burnt = fee * 2000 div 10000 in
      (\<forall>a. GetBalance u a = GetBalance w a - (if a = sender then fee + v else 0) +
        (if a = t then v else 0) + (if a = coinbase then fee - burnt else 0)) \<and>
      (\<forall>a. GetNonce u a = (if a = sender then add64 (GetNonce w a) 1 else GetNonce w a)) \<and>
      w_burned u = w_burned w + burnt)"
proof -
  let ?i = "IntrinsicGasFor (tx_data tx) False"
  have f: "tx_funded w tx sender ?i p v" using assms by (auto simp: tx_funded_def gas_cap_def)
  have eq: "ApplyTx E w tx coinbase lim = tx_commit E w tx sender coinbase lim ?i p v"
    using assms by (auto simp: ApplyTx_def Let_def tx_Cost_def GetBalance_def GetNonce_def)
  have fb: "fee_burn x = x * 2000 div 10000" for x by (simp add: fee_burn_def FeeBurnBasisPoints_def)
  show ?thesis
    unfolding Let_def fb [symmetric] eq by (rule tx_commit_transfer [OF f assms(4-6)])
qed

theorem transfer_exact_witness:
  "\<exists>u. ApplyTx sample_crypto (sample_world (Some 7)) (sample_call (Some 7)) 5 1000000 =
      (Inr (21000, ReceiptSuccess, []), u) \<and>
    GetBalance u (sample_sender (Some 7)) = 1000000 - 43000 +
      (if sample_sender (Some 7) = 7 then 1000 else 0) + (if sample_sender (Some 7) = 5 then 33600 else 0) \<and>
    GetNonce u (sample_sender (Some 7)) = 4 \<and> w_burned u = w_burned (sample_world (Some 7)) + 8400"
proof -
  let ?w = "sample_world (Some 7)" and ?s = "sample_sender (Some 7)"
  obtain u where u: "ApplyTx sample_crypto ?w (sample_call (Some 7)) 5 1000000 = (Inr (21000, ReceiptSuccess, []), u)"
    "\<forall>a. GetBalance u a = GetBalance ?w a - (if a = ?s then 42000 + 1000 else 0) +
      (if a = 7 then 1000 else 0) + (if a = 5 then 42000 - 8400 else 0)"
    "\<forall>a. GetNonce u a = (if a = ?s then add64 (GetNonce ?w a) 1 else GetNonce ?w a)"
    "w_burned u = w_burned ?w + 8400"
    using transfer_exact [OF sample_world_ok sample_call_sender, of "Some 7" "Some 7" 7 2 1000 1000000 5]
    by (auto simp: sample_call_fields sample_world_facts IntrinsicGas_empty BurnAddress_def Let_def)
  then show ?thesis
    using u(2) [rule_format, of ?s] u(3) [rule_format, of ?s]
    by (auto simp: sample_world_facts add64_def)
qed

text \<open>
  C22 A transaction that fails in execution leaves no trace but its price.  It emits no event; with the fee, the
  gas used at the gas price, of which a fifth is burned, every account is what it was except that the sender
  has one nonce more and the fee less and the proposer has the rest of the fee; and the burn total grows by
  the burned fifth.  Code and storage of every account are untouched, and when the sender is the proposer
  both changes apply.
\<close>

theorem failed_tx_costs_only_gas:
  assumes "world_ok w" and "tx_SanityCheck E tx cid = Inr ()" and "length (tx_data tx) < 2 ^ 63"
    and "0 < lim" and "lim \<le> 2 ^ 40" and "tx_Sender E tx = Inr sender" and "tx_gasprice tx = Some p"
    and "ApplyTx E w tx coinbase lim = (Inr (gasUsed, ReceiptFailed, logs), v)"
  shows "logs = [] \<and> (let fee = int gasUsed * p; burnt = fee * 2000 div 10000 in
    (\<forall>a. world_Get v a = (world_Get w a)\<lparr>
        acc_nonce := (if a = sender then add64 (GetNonce w a) 1 else GetNonce w a),
        acc_balance := GetBalance w a - (if a = sender then fee else 0) + (if a = coinbase then fee - burnt else 0)\<rparr>) \<and>
    (\<forall>a. a \<noteq> sender \<and> a \<noteq> coinbase \<longrightarrow> w_accounts v a = w_accounts w a) \<and>
    w_burned v = w_burned w + burnt)"
proof -
  have lim: "lim \<le> gas_cap" using assms(5) by (simp add: gas_cap_def)
  show ?thesis
    using assms(1) SanityCheck_sane [OF assms(2,3)] assms(4) lim
  proof (cases rule: ApplyTx_cases [where E = E and coinbase = coinbase])
    case (refused err)
    then show ?thesis using assms(8) by simp
  next
    case (applied s q u)
    let ?max = "int (tx_gaslimit tx) * p" and ?sp = "int gasUsed * p"
    have s: "s = sender" "q = p" using applied assms(6,7) by simp_all
    have r: "logs = []" "v = fee_only w sender coinbase ?max ?sp" "gasUsed \<le> tx_gaslimit tx"
      using tx_commit_ok [OF applied(5), of E coinbase lim] applied(6) assms(8) s by auto
    have p: "0 \<le> p" using applied(5) s by (auto simp: tx_funded_def)
    then have sp: "0 \<le> ?sp" "0 \<le> ?max - ?sp"
      using r(3) mult_right_mono [of "int gasUsed" "int (tx_gaslimit tx)" p] by simp_all
    show ?thesis
      unfolding Let_def r(2) using r(1) fee_only_exact [OF sp] by (simp add: fee_burn_def FeeBurnBasisPoints_def)
  qed
qed

text \<open>A deployment that collides with existing code fails and burns its gas.\<close>

definition sample_collision :: world where
  "sample_collision = SetCode (sample_world None) (CreateAddress sample_crypto (sample_sender None) 3) [1]"

lemma sample_collision_facts:
  "world_ok sample_collision" "GetBalance sample_collision (sample_sender None) = 1000000"
  "GetNonce sample_collision (sample_sender None) = 3"
  "GetCode sample_collision (CreateAddress sample_crypto (sample_sender None) 3) = [1]"
  using sample_world_ok [of None] sample_world_facts [of None]
  by (simp_all add: sample_collision_def world_ok_SetCode world_simps)
    (simp add: SetCode_def GetCode_Get world_simps)

lemma sample_collision_fails:
  "\<exists>v. ApplyTx sample_crypto sample_collision (sample_call None) 5 1000000 = (Inr (60000, ReceiptFailed, []), v)"
proof -
  let ?w = sample_collision and ?s = "sample_sender None" and ?tx = "sample_call None"
  have f: "tx_funded ?w ?tx ?s 53000 2 1000"
    using sample_collision_facts by (simp add: tx_funded_def sample_call_fields gas_cap_def)
  have eq: "ApplyTx sample_crypto ?w ?tx 5 1000000 = tx_commit sample_crypto ?w ?tx ?s 5 1000000 53000 2 1000"
    using sample_collision_facts(2,3)
    by (simp add: ApplyTx_def sample_call_sender Let_def sample_call_fields IntrinsicGas_empty tx_Cost_def
        GetBalance_def GetNonce_def)
  let ?w3 = "SubBalance (snd (Snapshot (charge ?w ?s 120000))) ?s 1000"
  have "GetCode ?w3 (CreateAddress sample_crypto ?s 3) = [1]"
    using sample_collision_facts(4)
    by (simp add: SubBalance_code) (simp add: GetCode_Get world_simps charge_code [unfolded GetCode_Get])
  then have body: "tx_body sample_crypto ?w3 ?tx ?s 5 1000000 1000 n = (Some ErrContractCollision, n, ?w3)" for n
    by (simp add: tx_body_def sample_call_fields Let_def)
  have "\<exists>logs v. tx_commit sample_crypto ?w ?tx ?s 5 1000000 53000 2 1000 = (Inr (60000, ReceiptFailed, logs), v)"
    unfolding tx_commit_def Let_def case_prod_beta
    by (simp add: body sample_call_fields settle_gas_def is_reverted_def ReceiptStatus_def sub64_def add64_def)
  then show ?thesis
    using tx_commit_ok [OF f, of sample_crypto 5 1000000] eq by auto
qed

theorem failed_tx_costs_only_gas_witness:
  "\<exists>v logs. ApplyTx sample_crypto sample_collision (sample_call None) 5 1000000 = (Inr (60000, ReceiptFailed, logs), v) \<and>
    logs = [] \<and> GetNonce v (sample_sender None) = 4 \<and>
    GetBalance v (sample_sender None) = 1000000 - 120000 + (if sample_sender None = 5 then 96000 else 0) \<and> w_burned v = w_burned sample_collision + 24000"
proof -
  obtain v where v: "ApplyTx sample_crypto sample_collision (sample_call None) 5 1000000 =
      (Inr (60000, ReceiptFailed, []), v)" using sample_collision_fails by blast
  show ?thesis
    using v failed_tx_costs_only_gas [OF sample_collision_facts(1) sample_sane _ _ sample_call_sender _ v]
      sample_collision_facts(2,3)
    by (auto simp: sample_call_fields Let_def GetNonce_def GetBalance_def add64_def)
qed

section \<open>Issuance\<close>

text \<open>
  C23 The closed-form issuance of \<^verbatim>\<open>CumulativeIssued\<close> ends and equals the sum of the rewards of the
  heights 1 to \<open>h\<close>, across every halving and after the last.
\<close>

theorem cumulative_issued_exact: "CumulativeIssued h = Some (\<Sum>i = 1..h. BlockRewardAt i)"
  using issued_loop_sum [of 0 100 h 0] by (simp add: CumulativeIssued_def)

text \<open>
  C24 Issuance is bounded for ever, as the comment on \<^verbatim>\<open>BaseBlockReward\<close> says: at any height less than fifty
  million coins have been issued, from era 65 on the reward is zero, and the total issued then is exactly
  49,999,974.999999999974 coins.  The README table and the comment on \<^verbatim>\<open>TargetBlockTime\<close>, which speak of a first reward
  of 50 and of 100 million mined coins, are out of date by a factor of two.
\<close>

theorem issuance_bounded:
  "(\<exists>x. CumulativeIssued h = Some x \<and> 0 \<le> x \<and> x < 50000000 * OneLXS) \<and>
    (h \<ge> 65 * HalvingInterval \<longrightarrow> BlockRewardAt h = 0 \<and> CumulativeIssued h = Some 49999974999999999974000000)"
proof -
  have "(\<Sum>i = 1..h. BlockRewardAt i) < 50000000 * OneLXS"
    using issuance_less [of h] by (simp add: HalvingInterval_def BaseBlockReward_def OneLXS_def Decimals_def)
  moreover have "0 \<le> (\<Sum>i = 1..h. BlockRewardAt i)" by (rule sum_nonneg) simp
  ultimately show ?thesis using rewards_over [of h] issued_in_all [of h] by (simp add: CumulativeIssued_sum)
qed

theorem issuance_bounded_witness: "BlockRewardAt 65000000 = 0 \<and> CumulativeIssued 70000000 = Some 49999974999999999974000000"
  using issuance_bounded [of 65000000] issuance_bounded [of 70000000] by (simp add: HalvingInterval_def)

section \<open>Blocks\<close>

text \<open>
  C19 An accepted block links to its parent, increases height by one and the timestamp strictly, stays
  within its gas limit, has one receipt for each transaction, commits to the state it leads to, and
  mints exactly the reward of its height: nothing else creates or destroys value.
\<close>

theorem accepted_block:
  assumes "ApplyBlock E cfg parent b (Some ph) = Inr (next, rs)" and "reward_config_ok cfg" and "world_ok parent"
    and "\<forall>tx \<in> set (blk_txs b). tx_SanityCheck E tx cid = Inr () \<and> length (tx_data tx) < 2 ^ 63"
    and "hd_gaslimit (blk_header b) \<le> 2 ^ 40"
  shows "hd_parent (blk_header b) = header_Hash E ph \<and> hd_height (blk_header b) = add64 (hd_height ph) 1 \<and>
    hd_timestamp ph < hd_timestamp (blk_header b) \<and> hd_gasused (blk_header b) \<le> hd_gaslimit (blk_header b) \<and>
    length rs = length (blk_txs b) \<and> world_Root E next = hd_stateroot (blk_header b) \<and> world_ok next \<and>
    SumBalances next + w_burned next = SumBalances parent + w_burned parent + BlockRewardAt (hd_height (blk_header b)) \<and>
    (\<forall>a. a \<notin> w_touched next \<longrightarrow> w_accounts next a = w_accounts parent a)"
proof -
  have c: "check_parent E (blk_header b) (Some ph) = None" "world_Root E next = hd_stateroot (blk_header b)"
    using ApplyBlockE [OF assms(1)] by metis+
  note p = check_parent_ok [OF c(1)]
  have sane: "\<forall>tx \<in> set (blk_txs b). tx_sane tx" using assms(4) SanityCheck_sane by blast
  have lim: "0 < hd_gaslimit (blk_header b)" "hd_gaslimit (blk_header b) \<le> gas_cap"
    using p(4) assms(5) by (simp_all add: MinBlockGasLimit_def gas_cap_def)
  show ?thesis
    using ApplyBlock_ok [OF assms(1-3) sane lim] p c(2) by (simp add: supply_of_def)
qed

text \<open>An empty block on a parent: its header filled in as the transition computes it.\<close>

definition empty_header :: "crypto \<Rightarrow> reward_config \<Rightarrow> world \<Rightarrow> header \<Rightarrow> header" where
  "empty_header E cfg w p =
     \<lparr>hd_parent = header_Hash E p, hd_height = hd_height p + 1, hd_timestamp = hd_timestamp p + 1,
      hd_txroot = TxRoot E [], hd_receiptroot = ReceiptRoot E [],
      hd_stateroot = world_Root E (CreditBlockReward cfg
        (open_block w \<lparr>hd_parent = 0, hd_height = hd_height p + 1, hd_timestamp = hd_timestamp p + 1, hd_txroot = 0,
          hd_receiptroot = 0, hd_stateroot = 0, hd_gasused = 0, hd_gaslimit = 0, hd_proposer = 9,
          hd_difficulty = hd_difficulty p, hd_nonce = 0\<rparr>) 9 (hd_height p + 1)),
      hd_gasused = 0, hd_gaslimit = hd_gaslimit p, hd_proposer = 9, hd_difficulty = hd_difficulty p, hd_nonce = 0\<rparr>"

lemma empty_block_accepted:
  assumes "hd_height p + 1 < 2 ^ 64" and "MinBlockGasLimit \<le> hd_gaslimit p"
  shows "\<exists>v. ApplyBlock E cfg w \<lparr>blk_header = empty_header E cfg w p, blk_txs = []\<rparr> (Some p) = Inr (v, [])"
proof -
  have "hd_gaslimit p div GasLimitBoundDivisor > 0"
    using assms(2) by (simp add: GasLimitBoundDivisor_def MinBlockGasLimit_def div_greater_zero_iff)
  then show ?thesis
    using assms add64_id [of "hd_height p" 1]
    by (simp add: ApplyBlock_def VerifyTxRoot_def check_parent_def empty_header_def open_block_def Let_def)
qed

definition sample_parent :: header where
  "sample_parent = sample_header\<lparr>hd_gaslimit := 30000000\<rparr>"

definition sample_rewards :: reward_config where
  "sample_rewards = \<lparr>TreasuryRewardBasisPoints = 1000, TreasuryRewardAddress = 77\<rparr>"

definition sample_block :: block where
  "sample_block =
     \<lparr>blk_header = empty_header sample_crypto sample_rewards (sample_world None) sample_parent, blk_txs = []\<rparr>"

theorem accepted_block_witness:
  "\<exists>next. ApplyBlock sample_crypto sample_rewards (sample_world None) sample_block (Some sample_parent) = Inr (next, []) \<and>
    SumBalances next + w_burned next =
      SumBalances (sample_world None) + w_burned (sample_world None) + BlockRewardAt 3"
proof -
  obtain v where v: "ApplyBlock sample_crypto sample_rewards (sample_world None) sample_block (Some sample_parent) = Inr (v, [])"
    using empty_block_accepted [of sample_parent sample_crypto sample_rewards "sample_world None"]
    by (auto simp: sample_block_def sample_parent_def sample_header_def MinBlockGasLimit_def)
  show ?thesis
    using v accepted_block [OF v _ sample_world_ok, of 1]
    by (auto simp: reward_config_ok_def sample_rewards_def sample_block_def empty_header_def sample_parent_def
        sample_header_def)
qed

text \<open>
  C20 Executing a block never panics, whatever code its transactions carry: the outcome is acceptance
  or one of the named refusals.
\<close>

theorem apply_block_no_panic:
  assumes "world_ok parent"
    and "\<forall>tx \<in> set (blk_txs b). tx_SanityCheck E tx cid = Inr () \<and> length (tx_data tx) < 2 ^ 63"
    and "hd_gaslimit (blk_header b) \<le> 2 ^ 40"
  shows "ApplyBlock E cfg parent b (Some ph) \<noteq> Inl ErrBlockPanic"
proof (cases "check_parent E (blk_header b) (Some ph)")
  case None
  note p = check_parent_ok [OF None]
  have sane: "\<forall>tx \<in> set (blk_txs b). tx_sane tx" using assms(2) SanityCheck_sane by blast
  have lim: "0 < hd_gaslimit (blk_header b)" "hd_gaslimit (blk_header b) \<le> gas_cap"
    using p(4) assms(3) by (simp_all add: MinBlockGasLimit_def gas_cap_def)
  have "world_ok (open_block parent (blk_header b))" using assms(1) by (simp add: open_block_ok)
  from apply_txs_no_panic [OF this sane lim] None show ?thesis
    by (auto simp: ApplyBlock_def Let_def split: sum.splits)
next
  case (Some e)
  then have "e \<noteq> ErrBlockPanic" by (auto simp: check_parent_def Let_def split: if_splits)
  then show ?thesis using Some by (simp add: ApplyBlock_def Let_def)
qed

theorem apply_block_no_panic_witness:
  "ApplyBlock sample_crypto sample_rewards (sample_world None)
     (sample_block\<lparr>blk_txs := [sample_call None]\<rparr>) (Some sample_parent) \<noteq> Inl ErrBlockPanic"
  by (rule apply_block_no_panic [OF sample_world_ok, where cid = 1])
    (simp_all add: sample_sane [unfolded One_nat_def] sample_call_fields sample_block_def empty_header_def sample_parent_def)

text \<open>
  C1 Value is conserved along every chain: after any number of accepted blocks, balances plus burn
  total equal the genesis supply plus everything issued up to that height, so the periodic check of
  the node can never fire, and the head state is well-formed and has the root its header states.
\<close>

theorem chain_conserves_value:
  assumes "chain E g h w"
  shows "CheckConservation (genesis_Supply g) (hd_height h) w \<and> world_ok w \<and> world_Root E w = hd_stateroot h"
  using chain_invariant [OF assms]
  by (simp add: CheckConservation_def CumulativeIssued_sum supply_of_def)

definition sample_genesis :: genesis where
  "sample_genesis = \<lparr>g_TotalSupply = Some 1500, g_ChainID = 1, g_Timestamp = 1700000000000, g_GasLimit = 30000000,
     g_Alloc = [(11, Some 1000), (12, Some 500)], g_Difficulty = 0, g_TreasuryReward = 0, g_TreasuryRewardBps = 0\<rparr>"

lemma sample_genesis_valid: "genesis_Validate sample_genesis = Inr ()"
  by (simp add: sample_genesis_def genesis_Validate_def MinBlockGasLimit_def)

lemma sample_chain:
  obtains h w where "chain sample_crypto sample_genesis h w" "hd_height h = 1"
proof -
  let ?cfg = "genesis_rewards sample_genesis"
  obtain w b where b: "genesis_Build sample_crypto sample_genesis = Some (w, b)"
    "blk_header b = genesis_header sample_crypto sample_genesis w"
    using genesis_ok [OF sample_genesis_valid, of sample_crypto] by metis
  let ?p = "blk_header b"
  have f: "hd_height ?p = 0" "hd_gaslimit ?p = 30000000" by (simp_all add: b(2) genesis_header_def sample_genesis_def)
  have c: "chain sample_crypto sample_genesis ?p w" by (rule chain_genesis [OF sample_genesis_valid b(1)])
  let ?e = "\<lparr>blk_header = empty_header sample_crypto ?cfg w ?p, blk_txs = []\<rparr>"
  obtain v where v: "ApplyBlock sample_crypto ?cfg w ?e (Some ?p) = Inr (v, [])"
    using empty_block_accepted [of ?p sample_crypto ?cfg w] f by (auto simp: MinBlockGasLimit_def)
  have "chain sample_crypto sample_genesis (blk_header ?e) v"
    by (rule chain_block [OF c v]) (simp_all add: empty_header_def f gas_cap_def)
  then show ?thesis using that f by (simp add: empty_header_def)
qed

theorem chain_conserves_value_witness:
  "\<exists>(h :: header) w. hd_height h = 1 \<and> CheckConservation (genesis_Supply sample_genesis) (hd_height h) w"
proof -
  obtain h w where "chain sample_crypto sample_genesis h w" "hd_height h = 1" by (rule sample_chain)
  then show ?thesis using chain_conserves_value [of sample_crypto sample_genesis h w] by blast
qed

section \<open>Gas estimation\<close>

lemma probe_keeps_world:
  assumes "world_ok w" and "0 \<le> v" and "gasLimit \<le> gas_cap" and "length data < 2 ^ 63"
  shows "snd (probe E from to data v w gasLimit) = w"
proof -
  let ?i = "IntrinsicGasFor data (to = None)"
  let ?w = "snd (Snapshot w)"
  have ok: "world_ok ?w" using assms(1) by (simp add: world_ok_fields)
  have b: "gasLimit - ?i \<le> gas_cap" using assms(3) by simp
  have ext: "world_ext ?w (snd (probe_run E ?w from to data v (gasLimit - ?i)))"
  proof (cases to)
    case None
    let ?a = "CreateAddress E from (GetNonce ?w from)"
    obtain res u where r: "run_on E data [] (gasLimit - ?i) (probe_context ?a from v) (Credit ?w ?a v) = (res, u)"
      by fastforce
    show ?thesis using credit_run(2) [OF ok assms(2) b assms(4) _ r] None r by (simp add: probe_run_def Let_def)
  next
    case (Some t)
    show ?thesis
    proof (cases "length (GetCode ?w t) = 0")
      case False
      let ?u = "Credit ?w t v"
      obtain res u where r: "run_on E (GetCode ?u t) data (gasLimit - ?i) (probe_context t from v) ?u = (res, u)"
        by fastforce
      have c: "length (GetCode ?u t) < 2 ^ 63"
        by (rule GetCode_short [OF keeps_ok [OF keeps_Credit [OF ok assms(2)]]])
      show ?thesis using credit_run(2) [OF ok assms(2) b c assms(4) r] Some False r by (simp add: probe_run_def Let_def)
    qed (simp add: probe_run_def Some)
  qed
  then show ?thesis
    using revert_exact [OF ext] by (simp add: probe_def Let_def case_prod_beta)
qed

lemma IntrinsicGasFor_pos:
  assumes "length data < 2 ^ 40"
  shows "0 < IntrinsicGasFor data c"
proof -
  let ?f = "\<lambda>gas b. add64 gas (if b = 0 then TxDataZeroGas else TxDataNonZeroGas)"
  have "n \<le> foldl ?f n xs" if "n + 16 * length xs < 2 ^ 64" for n and xs :: bytes
    using that
  proof (induction xs arbitrary: n)
    case (Cons b xs)
    have "n \<le> ?f n b" "?f n b + 16 * length xs < 2 ^ 64"
      using Cons.prems by (simp_all add: add64_id TxDataZeroGas_def TxDataNonZeroGas_def)
    then show ?case using Cons.IH [of "?f n b"] by simp
  qed simp
  from this [of "if c then TxGasContractCreation else IntrinsicGas" data] assms
  show ?thesis
    by (cases c) (simp_all add: IntrinsicGasFor_def TxGasContractCreation_def IntrinsicGas_def)
qed

lemma estimate_loop_correct:
  assumes "\<And>g. g \<le> hi0 \<Longrightarrow> snd (pr w g) = w" and "lo < hi" and "hi \<le> hi0"
    and "fst (pr w lo) \<noteq> ProbeOk" and "fst (pr w hi) = ProbeOk"
  shows "\<exists>g. estimate_loop pr w lo hi = (g, w) \<and> lo < g \<and> g \<le> hi \<and>
    fst (pr w g) = ProbeOk \<and> fst (pr w (g - 1)) \<noteq> ProbeOk"
  using assms(2-5)
proof (induction "hi - lo" arbitrary: lo hi rule: less_induct)
  case less
  show ?case
  proof (cases "lo + 1 < hi")
    case True
    let ?m = "lo + (hi - lo) div 2"
    have m: "lo < ?m" "?m < hi" using True by auto
    obtain r where r: "pr w ?m = (r, w)" using assms(1) [of ?m] m less.prems(2) by (cases "pr w ?m") auto
    show ?thesis
    proof (cases "r = ProbeOk")
      case True
      then have "estimate_loop pr w lo hi = estimate_loop pr w lo ?m"
        using \<open>lo + 1 < hi\<close> r by (subst estimate_loop.simps) simp
      moreover have "\<exists>g. estimate_loop pr w lo ?m = (g, w) \<and> lo < g \<and> g \<le> ?m \<and>
          fst (pr w g) = ProbeOk \<and> fst (pr w (g - 1)) \<noteq> ProbeOk"
        by (rule less.hyps) (use m less.prems r True in auto)
      ultimately show ?thesis using m(2) by (metis less_imp_le order.trans)
    next
      case False
      then have "estimate_loop pr w lo hi = estimate_loop pr w ?m hi"
        using \<open>lo + 1 < hi\<close> r by (subst estimate_loop.simps) simp
      moreover have "\<exists>g. estimate_loop pr w ?m hi = (g, w) \<and> ?m < g \<and> g \<le> hi \<and>
          fst (pr w g) = ProbeOk \<and> fst (pr w (g - 1)) \<noteq> ProbeOk"
        by (rule less.hyps) (use m less.prems r False in auto)
      ultimately show ?thesis using m(1) by (metis less_trans)
    qed
  next
    case False
    then have "hi = lo + 1" using less.prems(1) by simp
    then show ?thesis using less.prems by (subst estimate_loop.simps) simp
  qed
qed

text \<open>
  C27 Gas estimation returns a limit at which the message really executes and one below which it does
  not: with an estimate \<open>g\<close>, the probe at \<open>g\<close> succeeds and the probe at \<open>g - 1\<close> fails.  The search
  ends, and the state it was given is exactly as before, whatever the estimate.
\<close>

theorem estimate_gas_tight:
  assumes "world_ok w" and "0 \<le> bigOrZero v" and "gasCap \<le> 2 ^ 40" and "length data < 2 ^ 40"
  shows "snd (EstimateGas E w from to data v gasCap) = w \<and>
    (\<forall>g. fst (EstimateGas E w from to data v gasCap) = Inr g \<longrightarrow>
      IntrinsicGasFor data (to = None) \<le> g \<and> g \<le> gasCap \<and>
      fst (probe E from to data (bigOrZero v) w g) = ProbeOk \<and>
      fst (probe E from to data (bigOrZero v) w (g - 1)) \<noteq> ProbeOk)"
proof -
  let ?pr = "probe E from to data (bigOrZero v)" and ?i = "IntrinsicGasFor data (to = None)"
  have keep: "snd (?pr w g) = w" if "g \<le> gasCap" for g
    by (rule probe_keeps_world) (use assms that in \<open>auto simp: gas_cap_def\<close>)
  obtain r where r: "?pr w gasCap = (r, w)" using keep [of gasCap] by (cases "?pr w gasCap") auto
  show ?thesis
  proof (cases "r = ProbeOk")
    case True
    have i: "?i \<le> gasCap" using r True by (auto simp: probe_def Let_def split: if_splits)
    have pos: "0 < ?i" by (rule IntrinsicGasFor_pos [OF assms(4)])
    have "fst (?pr w (?i - 1)) \<noteq> ProbeOk" using pos by (simp add: probe_def)
    moreover have "?i - 1 < gasCap" using i pos by linarith
    ultimately obtain g where "estimate_loop ?pr w (?i - 1) gasCap = (g, w)" "?i - 1 < g" "g \<le> gasCap"
      "fst (?pr w g) = ProbeOk" "fst (?pr w (g - 1)) \<noteq> ProbeOk"
      using estimate_loop_correct [of gasCap ?pr w "?i - 1" gasCap, OF keep] r True by auto
    then show ?thesis using r True pos by (simp add: EstimateGas_def Let_def)
  next
    case False
    then show ?thesis using r by (cases r) (simp_all add: EstimateGas_def Let_def)
  qed
qed

lemma probe_codeless:
  "fst (probe sample_crypto 1 (Some 7) [] 0 world_New n) = (if n < 21000 then ProbeRetry else ProbeOk)"
  by (simp add: probe_def probe_run_def Snapshot_def GetCode_def world_New_def IntrinsicGas_empty case_prod_beta Let_def)

theorem estimate_gas_tight_witness:
  "fst (EstimateGas sample_crypto world_New 1 (Some 7) [] None 1000000) = Inr 21000 \<and>
   snd (EstimateGas sample_crypto world_New 1 (Some 7) [] None 1000000) = world_New"
proof -
  let ?e = "EstimateGas sample_crypto world_New 1 (Some 7) [] None 1000000"
  have "\<exists>g. fst ?e = Inr g"
    using probe_codeless [of 1000000]
    by (auto simp: EstimateGas_def bigOrZero_def Let_def case_prod_beta)
  then obtain g where g: "fst ?e = Inr g" by blast
  have t: "snd ?e = world_New" "fst (probe sample_crypto 1 (Some 7) [] 0 world_New g) = ProbeOk"
    "fst (probe sample_crypto 1 (Some 7) [] 0 world_New (g - 1)) \<noteq> ProbeOk"
    using estimate_gas_tight [OF world_ok_New, of None 1000000 "[]" sample_crypto 1 "Some 7"] g
    by (simp_all add: bigOrZero_def)
  have "g = 21000" using t(2,3) unfolding probe_codeless by (simp split: if_splits)
  then show ?thesis using g t(1) by simp
qed

end
