(* ===== verification/Pow_Properties.thy ===== *)
theory Pow_Properties
  imports Genesis
begin

text \<open>What proof of work and fork choice guarantee.\<close>

text \<open>
  Nodes that know the same chain tips choose the same head: whatever order the tips arrived in and
  whichever each node started from, the hash of the head they end with is the same.
\<close>

theorem fork_choice_converges:
  assumes "insert start1 (set tips1) = insert start2 (set tips2)"
  shows "header_Hash E (tip_header (foldl (\<lambda>cur c. if Better E c cur then c else cur) start1 tips1)) =
    header_Hash E (tip_header (foldl (\<lambda>cur c. if Better E c cur then c else cur) start2 tips2))"
  using heaviest.head_after_agree [OF assms, of E]
  unfolding heaviest.head_after_def heaviest.pick_def .

definition sample_tip :: "nat \<Rightarrow> int \<Rightarrow> tip" where
  "sample_tip n td = \<lparr>tip_header = sample_header\<lparr>hd_nonce := n\<rparr>, tip_td = td\<rparr>"

theorem fork_choice_converges_witness:
  "header_Hash sample_crypto (tip_header (foldl (\<lambda>cur c. if Better sample_crypto c cur then c else cur)
      (sample_tip 1 5) [sample_tip 2 5, sample_tip 3 4])) =
   header_Hash sample_crypto (tip_header (foldl (\<lambda>cur c. if Better sample_crypto c cur then c else cur)
      (sample_tip 3 4) [sample_tip 2 5, sample_tip 1 5]))"
  by (rule fork_choice_converges) auto

text \<open>
  C25 The difficulty retarget always yields a valid difficulty, at least one and within 64 bits, and
  one block cannot move it far from the average of its window: not below 99/600 of it and, with \<open>N\<close>
  solvetimes, not above \<open>9.9 (N + 1) / N\<close> times it.  No intermediate value overflows.
\<close>

theorem lwma_retarget_bounded:
  assumes "lwma_window_ok ws" and "N = int (length ws - 1)" and "A = average_difficulty ws"
  shows "\<exists>d. lwmaDifficulty ws = Some d \<and> 1 \<le> d \<and> d < 2 ^ 64 \<and>
    A * 99 div 600 \<le> int d \<and> 10 * N * int d \<le> max (10 * N) (99 * (N + 1) * A)"
  unfolding assms(2,3) by (rule lwma_bounds [OF assms(1)])

definition sample_window :: "header list" where
  "sample_window = map (\<lambda>i. sample_header\<lparr>hd_timestamp := 240000 * i, hd_difficulty := 600\<rparr>) [0, 1, 2, 3]"

theorem lwma_retarget_bounded_witness:
  "\<exists>d. lwmaDifficulty sample_window = Some d \<and> 1 \<le> d \<and> d < 2 ^ 64 \<and>
    99 \<le> int d \<and> 30 * int d \<le> 237600"
proof -
  have ok: "lwma_window_ok sample_window"
    by (simp add: sample_window_def lwma_window_ok_def LwmaWindow_def)
  have N: "3 = int (length sample_window - 1)" by (simp add: sample_window_def)
  have A: "600 = average_difficulty sample_window" by (simp add: sample_window_def average_difficulty_def)
  from lwma_retarget_bounded [OF ok N A] show ?thesis by simp
qed

text \<open>
  C26 Grinding is sound and complete: a nonce it returns as a win makes the header satisfy its target,
  and if the \<open>m\<close>-th try is the first to win and nothing stops the search before it, the search
  returns exactly that nonce after \<open>m + 1\<close> tries.
\<close>

theorem grind_finds_first:
  assumes "start < 2 ^ 64"
    and "\<forall>j < m. \<not> uint (header_Hash E (h\<lparr>hd_nonce := (start + j) mod 2 ^ 64\<rparr>)) \<le> target"
    and "uint (header_Hash E (h\<lparr>hd_nonce := (start + m) mod 2 ^ 64\<rparr>)) \<le> target"
    and "\<forall>j \<le> m. \<not> stop j" and "m < tries"
  shows "Grind tries E h target start stop =
      Some (((start + m) mod 2 ^ 64, True), h\<lparr>hd_nonce := (start + m) mod 2 ^ 64\<rparr>) \<and>
    (\<forall>n h' stop'. mine n E h stop' = Some (True, h') \<longrightarrow> satisfiesPoW E h')"
proof -
  have "Grind tries E h target start stop =
      Some (((start + m) mod 2 ^ 64, True), h\<lparr>hd_nonce := (start + m) mod 2 ^ 64\<rparr>)"
    unfolding Grind_def by (rule grind_loop_live) (use assms in simp_all)
  moreover have "satisfiesPoW E h'" if mined: "mine n E h stop' = Some (True, h')" for n h' stop'
  proof -
    obtain r where "grind_loop n E h (powTarget (hd_difficulty h)) stop' 0 0 = Some ((r, True), h')"
      using mined by (auto simp: mine_def Grind_def)
    from grind_loop_sound [OF this] show ?thesis by (auto simp: satisfiesPoW_def)
  qed
  ultimately show ?thesis by blast
qed

lemma sample_hash_nonce: "header_Hash sample_crypto (sample_header\<lparr>hd_nonce := n\<rparr>) =
    word_of_nat (1 + 256 * 196 + n mod 256)"
proof -
  have l: "last (enc_Uint64 n) = word_of_nat (n mod 256)" "enc_Uint64 n \<noteq> []"
    by (simp_all add: enc_Uint64_def last_be_fixed length_greater_0_conv [symmetric] del: length_greater_0_conv)
  show ?thesis
    by (simp add: header_Hash_def header_preimage_def sample_crypto_def sample_keccak_def l)
      (simp add: enc_Uint64_def enc_Int64_def)
qed

theorem grind_finds_first_witness:
  "Grind 5 sample_crypto sample_header 50200 255 (\<lambda>k. False) =
    Some ((256, True), sample_header\<lparr>hd_nonce := 256\<rparr>)"
  using grind_finds_first [of 255 1 sample_crypto sample_header 50200 "\<lambda>k. False" 5]
  by (simp add: sample_hash_nonce)

end
