(* ===== verification/Evm_Same.thy ===== *)
theory Evm_Same
  imports Transition_Laws
begin

text \<open>
  The touched set is bookkeeping for persistence: nothing the machine or the transition computes
  depends on it.  Two worlds are the \<open>same\<close> when they agree on everything else (in the journal, on
  address and previous account); every instruction, a whole run and a whole transaction take same
  worlds to same worlds with equal results.
\<close>

section \<open>Same worlds\<close>

definition jkey :: "journal_entry \<Rightarrow> address \<times> account option" where
  "jkey e = (je_addr e, je_prev e)"

definition same :: "world \<Rightarrow> world \<Rightarrow> bool" where
  "same w v \<longleftrightarrow> w_accounts w = w_accounts v \<and> w_snapshots w = w_snapshots v \<and>
     map jkey (w_journal w) = map jkey (w_journal v) \<and> w_logs w = w_logs v \<and>
     w_bctx w = w_bctx v \<and> w_burned w = w_burned v"

lemma same_refl [simp, intro]: "same w w"
  by (simp add: same_def)

lemma same_trans: "same u v \<Longrightarrow> same v w \<Longrightarrow> same u w"
  by (simp add: same_def)

lemma same_reads:
  assumes "same w v"
  shows "world_Get w a = world_Get v a" "GetBalance w a = GetBalance v a" "GetNonce w a = GetNonce v a"
    "GetCode w a = GetCode v a" "GetStorage w a k = GetStorage v a k" "LogCount w = LogCount v"
    "LogsSince w n = LogsSince v n" "w_bctx w = w_bctx v" "fst (Snapshot w) = fst (Snapshot v)"
  using assms
  by (simp_all add: same_def world_Get_def GetBalance_def GetNonce_def GetCode_def GetStorage_def LogCount_def
      LogsSince_def Snapshot_def)

lemma same_Root: "same w v \<Longrightarrow> world_Root E w = world_Root E v"
proof -
  assume "same w v"
  then have "root_leaf w = root_leaf v" "w_burned w = w_burned v" "w_accounts w = w_accounts v"
    by (auto simp: root_leaf_def fun_eq_iff same_def)
  then show ?thesis by (simp add: world_Root_def root_leaves_def Let_def)
qed

lemma same_set: "same w v \<Longrightarrow> same (world_set w a acc) (world_set v a acc)"
  by (simp add: same_def world_simps jkey_def)

lemma same_mutators:
  assumes "same w v"
  shows "same (SetStorage w a k x) (SetStorage v a k x)" "same (SetCode w a c) (SetCode v a c)"
    "same (SetNonce w a n) (SetNonce v a n)" "same (Credit w a y) (Credit v a y)"
    "same (AddBalance w a y) (AddBalance v a y)" "same (SubBalance w a y) (SubBalance v a y)"
    "same (charge w a y) (charge v a y)"
  using assms same_reads(1) [OF assms] same_set [OF assms]
  by (simp_all add: world_mutators charge_def Let_def)

lemma same_fields:
  assumes "same w v"
  shows "same (AddLog w l) (AddLog v l)" "same (Burn w y) (Burn v y)"
    "same (snd (Snapshot w)) (snd (Snapshot v))" "same (DiscardSnapshots w) (DiscardSnapshots v)"
    "same (world_Copy w) (world_Copy v)" "same (SetBlockContext w n t d) (SetBlockContext v n t d)"
    "same (ClearTouched w) v"
proof -
  have "length (w_journal w) = length (w_journal v)"
    using assms by (metis same_def length_map)
  then show "same (snd (Snapshot w)) (snd (Snapshot v))" using assms by (simp add: same_def Snapshot_def)
qed (use assms in \<open>simp_all add: same_def AddLog_def Burn_def DiscardSnapshots_def world_Copy_def
    SetBlockContext_def ClearTouched_def\<close>)

lemma fst_undo_entry: "fst (undo_entry e s) = (fst s)(je_addr e := je_prev e)"
  by (cases s) simp

lemma undo_accounts:
  "fst (undo_journal es s) = foldr (\<lambda>(a, p) accs. accs(a := p)) (map jkey es) (fst s)"
  unfolding undo_journal_def by (induction es) (simp_all add: jkey_def fst_undo_entry)

lemma same_Revert: "same w v \<Longrightarrow> same (RevertToSnapshot w n) (RevertToSnapshot v n)"
  by (simp add: RevertToSnapshot_def same_def Let_def case_prod_beta undo_accounts drop_map [symmetric] take_map [symmetric])

lemma same_transfer: "same w v \<Longrightarrow> same (transfer w a b x) (transfer v a b x)"
  by (simp add: transfer_def same_mutators)

section \<open>Programs that respect sameness\<close>

definition same_frame :: "frame \<Rightarrow> frame \<Rightarrow> bool" where
  "same_frame f g \<longleftrightarrow> rel_option same (f_state f) (f_state g) \<and> g = f\<lparr>f_state := f_state g\<rparr>"

definition alike :: "('a \<Rightarrow> 'b \<Rightarrow> bool) \<Rightarrow> 'a vm \<Rightarrow> 'b vm \<Rightarrow> bool" where
  "alike R m n \<longleftrightarrow> (\<forall>f g. same_frame f g \<longrightarrow>
     rel_sum (=) R (fst (m f)) (fst (n g)) \<and> same_frame (snd (m f)) (snd (n g)))"

lemma alikeD:
  "alike R m n \<Longrightarrow> same_frame f g \<Longrightarrow> rel_sum (=) R (fst (m f)) (fst (n g)) \<and> same_frame (snd (m f)) (snd (n g))"
  by (simp add: alike_def)

lemma alike_bind:
  assumes "alike R m n" and "\<And>a b. R a b \<Longrightarrow> alike S (k a) (l b)"
  shows "alike S (vbind m k) (vbind n l)"
  unfolding alike_def
proof (intro allI impI)
  fix f g
  assume fg: "same_frame f g"
  obtain x f1 y g1 where r: "m f = (x, f1)" "n g = (y, g1)" by fastforce
  have "rel_sum (=) R x y" "same_frame f1 g1" using alikeD [OF assms(1) fg] r by simp_all
  then show "rel_sum (=) S (fst (vbind m k f)) (fst (vbind n l g)) \<and> same_frame (snd (vbind m k f)) (snd (vbind n l g))"
    using r assms(2) by (cases x; cases y) (auto simp: vbind_def alike_def)
qed

lemma alike_ret: "R a b \<Longrightarrow> alike R (vret a) (vret b)"
  by (simp add: alike_def vret_def)

lemma alike_fail: "alike R (vfail e) (vfail e)"
  by (simp add: alike_def vfail_def)

lemma alike_if: "(c \<Longrightarrow> alike R m n) \<Longrightarrow> (\<not> c \<Longrightarrow> alike R m' n') \<Longrightarrow> alike R (if c then m else m') (if c then n else n')"
  by simp

lemma alike_let: "alike R (k a) (l a) \<Longrightarrow> alike R (Let a k) (Let a l)"
  by simp

lemma alike_prod: "(\<And>a b. p = (a, b) \<Longrightarrow> alike R (k a b) (l a b)) \<Longrightarrow> alike R (case_prod k p) (case_prod l p)"
  by (cases p) simp

lemma alike_opt: "alike (=) (vopt x) (vopt x)"
  by (cases x) (simp_all add: vopt_def alike_fail alike_ret)

lemma frame_state_id: "f\<lparr>f_state := f_state f\<rparr> = f"
  by simp

text \<open>A program that does not look at the state and does not change it.\<close>

lemma alike_blind:
  assumes "\<And>f s. m (f\<lparr>f_state := s\<rparr>) = (fst (m f), (snd (m f))\<lparr>f_state := s\<rparr>)"
  shows "alike (=) m m"
  unfolding alike_def
proof (intro allI impI)
  fix f g
  assume fg: "same_frame f g"
  let ?s = "f_state f" and ?t = "f_state g" and ?r = "fst (m f)" and ?h = "snd (m f)"
  have g: "m g = (?r, ?h\<lparr>f_state := ?t\<rparr>)" using fg assms [of ?t f] by (simp add: same_frame_def)
  have f: "?h = ?h\<lparr>f_state := ?s\<rparr>" using assms [of ?s f] by (metis frame_state_id snd_conv)
  have "f_state ?h = ?s" by (subst f) simp
  then have "same_frame ?h (?h\<lparr>f_state := ?t\<rparr>)" using fg by (simp add: same_frame_def)
  then show "rel_sum (=) (=) (fst (m f)) (fst (m g)) \<and> same_frame (snd (m f)) (snd (m g))"
    using g by (simp add: sum.rel_eq)
qed

lemma alike_get: "(\<And>f s. h (f\<lparr>f_state := s\<rparr>) = h f) \<Longrightarrow> alike (=) (vget h) (vget h)"
  by (rule alike_blind) (simp add: vget_def)

lemma alike_mod: "(\<And>f s. h (f\<lparr>f_state := s\<rparr>) = (h f)\<lparr>f_state := s\<rparr>) \<Longrightarrow> alike (=) (vmod h) (vmod h)"
  by (rule alike_blind) (simp add: vmod_def)

lemma alike_state:
  "alike same need_state need_state" "alike same deref_state deref_state"
  by (auto simp: alike_def need_state_def deref_state_def same_frame_def split: option.split)

lemma alike_put: "same w v \<Longrightarrow> alike (=) (put_state w) (put_state v)"
  by (auto simp: alike_def put_state_def vmod_def same_frame_def) (metis frame.update_convs(12) frame.surjective)

lemmas alike_intros = alike_bind [where R = "(=)"] alike_if alike_let alike_prod alike_ret alike_fail alike_opt

section \<open>Instructions\<close>

lemma alike_stack:
  "alike (=) (st_push x) (st_push x)" "alike (=) st_pop st_pop" "alike (=) (st_peek n) (st_peek n)"
  "alike (=) (st_swap n) (st_swap n)" "alike (=) (useGas c) (useGas c)" "alike (=) (update_mem u) (update_mem u)"
  "alike (=) (jump d) (jump d)"
  by (rule alike_blind, simp add: st_push_def st_pop_def st_peek_def st_swap_def useGas_def update_mem_def
      jump_def vfail_def Let_def split: list.split option.split)+

lemma alike_primitives:
  "alike (=) (st_dup n) (st_dup n)" "alike (=) pop2 pop2" "alike (=) pop3 pop3"
  "alike (=) (chargeMem off sz) (chargeMem off sz)" "alike (=) (read_mem i k) (read_mem i k)"
  "alike (=) (write_mem i bs) (write_mem i bs)" "alike (=) readMem readMem" "alike (=) (doPush n) (doPush n)"
proof -
  show cm: "alike (=) (chargeMem off sz) (chargeMem off sz)" for off sz
  proof -
    have "alike (=) (case g of None \<Rightarrow> vfail ErrOutOfGas | Some gas \<Rightarrow> vbind (useGas gas) (\<lambda>_.
            vmod (\<lambda>f. f\<lparr>f_mem := mem_resize (f_mem f) (add64 (big_Uint64 off) (big_Uint64 sz))\<rparr>)))
       (case g of None \<Rightarrow> vfail ErrOutOfGas | Some gas \<Rightarrow> vbind (useGas gas) (\<lambda>_.
            vmod (\<lambda>f. f\<lparr>f_mem := mem_resize (f_mem f) (add64 (big_Uint64 off) (big_Uint64 sz))\<rparr>)))" for g
      by (cases g) (simp_all add: alike_fail alike_bind [OF alike_stack(5) alike_mod])
    then show ?thesis
      unfolding chargeMem_def
      by (intro alike_if alike_ret alike_fail alike_bind [OF alike_get]) simp_all
  qed
  show rm: "alike (=) (read_mem i k) (read_mem i k)" for i k
    unfolding read_mem_def by (rule alike_bind [OF alike_get]) (simp_all add: alike_opt)
  show "alike (=) (st_dup n) (st_dup n)"
    unfolding st_dup_def by (rule alike_bind [OF alike_stack(3)]) (simp add: alike_stack)
  show "alike (=) pop2 pop2" "alike (=) pop3 pop3"
    unfolding pop2_def pop3_def
    by (intro alike_intros alike_stack; simp)+
  show "alike (=) (write_mem i bs) (write_mem i bs)" by (simp add: write_mem_def alike_stack)
  show "alike (=) readMem readMem"
    unfolding readMem_def
    by (rule alike_bind [OF alike_stack(2)], rule alike_bind [OF alike_stack(2)], rule alike_bind [where R = "(=)"])
      (simp_all add: cm rm)
  show "alike (=) (doPush n) (doPush n)"
    unfolding doPush_def
    by (rule alike_bind [OF alike_get], simp, simp add: case_prod_beta Let_def,
        rule alike_bind [OF alike_mod], simp, simp add: alike_stack)
qed

lemma alike_then: "alike (=) m m \<Longrightarrow> (\<And>a. alike S (k a) (l a)) \<Longrightarrow> alike S (vbind m k) (vbind m l)"
  by (rule alike_bind [where R = "(=)"]) auto

lemma env_word_state: "env_word op (f\<lparr>f_state := s\<rparr>) = env_word op f"
  by (cases op) (simp_all add: env_word_def)

lemma alike_gets:
  "alike (=) (vget f_ctx) (vget f_ctx)" "alike (=) (vget f_depth) (vget f_depth)"
  "alike (=) (vget f_input) (vget f_input)" "alike (=) (vget f_code) (vget f_code)"
  "alike (=) (vget f_retdata) (vget f_retdata)" "alike (=) (vget f_gas) (vget f_gas)"
  "alike (=) (vget (\<lambda>f. cx_Address (f_ctx f))) (vget (\<lambda>f. cx_Address (f_ctx f)))"
  "alike (=) (vget (env_word op)) (vget (env_word op))"
  "alike (=) (vget (\<lambda>f. getData (f_input f) off 32)) (vget (\<lambda>f. getData (f_input f) off 32))"
  "alike (=) (vget (\<lambda>f. call_give (f_gas f) g)) (vget (\<lambda>f. call_give (f_gas f) g))"
  "alike (=) (vget (\<lambda>f. f_gas f - f_gas f div 64)) (vget (\<lambda>f. f_gas f - f_gas f div 64))"
  by (rule alike_get, simp add: env_word_state)+

lemma alike_mods:
  "alike (=) (vmod (\<lambda>f. f\<lparr>f_retdata := r\<rparr>)) (vmod (\<lambda>f. f\<lparr>f_retdata := r\<rparr>))"
  "alike (=) (vmod (\<lambda>f. f\<lparr>f_gas := f_gas f - n\<rparr>)) (vmod (\<lambda>f. f\<lparr>f_gas := f_gas f - n\<rparr>))"
  "alike (=) (vmod (\<lambda>f. f\<lparr>f_gas := add64 (f_gas f) n\<rparr>)) (vmod (\<lambda>f. f\<lparr>f_gas := add64 (f_gas f) n\<rparr>))"
  "alike (=) next_pc next_pc" "alike (=) advance advance"
  unfolding next_pc_def advance_def by (rule alike_mod, simp)+

lemma alike_done: "alike (=) (vret a) (vret a)"
  by (simp add: alike_ret)

lemmas alike_atoms = alike_stack alike_primitives alike_gets alike_mods alike_opt alike_fail alike_done

lemmas alike_rules = alike_then alike_if alike_let alike_prod alike_atoms

lemma alike_plain:
  "alike (=) (op_binop op) (op_binop op)" "alike (=) (op_modular op) (op_modular op)"
  "alike (=) (op_sha3 E) (op_sha3 E)" "alike (=) op_iszero op_iszero" "alike (=) op_not op_not"
  "alike (=) op_pop op_pop" "alike (=) op_mload op_mload" "alike (=) op_mstore op_mstore"
  "alike (=) op_mstore8 op_mstore8" "alike (=) (op_env op) (op_env op)" "alike (=) op_blockhash op_blockhash"
  "alike (=) op_calldataload op_calldataload" "alike (=) op_mcopy op_mcopy" "alike (=) op_jump op_jump"
  "alike (=) op_jumpi op_jumpi" "alike (=) op_returndatacopy op_returndatacopy" "alike (=) op_revert op_revert"
  unfolding op_binop_def binop_def op_modular_def op_sha3_def op_iszero_def op_not_def op_pop_def op_mload_def
    op_mstore_def op_mstore8_def op_env_def op_blockhash_def op_calldataload_def op_mcopy_def op_jump_def
    op_jumpi_def op_returndatacopy_def op_revert_def
  by (intro alike_rules)+

lemma alike_copy_to_mem: "alike (=) (copy_to_mem d m off len) (copy_to_mem d m off len)"
  unfolding copy_to_mem_def by (intro alike_rules)

lemma alike_copies: "alike (=) op_calldatacopy op_calldatacopy" "alike (=) op_codecopy op_codecopy"
  unfolding op_calldatacopy_def op_codecopy_def by (intro alike_rules alike_copy_to_mem)+

lemma alike_pop_topics: "alike (=) (pop_topics n) (pop_topics n)"
  by (induction n) (simp_all, (intro alike_rules | assumption)+)

text \<open>Instructions that read or write the state.\<close>

lemma alike_reading:
  "alike (=) op_sload op_sload" "alike (=) op_balance op_balance" "alike (=) op_selfbalance op_selfbalance"
  "alike (=) op_extcodesize op_extcodesize" "alike (=) (op_extcodehash E) (op_extcodehash E)"
  "alike (=) op_extcodecopy op_extcodecopy"
  unfolding op_sload_def op_balance_def op_selfbalance_def op_extcodesize_def op_extcodehash_def op_extcodecopy_def
  by (intro alike_then [OF alike_stack(2)] alike_then [OF alike_primitives(3)] alike_prod alike_bind [OF alike_state(1)],
      simp add: same_reads Let_def cong: if_cong, intro alike_rules alike_copy_to_mem)+

lemma alike_writing: "alike (=) op_sstore op_sstore" "alike (=) (opLog n) (opLog n)"
  unfolding op_sstore_def opLog_def
  by (intro alike_rules alike_pop_topics alike_bind [OF alike_state(1)], simp add: same_reads,
      intro alike_rules alike_put same_mutators same_fields; assumption)+

section \<open>Calls and creation\<close>

definition same_result :: "vm_result \<times> world option \<Rightarrow> vm_result \<times> world option \<Rightarrow> bool" where
  "same_result r q \<longleftrightarrow> fst r = fst q \<and> rel_option same (snd r) (snd q)"

definition same_callback :: "callback \<Rightarrow> bool" where
  "same_callback cb \<longleftrightarrow> (\<forall>code input gas ctx depth w v. rel_option same w v \<longrightarrow>
     same_result (cb code input gas ctx depth w) (cb code input gas ctx depth v))"

lemma alike_set_state:
  "rel_option same w v \<Longrightarrow> alike (=) (vmod (\<lambda>f. f\<lparr>f_state := w\<rparr>)) (vmod (\<lambda>f. f\<lparr>f_state := v\<rparr>))"
  unfolding alike_def vmod_def same_frame_def
proof (intro allI impI)
  fix f g
  assume r: "rel_option same w v" and fg: "rel_option same (f_state f) (f_state g) \<and> g = f\<lparr>f_state := f_state g\<rparr>"
  obtain t where g: "g = f\<lparr>f_state := t\<rparr>" using fg by blast
  show "rel_sum (=) (=) (fst (Inr (), f\<lparr>f_state := w\<rparr>)) (fst (Inr (), g\<lparr>f_state := v\<rparr>)) \<and>
      rel_option same (f_state (snd (Inr (), f\<lparr>f_state := w\<rparr>))) (f_state (snd (Inr (), g\<lparr>f_state := v\<rparr>))) \<and>
      snd (Inr (), g\<lparr>f_state := v\<rparr>) =
        (snd (Inr (), f\<lparr>f_state := w\<rparr>))\<lparr>f_state := f_state (snd (Inr (), g\<lparr>f_state := v\<rparr>))\<rparr>"
    using r by (simp add: g)
qed

lemma alike_sub_call:
  assumes "\<And>w v. same w v \<Longrightarrow> same_result (c w) (d v)" and "\<And>w v. same w v \<Longrightarrow> same (prep w) (prep v)"
  shows "alike (=) (sub_call c give prep) (sub_call d give prep)"
  unfolding sub_call_def
proof (rule alike_then [OF alike_mods(2)], rule alike_bind [OF alike_state(2)])
  fix w v
  assume wv: "same w v"
  obtain n w1 v1 where s: "Snapshot w = (n, w1)" "Snapshot v = (n, v1)" "same w1 v1"
    using same_reads(9) [OF wv] same_fields(3) [OF wv] by (metis prod.collapse)
  obtain res w2 v2 where r: "c (prep w1) = (res, w2)" "d (prep v1) = (res, v2)" "rel_option same w2 v2"
    using assms(1) [OF assms(2) [OF s(3)]] by (metis prod.collapse same_result_def)
  show "alike (=)
      (let (snap, w1) = Snapshot w; (res, w2) = c (prep w1) in vbind (vmod (\<lambda>f. f\<lparr>f_state := w2\<rparr>)) (\<lambda>_.
        if res_err res = Some NoFuel then vfail NoFuel else if res_err res = Some GoPanic then vfail GoPanic
        else vbind (vmod (\<lambda>f. f\<lparr>f_gas := add64 (f_gas f) (res_gasleft res)\<rparr>)) (\<lambda>_. vret (res, snap))))
      (let (snap, w1) = Snapshot v; (res, w2) = d (prep w1) in vbind (vmod (\<lambda>f. f\<lparr>f_state := w2\<rparr>)) (\<lambda>_.
        if res_err res = Some NoFuel then vfail NoFuel else if res_err res = Some GoPanic then vfail GoPanic
        else vbind (vmod (\<lambda>f. f\<lparr>f_gas := add64 (f_gas f) (res_gasleft res)\<rparr>)) (\<lambda>_. vret (res, snap))))"
    unfolding s r Let_def prod.case
    by (rule alike_bind [OF alike_set_state [OF r(3)]]) (intro alike_rules)
qed

lemma alike_revert_state: "alike (=) (revert_state n) (revert_state n)"
  unfolding revert_state_def by (rule alike_bind [OF alike_state(2)]) (intro alike_put same_Revert)

lemma alike_refused: "alike (=) (refused c x) (refused c x)"
  unfolding refused_def
  by (intro alike_rules alike_bind [OF alike_state(2)]) (simp add: same_reads alike_then alike_gets alike_done)

lemma alike_opCall:
  assumes "same_callback cb"
  shows "alike (=) (opCall E cb mode) (opCall E cb mode)"
proof -
  have callee: "same_result (opCall_callee E cb t args give sub depth w) (opCall_callee E cb t args give sub depth v)"
    if "same w v" for t args give sub depth w v
    using assms that by (auto simp: opCall_callee_def same_result_def same_callback_def same_reads [OF that] split: option.split)
  have fin: "alike (=) (opCall_finish ro rs p) (opCall_finish ro rs p)" for ro rs p
    unfolding opCall_finish_def by (intro alike_rules alike_revert_state)
  have go: "alike (=) (opCall_go E cb mode ctx target v args give ro rs) (opCall_go E cb mode ctx target v args give ro rs)"
    for ctx target v args give ro rs
    unfolding opCall_go_def
    by (intro alike_rules fin alike_sub_call callee) (auto intro: same_transfer)
  have "alike (=) (opCall_pops mode) (opCall_pops mode)" unfolding opCall_pops_def by (intro alike_rules)
  then show ?thesis
    unfolding opCall_def opCall_enter_def by (intro alike_rules go alike_refused)
qed

lemma alike_opCreate:
  assumes "same_callback cb"
  shows "alike (=) (opCreate E cb c2) (opCreate E cb c2)"
proof -
  have fin: "alike (=) (opCreate_finish a p) (opCreate_finish a p)" for a p
    unfolding opCreate_finish_def
    by (intro alike_rules alike_revert_state alike_bind [OF alike_state(2)] alike_bind [OF alike_put] same_mutators)
  have go: "alike (=) (opCreate_go cb ctx a v init give) (opCreate_go cb ctx a v init give)" for ctx a v init give
    unfolding opCreate_go_def
    by (intro alike_rules fin alike_sub_call) (use assms in \<open>auto simp: same_callback_def intro: same_transfer\<close>)
  have addr: "alike (=) (opCreate_address E c2 a n salt init) (opCreate_address E c2 a n salt init)" for a n salt init
    unfolding opCreate_address_def by (intro alike_rules)
  have enter: "alike (=) (opCreate_enter E cb c2 ctx v salt init) (opCreate_enter E cb c2 ctx v salt init)" for ctx v salt init
    unfolding opCreate_enter_def
  proof (rule alike_bind [OF alike_state(2)])
    fix w u
    assume wu: "same w u"
    then have n: "same (SetNonce w a k) (SetNonce u a k)" for a k by (rule same_mutators)
    show "alike (=)
       (let creator = cx_Address ctx; nonce = GetNonce w creator in
        vbind (opCreate_address E c2 creator nonce salt init) (\<lambda>newAddr.
          let w1 = SetNonce w creator (add64 nonce 1) in vbind (put_state w1) (\<lambda>_.
          vbind (vget (\<lambda>f. f_gas f - f_gas f div 64)) (\<lambda>give.
            if GetNonce w1 newAddr \<noteq> 0 \<or> length (GetCode w1 newAddr) > 0
            then vbind (vmod (\<lambda>f. f\<lparr>f_gas := f_gas f - give\<rparr>)) (\<lambda>_. st_push 0)
            else opCreate_go cb ctx newAddr v init give))))
       (let creator = cx_Address ctx; nonce = GetNonce u creator in
        vbind (opCreate_address E c2 creator nonce salt init) (\<lambda>newAddr.
          let w1 = SetNonce u creator (add64 nonce 1) in vbind (put_state w1) (\<lambda>_.
          vbind (vget (\<lambda>f. f_gas f - f_gas f div 64)) (\<lambda>give.
            if GetNonce w1 newAddr \<noteq> 0 \<or> length (GetCode w1 newAddr) > 0
            then vbind (vmod (\<lambda>f. f\<lparr>f_gas := f_gas f - give\<rparr>)) (\<lambda>_. st_push 0)
            else opCreate_go cb ctx newAddr v init give))))"
      unfolding Let_def same_reads [OF wu] same_reads [OF n]
      by (intro alike_rules addr go alike_bind [OF alike_put [OF n]])
  qed
  have "alike (=) (opCreate_pops c2) (opCreate_pops c2)" unfolding opCreate_pops_def by (intro alike_rules)
  then show ?thesis unfolding opCreate_def by (intro alike_rules enter alike_refused)
qed

section \<open>Runs\<close>

lemma alike_cont: "alike (=) m m \<Longrightarrow> alike (=) (cont m) (cont m)"
  unfolding cont_def by (intro alike_rules)

lemma alike_exec:
  assumes "same_callback cb"
  shows "alike (=) (exec E cb op) (exec E cb op)"
proof -
  have "alike (=) op_revert op_revert" by (rule alike_plain)
  moreover have "alike (=) (vbind readMem (\<lambda>data. vret (True, data))) (vbind readMem (\<lambda>data. vret (True, data)))"
    by (intro alike_rules)
  ultimately show ?thesis
    using alike_cont [OF alike_opCall [OF assms]] alike_cont [OF alike_opCreate [OF assms]]
    by (cases op) (simp_all add: exec_def alike_cont alike_plain alike_copies alike_reading alike_writing alike_fail alike_done)
qed

lemma alike_step:
  assumes "same_callback cb"
  shows "alike (=) (step E cb) (step E cb)"
proof -
  have "alike (=) (vbind (exec E cb op) (\<lambda>(done, ret). if done then vret (Some ret) else vbind next_pc (\<lambda>_. vret None)))
      (vbind (exec E cb op) (\<lambda>(done, ret). if done then vret (Some ret) else vbind next_pc (\<lambda>_. vret None)))" for op
    by (intro alike_rules alike_exec [OF assms])
  moreover have "alike (=) (vbind (doPush n) (\<lambda>_. vret None)) (vbind (doPush n) (\<lambda>_. vret (None :: bytes option)))"
    "alike (=) (vbind (st_dup n) (\<lambda>_. vbind advance (\<lambda>_. vret None)))
       (vbind (st_dup n) (\<lambda>_. vbind advance (\<lambda>_. vret (None :: bytes option))))"
    "alike (=) (vbind (st_swap n) (\<lambda>_. vbind advance (\<lambda>_. vret None)))
       (vbind (st_swap n) (\<lambda>_. vbind advance (\<lambda>_. vret (None :: bytes option))))" for n
    by (intro alike_rules)+
  ultimately have "alike (=) (dispatch E cb op) (dispatch E cb op)" for op
    by (cases op) (simp_all add: dispatch_def alike_done)
  moreover have "alike (=) (vget (\<lambda>f. decode_op (f_code f ! f_pc f))) (vget (\<lambda>f. decode_op (f_code f ! f_pc f)))"
    by (rule alike_get) simp
  ultimately show ?thesis unfolding step_def by (intro alike_rules)
qed

lemma same_frame_fields: "same_frame f g \<Longrightarrow> f_pc g = f_pc f \<and> f_code g = f_code f \<and> f_gas g = f_gas f \<and>
    rel_option same (f_state f) (f_state g)"
  unfolding same_frame_def by (metis frame.select_convs frame.surjective frame.update_convs(12))

lemma same_frame_result:
  "same_frame f g \<Longrightarrow> same_result (frame_result (r, f)) (frame_result (r, g))"
  using same_frame_fields [of f g]
  by (cases "(r, f)" rule: frame_result.cases) (auto simp: same_result_def)

lemma alike_run: "alike (=) (run_fuel n E) (run_fuel n E)"
proof (induction n)
  case 0
  show ?case by (simp add: alike_def)
next
  case (Suc n)
  have cb: "same_callback (execute_with (run_fuel n E))"
    unfolding same_callback_def
  proof (intro allI impI)
    fix code input gas ctx depth w v
    assume "rel_option same w v"
    then have "same_frame (new_frame code input gas ctx depth w) (new_frame code input gas ctx depth v)"
      by (simp add: same_frame_def new_frame_def)
    from alikeD [OF Suc.IH this] show "same_result (execute_with (run_fuel n E) code input gas ctx depth w)
        (execute_with (run_fuel n E) code input gas ctx depth v)"
      unfolding execute_with_def by (metis prod.collapse same_frame_result sum.rel_eq)
  qed
  show ?case
    unfolding alike_def
  proof (intro allI impI)
    fix f g
    assume fg: "same_frame f g"
    let ?st = "step E (execute_with (run_fuel n E))"
    obtain r f1 g1 where st: "?st f = (r, f1)" "?st g = (r, g1)" "same_frame f1 g1"
      using alikeD [OF alike_step [OF cb] fg] by (metis prod.collapse sum.rel_eq)
    show "rel_sum (=) (=) (fst (run_fuel (Suc n) E f)) (fst (run_fuel (Suc n) E g)) \<and>
        same_frame (snd (run_fuel (Suc n) E f)) (snd (run_fuel (Suc n) E g))"
      using fg same_frame_fields [OF fg] st(3) alikeD [OF Suc.IH st(3)]
      by (simp add: st(1,2) sum.rel_eq split: sum.split option.split)
  qed
qed

lemma same_execute: "rel_option same w v \<Longrightarrow>
    same_result (execute E code input gas ctx depth w) (execute E code input gas ctx depth v)"
proof -
  assume "rel_option same w v"
  then have "same_frame (new_frame code input gas ctx depth w) (new_frame code input gas ctx depth v)"
    by (simp add: same_frame_def new_frame_def)
  from alikeD [OF alike_run this] show ?thesis
    unfolding execute_def execute_with_def by (metis prod.collapse same_frame_result sum.rel_eq)
qed

section \<open>Transactions\<close>

lemma same_run_on:
  assumes "same w v"
  shows "fst (run_on E code input gas ctx w) = fst (run_on E code input gas ctx v)"
    "same (snd (run_on E code input gas ctx w)) (snd (run_on E code input gas ctx v))"
proof -
  have "same_result (execute E code input gas ctx 0 (Some w)) (execute E code input gas ctx 0 (Some v))"
    by (rule same_execute) (simp add: assms)
  then show "fst (run_on E code input gas ctx w) = fst (run_on E code input gas ctx v)"
    "same (snd (run_on E code input gas ctx w)) (snd (run_on E code input gas ctx v))"
    using assms by (auto simp: run_on_def vm_Run_def same_result_def Let_def case_prod_beta split: option.split)
qed

definition same_body :: "body_outcome \<Rightarrow> body_outcome \<Rightarrow> bool" where
  "same_body r q \<longleftrightarrow> fst r = fst q \<and> fst (snd r) = fst (snd q) \<and> same (snd (snd r)) (snd (snd q))"

lemma same_results:
  assumes "fst r = fst q" and "same (snd r) (snd q)"
  shows "same_body (deploy_result a n r) (deploy_result a n q)" "same_body (call_result n r) (call_result n q)"
  using assms
  by (cases r; cases q; auto simp: deploy_result_def call_result_def same_body_def Let_def same_mutators split: option.split)+

lemma same_tx_body:
  assumes "same w v"
  shows "same_body (tx_body E w tx sender coinbase lim x n) (tx_body E v tx sender coinbase lim x n)"
proof -
  have env: "tx_env w tx sender coinbase lim a x = tx_env v tx sender coinbase lim a x" for a
    using same_reads [OF assms] by (simp add: tx_env_def)
  have c: "same (Credit w a x) (Credit v a x)" for a by (rule same_mutators [OF assms])
  have "same_body (e, k, u) (e, k, u')" if "same u u'" for e k u u' using that by (simp add: same_body_def)
  note pair = this
  have "same (Burn w x) (Burn v x)" by (rule same_fields [OF assms])
  then show ?thesis
    unfolding tx_body_def Let_def same_reads [OF assms] env same_reads [OF c]
    by (auto split: option.split intro!: same_results same_run_on c assms pair)
qed

lemma same_settle:
  "same w v \<Longrightarrow> same (settle w e snap sender coinbase m p g) (settle v e snap sender coinbase m p g)"
  by (simp add: settle_def distributeFee_def Let_def same_mutators same_fields same_Revert)

lemma same_tx_commit:
  assumes "same w v"
  shows "fst (tx_commit E w tx sender coinbase lim i p x) = fst (tx_commit E v tx sender coinbase lim i p x) \<and>
    same (snd (tx_commit E w tx sender coinbase lim i p x)) (snd (tx_commit E v tx sender coinbase lim i p x))"
proof -
  let ?m = "int (tx_gaslimit tx) * p" and ?n = "sub64 (tx_gaslimit tx) i"
  let ?c = "\<lambda>u. charge u sender ?m"
  let ?s = "\<lambda>u. SubBalance (snd (Snapshot (?c u))) sender x"
  have c: "same (?c w) (?c v)" by (rule same_mutators [OF assms])
  have s: "same (?s w) (?s v)" by (intro same_mutators same_fields c)
  obtain e g u where b1: "tx_body E (?s w) tx sender coinbase lim x ?n = (e, g, u)"
    by (rule prod_cases3)
  obtain e' g' u' where b2: "tx_body E (?s v) tx sender coinbase lim x ?n = (e', g', u')"
    by (rule prod_cases3)
  have b: "e' = e" "g' = g" "same u u'"
    using same_tx_body [OF s, of E tx sender coinbase lim x ?n] unfolding b1 b2 by (auto simp: same_body_def)
  show ?thesis
    using b(3) same_reads [OF c] same_reads(7) [OF same_settle [OF b(3)]]
    by (simp add: tx_commit_def Let_def case_prod_beta b1 b2 b(1,2) same_settle)
qed

lemma same_ApplyTx:
  assumes "same w v"
  shows "fst (ApplyTx E w tx coinbase lim) = fst (ApplyTx E v tx coinbase lim)"
    "same (snd (ApplyTx E w tx coinbase lim)) (snd (ApplyTx E v tx coinbase lim))"
  using assms same_tx_commit [OF assms]
  by (auto simp: ApplyTx_def Let_def same_reads [OF assms] split: sum.split option.split)

end
