(* ===== verification/Store.thy ===== *)
theory Store
  imports Prelude "HOL-Library.List_Lexorder" "HOL-Library.Sublist"
begin

text \<open>
  The key-value store (\<^verbatim>\<open>src/store/store.go\<close>, \<^verbatim>\<open>src/store/memory.go\<close>): the in-memory database, its
  write batches and its iterators.  The store never looks inside a value, so the type of values is a
  parameter.  The contract of \<^verbatim>\<open>KV\<close> and \<^verbatim>\<open>Batch\<close> is a locale, interpreted on \<^verbatim>\<open>Memory\<close>; its clients use
  only the facts proved there.
\<close>

section \<open>The in-memory database\<close>

record 'v memory =
  mm_data :: "bytes \<rightharpoonup> 'v"
  mm_closed :: bool

definition NewMemory :: "'v memory" where
  "NewMemory = \<lparr>mm_data = Map.empty, mm_closed = False\<rparr>"

text \<open>\<open>None\<close> is \<^verbatim>\<open>ErrNotFound\<close>.\<close>

definition mem_Get :: "'v memory \<Rightarrow> bytes \<Rightarrow> 'v option" where
  "mem_Get m key = mm_data m key"

definition mem_Has :: "'v memory \<Rightarrow> bytes \<Rightarrow> bool" where
  "mem_Has m key \<longleftrightarrow> mm_data m key \<noteq> None"

definition mem_Put :: "'v memory \<Rightarrow> bytes \<Rightarrow> 'v \<Rightarrow> 'v memory" where
  "mem_Put m key v = m\<lparr>mm_data := (mm_data m)(key \<mapsto> v)\<rparr>"

definition mem_Delete :: "'v memory \<Rightarrow> bytes \<Rightarrow> 'v memory" where
  "mem_Delete m key = m\<lparr>mm_data := (mm_data m)(key := None)\<rparr>"

definition mem_Close :: "'v memory \<Rightarrow> 'v memory" where
  "mem_Close m = m\<lparr>mm_closed := True\<rparr>"

definition mem_Len :: "'v memory \<Rightarrow> nat" where
  "mem_Len m = card (dom (mm_data m))"

definition CountPrefix :: "'v memory \<Rightarrow> bytes \<Rightarrow> nat" where
  "CountPrefix m pre = card {k \<in> dom (mm_data m). prefix pre k}"

section \<open>Batches\<close>

datatype 'v memOp = OpPut bytes 'v | OpDelete bytes

type_synonym 'v batch = "'v memOp list"

definition batch_Put :: "'v batch \<Rightarrow> bytes \<Rightarrow> 'v \<Rightarrow> 'v batch" where
  "batch_Put b key v = b @ [OpPut key v]"

definition batch_Delete :: "'v batch \<Rightarrow> bytes \<Rightarrow> 'v batch" where
  "batch_Delete b key = b @ [OpDelete key]"

definition batch_Len :: "'v batch \<Rightarrow> nat" where
  "batch_Len b = length b"

definition batch_Reset :: "'v batch \<Rightarrow> 'v batch" where
  "batch_Reset b = []"

fun apply_op :: "'v memory \<Rightarrow> 'v memOp \<Rightarrow> 'v memory" where
  "apply_op m (OpPut key v) = mem_Put m key v"
| "apply_op m (OpDelete key) = mem_Delete m key"

text \<open>\<^verbatim>\<open>Commit\<close> applies the queue in order and empties it.\<close>

definition batch_Commit :: "'v memory \<Rightarrow> 'v batch \<Rightarrow> 'v memory \<times> 'v batch" where
  "batch_Commit m b = (foldl apply_op m b, [])"

section \<open>Iterators\<close>

record 'v memIter =
  it_keys :: "bytes list"
  it_values :: "'v list"
  it_idx :: int

definition mem_Iterate :: "'v memory \<Rightarrow> bytes \<Rightarrow> 'v memIter" where
  "mem_Iterate m pre =
     (let keys = sorted_list_of_set {k \<in> dom (mm_data m). prefix pre k} in
      \<lparr>it_keys = keys, it_values = map (\<lambda>k. the (mm_data m k)) keys, it_idx = - 1\<rparr>)"

definition iter_Next :: "'v memIter \<Rightarrow> bool \<times> 'v memIter" where
  "iter_Next it =
     (let it1 = it\<lparr>it_idx := it_idx it + 1\<rparr> in (it_idx it1 < int (length (it_keys it1)), it1))"

definition iter_Key :: "'v memIter \<Rightarrow> bytes option" where
  "iter_Key it =
     (if it_idx it < 0 \<or> it_idx it \<ge> int (length (it_keys it)) then None
      else Some (it_keys it ! nat (it_idx it)))"

definition iter_Value :: "'v memIter \<Rightarrow> 'v option" where
  "iter_Value it =
     (if it_idx it < 0 \<or> it_idx it \<ge> int (length (it_values it)) then None
      else Some (it_values it ! nat (it_idx it)))"

text \<open>
  The loop \<^verbatim>\<open>for it.Next() { ... it.Key() ... it.Value() ... }\<close> of every client, as the list of the pairs
  it sees.
\<close>

function drain :: "'v memIter \<Rightarrow> (bytes \<times> 'v) list" where
  "drain it =
     (let (more, it1) = iter_Next it in
      if more then (the (iter_Key it1), the (iter_Value it1)) # drain it1 else [])"
  by auto
termination
  by (relation "measure (\<lambda>it. nat (int (length (it_keys it)) - it_idx it))")
    (auto simp: iter_Next_def Let_def)

declare drain.simps [simp del]

section \<open>The storage contract\<close>

text \<open>What a batch leaves at a key: its last write there, or what was there before.\<close>

fun written :: "'v memOp list \<Rightarrow> bytes \<Rightarrow> 'v option \<Rightarrow> 'v option" where
  "written [] k old = old"
| "written (OpPut k' v # ops) k old = written ops k (if k = k' then Some v else old)"
| "written (OpDelete k' # ops) k old = written ops k (if k = k' then None else old)"

lemma written_append: "written (xs @ ys) k old = written ys k (written xs k old)"
  by (induction xs k old rule: written.induct) auto

fun op_key :: "'v memOp \<Rightarrow> bytes" where
  "op_key (OpPut k v) = k"
| "op_key (OpDelete k) = k"

lemma written_other: "\<forall>op \<in> set ops. op_key op \<noteq> k \<Longrightarrow> written ops k old = old"
  by (induction ops k old rule: written.induct) auto

text \<open>What \<^verbatim>\<open>KV\<close> and \<^verbatim>\<open>Batch\<close> promise.\<close>

locale kv_store =
  fixes kv_get :: "'db \<Rightarrow> bytes \<Rightarrow> 'v option"
    and kv_has :: "'db \<Rightarrow> bytes \<Rightarrow> bool"
    and kv_put :: "'db \<Rightarrow> bytes \<Rightarrow> 'v \<Rightarrow> 'db"
    and kv_delete :: "'db \<Rightarrow> bytes \<Rightarrow> 'db"
    and kv_commit :: "'db \<Rightarrow> 'v memOp list \<Rightarrow> 'db"
    and kv_scan :: "'db \<Rightarrow> bytes \<Rightarrow> (bytes \<times> 'v) list"
    and kv_finite :: "'db \<Rightarrow> bool"
  assumes get_put: "kv_get (kv_put d k v) k' = (if k' = k then Some v else kv_get d k')"
    and get_delete: "kv_get (kv_delete d k) k' = (if k' = k then None else kv_get d k')"
    and has_get: "kv_has d k \<longleftrightarrow> kv_get d k \<noteq> None"
    and commit_nil: "kv_commit d [] = d"
    and commit_put: "kv_commit d (OpPut k v # ops) = kv_commit (kv_put d k v) ops"
    and commit_delete: "kv_commit d (OpDelete k # ops) = kv_commit (kv_delete d k) ops"
    and scan_exact: "kv_finite d \<Longrightarrow> set (kv_scan d p) = {(k, v). prefix p k \<and> kv_get d k = Some v}"
    and scan_sorted: "sorted_wrt (<) (map fst (kv_scan d p))"
    and finite_put: "kv_finite d \<Longrightarrow> kv_finite (kv_put d k v)"
    and finite_delete: "kv_finite d \<Longrightarrow> kv_finite (kv_delete d k)"
begin

lemma get_commit: "kv_get (kv_commit d ops) k = written ops k (kv_get d k)"
  by (induction ops k "kv_get d k" arbitrary: d rule: written.induct)
    (auto simp: commit_nil commit_put commit_delete get_put get_delete)

lemma commit_append: "kv_commit d (xs @ ys) = kv_commit (kv_commit d xs) ys"
proof (induction xs arbitrary: d)
  case (Cons op xs)
  then show ?case by (cases op) (simp_all add: commit_put commit_delete)
qed (simp add: commit_nil)

lemma finite_commit: "kv_finite d \<Longrightarrow> kv_finite (kv_commit d ops)"
proof (induction ops arbitrary: d)
  case (Cons op ops)
  then show ?case by (cases op) (simp_all add: commit_put commit_delete finite_put finite_delete)
qed (simp add: commit_nil)

text \<open>A scan returns every key once.\<close>

lemma scan_distinct: "distinct (map fst (kv_scan d p))"
  using scan_sorted [of d p] by (simp add: strict_sorted_iff)

end

section \<open>Memory keeps the contract\<close>

lemma drain_from:
  "it_idx it = int n - 1 \<Longrightarrow> length (it_values it) = length (it_keys it) \<Longrightarrow>
    drain it = zip (drop n (it_keys it)) (drop n (it_values it))"
proof (induction it arbitrary: n rule: drain.induct)
  case (1 it)
  let ?it1 = "it\<lparr>it_idx := int n\<rparr>"
  have nx: "iter_Next it = (n < length (it_keys it), ?it1)"
    using 1(2) by (simp add: iter_Next_def Let_def)
  show ?case
  proof (cases "n < length (it_keys it)")
    case True
    have "drain ?it1 = zip (drop (Suc n) (it_keys ?it1)) (drop (Suc n) (it_values ?it1))"
      using 1(1) [OF nx [symmetric] refl True, of "Suc n"] 1(3) by simp
    then show ?thesis
      using True 1(3) by (simp add: drain.simps [of it] nx iter_Key_def iter_Value_def Cons_nth_drop_Suc [symmetric])
  next
    case False
    then show ?thesis by (simp add: drain.simps [of it] nx)
  qed
qed

lemma drain_Iterate:
  "drain (mem_Iterate m p) =
     map (\<lambda>k. (k, the (mm_data m k))) (sorted_list_of_set {k \<in> dom (mm_data m). prefix p k})"
  by (subst drain_from [where n = 0]) (simp_all add: mem_Iterate_def Let_def zip_map2 zip_same_conv_map)

definition mem_Commit :: "'v memory \<Rightarrow> 'v memOp list \<Rightarrow> 'v memory" where
  "mem_Commit m ops = fst (batch_Commit m ops)"

definition mem_finite :: "'v memory \<Rightarrow> bool" where
  "mem_finite m \<longleftrightarrow> finite (dom (mm_data m))"

interpretation mem: kv_store mem_Get mem_Has mem_Put mem_Delete mem_Commit "\<lambda>m p. drain (mem_Iterate m p)" mem_finite
proof unfold_locales
  fix m :: "'v memory" and p
  show "mem_finite m \<Longrightarrow> set (drain (mem_Iterate m p)) = {(k, v). prefix p k \<and> mem_Get m k = Some v}"
    by (auto simp: drain_Iterate mem_finite_def mem_Get_def)
  show "sorted_wrt (<) (map fst (drain (mem_Iterate m p)))"
    by (simp add: drain_Iterate comp_def)
qed (auto simp: mem_Get_def mem_Has_def mem_Put_def mem_Delete_def mem_Commit_def batch_Commit_def mem_finite_def)

end
