(* ===== verification/Schema.thy ===== *)
theory Schema
  imports Store Genesis
begin

text \<open>
  The on-disk schema of the chain (\<^verbatim>\<open>src/core/schema.go\<close>): the key of every table, the records filed
  there, and the reverse diffs that let the account table walk backwards.  A stored JSON document is
  the Go value it was encoded from (\<^verbatim>\<open>encoding/json\<close> reads back what it wrote); reading a key whose
  document has another type is the decoding error, reading raw bytes of the wrong length the malformed
  one.
\<close>

section \<open>Keys\<close>

definition prefixBlock :: byte where "prefixBlock = 0x62"
definition prefixCanonical :: byte where "prefixCanonical = 0x63"
definition prefixReceipts :: byte where "prefixReceipts = 0x72"
definition prefixTxIndex :: byte where "prefixTxIndex = 0x74"
definition prefixAccount :: byte where "prefixAccount = 0x61"
definition prefixRevDiff :: byte where "prefixRevDiff = 0x64"
definition prefixTD :: byte where "prefixTD = 0x77"

definition keyHead :: bytes where "keyHead = map of_char ''!head''"
definition keyGenesis :: bytes where "keyGenesis = map of_char ''!genesis''"
definition keySchema :: bytes where "keySchema = map of_char ''!schema''"
definition keyChainID :: bytes where "keyChainID = map of_char ''!chainid''"
definition keyBurned :: bytes where "keyBurned = map of_char ''!burned''"
definition schemaVersion :: nat where "schemaVersion = 1"

definition canonicalKey :: "nat \<Rightarrow> bytes" where "canonicalKey height = prefixCanonical # be_fixed 8 height"
definition blockKey :: "hash \<Rightarrow> bytes" where "blockKey h = prefixBlock # hash_bytes h"
definition receiptsKey :: "hash \<Rightarrow> bytes" where "receiptsKey h = prefixReceipts # hash_bytes h"
definition txIndexKey :: "hash \<Rightarrow> bytes" where "txIndexKey h = prefixTxIndex # hash_bytes h"
definition accountKey :: "address \<Rightarrow> bytes" where "accountKey a = prefixAccount # addr_bytes a"
definition revDiffKey :: "hash \<Rightarrow> bytes" where "revDiffKey h = prefixRevDiff # hash_bytes h"
definition tdKey :: "hash \<Rightarrow> bytes" where "tdKey h = prefixTD # hash_bytes h"

section \<open>Stored records\<close>

record TxLocation =
  tl_BlockHash :: hash
  tl_BlockHeight :: nat
  tl_Index :: nat

record storedDiffEntry =
  de_Address :: address
  de_Existed :: bool
  de_Nonce :: nat
  de_Balance :: "int option"
  de_Storage :: "hash \<rightharpoonup> hash"
  de_Code :: bytes

record storedDiff =
  sd_Entries :: "storedDiffEntry list"
  sd_BurnDelta :: "int option"

datatype stored =
    Raw bytes | JBlock block | JReceipts "receipt list" | JAccount account | JDiff storedDiff | JTxLoc TxLocation

type_synonym db = "stored memory"

datatype store_error = ErrNotFound | ErrDecode | ErrMalformed | ErrCorrupt

definition db_Get :: "db \<Rightarrow> bytes \<Rightarrow> store_error + stored" where
  "db_Get d key = (case mem_Get d key of None \<Rightarrow> Inl ErrNotFound | Some v \<Rightarrow> Inr v)"

definition get_raw :: "db \<Rightarrow> bytes \<Rightarrow> store_error + bytes" where
  "get_raw d key =
     (case db_Get d key of Inl e \<Rightarrow> Inl e | Inr (Raw bs) \<Rightarrow> Inr bs | Inr _ \<Rightarrow> Inl ErrMalformed)"

definition putTD :: "stored batch \<Rightarrow> hash \<Rightarrow> int \<Rightarrow> stored batch" where
  "putTD b h td = batch_Put b (tdKey h) (Raw (big_bytes td))"

definition getTD :: "db \<Rightarrow> hash \<Rightarrow> store_error + int" where
  "getTD d h = map_sum id (\<lambda>bs. int (be_nat bs)) (get_raw d (tdKey h))"

definition putUint64 :: "stored batch \<Rightarrow> bytes \<Rightarrow> nat \<Rightarrow> stored batch" where
  "putUint64 b key v = batch_Put b key (Raw (be_fixed 8 v))"

definition getUint64 :: "db \<Rightarrow> bytes \<Rightarrow> store_error + nat" where
  "getUint64 d key =
     (case get_raw d key of Inl e \<Rightarrow> Inl e
      | Inr bs \<Rightarrow> if length bs \<noteq> 8 then Inl ErrMalformed else Inr (be_nat bs))"

definition putBigInt :: "stored batch \<Rightarrow> bytes \<Rightarrow> int \<Rightarrow> stored batch" where
  "putBigInt b key v = batch_Put b key (Raw (big_bytes v))"

definition getBigInt :: "db \<Rightarrow> bytes \<Rightarrow> store_error + int" where
  "getBigInt d key =
     (case get_raw d key of Inl e \<Rightarrow> if e = ErrNotFound then Inr 0 else Inl e | Inr bs \<Rightarrow> Inr (int (be_nat bs)))"

definition putHash :: "stored batch \<Rightarrow> bytes \<Rightarrow> hash \<Rightarrow> stored batch" where
  "putHash b key h = batch_Put b key (Raw (hash_bytes h))"

definition getHash :: "db \<Rightarrow> bytes \<Rightarrow> store_error + hash" where
  "getHash d key =
     (case get_raw d key of Inl e \<Rightarrow> Inl e
      | Inr bs \<Rightarrow> (case HashFromBytes bs of None \<Rightarrow> Inl ErrMalformed | Some h \<Rightarrow> Inr h))"

section \<open>Blocks and receipts\<close>

definition writeBlock :: "crypto \<Rightarrow> stored batch \<Rightarrow> block \<Rightarrow> receipt list \<Rightarrow> stored batch" where
  "writeBlock E b blk receipts =
     batch_Put (batch_Put b (blockKey (block_Hash E blk)) (JBlock blk))
       (receiptsKey (block_Hash E blk)) (JReceipts receipts)"

definition loadBlock :: "crypto \<Rightarrow> db \<Rightarrow> hash \<Rightarrow> store_error + block" where
  "loadBlock E d h =
     (case db_Get d (blockKey h) of
        Inl e \<Rightarrow> Inl e
      | Inr (JBlock blk) \<Rightarrow> if block_Hash E blk \<noteq> h then Inl ErrCorrupt else Inr blk
      | Inr _ \<Rightarrow> Inl ErrDecode)"

definition loadReceipts :: "db \<Rightarrow> hash \<Rightarrow> store_error + receipt list" where
  "loadReceipts d h =
     (case db_Get d (receiptsKey h) of Inl e \<Rightarrow> Inl e | Inr (JReceipts rs) \<Rightarrow> Inr rs | Inr _ \<Rightarrow> Inl ErrDecode)"

section \<open>The account table and its reverse diffs\<close>

definition diff_entry :: "world \<Rightarrow> address \<Rightarrow> storedDiffEntry" where
  "diff_entry prev a =
     (if Exists prev a
      then let p = world_Get prev a in
        \<lparr>de_Address = a, de_Existed = True, de_Nonce = acc_nonce p, de_Balance = Some (acc_balance p),
         de_Storage = acc_storage p, de_Code = acc_code p\<rparr>
      else \<lparr>de_Address = a, de_Existed = False, de_Nonce = 0, de_Balance = None, de_Storage = Map.empty,
         de_Code = []\<rparr>)"

definition write_account :: "world \<Rightarrow> stored batch \<Rightarrow> address \<Rightarrow> stored batch" where
  "write_account next b a =
     (if \<not> Exists next a then batch_Delete b (accountKey a)
      else batch_Put b (accountKey a) (JAccount (world_Get next a)))"

definition writeAccountChanges ::
  "crypto \<Rightarrow> stored batch \<Rightarrow> block \<Rightarrow> world \<Rightarrow> world \<Rightarrow> address list \<Rightarrow> stored batch" where
  "writeAccountChanges E b blk next prev touched =
     batch_Put (foldl (write_account next) b touched) (revDiffKey (block_Hash E blk))
       (JDiff \<lparr>sd_Entries = map (diff_entry prev) touched, sd_BurnDelta = Some (w_burned next - w_burned prev)\<rparr>)"

text \<open>The account and whether there is one.\<close>

definition loadAccount :: "db \<Rightarrow> address \<Rightarrow> store_error + account option" where
  "loadAccount d a =
     (case db_Get d (accountKey a) of
        Inl e \<Rightarrow> if e = ErrNotFound then Inr None else Inl e
      | Inr (JAccount acc) \<Rightarrow> Inr (Some acc)
      | Inr _ \<Rightarrow> Inl ErrDecode)"

definition loadStoredDiff :: "db \<Rightarrow> hash \<Rightarrow> store_error + storedDiff" where
  "loadStoredDiff d h =
     (case db_Get d (revDiffKey h) of Inl e \<Rightarrow> Inl e | Inr (JDiff diff) \<Rightarrow> Inr diff | Inr _ \<Rightarrow> Inl ErrDecode)"

definition undo_account :: "stored batch \<Rightarrow> storedDiffEntry \<Rightarrow> stored batch" where
  "undo_account b e =
     (if \<not> de_Existed e then batch_Delete b (accountKey (de_Address e))
      else batch_Put b (accountKey (de_Address e))
        (JAccount \<lparr>acc_nonce = de_Nonce e, acc_balance = bigOrZero (de_Balance e), acc_storage = de_Storage e,
           acc_code = de_Code e\<rparr>))"

definition applyReverseDiff :: "db \<Rightarrow> stored batch \<Rightarrow> hash \<Rightarrow> store_error + stored batch" where
  "applyReverseDiff d b h =
     (case loadStoredDiff d h of Inl e \<Rightarrow> Inl e | Inr diff \<Rightarrow> Inr (foldl undo_account b (sd_Entries diff)))"

fun load_accounts :: "(bytes \<times> stored) list \<Rightarrow> world \<Rightarrow> store_error + world" where
  "load_accounts [] w = Inr w"
| "load_accounts ((key, v) # rest) w =
     (if length key \<noteq> 1 + 20 then Inl ErrMalformed
      else case v of
        JAccount acc \<Rightarrow>
          load_accounts rest (RestoreAccount w (word_of_nat (be_nat (tl key))) (acc_nonce acc)
            (Some (acc_balance acc)) (acc_storage acc) (acc_code acc))
      | _ \<Rightarrow> Inl ErrDecode)"

definition loadState :: "db \<Rightarrow> store_error + world" where
  "loadState d = map_sum id ClearTouched (load_accounts (drain (mem_Iterate d [prefixAccount])) world_New)"

section \<open>Keys of different tables never meet\<close>

lemmas key_defs = canonicalKey_def blockKey_def receiptsKey_def txIndexKey_def accountKey_def revDiffKey_def tdKey_def
  prefixBlock_def prefixCanonical_def prefixReceipts_def prefixTxIndex_def prefixAccount_def prefixRevDiff_def
  prefixTD_def keyHead_def keyGenesis_def keySchema_def keyChainID_def keyBurned_def

lemma keys_inject [simp]:
  "blockKey h = blockKey k \<longleftrightarrow> h = k" "receiptsKey h = receiptsKey k \<longleftrightarrow> h = k"
  "txIndexKey h = txIndexKey k \<longleftrightarrow> h = k" "accountKey a = accountKey b \<longleftrightarrow> a = b"
  "revDiffKey h = revDiffKey k \<longleftrightarrow> h = k" "tdKey h = tdKey k \<longleftrightarrow> h = k"
  by (simp_all add: key_defs)

lemma canonicalKey_inject: "m < 2 ^ 64 \<Longrightarrow> n < 2 ^ 64 \<Longrightarrow> canonicalKey m = canonicalKey n \<longleftrightarrow> m = n"
  using be_fixed_inject [of 8 m n] by (auto simp: canonicalKey_def)

text \<open>The tag of a key: its first byte, and which singleton it is.\<close>

definition key_tag :: "bytes \<Rightarrow> byte \<times> bytes" where
  "key_tag k = (hd k, if hd k = 0x21 then k else [])"

lemma key_tags [simp]:
  "key_tag (blockKey h) = (0x62, [])" "key_tag (canonicalKey n) = (0x63, [])" "key_tag (receiptsKey h) = (0x72, [])"
  "key_tag (txIndexKey h) = (0x74, [])" "key_tag (accountKey a) = (0x61, [])" "key_tag (revDiffKey h) = (0x64, [])"
  "key_tag (tdKey h) = (0x77, [])"
  by (simp_all add: key_defs key_tag_def)

lemma singleton_keys:
  "keyHead = [33, 104, 101, 97, 100]" "keyGenesis = [33, 103, 101, 110, 101, 115, 105, 115]"
  "keySchema = [33, 115, 99, 104, 101, 109, 97]" "keyChainID = [33, 99, 104, 97, 105, 110, 105, 100]"
  "keyBurned = [33, 98, 117, 114, 110, 101, 100]"
  by (simp_all add: key_defs)

lemma singleton_tags [simp]:
  "key_tag keyHead = (0x21, keyHead)" "key_tag keyGenesis = (0x21, keyGenesis)" "key_tag keySchema = (0x21, keySchema)"
  "key_tag keyChainID = (0x21, keyChainID)" "key_tag keyBurned = (0x21, keyBurned)"
  by (simp_all add: key_tag_def singleton_keys)

lemma singletons_distinct [simp]: "distinct [keyHead, keyGenesis, keySchema, keyChainID, keyBurned]"
  by (simp add: singleton_keys)

lemma apart: "key_tag k \<noteq> key_tag k' \<Longrightarrow> (k = k') = False"
  by auto

section \<open>Batches of account writes\<close>

text \<open>The account table as a map: what \<open>loadState\<close> reads back.\<close>

definition account_table :: "db \<Rightarrow> address \<rightharpoonup> account" where
  "account_table d a =
     (case mem_Get d (accountKey a) of Some (JAccount acc) \<Rightarrow> if account_vacant acc then None else Some acc | _ \<Rightarrow> None)"

definition accounts_ok :: "db \<Rightarrow> bool" where
  "accounts_ok d \<longleftrightarrow> mem_finite d \<and>
     (\<forall>k v. mem_Get d k = Some v \<longrightarrow> prefix [prefixAccount] k \<longrightarrow> (\<exists>a acc. k = accountKey a \<and> v = JAccount acc))"

definition account_op :: "world \<Rightarrow> address \<Rightarrow> stored memOp" where
  "account_op w a =
     (if Exists w a then OpPut (accountKey a) (JAccount (world_Get w a)) else OpDelete (accountKey a))"

lemma write_accounts: "foldl (write_account w) b as = b @ map (account_op w) as"
  by (induction as arbitrary: b) (simp_all add: write_account_def account_op_def batch_Put_def batch_Delete_def)

text \<open>The reverse diff of a block writes the parent's accounts.\<close>

lemma undo_accounts_of:
  "foldl undo_account b (map (diff_entry prev) as) = b @ map (account_op prev) as"
  by (induction as arbitrary: b)
    (simp_all add: undo_account_def diff_entry_def account_op_def batch_Put_def batch_Delete_def bigOrZero_def Let_def)

lemma written_accounts:
  "written (map (account_op w) as) (accountKey a) old =
     (if a \<in> set as then map_option JAccount (w_accounts w a) else old)"
  by (induction as arbitrary: old) (auto simp: account_op_def Exists_def world_Get_def split: option.split)

lemma written_accounts_other:
  "fst (key_tag k) \<noteq> 0x61 \<Longrightarrow> written (map (account_op w) as) k old = old"
  by (rule written_other) (auto simp: account_op_def)

section \<open>Loading the account table\<close>

lemma accountKey_decode: "length (accountKey a) = 21" "word_of_nat (be_nat (tl (accountKey a))) = a"
  by (simp_all add: accountKey_def word_of_be_nat_addr)

lemma load_accounts_ok:
  assumes "\<forall>(k, v) \<in> set xs. \<exists>a acc. k = accountKey a \<and> v = JAccount acc" and "distinct (map fst xs)"
  shows "\<exists>w'. load_accounts xs w = Inr w' \<and>
    (\<forall>a. w_accounts w' a = (case map_of xs (accountKey a) of
        Some (JAccount acc) \<Rightarrow> if account_vacant acc then None else Some acc | _ \<Rightarrow> w_accounts w a)) \<and>
    w_snapshots w' = w_snapshots w \<and> (w_snapshots w = [] \<longrightarrow> w_journal w' = w_journal w) \<and>
    w_logs w' = w_logs w \<and> w_bctx w' = w_bctx w \<and> w_burned w' = w_burned w"
  using assms
proof (induction xs arbitrary: w)
  case (Cons x xs)
  obtain a acc where x: "x = (accountKey a, JAccount acc)" using Cons.prems(1) by (cases x) auto
  let ?w = "RestoreAccount w a (acc_nonce acc) (Some (acc_balance acc)) (acc_storage acc) (acc_code acc)"
  have r: "?w = world_set w a acc" by (cases acc) (simp add: RestoreAccount_def)
  have fresh: "map_of xs (accountKey a) = None" using Cons.prems(2) x by (simp add: map_of_eq_None_iff)
  from Cons.IH [of ?w] Cons.prems obtain w' where w': "load_accounts xs ?w = Inr w'"
    "\<forall>b. w_accounts w' b = (case map_of xs (accountKey b) of
        Some (JAccount acc) \<Rightarrow> if account_vacant acc then None else Some acc | _ \<Rightarrow> w_accounts ?w b)"
    "w_snapshots w' = w_snapshots ?w" "w_snapshots ?w = [] \<longrightarrow> w_journal w' = w_journal ?w"
    "w_logs w' = w_logs ?w" "w_bctx w' = w_bctx ?w" "w_burned w' = w_burned ?w"
    by auto
  have "load_accounts (x # xs) w = Inr w'" using w'(1) x by (simp add: accountKey_decode)
  moreover have "w_accounts w' b = (case map_of (x # xs) (accountKey b) of
      Some (JAccount acc) \<Rightarrow> if account_vacant acc then None else Some acc | _ \<Rightarrow> w_accounts w b)" for b
    using w'(2) [unfolded r] fresh x
    by (cases "b = a") (auto simp: world_simps split: option.split stored.split)
  ultimately show ?case using w'(3-7) by (auto simp: r world_simps)
qed simp

lemma map_of_scan:
  assumes "mem_finite d"
  shows "map_of (drain (mem_Iterate d p)) k = (if prefix p k then mem_Get d k else None)"
proof (cases "prefix p k \<and> mem_Get d k \<noteq> None")
  case True
  then obtain v where v: "mem_Get d k = Some v" by auto
  then have "(k, v) \<in> set (drain (mem_Iterate d p))" using True by (simp add: mem.scan_exact [OF assms])
  then have "map_of (drain (mem_Iterate d p)) k = Some v" by (simp add: mem.scan_distinct)
  then show ?thesis using True v by simp
next
  case False
  then have "k \<notin> fst ` set (drain (mem_Iterate d p))" by (auto simp: mem.scan_exact [OF assms])
  then have "map_of (drain (mem_Iterate d p)) k = None" unfolding map_of_eq_None_iff .
  then show ?thesis using False by auto
qed

lemma loadState_ok:
  assumes "accounts_ok d"
  shows "loadState d = Inr (world_New\<lparr>w_accounts := account_table d\<rparr>)"
proof -
  let ?xs = "drain (mem_Iterate d [prefixAccount])"
  have fin: "mem_finite d" using assms by (simp add: accounts_ok_def)
  have "\<forall>(k, v) \<in> set ?xs. \<exists>a acc. k = accountKey a \<and> v = JAccount acc"
    using assms by (auto simp: mem.scan_exact [OF fin] accounts_ok_def)
  from load_accounts_ok [OF this mem.scan_distinct, of world_New] obtain w' where w':
    "load_accounts ?xs world_New = Inr w'" "\<forall>a. w_accounts w' a = (case map_of ?xs (accountKey a) of
        Some (JAccount acc) \<Rightarrow> if account_vacant acc then None else Some acc | _ \<Rightarrow> w_accounts world_New a)"
    "w_snapshots w' = []" "w_journal w' = []" "w_logs w' = []" "w_bctx w' = w_bctx world_New" "w_burned w' = 0"
    by (auto simp: world_New_def)
  have "prefix [prefixAccount] (accountKey a)" for a by (simp add: accountKey_def)
  then have "w_accounts w' = account_table d"
    using w'(2)
    by (auto simp: fun_eq_iff account_table_def map_of_scan [OF fin] world_New_def split: option.split stored.split)
  then have "ClearTouched w' = world_New\<lparr>w_accounts := account_table d\<rparr>"
    using w'(3-7) by (simp add: ClearTouched_def world_New_def)
  then show ?thesis using w'(1) by (simp add: loadState_def)
qed

end
