(* ===== verification/Blockchain.thy ===== *)
theory Blockchain
  imports Schema
begin

text \<open>
  The block tree (\<^verbatim>\<open>src/core/blockchain.go\<close>): opening and resuming a database, validating and inserting a
  block, extending the head, reorganising onto a heavier branch, pruning, and the read side.  Every
  method takes and returns the whole record, the block cache included (reads fill it).  The wall clock is
  an argument, and the fork choice is \<^verbatim>\<open>HeaviestChain\<close>, the only one there is.  The reward split, a package
  variable of \<^verbatim>\<open>state\<close> set when the chain is opened, is a field.  A lookup of a missing state that Go would
  dereference is a panic: \<open>ErrPanic\<close> or \<open>None\<close>.  Blocks of the model have no nil transactions, so the guard
  that refuses one has no counterpart.
\<close>

section \<open>State and errors\<close>

definition MaxFutureDriftMs :: int where "MaxFutureDriftMs = 15000"
definition DefaultRetention :: nat where "DefaultRetention = 128"
definition GCInterval :: nat where "GCInterval = 4096"

record Reorg =
  ro_CommonAncestor :: hash
  ro_Dropped :: "block list"
  ro_Added :: "block list"

record blockchain =
  ch_db :: db
  ch_chainID :: nat
  ch_genesis :: hash
  ch_genesisDifficulty :: nat
  ch_retention :: nat
  ch_genesisSupply :: int
  ch_rewards :: reward_config
  ch_blockCache :: "hash \<rightharpoonup> block"
  ch_states :: "hash \<rightharpoonup> world"
  ch_head :: block

datatype chain_error =
    ErrUnknownBlock | ErrUnknownTx | ErrUnknownParent | ErrKnownBlock | ErrNoCommonAncestor | ErrReorgTooDeep
  | ErrPrunedState | ErrWrongChain | ErrPow pow_error | ErrFutureBlock | ErrSchemaVersion | ErrInconsistentState
  | ErrGenesis genesis_error | ErrInvalidTx tx_error | ErrApply apply_error | ErrStore store_error
  | ErrPanic | ErrNoFuel

abbreviation blk_height :: "block \<Rightarrow> nat" where "blk_height b \<equiv> hd_height (blk_header b)"
abbreviation blk_parent :: "block \<Rightarrow> hash" where "blk_parent b \<equiv> hd_parent (blk_header b)"

section \<open>Reading blocks\<close>

definition blockLocked :: "crypto \<Rightarrow> blockchain \<Rightarrow> hash \<Rightarrow> (chain_error + block) \<times> blockchain" where
  "blockLocked E bc h =
     (case ch_blockCache bc h of
        Some b \<Rightarrow> (Inr b, bc)
      | None \<Rightarrow>
          (case loadBlock E (ch_db bc) h of
             Inl e \<Rightarrow> (Inl (if e = ErrNotFound then ErrUnknownBlock else ErrStore e), bc)
           | Inr b \<Rightarrow> (Inr b, bc\<lparr>ch_blockCache := (ch_blockCache bc)(h \<mapsto> b)\<rparr>)))"

definition parentOf :: "crypto \<Rightarrow> blockchain \<Rightarrow> block \<Rightarrow> (chain_error + block) \<times> blockchain" where
  "parentOf E bc b =
     (case blockLocked E bc (blk_parent b) of (Inl e, bc1) \<Rightarrow> (Inl ErrUnknownParent, bc1) | r \<Rightarrow> r)"

text \<open>The headers of the \<open>n\<close> ancestors of \<open>cur\<close>, oldest first, in front of \<open>acc\<close>.\<close>

fun lwma_walk :: "crypto \<Rightarrow> nat \<Rightarrow> blockchain \<Rightarrow> header \<Rightarrow> header list \<Rightarrow> header list option \<times> blockchain" where
  "lwma_walk E 0 bc cur acc = (Some acc, bc)"
| "lwma_walk E (Suc n) bc cur acc =
     (case blockLocked E bc (hd_parent cur) of
        (Inl e, bc1) \<Rightarrow> (None, bc1)
      | (Inr b, bc1) \<Rightarrow> lwma_walk E n bc1 (blk_header b) (blk_header b # acc))"

definition requiredDifficultyLocked :: "crypto \<Rightarrow> blockchain \<Rightarrow> header \<Rightarrow> nat option \<times> blockchain" where
  "requiredDifficultyLocked E bc parent =
     (let w0 = wrap_int64 (int (hd_height parent));
          w = (if w0 > int LwmaWindow then int LwmaWindow else w0)
      in if w < 2 then (Some (ch_genesisDifficulty bc), bc)
         else case lwma_walk E (nat w) bc parent [parent] of
           (None, bc1) \<Rightarrow> (Some (ch_genesisDifficulty bc), bc1)
         | (Some hs, bc1) \<Rightarrow> (lwmaDifficulty hs, bc1))"

section \<open>Pruning\<close>

definition prune_states :: "nat \<Rightarrow> blockchain \<Rightarrow> hash \<rightharpoonup> world" where
  "prune_states cutoff bc h =
     (case ch_blockCache bc h of
        None \<Rightarrow> None
      | Some b \<Rightarrow> if blk_height b < cutoff then None else ch_states bc h)"

definition prune_cache :: "nat \<Rightarrow> blockchain \<Rightarrow> hash \<rightharpoonup> block" where
  "prune_cache cutoff bc h =
     (case ch_blockCache bc h of
        None \<Rightarrow> None
      | Some b \<Rightarrow> if blk_height b < cutoff \<and> h \<noteq> ch_genesis bc then None else Some b)"

fun gc_below :: "blockchain \<Rightarrow> nat \<Rightarrow> (bytes \<times> stored) list \<Rightarrow> (hash \<times> nat) list" where
  "gc_below bc cutoff [] = []"
| "gc_below bc cutoff ((key, v) # rest) =
     (let h = word_of_nat (be_nat (tl key)) :: hash in
      if length key \<noteq> 1 + 32 \<or> h = ch_genesis bc then gc_below bc cutoff rest
      else case v of
        JBlock blk \<Rightarrow>
          if blk_height blk < cutoff then (h, blk_height blk) # gc_below bc cutoff rest else gc_below bc cutoff rest
      | _ \<Rightarrow> gc_below bc cutoff rest)"

definition gc_delete :: "db \<Rightarrow> stored batch \<Rightarrow> hash \<times> nat \<Rightarrow> stored batch" where
  "gc_delete d batch = (\<lambda>(h, n).
     if getHash d (canonicalKey n) = Inr h then batch
     else batch_Delete (batch_Delete (batch_Delete (batch_Delete batch (blockKey h)) (receiptsKey h))
       (revDiffKey h)) (tdKey h))"

definition gcOrphans :: "blockchain \<Rightarrow> nat \<Rightarrow> blockchain" where
  "gcOrphans bc cutoff =
     (let below = gc_below bc cutoff (drain (mem_Iterate (ch_db bc) [prefixBlock]));
          batch = foldl (gc_delete (ch_db bc)) [] below
      in if batch_Len batch > 0 then bc\<lparr>ch_db := mem_Commit (ch_db bc) batch\<rparr> else bc)"

definition prune :: "blockchain \<Rightarrow> blockchain" where
  "prune bc =
     (if blk_height (ch_head bc) \<le> ch_retention bc then bc
      else let cutoff = blk_height (ch_head bc) - ch_retention bc;
               bc1 = bc\<lparr>ch_states := prune_states cutoff bc, ch_blockCache := prune_cache cutoff bc\<rparr>
           in if blk_height (ch_head bc) mod GCInterval = 0 then gcOrphans bc1 cutoff else bc1)"

section \<open>Extending the head\<close>

fun index_from :: "crypto \<Rightarrow> stored batch \<Rightarrow> block \<Rightarrow> nat \<Rightarrow> tx list \<Rightarrow> stored batch" where
  "index_from E batch b i [] = batch"
| "index_from E batch b i (tx # txs) =
     index_from E (batch_Put batch (txIndexKey (tx_Hash E tx))
       (JTxLoc \<lparr>tl_BlockHash = block_Hash E b, tl_BlockHeight = blk_height b, tl_Index = i\<rparr>)) b (i + 1) txs"

definition indexTxs :: "crypto \<Rightarrow> stored batch \<Rightarrow> block \<Rightarrow> stored batch" where
  "indexTxs E batch b = index_from E batch b 0 (blk_txs b)"

text \<open>What \<^verbatim>\<open>extend\<close> and \<^verbatim>\<open>reorg\<close> do to the memory once their batch is committed.\<close>

definition adopt :: "crypto \<Rightarrow> blockchain \<Rightarrow> stored batch \<Rightarrow> block \<Rightarrow> world \<Rightarrow> blockchain" where
  "adopt E bc batch b newState =
     prune (bc\<lparr>ch_db := mem_Commit (ch_db bc) batch,
       ch_blockCache := (ch_blockCache bc)(block_Hash E b \<mapsto> b),
       ch_states := (ch_states bc)(block_Hash E b \<mapsto> newState), ch_head := b\<rparr>)"

definition extend ::
  "crypto \<Rightarrow> blockchain \<Rightarrow> block \<Rightarrow> receipt list \<Rightarrow> world \<Rightarrow> address list \<Rightarrow> int \<Rightarrow> (chain_error + unit) \<times> blockchain" where
  "extend E bc b receipts newState touched td =
     (let b0 = writeBlock E [] b receipts;
          b1 = putTD b0 (block_Hash E b) td
      in case ch_states bc (blk_parent b) of
           None \<Rightarrow> (Inl ErrPrunedState, bc)
         | Some prev \<Rightarrow>
             let b2 = writeAccountChanges E b1 b newState prev touched;
                 b3 = putHash b2 (canonicalKey (blk_height b)) (block_Hash E b);
                 b4 = indexTxs E b3 b;
                 b5 = putHash b4 keyHead (block_Hash E b);
                 b6 = putBigInt b5 keyBurned (w_burned newState)
             in (Inr (), adopt E bc b6 b newState))"

section \<open>Reorganising\<close>

text \<open>
  The first two loops of \<^verbatim>\<open>findFork\<close>: collect ancestors of \<open>a\<close> until the height is not above \<open>target\<close>.
  Fuel bounds the walk; a chain whose heights fall by one towards the parent never runs out of it.
\<close>

fun climb :: "crypto \<Rightarrow> nat \<Rightarrow> blockchain \<Rightarrow> block \<Rightarrow> nat \<Rightarrow> block list \<Rightarrow>
    (chain_error + block \<times> block list) \<times> blockchain" where
  "climb E 0 bc a target acc = (Inl ErrNoFuel, bc)"
| "climb E (Suc n) bc a target acc =
     (if blk_height a > target
      then case parentOf E bc a of
        (Inl e, bc1) \<Rightarrow> (Inl e, bc1)
      | (Inr p, bc1) \<Rightarrow> climb E n bc1 p target (acc @ [a])
      else (Inr (a, acc), bc))"

fun meet :: "crypto \<Rightarrow> nat \<Rightarrow> blockchain \<Rightarrow> block \<Rightarrow> block \<Rightarrow> block list \<Rightarrow> block list \<Rightarrow>
    (chain_error + block list \<times> block list \<times> hash) \<times> blockchain" where
  "meet E 0 bc a b dropped added = (Inl ErrNoFuel, bc)"
| "meet E (Suc n) bc a b dropped added =
     (if block_Hash E a = block_Hash E b then (Inr (rev dropped, rev added, block_Hash E a), bc)
      else if blk_height a = 0 then (Inl ErrNoCommonAncestor, bc)
      else case parentOf E bc a of
        (Inl e, bc1) \<Rightarrow> (Inl e, bc1)
      | (Inr pa, bc1) \<Rightarrow>
          (case parentOf E bc1 b of
             (Inl e, bc2) \<Rightarrow> (Inl e, bc2)
           | (Inr pb, bc2) \<Rightarrow> meet E n bc2 pa pb (dropped @ [a]) (added @ [b])))"

definition findFork :: "crypto \<Rightarrow> blockchain \<Rightarrow> block \<Rightarrow> block \<Rightarrow>
    (chain_error + block list \<times> block list \<times> hash) \<times> blockchain" where
  "findFork E bc oldHead newHead =
     (case climb E (blk_height oldHead + 1) bc oldHead (blk_height newHead) [] of
        (Inl e, bc1) \<Rightarrow> (Inl e, bc1)
      | (Inr (a, dropped), bc1) \<Rightarrow>
          (case climb E (blk_height newHead + 1) bc1 newHead (blk_height a) [] of
             (Inl e, bc2) \<Rightarrow> (Inl e, bc2)
           | (Inr (b, added), bc2) \<Rightarrow> meet E (blk_height a + 1) bc2 a b dropped added))"

text \<open>Unwind the dropped blocks, given newest first.\<close>

fun unwind :: "crypto \<Rightarrow> db \<Rightarrow> stored batch \<Rightarrow> block list \<Rightarrow> chain_error + stored batch" where
  "unwind E d batch [] = Inr batch"
| "unwind E d batch (blk # rest) =
     (case applyReverseDiff d batch (block_Hash E blk) of
        Inl e \<Rightarrow> Inl (ErrStore e)
      | Inr b1 \<Rightarrow>
          let b2 = foldl (\<lambda>b tx. batch_Delete b (txIndexKey (tx_Hash E tx))) b1 (blk_txs blk);
              b3 = batch_Delete b2 (canonicalKey (blk_height blk))
          in unwind E d b3 rest)"

text \<open>Replay the added blocks, oldest first, from the states kept when they were validated.\<close>

fun replay :: "crypto \<Rightarrow> blockchain \<Rightarrow> block \<Rightarrow> world \<Rightarrow> stored batch \<Rightarrow> block list \<Rightarrow> chain_error + stored batch" where
  "replay E bc newHead newState batch [] = Inr batch"
| "replay E bc newHead newState batch (blk # rest) =
     (case (if block_Hash E blk = block_Hash E newHead then Some newState else ch_states bc (block_Hash E blk)) of
        None \<Rightarrow> Inl ErrPrunedState
      | Some st \<Rightarrow>
          (case ch_states bc (blk_parent blk) of
             None \<Rightarrow> Inl ErrPrunedState
           | Some prev \<Rightarrow>
               let b1 = writeAccountChanges E batch blk st prev (Touched st);
                   b2 = putHash b1 (canonicalKey (blk_height blk)) (block_Hash E blk);
                   b3 = indexTxs E b2 blk
               in replay E bc newHead newState b3 rest))"

definition reorg ::
  "crypto \<Rightarrow> blockchain \<Rightarrow> block \<Rightarrow> receipt list \<Rightarrow> world \<Rightarrow> int \<Rightarrow> (chain_error + Reorg) \<times> blockchain" where
  "reorg E bc newHead receipts newState td =
     (case findFork E bc (ch_head bc) newHead of
        (Inl e, bc1) \<Rightarrow> (Inl e, bc1)
      | (Inr (dropped, added, ancestor), bc1) \<Rightarrow>
          if length dropped > ch_retention bc1 then (Inl ErrReorgTooDeep, bc1)
          else let b0 = putTD (writeBlock E [] newHead receipts) (block_Hash E newHead) td in
            case unwind E (ch_db bc1) b0 (rev dropped) of
              Inl e \<Rightarrow> (Inl e, bc1)
            | Inr b1 \<Rightarrow>
                (case replay E bc1 newHead newState b1 added of
                   Inl e \<Rightarrow> (Inl e, bc1)
                 | Inr b2 \<Rightarrow>
                     let b3 = putHash b2 keyHead (block_Hash E newHead);
                         b4 = putBigInt b3 keyBurned (w_burned newState)
                     in (Inr \<lparr>ro_CommonAncestor = ancestor, ro_Dropped = dropped, ro_Added = added\<rparr>,
                         adopt E bc1 b4 newHead newState)))"

section \<open>Inserting a block\<close>

definition sanity_error :: "crypto \<Rightarrow> nat \<Rightarrow> tx list \<Rightarrow> tx_error option" where
  "sanity_error E chainID txs =
     foldr (\<lambda>tx rest. case tx_SanityCheck E tx chainID of Inl e \<Rightarrow> Some e | Inr _ \<Rightarrow> rest) txs None"

text \<open>The checks before execution: the parent block, or the reason to refuse.\<close>

definition insert_guard :: "crypto \<Rightarrow> int \<Rightarrow> blockchain \<Rightarrow> block \<Rightarrow> (chain_error + block) \<times> blockchain" where
  "insert_guard E nowMs bc b =
     (let h = block_Hash E b in
      if mem_Has (ch_db bc) (blockKey h) \<or> ch_blockCache bc h \<noteq> None then (Inl ErrKnownBlock, bc)
      else case blockLocked E bc (blk_parent b) of
        (Inl e, bc1) \<Rightarrow> (Inl ErrUnknownParent, bc1)
      | (Inr parent, bc1) \<Rightarrow>
          if hd_timestamp (blk_header b) > wrap_int64 (nowMs + MaxFutureDriftMs) then (Inl ErrFutureBlock, bc1)
          else case requiredDifficultyLocked E bc1 (blk_header parent) of
            (None, bc2) \<Rightarrow> (Inl ErrPanic, bc2)
          | (Some want, bc2) \<Rightarrow>
              if hd_difficulty (blk_header b) \<noteq> want then (Inl (ErrPow ErrBadDifficulty), bc2)
              else if \<not> satisfiesPoW E (blk_header b) then (Inl (ErrPow ErrBadPoW), bc2)
              else if \<not> VerifyTxRoot E b then (Inl (ErrApply ErrBadTxRoot), bc2)
              else case sanity_error E (ch_chainID bc) (blk_txs b) of
                Some e \<Rightarrow> (Inl (ErrInvalidTx e), bc2)
              | None \<Rightarrow> (Inr parent, bc2))"

text \<open>A valid block that loses the fork choice: kept, with its state and work, head unmoved.\<close>

definition keep_side :: "crypto \<Rightarrow> blockchain \<Rightarrow> block \<Rightarrow> receipt list \<Rightarrow> world \<Rightarrow> int \<Rightarrow> blockchain" where
  "keep_side E bc b receipts newState td =
     (let batch = putTD (writeBlock E [] b receipts) (block_Hash E b) td in
      bc\<lparr>ch_db := mem_Commit (ch_db bc) batch,
         ch_blockCache := (ch_blockCache bc)(block_Hash E b \<mapsto> b),
         ch_states := (ch_states bc)(block_Hash E b \<mapsto> newState)\<rparr>)"

text \<open>The fork choice and the three ways a validated block is stored.\<close>

definition place :: "crypto \<Rightarrow> blockchain \<Rightarrow> block \<Rightarrow> block \<Rightarrow> receipt list \<Rightarrow> world \<Rightarrow>
    (chain_error + Reorg option) \<times> blockchain" where
  "place E bc parent b receipts newState =
     (case getTD (ch_db bc) (block_Hash E parent) of
        Inl e \<Rightarrow> (Inl (ErrStore e), bc)
      | Inr parentTD \<Rightarrow>
          let td = parentTD + int (hd_difficulty (blk_header b)) in
          case getTD (ch_db bc) (block_Hash E (ch_head bc)) of
            Inl e \<Rightarrow> (Inl (ErrStore e), bc)
          | Inr headTD \<Rightarrow>
              if \<not> Better E \<lparr>tip_header = blk_header b, tip_td = td\<rparr>
                    \<lparr>tip_header = blk_header (ch_head bc), tip_td = headTD\<rparr>
              then (Inr None, keep_side E bc b receipts newState td)
              else if blk_parent b = block_Hash E (ch_head bc)
              then (case extend E bc b receipts newState (Touched newState) td of
                  (Inl e, bc1) \<Rightarrow> (Inl e, bc1)
                | (Inr _, bc1) \<Rightarrow> (Inr None, bc1))
              else (case reorg E bc b receipts newState td of
                  (Inl e, bc1) \<Rightarrow> (Inl e, bc1)
                | (Inr r, bc1) \<Rightarrow> (Inr (Some r), bc1)))"

definition insert_block :: "crypto \<Rightarrow> int \<Rightarrow> blockchain \<Rightarrow> block \<Rightarrow> (chain_error + Reorg option) \<times> blockchain" where
  "insert_block E nowMs bc b =
     (case insert_guard E nowMs bc b of
        (Inl e, bc1) \<Rightarrow> (Inl e, bc1)
      | (Inr parent, bc1) \<Rightarrow>
          (case ch_states bc1 (block_Hash E parent) of
             None \<Rightarrow> (Inl ErrReorgTooDeep, bc1)
           | Some parentState \<Rightarrow>
               (case ApplyBlock E (ch_rewards bc1) parentState b (Some (blk_header parent)) of
                  Inl e \<Rightarrow> (Inl (ErrApply e), bc1)
                | Inr (newState, receipts) \<Rightarrow> place E bc1 parent b receipts newState)))"

text \<open>\<^verbatim>\<open>InsertBlock\<close>: the reorg, if any, is what the hook is called with.\<close>

definition InsertBlock :: "crypto \<Rightarrow> int \<Rightarrow> blockchain \<Rightarrow> block \<Rightarrow> chain_error option \<times> Reorg option \<times> blockchain" where
  "InsertBlock E nowMs bc b =
     (case insert_block E nowMs bc b of
        (Inl e, bc1) \<Rightarrow> (Some e, None, bc1)
      | (Inr r, bc1) \<Rightarrow> (None, r, bc1))"

section \<open>Opening a database\<close>

definition put_alloc :: "world \<Rightarrow> stored batch \<Rightarrow> address \<times> int option \<Rightarrow> stored batch" where
  "put_alloc w b = (\<lambda>(a, _). batch_Put b (accountKey a) (JAccount (world_Get w a)))"

definition initialise :: "crypto \<Rightarrow> blockchain \<Rightarrow> genesis \<Rightarrow> chain_error + blockchain" where
  "initialise E bc g =
     (case genesis_Build E g of
        None \<Rightarrow> Inl ErrPanic
      | Some (w, blk) \<Rightarrow>
          let h = block_Hash E blk;
              b0 = putUint64 [] keySchema schemaVersion;
              b1 = putUint64 b0 keyChainID (g_ChainID g);
              b2 = putHash b1 keyGenesis h;
              b3 = writeBlock E b2 blk [];
              b4 = putHash b3 (canonicalKey 0) h;
              b5 = putTD b4 h (int (hd_difficulty (blk_header blk)));
              w1 = ClearTouched w;
              b6 = foldl (put_alloc w1) b5 (g_Alloc g);
              b7 = batch_Put b6 (revDiffKey h) (JDiff \<lparr>sd_Entries = [], sd_BurnDelta = None\<rparr>);
              b8 = putHash b7 keyHead h
          in Inr (bc\<lparr>ch_db := mem_Commit (ch_db bc) b8, ch_head := blk,
               ch_blockCache := (ch_blockCache bc)(h \<mapsto> blk), ch_states := (ch_states bc)(h \<mapsto> w1)\<rparr>))"

definition restore_entry :: "world \<Rightarrow> storedDiffEntry \<Rightarrow> world" where
  "restore_entry w e =
     (if \<not> de_Existed e then RestoreAccount w (de_Address e) 0 None Map.empty []
      else RestoreAccount w (de_Address e) (de_Nonce e) (de_Balance e) (de_Storage e) (de_Code e))"

text \<open>One parent back from \<open>cur\<close>, the state of a block whose reverse diff is \<open>diff\<close>.\<close>

definition step_back :: "world \<Rightarrow> storedDiff \<Rightarrow> world" where
  "step_back cur diff =
     (let p = foldl restore_entry (world_Copy cur) (sd_Entries diff);
          p1 = (case sd_BurnDelta diff of None \<Rightarrow> p | Some d \<Rightarrow> SetBurned p (Some (w_burned cur - d)))
      in ClearTouched p1)"

text \<open>The first argument counts down the retention window.\<close>

fun rebuildWindow :: "crypto \<Rightarrow> nat \<Rightarrow> blockchain \<Rightarrow> block \<Rightarrow> world \<Rightarrow> blockchain" where
  "rebuildWindow E 0 bc curBlock cur = bc"
| "rebuildWindow E (Suc n) bc curBlock cur =
     (if blk_height curBlock = 0 then bc
      else case loadStoredDiff (ch_db bc) (block_Hash E curBlock) of
        Inl e \<Rightarrow> bc
      | Inr diff \<Rightarrow>
          (case loadBlock E (ch_db bc) (blk_parent curBlock) of
             Inl e \<Rightarrow> bc
           | Inr parentBlock \<Rightarrow>
               let parent = step_back cur diff in
               if world_Root E parent \<noteq> hd_stateroot (blk_header parentBlock) then bc
               else rebuildWindow E n
                 (bc\<lparr>ch_states := (ch_states bc)(block_Hash E parentBlock \<mapsto> parent),
                     ch_blockCache := (ch_blockCache bc)(block_Hash E parentBlock \<mapsto> parentBlock)\<rparr>)
                 parentBlock parent))"

definition resume :: "crypto \<Rightarrow> blockchain \<Rightarrow> chain_error + blockchain" where
  "resume E bc =
     (let d = ch_db bc in
      case getUint64 d keySchema of Inl e \<Rightarrow> Inl (ErrStore e) | Inr version \<Rightarrow>
      if version \<noteq> schemaVersion then Inl ErrSchemaVersion else
      case getHash d keyGenesis of Inl e \<Rightarrow> Inl (ErrStore e) | Inr storedGenesis \<Rightarrow>
      if storedGenesis \<noteq> ch_genesis bc then Inl ErrWrongChain else
      case getUint64 d keyChainID of Inl e \<Rightarrow> Inl (ErrStore e) | Inr storedChainID \<Rightarrow>
      if storedChainID \<noteq> ch_chainID bc then Inl ErrWrongChain else
      case getHash d keyHead of Inl e \<Rightarrow> Inl (ErrStore e) | Inr headHash \<Rightarrow>
      case loadBlock E d headHash of Inl e \<Rightarrow> Inl (ErrStore e) | Inr head \<Rightarrow>
      case loadState d of Inl e \<Rightarrow> Inl (ErrStore e) | Inr st0 \<Rightarrow>
      case getBigInt d keyBurned of Inl e \<Rightarrow> Inl (ErrStore e) | Inr burned \<Rightarrow>
      let st = SetBurned st0 (Some burned) in
      if world_Root E st \<noteq> hd_stateroot (blk_header head) then Inl ErrInconsistentState
      else Inr (rebuildWindow E (ch_retention bc)
        (bc\<lparr>ch_head := head, ch_blockCache := (ch_blockCache bc)(headHash \<mapsto> head),
            ch_states := (ch_states bc)(headHash \<mapsto> st)\<rparr>) head st))"

text \<open>The record before \<^verbatim>\<open>resume\<close> or \<^verbatim>\<open>initialise\<close> fill it; its head is nil in Go and read by neither.\<close>

definition open_chain :: "crypto \<Rightarrow> db \<Rightarrow> genesis \<Rightarrow> nat \<Rightarrow> world \<Rightarrow> block \<Rightarrow> blockchain" where
  "open_chain E d g retention w blk =
     \<lparr>ch_db = d, ch_chainID = g_ChainID g, ch_genesis = block_Hash E blk,
      ch_genesisDifficulty = hd_difficulty (blk_header blk),
      ch_retention = (if retention = 0 then DefaultRetention else retention),
      ch_genesisSupply = SumBalances w, ch_rewards = genesis_rewards g, ch_blockCache = Map.empty,
      ch_states = Map.empty, ch_head = blk\<rparr>"

definition NewBlockchain :: "crypto \<Rightarrow> db \<Rightarrow> genesis \<Rightarrow> nat \<Rightarrow> chain_error + blockchain" where
  "NewBlockchain E d g retention =
     (case genesis_Validate g of
        Inl e \<Rightarrow> Inl (ErrGenesis e)
      | Inr _ \<Rightarrow>
          (case genesis_Build E g of
             None \<Rightarrow> Inl ErrPanic
           | Some (w, blk) \<Rightarrow>
               let bc = open_chain E d g retention w blk in
               if mem_Has d keyHead then resume E bc else initialise E bc g))"

section \<open>The read side\<close>

definition head_state :: "crypto \<Rightarrow> blockchain \<Rightarrow> world option" where
  "head_state E bc = ch_states bc (block_Hash E (ch_head bc))"

definition StateSnapshot :: "crypto \<Rightarrow> blockchain \<Rightarrow> world option" where
  "StateSnapshot E bc = map_option world_Copy (head_state E bc)"

definition BalanceAt :: "crypto \<Rightarrow> blockchain \<Rightarrow> address \<Rightarrow> int option" where
  "BalanceAt E bc a = map_option (\<lambda>w. GetBalance w a) (head_state E bc)"

definition NonceAt :: "crypto \<Rightarrow> blockchain \<Rightarrow> address \<Rightarrow> nat option" where
  "NonceAt E bc a = map_option (\<lambda>w. GetNonce w a) (head_state E bc)"

definition CodeAt :: "crypto \<Rightarrow> blockchain \<Rightarrow> address \<Rightarrow> bytes option" where
  "CodeAt E bc a = map_option (\<lambda>w. GetCode w a) (head_state E bc)"

definition StorageAt :: "crypto \<Rightarrow> blockchain \<Rightarrow> address \<Rightarrow> hash \<Rightarrow> hash option" where
  "StorageAt E bc a key = map_option (\<lambda>w. GetStorage w a key) (head_state E bc)"

definition chain_Conserves :: "crypto \<Rightarrow> blockchain \<Rightarrow> bool option" where
  "chain_Conserves E bc = map_option (CheckConservation (ch_genesisSupply bc) (blk_height (ch_head bc))) (head_state E bc)"

definition chain_Call :: "crypto \<Rightarrow> blockchain \<Rightarrow> address \<Rightarrow> address \<Rightarrow> bytes \<Rightarrow> nat \<Rightarrow> (bytes \<times> vm_error option) option" where
  "chain_Call E bc from to data gas = map_option (\<lambda>w. fst (state_Call E w from to data gas)) (StateSnapshot E bc)"

definition chain_EstimateGas ::
  "crypto \<Rightarrow> blockchain \<Rightarrow> address \<Rightarrow> address option \<Rightarrow> bytes \<Rightarrow> int option \<Rightarrow> (call_error + nat) option" where
  "chain_EstimateGas E bc from to data val =
     map_option (\<lambda>w. fst (EstimateGas E w from to data val 30000000)) (StateSnapshot E bc)"

definition StateAt :: "crypto \<Rightarrow> blockchain \<Rightarrow> hash \<Rightarrow> (chain_error + world) \<times> blockchain" where
  "StateAt E bc h =
     (case ch_states bc h of
        Some w \<Rightarrow> (Inr (world_Copy w), bc)
      | None \<Rightarrow>
          (case blockLocked E bc h of
             (Inr b, bc1) \<Rightarrow> (Inl ErrPrunedState, bc1)
           | (Inl e, bc1) \<Rightarrow> (Inl ErrUnknownBlock, bc1)))"

definition HasBlock :: "blockchain \<Rightarrow> hash \<Rightarrow> bool" where
  "HasBlock bc h \<longleftrightarrow> ch_blockCache bc h \<noteq> None \<or> mem_Has (ch_db bc) (blockKey h)"

definition BlockByHash :: "crypto \<Rightarrow> blockchain \<Rightarrow> hash \<Rightarrow> (chain_error + block) \<times> blockchain" where
  "BlockByHash E bc h = blockLocked E bc h"

definition RequiredDifficulty :: "crypto \<Rightarrow> blockchain \<Rightarrow> header \<Rightarrow> nat option \<times> blockchain" where
  "RequiredDifficulty E bc parent = requiredDifficultyLocked E bc parent"

definition BlockByHeight :: "crypto \<Rightarrow> blockchain \<Rightarrow> nat \<Rightarrow> (chain_error + block) \<times> blockchain" where
  "BlockByHeight E bc n =
     (case getHash (ch_db bc) (canonicalKey n) of
        Inl e \<Rightarrow> (Inl (if e = ErrNotFound then ErrUnknownBlock else ErrStore e), bc)
      | Inr h \<Rightarrow> blockLocked E bc h)"

definition IsCanonical :: "crypto \<Rightarrow> blockchain \<Rightarrow> hash \<Rightarrow> bool \<times> blockchain" where
  "IsCanonical E bc h =
     (case blockLocked E bc h of
        (Inl e, bc1) \<Rightarrow> (False, bc1)
      | (Inr b, bc1) \<Rightarrow> (getHash (ch_db bc1) (canonicalKey (blk_height b)) = Inr h, bc1))"

definition tx_location :: "blockchain \<Rightarrow> hash \<Rightarrow> chain_error + TxLocation" where
  "tx_location bc h =
     (case db_Get (ch_db bc) (txIndexKey h) of
        Inl e \<Rightarrow> Inl (if e = ErrNotFound then ErrUnknownTx else ErrStore e)
      | Inr (JTxLoc loc) \<Rightarrow> Inr loc
      | Inr _ \<Rightarrow> Inl (ErrStore ErrDecode))"

definition TxByHash :: "crypto \<Rightarrow> blockchain \<Rightarrow> hash \<Rightarrow> (chain_error + tx \<times> TxLocation) \<times> blockchain" where
  "TxByHash E bc h =
     (case tx_location bc h of
        Inl e \<Rightarrow> (Inl e, bc)
      | Inr loc \<Rightarrow>
          (case blockLocked E bc (tl_BlockHash loc) of
             (Inl e, bc1) \<Rightarrow> (Inl e, bc1)
           | (Inr blk, bc1) \<Rightarrow>
               if tl_Index loc \<ge> length (blk_txs blk) then (Inl ErrUnknownTx, bc1)
               else (Inr (blk_txs blk ! tl_Index loc, loc), bc1)))"

definition ReceiptsByHeight :: "crypto \<Rightarrow> blockchain \<Rightarrow> nat \<Rightarrow> (chain_error + receipt list \<times> block) \<times> blockchain" where
  "ReceiptsByHeight E bc n =
     (case BlockByHeight E bc n of
        (Inl e, bc1) \<Rightarrow> (Inl e, bc1)
      | (Inr blk, bc1) \<Rightarrow>
          (case loadReceipts (ch_db bc1) (block_Hash E blk) of
             Inl e \<Rightarrow> (Inl (ErrStore e), bc1)
           | Inr rs \<Rightarrow> (Inr (rs, blk), bc1)))"

definition ReceiptByTxHash :: "blockchain \<Rightarrow> hash \<Rightarrow> chain_error + receipt \<times> TxLocation" where
  "ReceiptByTxHash bc h =
     (case tx_location bc h of
        Inl e \<Rightarrow> Inl e
      | Inr loc \<Rightarrow>
          (case loadReceipts (ch_db bc) (tl_BlockHash loc) of
             Inl e \<Rightarrow> Inl ErrUnknownTx
           | Inr rs \<Rightarrow>
               if tl_Index loc \<ge> length rs then Inl ErrUnknownTx else Inr (rs ! tl_Index loc, loc)))"

definition chain_Close :: "blockchain \<Rightarrow> blockchain" where
  "chain_Close bc = bc\<lparr>ch_db := mem_Close (ch_db bc)\<rparr>"

definition StateCount :: "blockchain \<Rightarrow> nat" where
  "StateCount bc = card (dom (ch_states bc))"

end
