(* ===== verification/Blockchain_Laws.thy ===== *)
theory Blockchain_Laws
  imports Blockchain
begin

text \<open>
  What the block tree keeps true.  The block cache mirrors the block table; the states in memory are those
  the blocks were accepted with; the account table on disk is the state of the head; and the reverse
  diffs of the canonical chain lead back to genesis.
\<close>

section \<open>Writes through a batch\<close>

lemma commit_simps [simp]:
  "mem_Commit d [] = d"
  "mem_Commit d (batch_Put b k v) = mem_Put (mem_Commit d b) k v"
  "mem_Commit d (batch_Delete b k) = mem_Delete (mem_Commit d b) k"
  by (simp_all add: batch_Put_def batch_Delete_def mem.commit_nil mem.commit_append mem.commit_put mem.commit_delete)

lemmas get_simps = mem.get_put mem.get_delete

lemma get_accounts_written:
  "mem_Get (mem_Commit d (foldl (write_account w) b as)) (accountKey a) =
     (if a \<in> set as then map_option JAccount (w_accounts w a) else mem_Get (mem_Commit d b) (accountKey a))"
  "fst (key_tag k) \<noteq> 0x61 \<Longrightarrow> mem_Get (mem_Commit d (foldl (write_account w) b as)) k = mem_Get (mem_Commit d b) k"
  by (simp_all add: write_accounts mem.commit_append mem.get_commit written_accounts written_accounts_other)

definition diff_of :: "world \<Rightarrow> world \<Rightarrow> storedDiff" where
  "diff_of prev next =
     \<lparr>sd_Entries = map (diff_entry prev) (Touched next), sd_BurnDelta = Some (w_burned next - w_burned prev)\<rparr>"

lemma get_changes_written:
  "mem_Get (mem_Commit d (writeAccountChanges E b blk w prev as)) (accountKey a) =
     (if a \<in> set as then map_option JAccount (w_accounts w a) else mem_Get (mem_Commit d b) (accountKey a))"
  "mem_Get (mem_Commit d (writeAccountChanges E b blk w prev (Touched w))) (revDiffKey (block_Hash E blk)) =
     Some (JDiff (diff_of prev w))"
  "fst (key_tag k) \<noteq> 0x61 \<Longrightarrow> k \<noteq> revDiffKey (block_Hash E blk) \<Longrightarrow>
    mem_Get (mem_Commit d (writeAccountChanges E b blk w prev as)) k = mem_Get (mem_Commit d b) k"
  by (simp_all add: writeAccountChanges_def get_simps get_accounts_written apart diff_of_def)

lemma get_indexed:
  "fst (key_tag k) \<noteq> 0x74 \<Longrightarrow> mem_Get (mem_Commit d (index_from E b blk i txs)) k = mem_Get (mem_Commit d b) k"
proof (induction txs arbitrary: b i)
  case (Cons tx txs)
  have "k \<noteq> txIndexKey (tx_Hash E tx)" using Cons.prems by auto
  then show ?case using Cons by (simp add: get_simps)
qed simp

lemma get_unindexed:
  "fst (key_tag k) \<noteq> 0x74 \<Longrightarrow>
    mem_Get (mem_Commit d (foldl (\<lambda>b tx. batch_Delete b (txIndexKey (tx_Hash E tx))) b txs)) k = mem_Get (mem_Commit d b) k"
proof (induction txs arbitrary: b)
  case (Cons tx txs)
  have "k \<noteq> txIndexKey (tx_Hash E tx)" using Cons.prems by auto
  then show ?case using Cons by (simp add: get_simps)
qed simp

lemmas put_defs = putHash_def putTD_def putBigInt_def putUint64_def writeBlock_def

section \<open>Reading fills the cache and changes nothing else\<close>

definition stored_block :: "crypto \<Rightarrow> db \<Rightarrow> hash \<Rightarrow> block \<Rightarrow> bool" where
  "stored_block E d h b \<longleftrightarrow> mem_Get d (blockKey h) = Some (JBlock b) \<and> block_Hash E b = h"

lemma stored_block_unique: "stored_block E d h b \<Longrightarrow> stored_block E d h c \<Longrightarrow> b = c"
  by (simp add: stored_block_def)

lemma loadBlock_stored: "loadBlock E d h = Inr b \<longleftrightarrow> stored_block E d h b"
  by (auto simp: loadBlock_def db_Get_def stored_block_def split: option.split stored.split)

definition cache_ok :: "crypto \<Rightarrow> blockchain \<Rightarrow> bool" where
  "cache_ok E bc \<longleftrightarrow> (\<forall>h b. ch_blockCache bc h = Some b \<longrightarrow> stored_block E (ch_db bc) h b)"

definition recached :: "crypto \<Rightarrow> blockchain \<Rightarrow> blockchain \<Rightarrow> bool" where
  "recached E bc bc' \<longleftrightarrow> cache_ok E bc \<longrightarrow>
     cache_ok E bc' \<and> ch_blockCache bc \<subseteq>\<^sub>m ch_blockCache bc' \<and> bc' = bc\<lparr>ch_blockCache := ch_blockCache bc'\<rparr>"

lemma recached_refl [simp, intro]: "recached E bc bc"
  by (simp add: recached_def)

lemma recached_trans: "recached E a b \<Longrightarrow> recached E b c \<Longrightarrow> recached E a c"
  unfolding recached_def by (metis (no_types, lifting) blockchain.surjective blockchain.update_convs(8) map_le_trans)

lemma recached_fields:
  assumes "recached E bc bc'" and "cache_ok E bc"
  shows "cache_ok E bc'" "ch_db bc' = ch_db bc" "ch_states bc' = ch_states bc" "ch_head bc' = ch_head bc"
    "ch_retention bc' = ch_retention bc" "ch_rewards bc' = ch_rewards bc" "ch_chainID bc' = ch_chainID bc"
    "ch_genesis bc' = ch_genesis bc" "ch_genesisDifficulty bc' = ch_genesisDifficulty bc"
    "ch_genesisSupply bc' = ch_genesisSupply bc" "ch_blockCache bc h = Some b \<Longrightarrow> ch_blockCache bc' h = Some b"
proof -
  have r: "cache_ok E bc'" "ch_blockCache bc \<subseteq>\<^sub>m ch_blockCache bc'" "bc' = bc\<lparr>ch_blockCache := ch_blockCache bc'\<rparr>"
    using assms by (auto simp: recached_def)
  show "cache_ok E bc'" by (rule r)
  show "ch_db bc' = ch_db bc" "ch_states bc' = ch_states bc" "ch_head bc' = ch_head bc"
    "ch_retention bc' = ch_retention bc" "ch_rewards bc' = ch_rewards bc" "ch_chainID bc' = ch_chainID bc"
    "ch_genesis bc' = ch_genesis bc" "ch_genesisDifficulty bc' = ch_genesisDifficulty bc"
    "ch_genesisSupply bc' = ch_genesisSupply bc"
    by (subst r(3), simp)+
  show "ch_blockCache bc h = Some b \<Longrightarrow> ch_blockCache bc' h = Some b" using r(2) by (metis domI map_le_def)
qed

lemma recached_blockLocked: "recached E bc (snd (blockLocked E bc h))"
  by (auto simp: recached_def blockLocked_def cache_ok_def loadBlock_stored map_le_def split: option.split sum.split)

lemma blockLocked_stored:
  assumes "cache_ok E bc"
  shows "fst (blockLocked E bc h) = Inr b \<longleftrightarrow> stored_block E (ch_db bc) h b"
proof (cases "ch_blockCache bc h")
  case None
  then show ?thesis
    using loadBlock_stored [of E "ch_db bc" h b] by (auto simp: blockLocked_def split: sum.split)
next
  case (Some c)
  then have "stored_block E (ch_db bc) h c" using assms by (simp add: cache_ok_def)
  then show ?thesis using Some stored_block_unique by (auto simp: blockLocked_def)
qed

lemma recached_parentOf: "recached E bc (snd (parentOf E bc b))"
  using recached_blockLocked [of E bc "blk_parent b"] by (auto simp: parentOf_def split: prod.split sum.split)

lemma parentOf_stored:
  "cache_ok E bc \<Longrightarrow> fst (parentOf E bc b) = Inr p \<longleftrightarrow> stored_block E (ch_db bc) (blk_parent b) p"
  using blockLocked_stored [of E bc "blk_parent b" p] by (auto simp: parentOf_def split: prod.split sum.split)

lemma recached_lwma_walk: "recached E bc (snd (lwma_walk E n bc cur acc))"
proof (induction n arbitrary: bc cur acc)
  case (Suc n)
  show ?case
    using recached_blockLocked [of E bc "hd_parent cur"] Suc.IH
    by (auto split: prod.split sum.split intro: recached_trans)
qed simp

lemma recached_requiredDifficulty: "recached E bc (snd (requiredDifficultyLocked E bc p))"
proof -
  have "recached E bc (snd (lwma_walk E n bc p [p]))" for n by (rule recached_lwma_walk)
  then show ?thesis
    by (auto simp: requiredDifficultyLocked_def Let_def split: prod.split option.split) (metis snd_conv)+
qed

lemma recached_climb: "recached E bc (snd (climb E n bc a t acc))"
proof (induction n arbitrary: bc a acc)
  case (Suc n)
  show ?case
    using recached_parentOf [of E bc a] Suc.IH by (auto split: prod.split sum.split intro: recached_trans)
qed simp

lemma recached_meet: "recached E bc (snd (meet E n bc a b ds as))"
proof (induction n arbitrary: bc a b ds as)
  case (Suc n)
  obtain ra bc1 where a: "parentOf E bc a = (ra, bc1)" by fastforce
  obtain rb bc2 where b: "parentOf E bc1 b = (rb, bc2)" by fastforce
  have "recached E bc bc1" "recached E bc1 bc2"
    using recached_parentOf [of E bc a] recached_parentOf [of E bc1 b] a b by simp_all
  then show ?case using Suc.IH [of bc2] a b by (auto split: sum.split intro: recached_trans)
qed simp

lemma recached_findFork: "recached E bc (snd (findFork E bc a b))"
proof -
  obtain r bc1 where 1: "climb E (blk_height a + 1) bc a (blk_height b) [] = (r, bc1)" by fastforce
  have r1: "recached E bc bc1" using recached_climb [of E bc "blk_height a + 1" a "blk_height b" "[]"] 1 by simp
  show ?thesis
  proof (cases r)
    case (Inl e)
    then show ?thesis using r1 1 by (simp add: findFork_def del: climb.simps)
  next
    case (Inr p)
    obtain a' ds where p: "p = (a', ds)" by fastforce
    obtain q bc2 where 2: "climb E (blk_height b + 1) bc1 b (blk_height a') [] = (q, bc2)" by fastforce
    have r2: "recached E bc bc2"
      using recached_climb [of E bc1 "blk_height b + 1" b "blk_height a'" "[]"] 2 recached_trans [OF r1] by simp
    show ?thesis
      using 1 2 Inr p r2 recached_trans [OF r2 recached_meet]
      by (cases q) (auto simp: findFork_def simp del: climb.simps meet.simps)
  qed
qed

lemma recached_insert_guard: "recached E bc (snd (insert_guard E now bc b))"
proof -
  obtain r bc1 where 1: "blockLocked E bc (blk_parent b) = (r, bc1)" by fastforce
  have r1: "recached E bc bc1" using recached_blockLocked [of E bc "blk_parent b"] 1 by simp
  have "recached E bc bc2" if "requiredDifficultyLocked E bc1 p = (q, bc2)" for p q bc2
    using recached_requiredDifficulty [of E bc1 p] that r1 recached_trans by fastforce
  then show ?thesis
    using r1 1 by (auto simp: insert_guard_def Let_def split: sum.split prod.split option.split)
qed

end
