(* ===== verification/Blockchain_Inv.thy ===== *)
theory Blockchain_Inv
  imports Blockchain_Laws
begin

text \<open>
  The invariant of the block tree.  \<open>S\<close> gives every block the state it was accepted with, also for blocks
  whose state is pruned, and \<open>L\<close> is the height below which states and orphans may be gone.
\<close>

section \<open>The canonical chain on disk\<close>

definition canon_at :: "db \<Rightarrow> hash \<Rightarrow> nat \<Rightarrow> bool" where
  "canon_at d h n \<longleftrightarrow> mem_Get d (canonicalKey n) = Some (Raw (hash_bytes h))"

text \<open>A block changed only what it touched.\<close>

definition changes :: "world \<Rightarrow> world \<Rightarrow> bool" where
  "changes prev w \<longleftrightarrow> world_ok prev \<and> world_ok w \<and> finite (w_touched w) \<and>
     (\<forall>a. a \<notin> w_touched w \<longrightarrow> w_accounts w a = w_accounts prev a)"

text \<open>Two states with the same accounts and burn total.\<close>

definition agrees :: "world \<Rightarrow> world \<Rightarrow> bool" where
  "agrees v w \<longleftrightarrow> w_accounts v = w_accounts w \<and> w_burned v = w_burned w"

lemma agrees_refl [simp, intro]: "agrees w w"
  by (simp add: agrees_def)

lemma agrees_chain: "agrees v w \<Longrightarrow> chain E g h w \<Longrightarrow> chain E g h v"
  by (auto simp: agrees_def intro: chain.chain_reload)

text \<open>The state of a block follows from genesis by valid blocks; in particular the header commits to it.\<close>

definition rooted :: "crypto \<Rightarrow> genesis \<Rightarrow> (hash \<Rightarrow> world) \<Rightarrow> block \<Rightarrow> bool" where
  "rooted E g S b \<longleftrightarrow> chain E g (blk_header b) (S (block_Hash E b))"

lemma rooted_Root: "rooted E g S b \<Longrightarrow> world_Root E (S (block_Hash E b)) = hd_stateroot (blk_header b)"
  using chain_invariant by (auto simp: rooted_def)

inductive canon :: "crypto \<Rightarrow> genesis \<Rightarrow> hash \<Rightarrow> db \<Rightarrow> (hash \<Rightarrow> world) \<Rightarrow> block \<Rightarrow> bool" for E g gh d S where
  canon_genesis: "stored_block E d gh b \<Longrightarrow> blk_height b = 0 \<Longrightarrow> canon_at d gh 0 \<Longrightarrow> rooted E g S b \<Longrightarrow>
    canon E g gh d S b"
| canon_next: "canon E g gh d S p \<Longrightarrow> stored_block E d (block_Hash E b) b \<Longrightarrow> blk_parent b = block_Hash E p \<Longrightarrow>
    blk_height b = Suc (blk_height p) \<Longrightarrow> blk_height b < 2 ^ 64 \<Longrightarrow> canon_at d (block_Hash E b) (blk_height b) \<Longrightarrow>
    mem_Get d (revDiffKey (block_Hash E b)) = Some (JDiff (diff_of (S (block_Hash E p)) (S (block_Hash E b)))) \<Longrightarrow>
    changes (S (block_Hash E p)) (S (block_Hash E b)) \<Longrightarrow> rooted E g S b \<Longrightarrow> canon E g gh d S b"

lemma canon_stored: "canon E g gh d S b \<Longrightarrow> stored_block E d (block_Hash E b) b"
  by (induction rule: canon.induct) (auto simp: stored_block_def)

lemma canon_height: "canon E g gh d S b \<Longrightarrow> blk_height b < 2 ^ 64"
  by (induction rule: canon.induct) auto

lemma canon_rooted: "canon E g gh d S b \<Longrightarrow> rooted E g S b"
  by (induction rule: canon.induct) auto

lemma canon_canon_at: "canon E g gh d S b \<Longrightarrow> canon_at d (block_Hash E b) (blk_height b)"
  by (induction rule: canon.induct) (auto simp: stored_block_def)

text \<open>The canonical chain below a block survives writes that spare its records.\<close>

lemma canon_frame:
  assumes "canon E g gh d S b"
    and "\<And>k c. stored_block E d k c \<Longrightarrow> blk_height c \<le> blk_height b \<Longrightarrow> canon_at d k (blk_height c) \<Longrightarrow>
      stored_block E d' k c \<and> canon_at d' k (blk_height c) \<and>
      mem_Get d' (revDiffKey k) = mem_Get d (revDiffKey k) \<and> S' k = S k"
  shows "canon E g gh d' S' b"
  using assms
proof (induction rule: canon.induct)
  case (canon_genesis b)
  have f: "stored_block E d' gh b" "canon_at d' gh 0" "S' gh = S gh"
    using canon_genesis.prems [OF canon_genesis.hyps(1)] canon_genesis.hyps(2,3) by simp_all
  then have "rooted E g S' b" using canon_genesis.hyps(1,4) by (simp add: rooted_def stored_block_def)
  then show ?case using f canon_genesis.hyps(2) by (intro canon.canon_genesis)
next
  case (canon_next p b)
  have p: "canon E g gh d' S' p"
  proof (rule canon_next.IH)
    fix k c
    assume "stored_block E d k c" "blk_height c \<le> blk_height p" "canon_at d k (blk_height c)"
    then show "stored_block E d' k c \<and> canon_at d' k (blk_height c) \<and>
        mem_Get d' (revDiffKey k) = mem_Get d (revDiffKey k) \<and> S' k = S k"
      using canon_next.prems [of k c] canon_next.hyps(4) by simp
  qed
  have fb: "stored_block E d' (block_Hash E b) b \<and> canon_at d' (block_Hash E b) (blk_height b) \<and>
      mem_Get d' (revDiffKey (block_Hash E b)) = mem_Get d (revDiffKey (block_Hash E b)) \<and>
      S' (block_Hash E b) = S (block_Hash E b)"
    using canon_next.prems [OF canon_next.hyps(2) _ canon_next.hyps(6)] by simp
  have fp: "S' (block_Hash E p) = S (block_Hash E p)"
    using canon_next.prems [OF canon_stored [OF canon_next.hyps(1)] _ canon_canon_at [OF canon_next.hyps(1)]]
      canon_next.hyps(4) by simp
  show ?case
    using canon.canon_next [OF p] fb fp canon_next.hyps by (simp add: rooted_def)
qed

section \<open>The invariant\<close>

definition params_ok :: "crypto \<Rightarrow> genesis \<Rightarrow> blockchain \<Rightarrow> bool" where
  "params_ok E g bc \<longleftrightarrow> genesis_Validate g = Inr () \<and> ch_chainID bc = g_ChainID g \<and>
     ch_rewards bc = genesis_rewards g \<and> ch_genesisSupply bc = genesis_Supply g \<and> 0 < ch_retention bc \<and>
     (\<exists>w b. genesis_Build E g = Some (w, b) \<and> ch_genesis bc = block_Hash E b \<and>
        ch_genesisDifficulty bc = hd_difficulty (blk_header b))"

definition blocks_ok :: "crypto \<Rightarrow> db \<Rightarrow> bool" where
  "blocks_ok E d \<longleftrightarrow> (\<forall>h v. mem_Get d (blockKey h) = Some v \<longrightarrow>
     (\<exists>b. v = JBlock b \<and> block_Hash E b = h) \<and> (\<exists>t. getTD d h = Inr t))"

text \<open>A block in memory whose state is held.\<close>

definition held_ok :: "crypto \<Rightarrow> genesis \<Rightarrow> db \<Rightarrow> (hash \<Rightarrow> world) \<Rightarrow> nat \<Rightarrow> hash \<Rightarrow> block \<Rightarrow> bool" where
  "held_ok E g d S L h b \<longleftrightarrow> L \<le> blk_height b \<and> blk_height b < 2 ^ 64 \<and> chain E g (blk_header b) (S h) \<and>
     (L < blk_height b \<longrightarrow> (\<exists>p. stored_block E d (blk_parent b) p \<and> blk_height b = Suc (blk_height p) \<and>
        changes (S (blk_parent b)) (S h)))"

definition tree_ok :: "crypto \<Rightarrow> genesis \<Rightarrow> (hash \<Rightarrow> world) \<Rightarrow> nat \<Rightarrow> blockchain \<Rightarrow> bool" where
  "tree_ok E g S L bc \<longleftrightarrow> (\<forall>h w. ch_states bc h = Some w \<longrightarrow>
     w = S h \<and> (\<exists>b. ch_blockCache bc h = Some b \<and> held_ok E g (ch_db bc) S L h b))"

definition disk_ok :: "crypto \<Rightarrow> genesis \<Rightarrow> hash \<Rightarrow> db \<Rightarrow> hash \<Rightarrow> world \<Rightarrow> bool" where
  "disk_ok E g gh d hh w \<longleftrightarrow> accounts_ok d \<and> account_table d = w_accounts w \<and>
     mem_Get d keyHead = Some (Raw (hash_bytes hh)) \<and> getBigInt d keyBurned = Inr (w_burned w) \<and>
     mem_Get d keySchema = Some (Raw (be_fixed 8 schemaVersion)) \<and>
     mem_Get d keyGenesis = Some (Raw (hash_bytes gh)) \<and>
     mem_Get d keyChainID = Some (Raw (be_fixed 8 (g_ChainID g)))"

definition head_ok :: "crypto \<Rightarrow> genesis \<Rightarrow> hash \<Rightarrow> db \<Rightarrow> (hash \<Rightarrow> world) \<Rightarrow> block \<Rightarrow> bool" where
  "head_ok E g gh d S b0 \<longleftrightarrow> canon E g gh d S b0 \<and>
     (\<forall>n. blk_height b0 < n \<longrightarrow> n < 2 ^ 64 \<longrightarrow> mem_Get d (canonicalKey n) = None)"

text \<open>No stored block is preferred to the head.\<close>

definition best_ok :: "crypto \<Rightarrow> db \<Rightarrow> block \<Rightarrow> bool" where
  "best_ok E d b0 \<longleftrightarrow> (\<forall>h b t s. stored_block E d h b \<longrightarrow> getTD d h = Inr t \<longrightarrow>
     getTD d (block_Hash E b0) = Inr s \<longrightarrow>
     \<not> Better E \<lparr>tip_header = blk_header b, tip_td = t\<rparr> \<lparr>tip_header = blk_header b0, tip_td = s\<rparr>)"

definition chain_inv :: "crypto \<Rightarrow> genesis \<Rightarrow> (hash \<Rightarrow> world) \<Rightarrow> nat \<Rightarrow> blockchain \<Rightarrow> bool" where
  "chain_inv E g S L bc \<longleftrightarrow>
     params_ok E g bc \<and> cache_ok E bc \<and> blocks_ok E (ch_db bc) \<and> tree_ok E g S L bc \<and>
     ch_states bc (block_Hash E (ch_head bc)) = Some (S (block_Hash E (ch_head bc))) \<and>
     head_ok E g (ch_genesis bc) (ch_db bc) S (ch_head bc) \<and>
     disk_ok E g (ch_genesis bc) (ch_db bc) (block_Hash E (ch_head bc)) (S (block_Hash E (ch_head bc))) \<and>
     best_ok E (ch_db bc) (ch_head bc)"

lemma chain_invD:
  assumes "chain_inv E g S L bc"
  shows "params_ok E g bc" "cache_ok E bc" "blocks_ok E (ch_db bc)" "tree_ok E g S L bc"
    "ch_states bc (block_Hash E (ch_head bc)) = Some (S (block_Hash E (ch_head bc)))"
    "head_ok E g (ch_genesis bc) (ch_db bc) S (ch_head bc)"
    "disk_ok E g (ch_genesis bc) (ch_db bc) (block_Hash E (ch_head bc)) (S (block_Hash E (ch_head bc)))"
    "best_ok E (ch_db bc) (ch_head bc)"
  using assms by (simp_all add: chain_inv_def)

lemma tree_okD:
  assumes "tree_ok E g S L bc" and "ch_states bc h = Some w"
  obtains b where "w = S h" "ch_blockCache bc h = Some b" "held_ok E g (ch_db bc) S L h b"
  using assms unfolding tree_ok_def by blast

lemma inv_recached:
  assumes "recached E bc bc'" and "chain_inv E g S L bc"
  shows "chain_inv E g S L bc'"
proof -
  note f = recached_fields [OF assms(1) chain_invD(2) [OF assms(2)]]
  have "tree_ok E g S L bc'"
    using chain_invD(4) [OF assms(2)] f(11) unfolding tree_ok_def f by blast
  moreover have "params_ok E g bc'" using chain_invD(1) [OF assms(2)] by (simp add: params_ok_def f)
  ultimately show ?thesis using assms(2) f(1) unfolding chain_inv_def f by simp
qed

section \<open>Pruning\<close>

lemma gc_delete_get:
  "mem_Get (mem_Commit d (foldl (gc_delete d0) b xs)) k =
     (if \<exists>(h, n) \<in> set xs. getHash d0 (canonicalKey n) \<noteq> Inr h \<and> k \<in> {blockKey h, receiptsKey h, revDiffKey h, tdKey h}
      then None else mem_Get (mem_Commit d b) k)"
proof (induction xs arbitrary: b)
  case (Cons x xs)
  obtain h n where x: "x = (h, n)" by fastforce
  show ?case
    unfolding foldl_Cons Cons.IH by (auto simp: x gc_delete_def get_simps)
qed simp

lemma gc_below_set:
  "(h, n) \<in> set (gc_below bc c xs) \<Longrightarrow> \<exists>key blk. (key, JBlock blk) \<in> set xs \<and> length key = 33 \<and>
    h = word_of_nat (be_nat (tl key)) \<and> h \<noteq> ch_genesis bc \<and> n = blk_height blk \<and> n < c"
proof (induction xs)
  case (Cons x xs)
  obtain key v where x: "x = (key, v)" by fastforce
  show ?case
  proof (cases "(h, n) \<in> set (gc_below bc c xs)")
    case True
    then show ?thesis using Cons.IH by auto
  next
    case False
    then obtain blk where "v = JBlock blk" "length key = 33" "h = word_of_nat (be_nat (tl key))"
      "h \<noteq> ch_genesis bc" "n = blk_height blk" "n < c"
      using Cons.prems by (auto simp: x Let_def split: if_splits stored.splits)
    then show ?thesis by (auto simp: x)
  qed
qed simp

lemma blockKey_decode: "length key = 33 \<Longrightarrow> prefix [prefixBlock] key \<Longrightarrow> blockKey (word_of_nat (be_nat (tl key))) = key"
proof -
  assume l: "length key = 33" and "prefix [prefixBlock] key"
  then obtain bs where k: "key = prefixBlock # bs" "length bs = 32" by (cases key) auto
  have "be_nat bs < 2 ^ 256" using be_nat_less [of bs] k(2) by simp
  then have "hash_bytes (word_of_nat (be_nat bs)) = bs"
    using be_fixed_be_nat [OF k(2)] by (simp add: hash_bytes_def unat_of_nat)
  then show ?thesis by (simp add: blockKey_def k)
qed

lemma getHash_canon: "canon_at d h n \<Longrightarrow> getHash d (canonicalKey n) = Inr h"
  by (simp add: canon_at_def getHash_def get_raw_def db_Get_def HashFromBytes_hash_bytes)

text \<open>What collecting orphans deletes: records of blocks below the cutoff that are not canonical.\<close>

lemma gc_get:
  assumes "mem_finite (ch_db bc)"
  obtains D where
    "\<forall>h \<in> D. h \<noteq> ch_genesis bc \<and> (\<exists>blk. mem_Get (ch_db bc) (blockKey h) = Some (JBlock blk) \<and> blk_height blk < c \<and>
       \<not> canon_at (ch_db bc) h (blk_height blk))"
    "\<And>k. mem_Get (ch_db (gcOrphans bc c)) k =
       (if \<exists>h \<in> D. k \<in> {blockKey h, receiptsKey h, revDiffKey h, tdKey h} then None else mem_Get (ch_db bc) k)"
    "gcOrphans bc c = bc\<lparr>ch_db := ch_db (gcOrphans bc c)\<rparr>" "mem_finite (ch_db (gcOrphans bc c))"
proof -
  let ?d = "ch_db bc" and ?scan = "drain (mem_Iterate (ch_db bc) [prefixBlock])"
  let ?below = "gc_below bc c ?scan"
  let ?batch = "foldl (gc_delete ?d) [] ?below"
  let ?D = "{h. \<exists>n. (h, n) \<in> set ?below \<and> getHash ?d (canonicalKey n) \<noteq> Inr h}"
  have db: "ch_db (gcOrphans bc c) = mem_Commit ?d ?batch" and up: "gcOrphans bc c = bc\<lparr>ch_db := ch_db (gcOrphans bc c)\<rparr>"
    by (auto simp: gcOrphans_def Let_def batch_Len_def)
  show thesis
  proof (rule that [of ?D])
    show "\<forall>h \<in> ?D. h \<noteq> ch_genesis bc \<and> (\<exists>blk. mem_Get ?d (blockKey h) = Some (JBlock blk) \<and> blk_height blk < c \<and>
       \<not> canon_at ?d h (blk_height blk))"
    proof
      fix h assume "h \<in> ?D"
      then obtain n where n: "(h, n) \<in> set ?below" "getHash ?d (canonicalKey n) \<noteq> Inr h" by blast
      from gc_below_set [OF n(1)] obtain key blk where k: "(key, JBlock blk) \<in> set ?scan" "length key = 33"
        "h = word_of_nat (be_nat (tl key))" "h \<noteq> ch_genesis bc" "n = blk_height blk" "n < c"
        by blast
      have "prefix [prefixBlock] key" "mem_Get ?d key = Some (JBlock blk)"
        using k(1) by (auto simp: mem.scan_exact [OF assms])
      then have "mem_Get ?d (blockKey h) = Some (JBlock blk)" using blockKey_decode [OF k(2)] k(3) by simp
      then show "h \<noteq> ch_genesis bc \<and> (\<exists>blk. mem_Get ?d (blockKey h) = Some (JBlock blk) \<and> blk_height blk < c \<and>
          \<not> canon_at ?d h (blk_height blk))"
        using k(4-6) n(2) getHash_canon by blast
    qed
    show "mem_Get (ch_db (gcOrphans bc c)) k =
       (if \<exists>h \<in> ?D. k \<in> {blockKey h, receiptsKey h, revDiffKey h, tdKey h} then None else mem_Get ?d k)" for k
      unfolding db gc_delete_get by auto
    show "gcOrphans bc c = bc\<lparr>ch_db := ch_db (gcOrphans bc c)\<rparr>" by (rule up)
    show "mem_finite (ch_db (gcOrphans bc c))" unfolding db by (rule mem.finite_commit [OF assms])
  qed
qed

lemma accounts_ok_sub:
  assumes "accounts_ok d" and "mem_finite d'" and "\<And>k. mem_Get d' k \<noteq> None \<Longrightarrow> mem_Get d' k = mem_Get d k"
  shows "accounts_ok d'"
  using assms unfolding accounts_ok_def by (metis option.distinct(1))

lemma prune_memory_inv:
  assumes inv: "chain_inv E g S L bc" and c: "c \<le> blk_height (ch_head bc)"
  shows "chain_inv E g S (max L c) (bc\<lparr>ch_states := prune_states c bc, ch_blockCache := prune_cache c bc\<rparr>)"
proof -
  note i = chain_invD [OF inv]
  have cache: "cache_ok E (bc\<lparr>ch_states := prune_states c bc, ch_blockCache := prune_cache c bc\<rparr>)"
    using i(2) by (auto simp: cache_ok_def prune_cache_def split: option.splits if_splits)
  have tree: "tree_ok E g S (max L c) (bc\<lparr>ch_states := prune_states c bc, ch_blockCache := prune_cache c bc\<rparr>)"
    unfolding tree_ok_def
  proof (intro allI impI)
    fix h w
    assume "ch_states (bc\<lparr>ch_states := prune_states c bc, ch_blockCache := prune_cache c bc\<rparr>) h = Some w"
    then obtain b where b: "ch_blockCache bc h = Some b" "c \<le> blk_height b" "ch_states bc h = Some w"
      by (auto simp: prune_states_def split: option.splits if_splits)
    from tree_okD [OF i(4) b(3)] b(1) have "w = S h" "held_ok E g (ch_db bc) S L h b" by auto
    moreover have "prune_cache c bc h = Some b" using b by (simp add: prune_cache_def)
    ultimately show "w = S h \<and> (\<exists>b. ch_blockCache (bc\<lparr>ch_states := prune_states c bc, ch_blockCache := prune_cache c bc\<rparr>) h = Some b \<and>
        held_ok E g (ch_db (bc\<lparr>ch_states := prune_states c bc, ch_blockCache := prune_cache c bc\<rparr>)) S (max L c) h b)"
      using b(2) by (auto simp: held_ok_def)
  qed
  from tree_okD [OF i(4) i(5)] obtain b0 where "ch_blockCache bc (block_Hash E (ch_head bc)) = Some b0" by blast
  moreover have "b0 = ch_head bc"
    using calculation i(2) canon_stored i(6) stored_block_unique unfolding cache_ok_def head_ok_def by blast
  ultimately have "prune_states c bc (block_Hash E (ch_head bc)) = Some (S (block_Hash E (ch_head bc)))"
    using c i(5) by (simp add: prune_states_def)
  then show ?thesis
    using i cache tree by (simp add: chain_inv_def params_ok_def)
qed

lemma gc_inv:
  assumes inv: "chain_inv E g S L bc" and c: "c \<le> L"
    and cached: "\<And>h b. ch_blockCache bc h = Some b \<Longrightarrow> c \<le> blk_height b \<or> h = ch_genesis bc"
  shows "chain_inv E g S L (gcOrphans bc c)"
proof -
  note i = chain_invD [OF inv]
  let ?d = "ch_db bc" and ?d' = "ch_db (gcOrphans bc c)" and ?hh = "block_Hash E (ch_head bc)"
  have fin: "mem_finite ?d" using i(7) by (simp add: disk_ok_def accounts_ok_def)
  obtain D where D: "\<And>h. h \<in> D \<Longrightarrow> h \<noteq> ch_genesis bc \<and> (\<exists>blk. mem_Get ?d (blockKey h) = Some (JBlock blk) \<and>
        blk_height blk < c \<and> \<not> canon_at ?d h (blk_height blk))"
    and get: "\<And>k. mem_Get ?d' k =
        (if \<exists>h \<in> D. k \<in> {blockKey h, receiptsKey h, revDiffKey h, tdKey h} then None else mem_Get ?d k)"
    and up: "gcOrphans bc c = bc\<lparr>ch_db := ?d'\<rparr>" and fin': "mem_finite ?d'"
    using gc_get [OF fin, of c] by metis
  have kept: "stored_block E ?d' k b" if "stored_block E ?d k b" "k \<notin> D" for k b
    using that by (auto simp: stored_block_def get apart)
  have was: "stored_block E ?d k b \<and> k \<notin> D" if "stored_block E ?d' k b" for k b
    using that by (auto simp: stored_block_def get split: if_splits)
  have notD: "k \<notin> D" if "stored_block E ?d k b" "c \<le> blk_height b \<or> k = ch_genesis bc \<or> canon_at ?d k (blk_height b)" for k b
    using that D [of k] by (auto simp: stored_block_def)
  have td: "getTD ?d' k = getTD ?d k" if "k \<notin> D" for k
    using that by (auto simp: getTD_def get_raw_def db_Get_def get apart)
  have same: "mem_Get ?d' k = mem_Get ?d k" if "fst (key_tag k) \<notin> {0x62, 0x72, 0x64, 0x77}" for k
    using that by (auto simp: get)
  have "cache_ok E (gcOrphans bc c)"
    using i(2) cached kept notD unfolding cache_ok_def by (subst up, simp) blast
  moreover have "blocks_ok E ?d'"
    using i(3) td unfolding blocks_ok_def get by (auto split: if_splits)
  moreover have "tree_ok E g S L (gcOrphans bc c)"
    unfolding tree_ok_def
  proof (intro allI impI)
    fix h w
    assume "ch_states (gcOrphans bc c) h = Some w"
    then have "ch_states bc h = Some w" by (subst (asm) up) simp
    from tree_okD [OF i(4) this] obtain b where b: "w = S h" "ch_blockCache bc h = Some b" "held_ok E g ?d S L h b"
      by blast
    have "stored_block E ?d' (blk_parent b) p" if "stored_block E ?d (blk_parent b) p" "blk_height b = Suc (blk_height p)"
      "L < blk_height b" for p
      using that kept notD c by simp
    then have "held_ok E g ?d' S L h b" using b(3) unfolding held_ok_def by meson
    moreover have "ch_blockCache (gcOrphans bc c) h = Some b" using b(2) by (subst up) simp
    ultimately show "w = S h \<and> (\<exists>b. ch_blockCache (gcOrphans bc c) h = Some b \<and> held_ok E g ?d' S L h b)"
      using b(1) by blast
  qed
  moreover have "head_ok E g (ch_genesis bc) ?d' S (ch_head bc)"
  proof -
    have "canon E g (ch_genesis bc) ?d' S (ch_head bc)"
    proof (rule canon_frame)
      show "canon E g (ch_genesis bc) ?d S (ch_head bc)" using i(6) by (simp add: head_ok_def)
      fix k b
      assume k: "stored_block E ?d k b" "canon_at ?d k (blk_height b)"
      have n: "k \<notin> D" using notD k by blast
      have "mem_Get ?d' (revDiffKey k) = mem_Get ?d (revDiffKey k)" using n by (auto simp: get apart)
      moreover have "canon_at ?d' k (blk_height b)" using k(2) same by (simp add: canon_at_def)
      ultimately show "stored_block E ?d' k b \<and> canon_at ?d' k (blk_height b) \<and>
          mem_Get ?d' (revDiffKey k) = mem_Get ?d (revDiffKey k) \<and> S k = S k"
        using kept [OF k(1) n] by blast
    qed
    then show ?thesis using i(6) same by (simp add: head_ok_def)
  qed
  moreover have "disk_ok E g (ch_genesis bc) ?d' ?hh (S ?hh)"
  proof -
    have "accounts_ok ?d'"
      by (rule accounts_ok_sub [OF _ fin']) (use i(7) in \<open>auto simp: disk_ok_def get split: if_splits\<close>)
    moreover have "account_table ?d' = account_table ?d" using same by (auto simp: account_table_def fun_eq_iff)
    ultimately show ?thesis using i(7) same by (simp add: disk_ok_def getBigInt_def get_raw_def db_Get_def)
  qed
  moreover have "best_ok E ?d' (ch_head bc)"
  proof -
    have c0: "canon E g (ch_genesis bc) ?d S (ch_head bc)" using i(6) by (simp add: head_ok_def)
    have "?hh \<notin> D" using notD [OF canon_stored [OF c0]] canon_canon_at [OF c0] by blast
    then show ?thesis using i(8) was td unfolding best_ok_def by metis
  qed
  moreover have "params_ok E g (gcOrphans bc c)" using i(1) by (subst up) (simp add: params_ok_def)
  moreover have "ch_head (gcOrphans bc c) = ch_head bc" "ch_genesis (gcOrphans bc c) = ch_genesis bc"
    "ch_states (gcOrphans bc c) = ch_states bc"
    by (subst up, simp)+
  ultimately show ?thesis using i(5) unfolding chain_inv_def by simp
qed

lemma prune_inv:
  assumes "chain_inv E g S L bc"
  shows "\<exists>L'. chain_inv E g S L' (prune bc)"
proof (cases "blk_height (ch_head bc) \<le> ch_retention bc")
  case True
  then show ?thesis using assms by (auto simp: prune_def)
next
  case False
  let ?c = "blk_height (ch_head bc) - ch_retention bc"
  let ?bc1 = "bc\<lparr>ch_states := prune_states ?c bc, ch_blockCache := prune_cache ?c bc\<rparr>"
  have 1: "chain_inv E g S (max L ?c) ?bc1" by (rule prune_memory_inv [OF assms]) simp
  have "chain_inv E g S (max L ?c) (gcOrphans ?bc1 ?c)"
    by (rule gc_inv [OF 1]) (auto simp: prune_cache_def split: option.splits if_splits)
  then show ?thesis using 1 False by (auto simp: prune_def Let_def)
qed

text \<open>The work of the head is never collected.\<close>

lemma prune_head_TD:
  assumes inv: "chain_inv E g S L bc"
  shows "getTD (ch_db (prune bc)) (block_Hash E (ch_head bc)) = getTD (ch_db bc) (block_Hash E (ch_head bc))"
proof -
  let ?hh = "block_Hash E (ch_head bc)"
  have "getTD (ch_db (gcOrphans bc1 c)) ?hh = getTD (ch_db bc) ?hh" if db: "ch_db bc1 = ch_db bc" for bc1 c
  proof -
    have fin: "mem_finite (ch_db bc1)" using chain_invD(7) [OF inv] db by (simp add: disk_ok_def accounts_ok_def)
    obtain D where D: "\<forall>h \<in> D. h \<noteq> ch_genesis bc1 \<and> (\<exists>blk. mem_Get (ch_db bc1) (blockKey h) = Some (JBlock blk) \<and>
        blk_height blk < c \<and> \<not> canon_at (ch_db bc1) h (blk_height blk))"
      and get: "\<And>k. mem_Get (ch_db (gcOrphans bc1 c)) k =
        (if \<exists>h \<in> D. k \<in> {blockKey h, receiptsKey h, revDiffKey h, tdKey h} then None else mem_Get (ch_db bc1) k)"
      using gc_get [OF fin, of c] by metis
    have ch: "canon E g (ch_genesis bc) (ch_db bc) S (ch_head bc)" using chain_invD(6) [OF inv] by (simp add: head_ok_def)
    have "?hh \<notin> D" using D canon_stored [OF ch] canon_canon_at [OF ch] db by (auto simp: stored_block_def)
    then show ?thesis using db by (auto simp: getTD_def get_raw_def db_Get_def get apart)
  qed
  then show ?thesis by (simp add: prune_def Let_def)
qed

end
