(* ===== verification/Blockchain_Insert.thy ===== *)
theory Blockchain_Insert
  imports Blockchain_Inv
begin

text \<open>
  Inserting a block keeps the invariant: a losing block is filed beside the chain, a block on the head
  extends it, and a heavier branch replaces it by reverse diffs and replay.
\<close>

section \<open>A validated block\<close>

text \<open>Bounds on what is inserted, inside which the arithmetic of a block does not overflow.\<close>

definition block_bounds :: "block \<Rightarrow> bool" where
  "block_bounds b \<longleftrightarrow> hd_gaslimit (blk_header b) \<le> gas_cap \<and> 0 < blk_height b \<and>
     (\<forall>tx \<in> set (blk_txs b). length (tx_data tx) < 2 ^ 63)"

text \<open>What is known of a block that passed every check and executed to \<open>w\<close>.\<close>

definition accepted :: "crypto \<Rightarrow> genesis \<Rightarrow> blockchain \<Rightarrow> (hash \<Rightarrow> world) \<Rightarrow> nat \<Rightarrow> block \<Rightarrow> block \<Rightarrow> world \<Rightarrow> bool" where
  "accepted E g bc S L p b w \<longleftrightarrow>
     mem_Get (ch_db bc) (blockKey (block_Hash E b)) = None \<and>
     stored_block E (ch_db bc) (blk_parent b) p \<and> ch_states bc (blk_parent b) = Some (S (blk_parent b)) \<and>
     L < blk_height b \<and> blk_height b < 2 ^ 64 \<and> blk_height b = Suc (blk_height p) \<and>
     chain E g (blk_header b) w \<and> changes (S (blk_parent b)) w"

lemma sanity_error_None:
  "sanity_error E cid txs = None \<longleftrightarrow> (\<forall>tx \<in> set txs. tx_SanityCheck E tx cid = Inr ())"
  unfolding sanity_error_def by (induction txs) (auto split: sum.split)

lemma insert_guard_ok:
  assumes "insert_guard E now bc b = (Inr p, bc1)" and "cache_ok E bc"
  shows "mem_Get (ch_db bc) (blockKey (block_Hash E b)) = None" "stored_block E (ch_db bc) (blk_parent b) p"
    "\<forall>tx \<in> set (blk_txs b). tx_SanityCheck E tx (ch_chainID bc) = Inr ()" "recached E bc bc1"
    "satisfiesPoW E (blk_header b)"
proof -
  obtain r bc0 where r: "blockLocked E bc (blk_parent b) = (r, bc0)" by fastforce
  have h: "\<not> mem_Has (ch_db bc) (blockKey (block_Hash E b))" "r = Inr p"
    "sanity_error E (ch_chainID bc) (blk_txs b) = None" "satisfiesPoW E (blk_header b)"
    using assms(1) r
    by (auto simp: insert_guard_def Let_def split: if_splits prod.splits sum.splits option.splits)
  show "mem_Get (ch_db bc) (blockKey (block_Hash E b)) = None" using h(1) by (simp add: mem.has_get)
  show "stored_block E (ch_db bc) (blk_parent b) p"
    using blockLocked_stored [OF assms(2), of "blk_parent b" p] r h(2) by simp
  show "\<forall>tx \<in> set (blk_txs b). tx_SanityCheck E tx (ch_chainID bc) = Inr ()"
    using h(3) by (simp add: sanity_error_None)
  show "recached E bc bc1" using recached_insert_guard [of E bc now b] assms(1) by simp
  show "satisfiesPoW E (blk_header b)" by (rule h)
qed

lemma reward_config_of: "genesis_Validate g = Inr () \<Longrightarrow> reward_config_ok (genesis_rewards g)"
  by (auto simp: reward_config_ok_def genesis_rewards_def genesis_Validate_def split: if_splits)

lemma applied_accepted:
  assumes inv: "chain_inv E g S L bc" and guard: "insert_guard E now bc b = (Inr p, bc1)"
    and st: "ch_states bc1 (block_Hash E p) = Some ps0" and ag: "agrees ps ps0"
    and app: "ApplyBlock E (ch_rewards bc1) ps b (Some (blk_header p)) = Inr (w, rs)"
    and bounds: "block_bounds b"
  shows "accepted E g bc1 S L p b w" "chain_inv E g S L bc1"
proof -
  note i = chain_invD [OF inv] and q = insert_guard_ok [OF guard chain_invD(2) [OF inv]]
  show inv1: "chain_inv E g S L bc1" by (rule inv_recached [OF q(4) inv])
  note f = recached_fields [OF q(4) i(2)]
  have ph: "block_Hash E p = blk_parent b" using q(2) by (simp add: stored_block_def)
  from tree_okD [OF chain_invD(4) [OF inv1] st] obtain c where
    c: "ps0 = S (blk_parent b)" "ch_blockCache bc1 (blk_parent b) = Some c" "held_ok E g (ch_db bc1) S L (blk_parent b) c"
    unfolding ph by blast
  have "c = p" using c(2) f(1,2) q(2) stored_block_unique unfolding cache_ok_def by metis
  with c have hp: "L \<le> blk_height p" "blk_height p < 2 ^ 64" "chain E g (blk_header p) ps"
    using agrees_chain [OF ag] by (auto simp: held_ok_def)
  have par: "params_ok E g bc" by (rule i(1))
  have cfg: "ch_rewards bc1 = genesis_rewards g" using par by (simp add: f params_ok_def)
  have chk: "check_parent E (blk_header b) (Some (blk_header p)) = None" using ApplyBlockE [OF app] by blast
  note cp = check_parent_ok [OF chk]
  have "blk_height p + 1 \<noteq> 2 ^ 64"
  proof
    assume "blk_height p + 1 = 2 ^ 64"
    then have "blk_height b = 0" using cp(2) by (simp add: add64_def)
    then show False using bounds by (simp add: block_bounds_def)
  qed
  then have h2: "blk_height p + 1 < 2 ^ 64" using hp(2) by linarith
  then have h: "blk_height b = Suc (blk_height p)" "blk_height p + 1 < 2 ^ 64" using cp(2) add64_id [OF h2] by simp_all
  have san: "\<forall>tx \<in> set (blk_txs b). tx_SanityCheck E tx (g_ChainID g) = Inr () \<and> length (tx_data tx) < 2 ^ 63"
    using q(3) bounds par by (simp add: params_ok_def block_bounds_def)
  have ch: "chain E g (blk_header b) w"
    using chain.chain_block [OF hp(3) app [unfolded cfg] san] bounds h(2) by (simp add: block_bounds_def)
  have ok: "world_ok ps" "reward_config_ok (genesis_rewards g)"
    using chain_invariant [OF hp(3)] reward_config_of par by (auto simp: params_ok_def)
  have "\<forall>tx \<in> set (blk_txs b). tx_sane tx" using san SanityCheck_sane by blast
  moreover have "0 < hd_gaslimit (blk_header b)" using cp(4) by (simp add: MinBlockGasLimit_def)
  ultimately have "changes ps w"
    using ApplyBlock_ok [OF app [unfolded cfg] ok(2,1)] bounds ok(1) by (simp add: changes_def block_bounds_def)
  then have "changes ps0 w" using ag by (simp add: changes_def agrees_def world_ok_def)
  then show "accepted E g bc1 S L p b w"
    using q(1,2) hp h ch st by (simp add: accepted_def f ph c(1))
qed

section \<open>Filing the block\<close>

text \<open>The effect of every path on the block and work tables.\<close>

definition files :: "crypto \<Rightarrow> db \<Rightarrow> block \<Rightarrow> int \<Rightarrow> db \<Rightarrow> bool" where
  "files E d b td d' \<longleftrightarrow>
     (\<forall>k. mem_Get d' (blockKey k) = (if k = block_Hash E b then Some (JBlock b) else mem_Get d (blockKey k))) \<and>
     (\<forall>k. getTD d' k = (if k = block_Hash E b then Inr td else getTD d k))"

lemma files_stored:
  assumes "files E d b td d'" and "mem_Get d (blockKey (block_Hash E b)) = None"
  shows "stored_block E d' k c \<longleftrightarrow> (if k = block_Hash E b then c = b else stored_block E d k c)"
    "stored_block E d k c \<Longrightarrow> k \<noteq> block_Hash E b \<and> stored_block E d' k c"
  using assms by (auto simp: files_def stored_block_def)

definition filed :: "crypto \<Rightarrow> blockchain \<Rightarrow> db \<Rightarrow> block \<Rightarrow> world \<Rightarrow> block \<Rightarrow> blockchain" where
  "filed E bc d' b w b0 = bc\<lparr>ch_db := d', ch_blockCache := (ch_blockCache bc)(block_Hash E b \<mapsto> b),
     ch_states := (ch_states bc)(block_Hash E b \<mapsto> w), ch_head := b0\<rparr>"

lemma filed_tree:
  assumes inv: "chain_inv E g S L bc" and acc: "accepted E g bc S L p b w"
    and files: "files E (ch_db bc) b td d'"
  shows "params_ok E g (filed E bc d' b w b0)" "cache_ok E (filed E bc d' b w b0)" "blocks_ok E d'"
    "tree_ok E g (S(block_Hash E b := w)) L (filed E bc d' b w b0)"
proof -
  let ?h = "block_Hash E b" and ?bc = "filed E bc d' b w b0" and ?S = "S(block_Hash E b := w)"
  note i = chain_invD [OF inv]
  have fresh: "mem_Get (ch_db bc) (blockKey ?h) = None" using acc by (simp add: accepted_def)
  note fs = files_stored [OF files fresh]
  show "params_ok E g ?bc" using i(1) by (simp add: params_ok_def filed_def)
  show "cache_ok E ?bc" using i(2) fs by (auto simp: cache_ok_def filed_def)
  show "blocks_ok E d'" using i(3) files by (auto simp: blocks_ok_def files_def)
  show "tree_ok E g ?S L ?bc"
    unfolding tree_ok_def
  proof (intro allI impI)
    fix k v
    assume st: "ch_states ?bc k = Some v"
    show "v = ?S k \<and> (\<exists>c. ch_blockCache ?bc k = Some c \<and> held_ok E g (ch_db ?bc) ?S L k c)"
    proof (cases "k = ?h")
      case True
      have "held_ok E g d' ?S L ?h b"
        using acc fs(2) by (auto simp: accepted_def held_ok_def)
      then show ?thesis using True st by (simp add: filed_def)
    next
      case False
      then have "ch_states bc k = Some v" using st by (simp add: filed_def)
      from tree_okD [OF i(4) this] obtain c where c: "v = S k" "ch_blockCache bc k = Some c"
        "held_ok E g (ch_db bc) S L k c" by blast
      have "stored_block E d' (blk_parent c) q \<and> ?S (blk_parent c) = S (blk_parent c)"
        if "stored_block E (ch_db bc) (blk_parent c) q" for q
        using fs(2) [OF that] by simp
      then have "held_ok E g d' ?S L k c" using c(3) False unfolding held_ok_def by (metis fun_upd_other)
      then show ?thesis using c(1,2) False by (simp add: filed_def)
    qed
  qed
qed

lemma best_lose:
  assumes "best_ok E d b0" and "files E d b td d'" and "mem_Get d (blockKey (block_Hash E b)) = None"
    and "stored_block E d (block_Hash E b0) b0" and "getTD d (block_Hash E b0) = Inr s"
    and "\<not> Better E \<lparr>tip_header = blk_header b, tip_td = td\<rparr> \<lparr>tip_header = blk_header b0, tip_td = s\<rparr>"
  shows "best_ok E d' b0"
  unfolding best_ok_def
proof (intro allI impI)
  fix h c t s'
  assume c: "stored_block E d' h c" "getTD d' h = Inr t" "getTD d' (block_Hash E b0) = Inr s'"
  have "block_Hash E b0 \<noteq> block_Hash E b" using files_stored(2) [OF assms(2,3,4)] by simp
  then have s: "s' = s" using c(3) assms(2,5) by (simp add: files_def)
  show "\<not> Better E \<lparr>tip_header = blk_header c, tip_td = t\<rparr> \<lparr>tip_header = blk_header b0, tip_td = s'\<rparr>"
    using c(1,2) assms(1,2,5,6) files_stored(1) [OF assms(2,3)]
    by (cases "h = block_Hash E b") (auto simp: files_def best_ok_def s)
qed

lemma best_win:
  assumes "best_ok E d b0" and "files E d b td d'" and "mem_Get d (blockKey (block_Hash E b)) = None"
    and "getTD d (block_Hash E b0) = Inr s"
    and "Better E \<lparr>tip_header = blk_header b, tip_td = td\<rparr> \<lparr>tip_header = blk_header b0, tip_td = s\<rparr>"
  shows "best_ok E d' b"
  unfolding best_ok_def
proof (intro allI impI)
  fix h c t s'
  assume c: "stored_block E d' h c" "getTD d' h = Inr t" "getTD d' (block_Hash E b) = Inr s'"
  let ?b = "\<lparr>tip_header = blk_header b, tip_td = td\<rparr>" and ?b0 = "\<lparr>tip_header = blk_header b0, tip_td = s\<rparr>"
  have s: "s' = td" using c(3) assms(2) by (simp add: files_def)
  show "\<not> Better E \<lparr>tip_header = blk_header c, tip_td = t\<rparr> \<lparr>tip_header = blk_header b, tip_td = s'\<rparr>"
  proof (cases "h = block_Hash E b")
    case True
    then have "c = b" "t = td" using c files_stored(1) [OF assms(2,3)] assms(2) by (auto simp: files_def)
    then show ?thesis using s heaviest.choice_asym by blast
  next
    case False
    then have "stored_block E d h c" "getTD d h = Inr t"
      using c(1,2) files_stored(1) [OF assms(2,3)] assms(2) by (auto simp: files_def)
    then have "\<not> Better E \<lparr>tip_header = blk_header c, tip_td = t\<rparr> ?b0" using assms(1,4) by (simp add: best_ok_def)
    then show ?thesis using heaviest.choice_negtrans heaviest.choice_asym [OF assms(5)] s by blast
  qed
qed

section \<open>Rewriting the account table\<close>

text \<open>\<open>d'\<close> has the accounts of \<open>v\<close> at the addresses \<open>T\<close> and is \<open>d\<close> at the other account keys.\<close>

definition retabled :: "db \<Rightarrow> address set \<Rightarrow> world \<Rightarrow> db \<Rightarrow> bool" where
  "retabled d T v d' \<longleftrightarrow> (mem_finite d \<longrightarrow> mem_finite d') \<and>
     (\<forall>a \<in> T. mem_Get d' (accountKey a) = map_option JAccount (w_accounts v a)) \<and>
     (\<forall>k. fst (key_tag k) = 0x61 \<longrightarrow> k \<notin> accountKey ` T \<longrightarrow> mem_Get d' k = mem_Get d k)"

lemma retabled_table:
  assumes "accounts_ok d" and r: "retabled d T v d'" and "world_ok v" and "\<And>a. a \<notin> T \<Longrightarrow> w_accounts v a = account_table d a"
  shows "accounts_ok d'" "account_table d' = w_accounts v"
proof -
  have "\<exists>a acc. k = accountKey a \<and> x = JAccount acc" if k: "mem_Get d' k = Some x" "prefix [prefixAccount] k" for k x
  proof (cases "k \<in> accountKey ` T")
    case True
    then show ?thesis using r k(1) by (auto simp: retabled_def)
  next
    case False
    have "fst (key_tag k) = 0x61" using k(2) by (cases k) (auto simp: key_tag_def prefixAccount_def)
    then have "mem_Get d k = Some x" using r k(1) False by (auto simp: retabled_def)
    then show ?thesis using assms(1) k(2) by (auto simp: accounts_ok_def)
  qed
  then show "accounts_ok d'" using assms(1) r by (auto simp: accounts_ok_def retabled_def)
  show "account_table d' = w_accounts v"
  proof
    fix a
    show "account_table d' a = w_accounts v a"
    proof (cases "a \<in> T")
      case True
      then have "mem_Get d' (accountKey a) = map_option JAccount (w_accounts v a)" using r by (simp add: retabled_def)
      then show ?thesis using assms(3) by (cases "w_accounts v a") (auto simp: account_table_def world_ok_def)
    next
      case False
      then have "accountKey a \<notin> accountKey ` T" by auto
      then have "mem_Get d' (accountKey a) = mem_Get d (accountKey a)" using r by (simp add: retabled_def)
      then have "account_table d' a = account_table d a" by (simp add: account_table_def)
      then show ?thesis using assms(4) [OF False] by simp
    qed
  qed
qed

lemma retabled_frame:
  "retabled d T v d' \<Longrightarrow> mem_finite d'' \<or> \<not> mem_finite d' \<Longrightarrow> (\<And>k. fst (key_tag k) = 0x61 \<Longrightarrow> mem_Get d'' k = mem_Get d' k) \<Longrightarrow>
    retabled d T v d''"
  by (auto simp: retabled_def)

lemma retabled_accounts:
  assumes "mem_finite d"
  shows "retabled (mem_Commit d b) (set as) v (mem_Commit d (b @ map (account_op v) as))"
proof -
  have "written (map (account_op v) as) k old = old" if "k \<notin> accountKey ` set as" for k old
    by (rule written_other) (use that in \<open>auto simp: account_op_def\<close>)
  then show ?thesis
    by (auto simp: retabled_def mem.commit_append mem.get_commit written_accounts mem.finite_commit)
qed

lemma changes_back:
  "changes prev w \<Longrightarrow> a \<notin> w_touched w \<Longrightarrow> w_accounts prev a = w_accounts w a"
  by (simp add: changes_def)

lemma Touched_set: "changes prev w \<Longrightarrow> set (Touched w) = w_touched w"
  by (simp add: changes_def Touched_def)

section \<open>A losing block\<close>

lemma disk_frame:
  assumes "disk_ok E g gh d hh w" and "mem_finite d'"
    and "\<And>k. fst (key_tag k) \<in> {0x61, 0x21} \<Longrightarrow> mem_Get d' k = mem_Get d k"
  shows "disk_ok E g gh d' hh w"
proof -
  have "prefix [prefixAccount] k \<Longrightarrow> fst (key_tag k) = 0x61" for k by (cases k) (auto simp: key_tag_def prefixAccount_def)
  then have "accounts_ok d'" using assms by (auto simp: disk_ok_def accounts_ok_def)
  moreover have "account_table d' = account_table d" using assms(3) by (simp add: account_table_def fun_eq_iff)
  ultimately show ?thesis
    using assms(1,3) by (simp add: disk_ok_def getBigInt_def get_raw_def db_Get_def)
qed

lemma TD_bytes: "0 \<le> td \<Longrightarrow> int (be_nat (big_bytes td)) = td"
  by (simp add: big_bytes_def)

lemma head_ok_frame:
  assumes "head_ok E g gh d S b0" and "\<And>k c. stored_block E d k c \<Longrightarrow> stored_block E d' k c \<and> S' k = S k"
    and "\<And>k. fst (key_tag k) \<in> {0x63, 0x64} \<Longrightarrow> mem_Get d' k = mem_Get d k"
  shows "head_ok E g gh d' S' b0"
proof -
  have "canon E g gh d' S' b0"
    by (rule canon_frame) (use assms in \<open>auto simp: head_ok_def canon_at_def\<close>)
  then show ?thesis using assms(1,3) by (simp add: head_ok_def)
qed

lemma keep_side_inv:
  assumes inv: "chain_inv E g S L bc" and acc: "accepted E g bc S L p b w" and td: "0 \<le> td"
    and s: "getTD (ch_db bc) (block_Hash E (ch_head bc)) = Inr s"
    and worse: "\<not> Better E \<lparr>tip_header = blk_header b, tip_td = td\<rparr> \<lparr>tip_header = blk_header (ch_head bc), tip_td = s\<rparr>"
  shows "chain_inv E g (S(block_Hash E b := w)) L (keep_side E bc b rs w td)"
    "getTD (ch_db (keep_side E bc b rs w td)) (block_Hash E (ch_head bc)) = Inr s"
proof -
  let ?d = "ch_db bc" and ?h = "block_Hash E b" and ?hh = "block_Hash E (ch_head bc)"
  let ?d' = "mem_Commit ?d (putTD (writeBlock E [] b rs) ?h td)" and ?S = "S(block_Hash E b := w)"
  note i = chain_invD [OF inv]
  have get: "mem_Get ?d' k = (if k = tdKey ?h then Some (Raw (big_bytes td)) else if k = receiptsKey ?h then Some (JReceipts rs)
      else if k = blockKey ?h then Some (JBlock b) else mem_Get ?d k)" for k
    by (simp add: put_defs get_simps)
  have files: "files E ?d b td ?d'"
    using TD_bytes [OF td] by (auto simp: files_def get apart getTD_def get_raw_def db_Get_def)
  have fresh: "mem_Get ?d (blockKey ?h) = None" using acc by (simp add: accepted_def)
  have eq: "keep_side E bc b rs w td = filed E bc ?d' b w (ch_head bc)"
    by (simp add: keep_side_def filed_def Let_def)
  note t = filed_tree(1,2,4) [OF inv acc files, of "ch_head bc"] filed_tree(3) [OF inv acc files]
  have same: "mem_Get ?d' k = mem_Get ?d k" if "fst (key_tag k) \<in> {0x61, 0x21, 0x63, 0x64}" for k
    using that by (auto simp: get)
  have fin: "mem_finite ?d'" using i(7) by (simp add: disk_ok_def accounts_ok_def mem.finite_commit)
  have h0: "stored_block E ?d ?hh (ch_head bc)" using i(6) canon_stored by (auto simp: head_ok_def)
  then have ne: "?hh \<noteq> ?h" using files_stored(2) [OF files fresh] by blast
  have "head_ok E g (ch_genesis bc) ?d' ?S (ch_head bc)"
    by (rule head_ok_frame [OF i(6)]) (use files_stored(2) [OF files fresh] same in auto)
  moreover have "disk_ok E g (ch_genesis bc) ?d' ?hh (S ?hh)"
    by (rule disk_frame [OF i(7) fin], rule same) auto
  then have "disk_ok E g (ch_genesis bc) ?d' ?hh (?S ?hh)" using ne by simp
  moreover have "best_ok E ?d' (ch_head bc)" by (rule best_lose [OF i(8) files fresh h0 s worse])
  ultimately show "chain_inv E g ?S L (keep_side E bc b rs w td)"
    unfolding eq chain_inv_def using t i(5) ne by (simp add: filed_def)
  show "getTD (ch_db (keep_side E bc b rs w td)) ?hh = Inr s" unfolding eq using files s ne by (simp add: filed_def files_def)
qed

section \<open>Extending\<close>

text \<open>Adopting a block once the disk holds everything about it.\<close>

lemma adopt_inv:
  assumes inv: "chain_inv E g S L bc" and acc: "accepted E g bc S L p b w"
    and files: "files E (ch_db bc) b td (mem_Commit (ch_db bc) batch)"
    and s: "getTD (ch_db bc) (block_Hash E (ch_head bc)) = Inr s"
    and better: "Better E \<lparr>tip_header = blk_header b, tip_td = td\<rparr> \<lparr>tip_header = blk_header (ch_head bc), tip_td = s\<rparr>"
    and head: "head_ok E g (ch_genesis bc) (mem_Commit (ch_db bc) batch) (S(block_Hash E b := w)) b"
    and disk: "disk_ok E g (ch_genesis bc) (mem_Commit (ch_db bc) batch) (block_Hash E b) w"
  shows "(\<exists>L'. chain_inv E g (S(block_Hash E b := w)) L' (adopt E bc batch b w)) \<and>
    getTD (ch_db (adopt E bc batch b w)) (block_Hash E b) = Inr td"
proof -
  have fresh: "mem_Get (ch_db bc) (blockKey (block_Hash E b)) = None" using acc by (simp add: accepted_def)
  note t = filed_tree(1,2,4) [OF inv acc files, of b] filed_tree(3) [OF inv acc files]
  have "best_ok E (mem_Commit (ch_db bc) batch) b" by (rule best_win [OF chain_invD(8) [OF inv] files fresh s better])
  then have "chain_inv E g (S(block_Hash E b := w)) L (filed E bc (mem_Commit (ch_db bc) batch) b w b)"
    unfolding chain_inv_def using t head disk by (simp add: filed_def)
  from prune_inv [OF this] prune_head_TD [OF this] files show ?thesis by (simp add: adopt_def filed_def files_def)
qed

text \<open>The tip of a chain on disk: the canonical chain ends there and the account table is its state.\<close>

definition tip_ok :: "crypto \<Rightarrow> genesis \<Rightarrow> hash \<Rightarrow> db \<Rightarrow> (hash \<Rightarrow> world) \<Rightarrow> block \<Rightarrow> bool" where
  "tip_ok E g gh d S b \<longleftrightarrow> head_ok E g gh d S b \<and> accounts_ok d \<and> account_table d = w_accounts (S (block_Hash E b))"

text \<open>The writes for one more canonical block, the same in \<^verbatim>\<open>extend\<close> and in the replay of \<^verbatim>\<open>reorg\<close>.\<close>

definition append_block :: "crypto \<Rightarrow> stored batch \<Rightarrow> block \<Rightarrow> world \<Rightarrow> world \<Rightarrow> stored batch" where
  "append_block E batch y w prev =
     indexTxs E (putHash (writeAccountChanges E batch y w prev (Touched w)) (canonicalKey (blk_height y)) (block_Hash E y)) y"

lemma append_get:
  "fst (key_tag k) \<in> {0x62, 0x72, 0x77, 0x21} \<Longrightarrow> mem_Get (mem_Commit d (append_block E batch y w prev)) k = mem_Get (mem_Commit d batch) k"
  "mem_Get (mem_Commit d (append_block E batch y w prev)) (canonicalKey n) =
     (if canonicalKey n = canonicalKey (blk_height y) then Some (Raw (hash_bytes (block_Hash E y)))
      else mem_Get (mem_Commit d batch) (canonicalKey n))"
  "mem_Get (mem_Commit d (append_block E batch y w prev)) (revDiffKey h) =
     (if h = block_Hash E y then Some (JDiff (diff_of prev w)) else mem_Get (mem_Commit d batch) (revDiffKey h))"
proof -
  assume k: "fst (key_tag k) \<in> {0x62, 0x72, 0x77, 0x21}"
  then have "k \<noteq> canonicalKey (blk_height y)" "k \<noteq> revDiffKey (block_Hash E y)" by auto
  then show "mem_Get (mem_Commit d (append_block E batch y w prev)) k = mem_Get (mem_Commit d batch) k"
    using k by (auto simp: append_block_def indexTxs_def get_indexed putHash_def get_simps get_changes_written)
qed (simp_all add: append_block_def indexTxs_def get_indexed putHash_def get_simps get_changes_written apart)

lemma append_retabled:
  assumes "mem_finite d" and "changes prev w"
  shows "retabled (mem_Commit d batch) (w_touched w) w (mem_Commit d (append_block E batch y w prev))"
proof (rule retabled_frame)
  show "retabled (mem_Commit d batch) (w_touched w) w (mem_Commit d (foldl (write_account w) batch (Touched w)))"
    using retabled_accounts [OF assms(1), of batch "Touched w" w] by (simp add: write_accounts Touched_set [OF assms(2)])
  fix k
  assume k: "fst (key_tag k) = 0x61"
  then have "k \<noteq> canonicalKey (blk_height y)" "k \<noteq> revDiffKey (block_Hash E y)" by auto
  then show "mem_Get (mem_Commit d (append_block E batch y w prev)) k =
      mem_Get (mem_Commit d (foldl (write_account w) batch (Touched w))) k"
    using k by (simp add: append_block_def indexTxs_def get_indexed putHash_def get_simps writeAccountChanges_def)
qed (simp add: mem.finite_commit [OF assms(1)])

lemma append_tip:
  assumes fin: "mem_finite d" and tip: "tip_ok E g gh (mem_Commit d batch) S p"
    and y: "stored_block E (mem_Commit d batch) (block_Hash E y) y" "blk_parent y = block_Hash E p"
      "blk_height y = Suc (blk_height p)" "blk_height y < 2 ^ 64"
    and ch: "changes (S (block_Hash E p)) (S (block_Hash E y))" and rt: "rooted E g S y"
  shows "tip_ok E g gh (mem_Commit d (append_block E batch y (S (block_Hash E y)) (S (block_Hash E p)))) S y"
proof -
  let ?dv = "mem_Commit d batch" and ?w = "S (block_Hash E y)" and ?v = "S (block_Hash E p)"
  let ?d' = "mem_Commit d (append_block E batch y ?w ?v)"
  have t: "canon E g gh ?dv S p" "\<And>n. blk_height p < n \<Longrightarrow> n < 2 ^ 64 \<Longrightarrow> mem_Get ?dv (canonicalKey n) = None"
    "accounts_ok ?dv" "account_table ?dv = w_accounts ?v"
    using tip by (auto simp: tip_ok_def head_ok_def)
  have stored: "stored_block E ?d' k c = stored_block E ?dv k c" for k c by (simp add: stored_block_def append_get)
  have "canon E g gh ?d' S p"
  proof (rule canon_frame [OF t(1)])
    fix k c
    assume k: "stored_block E ?dv k c" "blk_height c \<le> blk_height p" "canon_at ?dv k (blk_height c)"
    have "k \<noteq> block_Hash E y"
    proof
      assume "k = block_Hash E y"
      then have "c = y" using k(1) y(1) stored_block_unique by blast
      then show False using k(2) y(3) by simp
    qed
    moreover have "canonicalKey (blk_height c) \<noteq> canonicalKey (blk_height y)"
      using canonicalKey_inject [of "blk_height c" "blk_height y"] k(2) y(3,4) by simp
    ultimately show "stored_block E ?d' k c \<and> canon_at ?d' k (blk_height c) \<and>
        mem_Get ?d' (revDiffKey k) = mem_Get ?dv (revDiffKey k) \<and> S k = S k"
      using k stored by (simp add: canon_at_def append_get)
  qed
  then have "canon E g gh ?d' S y"
    by (rule canon.canon_next) (use y ch rt stored in \<open>simp_all add: canon_at_def append_get\<close>)
  moreover have "mem_Get ?d' (canonicalKey n) = None" if "blk_height y < n" "n < 2 ^ 64" for n
    using that t(2) y(3,4) canonicalKey_inject [of n "blk_height y"] by (simp add: append_get)
  moreover have "accounts_ok ?d'" "account_table ?d' = w_accounts ?w"
    using retabled_table [OF t(3) append_retabled [OF fin ch]] ch t(4) by (auto simp: changes_def)
  ultimately show ?thesis by (simp add: tip_ok_def head_ok_def)
qed

text \<open>The last writes: head pointer and burn total.\<close>

lemma finish_disk:
  assumes "disk_ok E g gh d hh v" and "tip_ok E g gh (mem_Commit d batch) S b" and "0 \<le> w_burned (S (block_Hash E b))"
    and "\<And>k. fst (key_tag k) = 0x21 \<Longrightarrow> mem_Get (mem_Commit d batch) k = mem_Get d k"
  defines "d' \<equiv> mem_Commit d (putBigInt (putHash batch keyHead (block_Hash E b)) keyBurned (w_burned (S (block_Hash E b))))"
  shows "head_ok E g gh d' S b" "disk_ok E g gh d' (block_Hash E b) (S (block_Hash E b))"
proof -
  let ?dv = "mem_Commit d batch"
  have get: "mem_Get d' k = (if k = keyBurned then Some (Raw (big_bytes (w_burned (S (block_Hash E b)))))
      else if k = keyHead then Some (Raw (hash_bytes (block_Hash E b))) else mem_Get ?dv k)" for k
    by (simp add: d'_def put_defs get_simps)
  have same: "mem_Get d' k = mem_Get ?dv k" if "fst (key_tag k) \<noteq> 0x21" for k using that by (auto simp: get)
  show "head_ok E g gh d' S b"
    by (rule head_ok_frame [of _ _ _ ?dv S]) (use assms(2) same in \<open>auto simp: tip_ok_def stored_block_def\<close>)
  have fin: "mem_finite d'"
    using assms(1) by (simp add: d'_def disk_ok_def accounts_ok_def mem.finite_commit)
  have t: "accounts_ok ?dv" "account_table ?dv = w_accounts (S (block_Hash E b))" using assms(2) by (simp_all add: tip_ok_def)
  have "prefix [prefixAccount] k \<Longrightarrow> fst (key_tag k) = 0x61" for k by (cases k) (auto simp: key_tag_def prefixAccount_def)
  then have "accounts_ok d'" using t(1) fin same by (auto simp: accounts_ok_def)
  moreover have "account_table d' = account_table ?dv" using same by (simp add: account_table_def fun_eq_iff)
  moreover have "keyHead \<noteq> keyBurned" "keySchema \<noteq> keyHead" "keySchema \<noteq> keyBurned" "keyGenesis \<noteq> keyHead"
    "keyGenesis \<noteq> keyBurned" "keyChainID \<noteq> keyHead" "keyChainID \<noteq> keyBurned"
    by (simp_all add: singleton_keys)
  ultimately show "disk_ok E g gh d' (block_Hash E b) (S (block_Hash E b))"
    using assms(1,3,4) t(2) by (simp add: disk_ok_def get getBigInt_def get_raw_def db_Get_def TD_bytes)
qed

section \<open>Extending and reorganising start by filing the block\<close>

definition file_batch :: "crypto \<Rightarrow> block \<Rightarrow> receipt list \<Rightarrow> int \<Rightarrow> stored batch" where
  "file_batch E b rs td = putTD (writeBlock E [] b rs) (block_Hash E b) td"

lemma file_batch_get:
  "fst (key_tag k) \<notin> {0x62, 0x72, 0x77} \<Longrightarrow> mem_Get (mem_Commit d (file_batch E b rs td)) k = mem_Get d k"
  by (auto simp: file_batch_def put_defs get_simps)

lemma file_batch_files: "0 \<le> td \<Longrightarrow> files E d b td (mem_Commit d (file_batch E b rs td))"
  by (auto simp: file_batch_def files_def put_defs get_simps apart getTD_def get_raw_def db_Get_def TD_bytes)

lemma files_frame:
  "files E d b td d1 \<Longrightarrow> (\<And>k. fst (key_tag k) \<in> {0x62, 0x77} \<Longrightarrow> mem_Get d2 k = mem_Get d1 k) \<Longrightarrow> files E d b td d2"
  by (simp add: files_def getTD_def get_raw_def db_Get_def)

lemma filed_tip:
  assumes inv: "chain_inv E g S L bc" and acc: "accepted E g bc S L p b w" and td: "0 \<le> td"
  shows "tip_ok E g (ch_genesis bc) (mem_Commit (ch_db bc) (file_batch E b rs td)) (S(block_Hash E b := w)) (ch_head bc)"
    "block_Hash E (ch_head bc) \<noteq> block_Hash E b"
    "stored_block E (ch_db bc) k c \<Longrightarrow> k \<noteq> block_Hash E b \<and> stored_block E (mem_Commit (ch_db bc) (file_batch E b rs td)) k c"
    "stored_block E (mem_Commit (ch_db bc) (file_batch E b rs td)) (block_Hash E b) b"
proof -
  let ?d = "ch_db bc" and ?h = "block_Hash E b" and ?hh = "block_Hash E (ch_head bc)"
  let ?df = "mem_Commit ?d (file_batch E b rs td)" and ?S = "S(block_Hash E b := w)"
  note i = chain_invD [OF inv]
  have fresh: "mem_Get ?d (blockKey ?h) = None" using acc by (simp add: accepted_def)
  note fs = files_stored [OF file_batch_files [OF td] fresh]
  show st: "stored_block E ?d k c \<Longrightarrow> k \<noteq> ?h \<and> stored_block E ?df k c" for k c by (rule fs(2))
  show "stored_block E ?df ?h b" by (simp add: fs(1))
  have same: "mem_Get ?df k = mem_Get ?d k" if "fst (key_tag k) \<in> {0x61, 0x21, 0x63, 0x64}" for k
    using that file_batch_get [of k] by auto
  show ne: "?hh \<noteq> ?h" using i(6) canon_stored st unfolding head_ok_def by blast
  have "head_ok E g (ch_genesis bc) ?df ?S (ch_head bc)"
    by (rule head_ok_frame [OF i(6)]) (use st same in auto)
  moreover have "disk_ok E g (ch_genesis bc) ?df ?hh (S ?hh)"
  proof (rule disk_frame [OF i(7)])
    show "mem_finite ?df" using i(7) by (simp add: disk_ok_def accounts_ok_def mem.finite_commit)
  qed (rule same, auto)
  ultimately show "tip_ok E g (ch_genesis bc) ?df ?S (ch_head bc)" using ne by (simp add: tip_ok_def disk_ok_def)
qed

lemma accepted_rooted: "accepted E g bc S L p b w \<Longrightarrow> rooted E g (S(block_Hash E b := w)) b"
  by (auto simp: accepted_def rooted_def)

lemma accepted_burned: "accepted E g bc S L p b w \<Longrightarrow> 0 \<le> w_burned w"
  using chain_invariant by (auto simp: accepted_def)

text \<open>From a tip of the new branch, the final writes and adoption.\<close>

lemma finish_inv:
  assumes inv: "chain_inv E g S L bc" and acc: "accepted E g bc S L p b w" and td: "0 \<le> td"
    and s: "getTD (ch_db bc) (block_Hash E (ch_head bc)) = Inr s"
    and better: "Better E \<lparr>tip_header = blk_header b, tip_td = td\<rparr> \<lparr>tip_header = blk_header (ch_head bc), tip_td = s\<rparr>"
    and tip: "tip_ok E g (ch_genesis bc) (mem_Commit (ch_db bc) batch) (S(block_Hash E b := w)) b"
    and frame: "\<And>k. fst (key_tag k) \<in> {0x62, 0x77, 0x21} \<Longrightarrow>
      mem_Get (mem_Commit (ch_db bc) batch) k = mem_Get (mem_Commit (ch_db bc) (file_batch E b rs td)) k"
  defines "bc' \<equiv> adopt E bc (putBigInt (putHash batch keyHead (block_Hash E b)) keyBurned (w_burned w)) b w"
  shows "(\<exists>L'. chain_inv E g (S(block_Hash E b := w)) L' bc') \<and> getTD (ch_db bc') (block_Hash E b) = Inr td"
proof -
  let ?S = "S(block_Hash E b := w)" and ?d = "ch_db bc"
  let ?fin = "putBigInt (putHash batch keyHead (block_Hash E b)) keyBurned (w_burned w)"
  have "mem_Get (mem_Commit ?d ?fin) k = mem_Get (mem_Commit ?d (file_batch E b rs td)) k"
    if "fst (key_tag k) \<in> {0x62, 0x77}" for k
  proof -
    have "k \<noteq> keyHead" "k \<noteq> keyBurned" using that by auto
    then show ?thesis using that frame [of k] by (auto simp: put_defs get_simps)
  qed
  then have files: "files E ?d b td (mem_Commit ?d ?fin)" by (rule files_frame [OF file_batch_files [OF td]])
  have single: "mem_Get (mem_Commit ?d batch) k = mem_Get ?d k" if "fst (key_tag k) = 0x21" for k
    using frame [of k] file_batch_get [of k] that by simp
  have "0 \<le> w_burned (?S (block_Hash E b))" using accepted_burned [OF acc] by simp
  note f = finish_disk [OF chain_invD(7) [OF inv] tip this single, unfolded fun_upd_same]
  show ?thesis unfolding bc'_def by (rule adopt_inv [OF inv acc files s better f])
qed

lemma extend_inv:
  assumes inv: "chain_inv E g S L bc" and acc: "accepted E g bc S L p b w" and td: "0 \<le> td"
    and s: "getTD (ch_db bc) (block_Hash E (ch_head bc)) = Inr s"
    and better: "Better E \<lparr>tip_header = blk_header b, tip_td = td\<rparr> \<lparr>tip_header = blk_header (ch_head bc), tip_td = s\<rparr>"
    and parent: "blk_parent b = block_Hash E (ch_head bc)"
  shows "fst (extend E bc b rs w (Touched w) td) = Inr ()"
    "(\<exists>L'. chain_inv E g (S(block_Hash E b := w)) L' (snd (extend E bc b rs w (Touched w) td))) \<and>
     getTD (ch_db (snd (extend E bc b rs w (Touched w) td))) (block_Hash E b) = Inr td"
    "ch_head (snd (extend E bc b rs w (Touched w) td)) = b"
proof -
  let ?S = "S(block_Hash E b := w)" and ?d = "ch_db bc" and ?h = "block_Hash E b"
  let ?batch = "append_block E (file_batch E b rs td) b w (S (blk_parent b))"
  have a: "ch_states bc (blk_parent b) = Some (S (blk_parent b))" "changes (S (blk_parent b)) w"
    "blk_height b < 2 ^ 64" "blk_height b = Suc (blk_height p)" "stored_block E ?d (blk_parent b) p"
    using acc by (auto simp: accepted_def)
  have eq: "extend E bc b rs w (Touched w) td =
      (Inr (), adopt E bc (putBigInt (putHash ?batch keyHead ?h) keyBurned (w_burned w)) b w)"
    using a(1) by (simp add: extend_def append_block_def file_batch_def Let_def)
  note t = filed_tip [OF inv acc td]
  have "stored_block E ?d (blk_parent b) (ch_head bc)"
    using chain_invD(6) [OF inv] canon_stored parent unfolding head_ok_def by metis
  then have "p = ch_head bc" using a(5) stored_block_unique by blast
  then have height: "blk_height b = Suc (blk_height (ch_head bc))" using a(4) by simp
  have fin: "mem_finite ?d" using chain_invD(7) [OF inv] by (simp add: disk_ok_def accounts_ok_def)
  have "tip_ok E g (ch_genesis bc) (mem_Commit ?d ?batch) ?S b"
    using append_tip [OF fin t(1) t(4) parent height a(3)] a(2) t(2) parent accepted_rooted [OF acc] by simp
  moreover have "mem_Get (mem_Commit ?d ?batch) k = mem_Get (mem_Commit ?d (file_batch E b rs td)) k"
    if "fst (key_tag k) \<in> {0x62, 0x77, 0x21}" for k
    using that append_get(1) [of k] by auto
  ultimately show "(\<exists>L'. chain_inv E g ?S L' (snd (extend E bc b rs w (Touched w) td))) \<and>
      getTD (ch_db (snd (extend E bc b rs w (Touched w) td))) ?h = Inr td"
    unfolding eq snd_conv by (rule finish_inv [OF inv acc td s better])
  show "fst (extend E bc b rs w (Touched w) td) = Inr ()" by (simp add: eq)
  show "ch_head (snd (extend E bc b rs w (Touched w) td)) = b"
    by (simp add: eq adopt_def prune_def gcOrphans_def Let_def)
qed

end
