(* ===== verification/Blockchain_Reorg.thy ===== *)
theory Blockchain_Reorg
  imports Blockchain_Insert
begin

text \<open>
  Reorganising keeps the invariant: the walk back to the common ancestor, the reverse diffs that take the
  account table there, and the replay of the new branch on top of it.
\<close>

section \<open>Walking back\<close>

text \<open>\<open>walk E d a xs c\<close>: from \<open>a\<close> through the blocks \<open>xs\<close>, \<open>a\<close> first, parent after parent, to \<open>c\<close>.\<close>

fun walk :: "crypto \<Rightarrow> db \<Rightarrow> block \<Rightarrow> block list \<Rightarrow> block \<Rightarrow> bool" where
  "walk E d a [] c \<longleftrightarrow> c = a"
| "walk E d a (x # xs) c \<longleftrightarrow> x = a \<and> (\<exists>p. stored_block E d (blk_parent a) p \<and> walk E d p xs c)"

lemma walk_append: "walk E d a (xs @ ys) c \<longleftrightarrow> (\<exists>m. walk E d a xs m \<and> walk E d m ys c)"
  by (induction xs arbitrary: a) auto

lemma walk_stored: "walk E d a xs c \<Longrightarrow> xs \<noteq> [] \<Longrightarrow> stored_block E d (block_Hash E c) c"
proof (induction xs arbitrary: a)
  case (Cons x xs)
  then obtain p where p: "stored_block E d (blk_parent a) p" "walk E d p xs c" by auto
  then show ?case using Cons.IH [of p] by (cases xs) (auto simp: stored_block_def)
qed simp

lemma climb_back:
  assumes "cache_ok E bc" and "climb E n bc a t acc = (Inr (a', acc'), bc')"
  shows "\<exists>xs. acc' = acc @ xs \<and> walk E (ch_db bc) a xs a' \<and> (\<forall>x \<in> set xs. t < blk_height x) \<and> blk_height a' \<le> t"
  using assms
proof (induction n arbitrary: bc a acc)
  case (Suc n)
  show ?case
  proof (cases "t < blk_height a")
    case True
    obtain p bc1 where p: "parentOf E bc a = (Inr p, bc1)" and c: "climb E n bc1 p t (acc @ [a]) = (Inr (a', acc'), bc')"
      using Suc.prems(2) True by (auto split: prod.splits sum.splits)
    have r: "recached E bc bc1" using recached_parentOf [of E bc a] p by simp
    note f = recached_fields [OF r Suc.prems(1)]
    have "stored_block E (ch_db bc) (blk_parent a) p" using parentOf_stored [OF Suc.prems(1), of a p] p by simp
    moreover obtain xs where "acc' = (acc @ [a]) @ xs" "walk E (ch_db bc) p xs a'" "\<forall>x \<in> set xs. t < blk_height x"
      "blk_height a' \<le> t"
      using Suc.IH [OF f(1) c] unfolding f(2) by blast
    ultimately show ?thesis using True by (intro exI [of _ "a # xs"]) auto
  next
    case False
    then show ?thesis using Suc.prems(2) by auto
  qed
qed simp

lemma meet_back:
  assumes "cache_ok E bc" and "meet E n bc a b ds as = (Inr (dropped, added, anc), bc')"
  shows "\<exists>xs ys c c'. dropped = rev (ds @ xs) \<and> added = rev (as @ ys) \<and> length xs = length ys \<and>
    walk E (ch_db bc) a xs c \<and> walk E (ch_db bc) b ys c' \<and> block_Hash E c = block_Hash E c' \<and> anc = block_Hash E c \<and>
    (\<forall>x \<in> set xs. 0 < blk_height x)"
  using assms
proof (induction n arbitrary: bc a b ds as)
  case (Suc n)
  show ?case
  proof (cases "block_Hash E a = block_Hash E b")
    case True
    then show ?thesis using Suc.prems(2) by (intro exI [of _ "[]"] exI [of _ a] exI [of _ b]) auto
  next
    case False
    then obtain pa bc1 pb bc2 where h: "0 < blk_height a" "parentOf E bc a = (Inr pa, bc1)" "parentOf E bc1 b = (Inr pb, bc2)"
      and m: "meet E n bc2 pa pb (ds @ [a]) (as @ [b]) = (Inr (dropped, added, anc), bc')"
      using Suc.prems(2) by (auto split: prod.splits sum.splits if_splits)
    have r1: "recached E bc bc1" using recached_parentOf [of E bc a] h(2) by simp
    note f1 = recached_fields [OF r1 Suc.prems(1)]
    have r2: "recached E bc1 bc2" using recached_parentOf [of E bc1 b] h(3) by simp
    note f2 = recached_fields [OF r2 f1(1)]
    have "stored_block E (ch_db bc) (blk_parent a) pa" using parentOf_stored [OF Suc.prems(1), of a pa] h(2) by simp
    moreover have "stored_block E (ch_db bc) (blk_parent b) pb" using parentOf_stored [OF f1(1), of b pb] h(3) f1(2) by simp
    moreover obtain xs ys c c' where "dropped = rev ((ds @ [a]) @ xs)" "added = rev ((as @ [b]) @ ys)" "length xs = length ys"
      "walk E (ch_db bc) pa xs c" "walk E (ch_db bc) pb ys c'" "block_Hash E c = block_Hash E c'" "anc = block_Hash E c"
      "\<forall>x \<in> set xs. 0 < blk_height x"
      using Suc.IH [OF f2(1) m] unfolding f2(2) f1(2) by blast
    ultimately show ?thesis
      using h(1) by (intro exI [of _ "a # xs"] exI [of _ "b # ys"] exI [of _ c] exI [of _ c']) auto
  qed
qed simp

lemma findFork_back:
  assumes "cache_ok E bc" and "findFork E bc a0 b0 = (Inr (dropped, added, anc), bc')"
  obtains xs xs' ys ys' a b c c' where "dropped = rev (xs @ xs')" "added = rev (ys @ ys')" "length xs' = length ys'"
    "walk E (ch_db bc) a0 xs a" "walk E (ch_db bc) a xs' c" "walk E (ch_db bc) b0 ys b" "walk E (ch_db bc) b ys' c'"
    "block_Hash E c = block_Hash E c'" "anc = block_Hash E c" "blk_height a \<le> blk_height b0" "blk_height b \<le> blk_height a"
    "\<forall>x \<in> set ys. blk_height a < blk_height x" "\<forall>x \<in> set (xs @ xs'). 0 < blk_height x"
proof -
  obtain a ds bc1 where 1: "climb E (blk_height a0 + 1) bc a0 (blk_height b0) [] = (Inr (a, ds), bc1)"
    using assms(2) by (auto simp: findFork_def simp del: climb.simps split: prod.splits sum.splits)
  obtain b as bc2 where 2: "climb E (blk_height b0 + 1) bc1 b0 (blk_height a) [] = (Inr (b, as), bc2)"
    using assms(2) 1 by (auto simp: findFork_def simp del: climb.simps split: prod.splits sum.splits)
  have 3: "meet E (blk_height a + 1) bc2 a b ds as = (Inr (dropped, added, anc), bc')"
    using assms(2) 1 2 by (simp add: findFork_def del: climb.simps meet.simps)
  have r1: "recached E bc bc1" using recached_climb [of E bc "blk_height a0 + 1" a0 "blk_height b0" "[]"] 1 by simp
  note f1 = recached_fields [OF r1 assms(1)]
  have r2: "recached E bc1 bc2" using recached_climb [of E bc1 "blk_height b0 + 1" b0 "blk_height a" "[]"] 2 by simp
  note f2 = recached_fields [OF r2 f1(1)]
  have c1: "walk E (ch_db bc) a0 ds a" "\<forall>x \<in> set ds. blk_height b0 < blk_height x" "blk_height a \<le> blk_height b0"
    using climb_back [OF assms(1) 1] by auto
  have c2: "walk E (ch_db bc) b0 as b" "\<forall>x \<in> set as. blk_height a < blk_height x" "blk_height b \<le> blk_height a"
    using climb_back [OF f1(1) 2] unfolding f1(2) by auto
  obtain xs' ys' c c' where m: "dropped = rev (ds @ xs')" "added = rev (as @ ys')" "length xs' = length ys'"
    "walk E (ch_db bc) a xs' c" "walk E (ch_db bc) b ys' c'" "block_Hash E c = block_Hash E c'" "anc = block_Hash E c"
    "\<forall>x \<in> set xs'. 0 < blk_height x"
    using meet_back [OF f2(1) 3] unfolding f2(2) f1(2) by blast
  have "\<forall>x \<in> set (ds @ xs'). 0 < blk_height x" using c1(2) m(8) by auto
  then show thesis using that [OF m(1,2,3) c1(1) m(4) c2(1) m(5,6,7) c1(3) c2(3) c2(2)] by blast
qed

text \<open>On the canonical chain the heights fall by one and every block met is canonical.\<close>

lemma canon_back:
  assumes "canon E g gh d S a" and "walk E d a xs c" and "\<forall>x \<in> set xs. 0 < blk_height x"
  shows "canon E g gh d S c \<and> blk_height a = blk_height c + length xs"
  using assms
proof (induction xs arbitrary: a)
  case (Cons x xs)
  have "0 < blk_height a" using Cons.prems(2,3) by auto
  with Cons.prems(1) obtain p where p: "canon E g gh d S p" "blk_parent a = block_Hash E p" "blk_height a = Suc (blk_height p)"
    by (cases rule: canon.cases) auto
  obtain q where q: "stored_block E d (blk_parent a) q" "walk E d q xs c" using Cons.prems(2) by auto
  have "q = p" using q(1) canon_stored [OF p(1)] p(2) stored_block_unique by metis
  then show ?case using Cons.IH [OF p(1)] q(2) Cons.prems(3) p(3) by auto
qed simp

text \<open>On a branch whose blocks above \<open>L\<close> are linked, the same.\<close>

definition linked :: "crypto \<Rightarrow> db \<Rightarrow> nat \<Rightarrow> block \<Rightarrow> bool" where
  "linked E d L y \<longleftrightarrow> (L < blk_height y \<longrightarrow> (\<forall>p. stored_block E d (blk_parent y) p \<longrightarrow> blk_height y = Suc (blk_height p)))"

lemma linked_heights:
  "walk E d b ys c \<Longrightarrow> \<forall>y \<in> set ys. linked E d L y \<and> L < blk_height y \<Longrightarrow> blk_height b = blk_height c + length ys"
  by (induction ys arbitrary: b) (auto simp: linked_def)

lemma linked_above:
  "walk E d b ys c \<Longrightarrow> \<forall>y \<in> set ys. linked E d L y \<Longrightarrow> blk_height b = blk_height c + length ys \<Longrightarrow> L \<le> blk_height c \<Longrightarrow>
    \<forall>y \<in> set ys. L < blk_height y"
proof (induction ys arbitrary: b)
  case (Cons y ys)
  then obtain p where p: "y = b" "stored_block E d (blk_parent b) p" "walk E d p ys c" by auto
  have L: "L < blk_height b" using Cons.prems(3,4) by simp
  then have "blk_height b = Suc (blk_height p)" using Cons.prems(2) p(1,2) by (auto simp: linked_def)
  then show ?case using Cons.IH [OF p(3)] Cons.prems L p(1) by auto
qed simp

section \<open>Unwinding\<close>

text \<open>Part of the way back: the batch has taken the tables of \<open>base\<close> to block \<open>a\<close>.\<close>

definition unwound :: "crypto \<Rightarrow> db \<Rightarrow> db \<Rightarrow> (hash \<Rightarrow> world) \<Rightarrow> stored batch \<Rightarrow> block \<Rightarrow> bool" where
  "unwound E d base S batch a \<longleftrightarrow>
     (\<forall>k. fst (key_tag k) \<in> {0x62, 0x72, 0x77, 0x64, 0x21} \<longrightarrow> mem_Get (mem_Commit d batch) k = mem_Get base k) \<and>
     (\<forall>n < 2 ^ 64. mem_Get (mem_Commit d batch) (canonicalKey n) =
        (if blk_height a < n then None else mem_Get base (canonicalKey n))) \<and>
     accounts_ok (mem_Commit d batch) \<and> account_table (mem_Commit d batch) = w_accounts (S (block_Hash E a))"

definition undo_batch :: "crypto \<Rightarrow> stored batch \<Rightarrow> block \<Rightarrow> world \<Rightarrow> world \<Rightarrow> stored batch" where
  "undo_batch E batch a w prev =
     batch_Delete (foldl (\<lambda>b tx. batch_Delete b (txIndexKey (tx_Hash E tx)))
       (batch @ map (account_op prev) (Touched w)) (blk_txs a)) (canonicalKey (blk_height a))"

lemma undo_get:
  "fst (key_tag k) \<notin> {0x61, 0x74} \<Longrightarrow> mem_Get (mem_Commit d (undo_batch E batch a w prev)) k =
     (if k = canonicalKey (blk_height a) then None else mem_Get (mem_Commit d batch) k)"
  by (simp add: undo_batch_def get_simps get_unindexed mem.commit_append mem.get_commit [of "mem_Commit d batch"]
      written_accounts_other)

lemma undo_retabled:
  assumes "mem_finite d" and "changes prev w"
  shows "retabled (mem_Commit d batch) (w_touched w) prev (mem_Commit d (undo_batch E batch a w prev))"
proof (rule retabled_frame)
  show "retabled (mem_Commit d batch) (w_touched w) prev (mem_Commit d (batch @ map (account_op prev) (Touched w)))"
    using retabled_accounts [OF assms(1), of batch "Touched w" prev] by (simp add: Touched_set [OF assms(2)])
  fix k
  assume k: "fst (key_tag k) = 0x61"
  then have "k \<noteq> canonicalKey (blk_height a)" by auto
  then show "mem_Get (mem_Commit d (undo_batch E batch a w prev)) k =
      mem_Get (mem_Commit d (batch @ map (account_op prev) (Touched w))) k"
    using k by (simp add: undo_batch_def get_simps get_unindexed)
qed (simp add: mem.finite_commit [OF assms(1)])

lemma unwind_ok:
  assumes "canon E g gh d S a" and "walk E d a xs c" and "\<forall>x \<in> set xs. 0 < blk_height x" and "mem_finite d"
    and "unwound E d base S batch a"
  shows "\<exists>batch'. unwind E d batch xs = Inr batch' \<and> unwound E d base S batch' c"
  using assms
proof (induction xs arbitrary: a batch)
  case (Cons x xs)
  have "0 < blk_height a" using Cons.prems(2,3) by auto
  with Cons.prems(1) obtain p where p: "canon E g gh d S p" "blk_parent a = block_Hash E p" "blk_height a = Suc (blk_height p)"
    "blk_height a < 2 ^ 64" "mem_Get d (revDiffKey (block_Hash E a)) =
      Some (JDiff (diff_of (S (block_Hash E p)) (S (block_Hash E a))))" "changes (S (block_Hash E p)) (S (block_Hash E a))"
    by (cases rule: canon.cases) auto
  obtain q where x: "x = a" and q: "stored_block E d (blk_parent a) q" "walk E d q xs c" using Cons.prems(2) by auto
  have qp: "q = p" using q(1) canon_stored [OF p(1)] p(2) stored_block_unique by metis
  let ?w = "S (block_Hash E a)" and ?v = "S (block_Hash E p)"
  let ?b = "undo_batch E batch a ?w ?v"
  have rd: "applyReverseDiff d batch (block_Hash E a) = Inr (batch @ map (account_op ?v) (Touched ?w))"
    using p(5) by (simp add: applyReverseDiff_def loadStoredDiff_def db_Get_def diff_of_def undo_accounts_of)
  have step: "unwind E d batch (x # xs) = unwind E d ?b xs" using rd by (simp add: x undo_batch_def Let_def)
  note u = Cons.prems(5) [unfolded unwound_def]
  have "accounts_ok (mem_Commit d ?b) \<and> account_table (mem_Commit d ?b) = w_accounts ?v"
    using retabled_table [OF _ undo_retabled [OF Cons.prems(4) p(6)], of batch E a] u p(6) changes_back [OF p(6)]
    by (auto simp: changes_def)
  moreover have "mem_Get (mem_Commit d ?b) k = mem_Get base k" if "fst (key_tag k) \<in> {0x62, 0x72, 0x77, 0x64, 0x21}" for k
  proof -
    have "k \<noteq> canonicalKey (blk_height a)" "fst (key_tag k) \<notin> {0x61, 0x74}" using that by auto
    then show ?thesis using that u by (auto simp: undo_get)
  qed
  moreover have "mem_Get (mem_Commit d ?b) (canonicalKey n) = (if blk_height p < n then None else mem_Get base (canonicalKey n))"
    if "n < 2 ^ 64" for n
    using that u p(3,4) canonicalKey_inject [of n "blk_height a"] by (auto simp: undo_get)
  ultimately have "unwound E d base S ?b p" by (simp add: unwound_def)
  from Cons.IH [OF p(1) q(2) [unfolded qp] _ Cons.prems(4) this] Cons.prems(3) show ?case unfolding step by simp
qed simp

section \<open>Replaying\<close>

text \<open>\<open>grows\<close>: the blocks \<open>ys\<close>, oldest first, each on top of the one before, starting on \<open>c\<close>.\<close>

fun grows :: "crypto \<Rightarrow> genesis \<Rightarrow> db \<Rightarrow> (hash \<Rightarrow> world) \<Rightarrow> block \<Rightarrow> block list \<Rightarrow> bool" where
  "grows E g d S c [] \<longleftrightarrow> True"
| "grows E g d S c (y # ys) \<longleftrightarrow> blk_parent y = block_Hash E c \<and> blk_height y = Suc (blk_height c) \<and> blk_height y < 2 ^ 64 \<and>
     stored_block E d (block_Hash E y) y \<and> changes (S (block_Hash E c)) (S (block_Hash E y)) \<and> rooted E g S y \<and>
     grows E g d S y ys"

lemma grows_frame: "grows E g d S c ys \<Longrightarrow> (\<And>k. fst (key_tag k) = 0x62 \<Longrightarrow> mem_Get d' k = mem_Get d k) \<Longrightarrow> grows E g d' S c ys"
  by (induction ys arbitrary: c) (auto simp: stored_block_def)

lemma replay_ok:
  assumes "mem_finite d" and "tip_ok E g gh (mem_Commit d batch) S c" and "grows E g (mem_Commit d batch) S c ys"
    and "replay E bc nh w batch ys = Inr batch'"
    and "\<And>k v. ch_states bc k = Some v \<Longrightarrow> k \<noteq> block_Hash E nh \<and> v = S k" and "w = S (block_Hash E nh)"
  shows "tip_ok E g gh (mem_Commit d batch') S (last (c # ys)) \<and>
    (\<forall>k. fst (key_tag k) \<in> {0x62, 0x77, 0x21} \<longrightarrow> mem_Get (mem_Commit d batch') k = mem_Get (mem_Commit d batch) k)"
  using assms
proof (induction ys arbitrary: c batch)
  case (Cons y ys)
  obtain st prev where st: "(if block_Hash E y = block_Hash E nh then Some w else ch_states bc (block_Hash E y)) = Some st"
    "ch_states bc (blk_parent y) = Some prev"
    and r: "replay E bc nh w (append_block E batch y st prev) ys = Inr batch'"
    using Cons.prems(4) by (auto simp: append_block_def Let_def split: option.splits if_splits)
  have y: "blk_parent y = block_Hash E c" "blk_height y = Suc (blk_height c)" "blk_height y < 2 ^ 64"
    "stored_block E (mem_Commit d batch) (block_Hash E y) y" "changes (S (block_Hash E c)) (S (block_Hash E y))"
    "grows E g (mem_Commit d batch) S y ys" "rooted E g S y" using Cons.prems(3) by auto
  have e: "st = S (block_Hash E y)" "prev = S (block_Hash E c)"
    using st Cons.prems(5,6) y(1) by (auto split: if_splits)
  let ?b = "append_block E batch y st prev"
  have t: "tip_ok E g gh (mem_Commit d ?b) S y"
    unfolding e by (rule append_tip [OF Cons.prems(1,2) y(4,1,2,3,5,7)])
  have g: "grows E g (mem_Commit d ?b) S y ys" by (rule grows_frame [OF y(6)]) (simp add: append_get)
  from Cons.IH [OF Cons.prems(1) t g r Cons.prems(5,6)] show ?case by (auto simp: append_get)
qed simp

section \<open>The whole reorganisation\<close>

lemma replay_states:
  "replay E bc nh w batch ys = Inr batch' \<Longrightarrow> y \<in> set ys \<Longrightarrow>
    (block_Hash E y = block_Hash E nh \<or> ch_states bc (block_Hash E y) \<noteq> None) \<and> ch_states bc (blk_parent y) \<noteq> None"
  by (induction ys arbitrary: batch) (auto simp: Let_def split: option.splits if_splits)

lemma walk_mem: "walk E d a xs c \<Longrightarrow> y \<in> set xs \<Longrightarrow> y = a \<or> stored_block E d (block_Hash E y) y"
proof (induction xs arbitrary: a)
  case (Cons x xs)
  then obtain p where p: "x = a" "stored_block E d (blk_parent a) p" "walk E d p xs c" by auto
  then show ?case using Cons.IH [OF p(3)] Cons.prems(2) by (auto simp: stored_block_def)
qed simp

lemma grows_snoc: "grows E g d S c (ys @ [y]) \<longleftrightarrow> grows E g d S c ys \<and> grows E g d S (last (c # ys)) [y]"
  by (induction ys arbitrary: c) auto

lemma walk_grows:
  assumes "walk E d b zs c" and "\<And>y. y \<in> set zs \<Longrightarrow> blk_height y < 2 ^ 64 \<and> stored_block E base (block_Hash E y) y \<and> rooted E g S y"
    and "\<And>y p. y \<in> set zs \<Longrightarrow> stored_block E d (blk_parent y) p \<Longrightarrow>
      blk_height y = Suc (blk_height p) \<and> changes (S (blk_parent y)) (S (block_Hash E y))"
  shows "grows E g base S c (rev zs) \<and> last (c # rev zs) = b"
  using assms
proof (induction zs arbitrary: b)
  case (Cons z zs)
  then obtain p where p: "z = b" "stored_block E d (blk_parent b) p" "walk E d p zs c" by auto
  have "grows E g base S c (rev zs) \<and> last (c # rev zs) = p" by (rule Cons.IH [OF p(3)]) (use Cons.prems in auto)
  moreover have "blk_parent b = block_Hash E p" using p(2) by (simp add: stored_block_def)
  ultimately show ?case
    using Cons.prems(2) [of b] Cons.prems(3) [of b p] p by (simp add: grows_snoc)
qed simp

text \<open>A held block is stored, and above \<open>L\<close> it is linked to its stored parent.\<close>

lemma held_linked:
  assumes inv: "chain_inv E g S L bc" and "stored_block E (ch_db bc) h y" and "ch_states bc h = Some v"
  shows "L \<le> blk_height y" "blk_height y < 2 ^ 64" "rooted E g S y" "L < blk_height y \<Longrightarrow> stored_block E (ch_db bc) (blk_parent y) p \<Longrightarrow>
    blk_height y = Suc (blk_height p) \<and> changes (S (blk_parent y)) (S h)"
proof -
  from tree_okD [OF chain_invD(4) [OF inv] assms(3)] obtain b where b: "ch_blockCache bc h = Some b"
    "held_ok E g (ch_db bc) S L h b" by blast
  have "b = y" using b(1) chain_invD(2) [OF inv] assms(2) stored_block_unique unfolding cache_ok_def by blast
  moreover have "block_Hash E y = h" using assms(2) by (simp add: stored_block_def)
  ultimately show "rooted E g S y" using b(2) by (auto simp: held_ok_def rooted_def)
  show "L \<le> blk_height y" "blk_height y < 2 ^ 64" "L < blk_height y \<Longrightarrow> stored_block E (ch_db bc) (blk_parent y) p \<Longrightarrow>
    blk_height y = Suc (blk_height p) \<and> changes (S (blk_parent y)) (S h)"
    using b(2) unfolding held_ok_def \<open>b = y\<close> by (blast dest: stored_block_unique)+
qed

text \<open>Where the two branches meet, and that the new one grows from there block by block.\<close>

lemma fork_shape:
  assumes inv: "chain_inv E g S L bc" and acc: "accepted E g bc S L p b w" and td: "0 \<le> td"
    and fork: "findFork E bc (ch_head bc) b = (Inr (dropped, added, anc), bc1)"
    and held: "\<And>y. y \<in> set added \<Longrightarrow>
      (block_Hash E y = block_Hash E b \<or> ch_states bc (block_Hash E y) \<noteq> None) \<and> ch_states bc (blk_parent y) \<noteq> None"
  obtains c where "walk E (ch_db bc) (ch_head bc) (rev dropped) c" "\<forall>x \<in> set (rev dropped). 0 < blk_height x"
    "grows E g (mem_Commit (ch_db bc) (file_batch E b rs td)) (S(block_Hash E b := w)) c added" "last (c # added) = b"
proof -
  let ?d = "ch_db bc" and ?h = "block_Hash E b" and ?S = "S(block_Hash E b := w)"
  let ?base = "mem_Commit ?d (file_batch E b rs td)"
  have a: "L < blk_height b" "blk_height b < 2 ^ 64" "stored_block E ?d (blk_parent b) p" "blk_height b = Suc (blk_height p)"
    "changes (S (blk_parent b)) w" using acc by (auto simp: accepted_def)
  note ft = filed_tip(1) [OF inv acc td, of rs] filed_tip(2) [OF inv acc td] filed_tip(3,4) [OF inv acc td, where rs = rs]
  obtain xs xs' ys ys' m n c c' where f: "dropped = rev (xs @ xs')" "added = rev (ys @ ys')" "length xs' = length ys'"
    "walk E ?d (ch_head bc) xs m" "walk E ?d m xs' c" "walk E ?d b ys n" "walk E ?d n ys' c'"
    "block_Hash E c = block_Hash E c'" "blk_height m \<le> blk_height b" "blk_height n \<le> blk_height m"
    "\<forall>x \<in> set ys. blk_height m < blk_height x" "\<forall>x \<in> set (xs @ xs'). 0 < blk_height x"
    by (rule findFork_back [OF chain_invD(2) [OF inv] fork])
  have ch: "canon E g (ch_genesis bc) ?d S (ch_head bc)" using chain_invD(6) [OF inv] by (simp add: head_ok_def)
  have cm: "canon E g (ch_genesis bc) ?d S m" using canon_back [OF ch f(4)] f(12) by simp
  have cc: "canon E g (ch_genesis bc) ?d S c" "blk_height m = blk_height c + length xs'" using canon_back [OF cm f(5)] f(12) by auto
  have wx: "walk E ?d (ch_head bc) (rev dropped) c" using f(1,4,5) by (auto simp: walk_append)
  have wy: "walk E ?d b (ys @ ys') c'" using f(6,7) by (auto simp: walk_append)
  have sc: "stored_block E ?d (block_Hash E c) c" by (rule canon_stored [OF cc(1)])
  have ne: "ys @ ys' \<noteq> []"
  proof
    assume "ys @ ys' = []"
    then have "c' = b" using wy by simp
    then show False using ft(3) [OF sc] f(8) by simp
  qed
  have c': "c' = c" using walk_stored [OF wy ne] sc f(8) stored_block_unique by metis
  have wy: "walk E ?d b (ys @ ys') c" using wy c' by simp
  obtain zs z where z: "ys @ ys' = zs @ [z]" using ne by (metis rev_exhaust)
  then obtain q where "walk E ?d b zs q" "z = q" "stored_block E ?d (blk_parent z) c" using wy by (auto simp: walk_append)
  then have "ch_states bc (block_Hash E c) \<noteq> None"
    using held [of z] f(2) z by (auto simp: stored_block_def)
  then have Lc: "L \<le> blk_height c" using held_linked(1) [OF inv sc] by blast
  have link: "blk_height y < 2 ^ 64 \<and> (L < blk_height y \<longrightarrow> stored_block E ?d (blk_parent y) q \<longrightarrow>
      blk_height y = Suc (blk_height q) \<and> changes (?S (blk_parent y)) (?S (block_Hash E y))) \<and>
      stored_block E ?base (block_Hash E y) y \<and> rooted E g ?S y" if y: "y \<in> set (ys @ ys')" for y q
  proof (cases "y = b")
    case True
    then show ?thesis using a ft(3) [OF a(3)] ft(4) stored_block_unique [OF a(3), of q] accepted_rooted [OF acc] by auto
  next
    case False
    then have sy: "stored_block E ?d (block_Hash E y) y" using walk_mem [OF wy y] by blast
    then have hy: "block_Hash E y \<noteq> ?h" using ft(3) by blast
    then obtain v where v: "ch_states bc (block_Hash E y) = Some v" using held [of y] y f(2) by auto
    have "?S (blk_parent y) = S (blk_parent y)" if "stored_block E ?d (blk_parent y) q" using ft(3) [OF that] by simp
    moreover have "rooted E g ?S y" using held_linked(3) [OF inv sy v] hy by (simp add: rooted_def)
    ultimately show ?thesis using held_linked(2,4) [OF inv sy v] hy ft(3) [OF sy] by auto
  qed
  then have lk: "\<forall>y \<in> set (ys @ ys'). linked E ?d L y" by (auto simp: linked_def)
  have ym: "\<forall>y \<in> set ys. linked E ?d L y \<and> L < blk_height y" using f(11) lk Lc cc(2) by auto
  have hb: "blk_height b = blk_height n + length ys" by (rule linked_heights [OF f(6) ym])
  have "blk_height n = blk_height m"
  proof (cases ys rule: rev_exhaust)
    case Nil
    then show ?thesis using f(6,9,10) by simp
  next
    case (snoc us u)
    then have "stored_block E ?d (blk_parent u) n" using f(6) by (auto simp: walk_append)
    then have "blk_height u = Suc (blk_height n)" using ym snoc by (auto simp: linked_def)
    then show ?thesis using f(10,11) snoc by simp
  qed
  then have "blk_height b = blk_height c + length (ys @ ys')" using hb cc(2) f(3) by simp
  from linked_above [OF wy lk this Lc] have above: "\<forall>y \<in> set (ys @ ys'). L < blk_height y" .
  have "grows E g ?base ?S c (rev (ys @ ys')) \<and> last (c # rev (ys @ ys')) = b"
    by (rule walk_grows [OF wy]) (use link above in blast)+
  then show thesis using that [OF wx] f(1,2,12) by simp
qed

lemma unwound_tip:
  assumes "canon E g gh d S c" and "unwound E d base S batch c"
    and "\<And>k. fst (key_tag k) \<in> {0x63, 0x64} \<Longrightarrow> mem_Get base k = mem_Get d k"
    and "\<And>k b. stored_block E d k b \<Longrightarrow> stored_block E base k b"
  shows "tip_ok E g gh (mem_Commit d batch) S c"
proof -
  have "canon E g gh (mem_Commit d batch) S c"
  proof (rule canon_frame [OF assms(1)])
    fix k b
    assume k: "stored_block E d k b" "blk_height b \<le> blk_height c" "canon_at d k (blk_height b)"
    have "blk_height b < 2 ^ 64" using k(2) canon_height [OF assms(1)] by simp
    then show "stored_block E (mem_Commit d batch) k b \<and> canon_at (mem_Commit d batch) k (blk_height b) \<and>
        mem_Get (mem_Commit d batch) (revDiffKey k) = mem_Get d (revDiffKey k) \<and> S k = S k"
      using assms(2,3) k assms(4) [OF k(1)] by (simp add: unwound_def stored_block_def canon_at_def)
  qed
  then show ?thesis using assms(2) by (simp add: tip_ok_def head_ok_def unwound_def)
qed

lemma reorg_inv:
  assumes inv: "chain_inv E g S L bc" and acc: "accepted E g bc S L p b w" and td: "0 \<le> td"
    and s: "getTD (ch_db bc) (block_Hash E (ch_head bc)) = Inr s"
    and better: "Better E \<lparr>tip_header = blk_header b, tip_td = td\<rparr> \<lparr>tip_header = blk_header (ch_head bc), tip_td = s\<rparr>"
    and r: "reorg E bc b rs w td = (r, bc2)"
  shows "(case r of Inl _ \<Rightarrow> recached E bc bc2
    | Inr ro \<Rightarrow> ch_head bc2 = b \<and> (\<exists>L'. chain_inv E g (S(block_Hash E b := w)) L' bc2) \<and>
        getTD (ch_db bc2) (block_Hash E b) = Inr td)"
proof -
  obtain q bc1 where fk: "findFork E bc (ch_head bc) b = (q, bc1)" by fastforce
  have rc: "recached E bc bc1" using recached_findFork [of E bc "ch_head bc" b] fk by simp
  note f = recached_fields [OF rc chain_invD(2) [OF inv]]
  have inv1: "chain_inv E g S L bc1" by (rule inv_recached [OF rc inv])
  have acc1: "accepted E g bc1 S L p b w" using acc by (simp add: accepted_def f)
  let ?d = "ch_db bc" and ?S = "S(block_Hash E b := w)"
  let ?base = "mem_Commit ?d (file_batch E b rs td)"
  show ?thesis
  proof (cases r)
    case (Inl e)
    then have "bc2 = bc1"
      using r fk by (auto simp: reorg_def Let_def split: sum.splits prod.splits if_splits)
    then show ?thesis using rc Inl by simp
  next
    case (Inr ro)
    obtain dropped added anc where q: "q = Inr (dropped, added, anc)" using r fk Inr by (cases q) (auto simp: reorg_def)
    obtain b1 b2 where u: "unwind E ?d (file_batch E b rs td) (rev dropped) = Inr b1"
      and rp: "replay E bc1 b w b1 added = Inr b2"
      and bc2: "bc2 = adopt E bc1 (putBigInt (putHash b2 keyHead (block_Hash E b)) keyBurned (w_burned w)) b w"
      using r fk q Inr by (auto simp: reorg_def file_batch_def Let_def f split: sum.splits if_splits)
    note ft = filed_tip(1) [OF inv acc td, of rs] filed_tip(3) [OF inv acc td, where rs = rs]
    obtain c where c: "walk E ?d (ch_head bc) (rev dropped) c" "\<forall>x \<in> set (rev dropped). 0 < blk_height x"
      "grows E g ?base ?S c added" "last (c # added) = b"
      using fork_shape [OF inv acc td fk [unfolded q], of rs] replay_states [OF rp] unfolding f by blast
    have fin: "mem_finite ?d" using chain_invD(7) [OF inv] by (simp add: disk_ok_def accounts_ok_def)
    have ch: "canon E g (ch_genesis bc) ?d ?S (ch_head bc)"
      by (rule canon_frame [of _ _ _ ?d S]) (use chain_invD(6) [OF inv] ft(2) in \<open>auto simp: head_ok_def\<close>)
    have cc: "canon E g (ch_genesis bc) ?d ?S c" using canon_back [OF ch c(1,2)] by simp
    have "unwound E ?d ?base ?S (file_batch E b rs td) (ch_head bc)"
      using ft(1) by (auto simp: unwound_def tip_ok_def head_ok_def)
    from unwind_ok [OF ch c(1,2) fin this] u have un: "unwound E ?d ?base ?S b1 c" by auto
    have tip: "tip_ok E g (ch_genesis bc) (mem_Commit ?d b1) ?S c"
      by (rule unwound_tip [OF cc un]) (use ft(2) in \<open>auto simp: file_batch_get\<close>)
    have g1: "grows E g (mem_Commit ?d b1) ?S c added"
      by (rule grows_frame [OF c(3)]) (use un in \<open>simp add: unwound_def\<close>)
    have st: "k \<noteq> block_Hash E b \<and> v = ?S k" if "ch_states bc1 k = Some v" for k v
    proof -
      from tree_okD [OF chain_invD(4) [OF inv1] that] obtain y where y: "v = S k" "ch_blockCache bc1 k = Some y" by blast
      then have "stored_block E ?d k y" using f(1,2) by (auto simp: cache_ok_def)
      then show ?thesis using ft(2) y(1) by auto
    qed
    have "tip_ok E g (ch_genesis bc) (mem_Commit ?d b2) ?S (last (c # added)) \<and>
      (\<forall>k. fst (key_tag k) \<in> {0x62, 0x77, 0x21} \<longrightarrow> mem_Get (mem_Commit ?d b2) k = mem_Get (mem_Commit ?d b1) k)"
      by (rule replay_ok [OF fin tip g1 rp st]) simp_all
    then have fin1: "tip_ok E g (ch_genesis bc1) (mem_Commit (ch_db bc1) b2) ?S b \<and>
      (\<forall>k. fst (key_tag k) \<in> {0x62, 0x77, 0x21} \<longrightarrow> mem_Get (mem_Commit (ch_db bc1) b2) k = mem_Get (mem_Commit ?d b1) k)"
      unfolding c(4) f .
    have frame: "mem_Get (mem_Commit (ch_db bc1) b2) k = mem_Get (mem_Commit (ch_db bc1) (file_batch E b rs td)) k"
      if "fst (key_tag k) \<in> {0x62, 0x77, 0x21}" for k
      using fin1 un that unfolding f unwound_def by auto
    have "(\<exists>L'. chain_inv E g ?S L' bc2) \<and> getTD (ch_db bc2) (block_Hash E b) = Inr td"
      unfolding bc2
      by (rule finish_inv [OF inv1 acc1 td _ _ conjunct1 [OF fin1] frame]) (use s better f in simp_all)
    moreover have "ch_head bc2 = b" unfolding bc2 by (simp add: adopt_def prune_def gcOrphans_def Let_def)
    ultimately show ?thesis using Inr by simp
  qed
qed

section \<open>Inserting\<close>

lemma getTD_nonneg: "getTD d h = Inr t \<Longrightarrow> 0 \<le> t"
  by (auto simp: getTD_def get_raw_def db_Get_def split: option.splits stored.splits)

text \<open>What an insertion does: refuse with no more than a read, or accept and choose the head.\<close>

lemma insert_cases:
  assumes inv: "chain_inv E g S L bc" and bounds: "block_bounds b" and r: "insert_block E now bc b = (r, bc2)"
    and s: "getTD (ch_db bc) (block_Hash E (ch_head bc)) = Inr s"
  obtains (refused) e where "r = Inl e" "recached E bc bc2"
  | (kept) w L' t where "r = Inr None" "chain_inv E g (S(block_Hash E b := w)) L' bc2" "ch_head bc2 = ch_head bc"
      "getTD (ch_db bc2) (block_Hash E (ch_head bc)) = Inr s" "getTD (ch_db bc) (blk_parent b) = Inr t"
      "\<not> Better E \<lparr>tip_header = blk_header b, tip_td = t + int (hd_difficulty (blk_header b))\<rparr>
          \<lparr>tip_header = blk_header (ch_head bc), tip_td = s\<rparr>"
  | (adopted) ro w L' t where "r = Inr ro" "chain_inv E g (S(block_Hash E b := w)) L' bc2" "ch_head bc2 = b"
      "getTD (ch_db bc2) (block_Hash E b) = Inr (t + int (hd_difficulty (blk_header b)))"
      "getTD (ch_db bc) (blk_parent b) = Inr t"
      "Better E \<lparr>tip_header = blk_header b, tip_td = t + int (hd_difficulty (blk_header b))\<rparr>
          \<lparr>tip_header = blk_header (ch_head bc), tip_td = s\<rparr>"
proof -
  obtain q bc1 where guard: "insert_guard E now bc b = (q, bc1)" by fastforce
  have rc: "recached E bc bc1" using recached_insert_guard [of E bc now b] guard by simp
  have no: thesis if "r = Inl e" "bc2 = bc1" for e using refused that rc by simp
  show thesis
  proof (cases q)
    case (Inl e)
    then show thesis using no [of e] r guard by (simp add: insert_block_def)
  next
    case (Inr p)
    note guard = guard [unfolded Inr]
    show thesis
    proof (cases "ch_states bc1 (block_Hash E p)")
      case None
      then show thesis using no [of ErrReorgTooDeep] r guard by (simp add: insert_block_def)
    next
      case (Some ps)
      show thesis
      proof (cases "ApplyBlock E (ch_rewards bc1) ps b (Some (blk_header p))")
        case (Inl e)
        then show thesis
          using no [of "ErrApply e"] r guard Some by (simp add: insert_block_def)
      next
        case (Inr wr)
        obtain w rs where wr: "wr = (w, rs)" by fastforce
        note acc = applied_accepted [OF inv guard Some agrees_refl Inr [unfolded wr] bounds]
        have pl: "place E bc1 p b rs w = (r, bc2)" using r guard Some Inr wr by (simp add: insert_block_def)
        have ph: "stored_block E (ch_db bc1) (block_Hash E p) p" using acc(1) by (simp add: accepted_def stored_block_def)
        obtain pt where pt: "getTD (ch_db bc1) (block_Hash E p) = Inr pt"
          using chain_invD(3) [OF acc(2)] ph unfolding blocks_ok_def stored_block_def by blast
        note fl = recached_fields [OF rc chain_invD(2) [OF inv]]
        have s1: "getTD (ch_db bc1) (block_Hash E (ch_head bc1)) = Inr s" using s by (simp add: fl)
        have pp: "getTD (ch_db bc) (blk_parent b) = Inr pt"
          using pt acc(1) by (auto simp: fl accepted_def stored_block_def)
        let ?td = "pt + int (hd_difficulty (blk_header b))"
        have td: "0 \<le> ?td" using getTD_nonneg [OF pt] by simp
        have hd: "ch_head bc1 = ch_head bc" by (rule fl)
        let ?better = "Better E \<lparr>tip_header = blk_header b, tip_td = ?td\<rparr> \<lparr>tip_header = blk_header (ch_head bc1), tip_td = s\<rparr>"
        show thesis
        proof (cases ?better)
          case False
          then have "r = Inr None" "bc2 = keep_side E bc1 b rs w ?td" using pl pt s1 by (simp_all add: place_def Let_def)
          then show thesis
            using kept [OF _ _ _ _ pp] keep_side_inv [OF acc(2,1) td s1 False, of rs] hd False
            by (simp add: keep_side_def Let_def)
        next
          case better: True
          show thesis
          proof (cases "blk_parent b = block_Hash E (ch_head bc1)")
            case True
            note e = extend_inv [OF acc(2,1) td s1 better True, of rs]
            have "r = Inr None" "bc2 = snd (extend E bc1 b rs w (Touched w) ?td)"
              using pl pt s1 better True e(1) by (auto simp: place_def Let_def split: prod.splits)
            then show thesis using adopted [OF _ _ _ _ pp] e(2,3) better hd by metis
          next
            case False
            obtain rr where rr: "reorg E bc1 b rs w ?td = (rr, bc2)" and
              eq: "r = (case rr of Inl e \<Rightarrow> Inl e | Inr ro \<Rightarrow> Inr (Some ro))"
              using pl pt s1 better False by (auto simp: place_def Let_def split: prod.splits sum.splits)
            note g = reorg_inv [OF acc(2,1) td s1 better rr]
            show thesis
            proof (cases rr)
              case (Inl e)
              then show thesis using refused g eq recached_trans [OF rc] by simp
            next
              case (Inr ro)
              then show thesis using adopted [OF _ _ _ _ pp] g eq better hd by auto
            qed
          qed
        qed
      qed
    qed
  qed
qed

end
