(* ===== verification/Blockchain_Node.thy ===== *)
theory Blockchain_Node
  imports Blockchain_Reorg
begin

text \<open>
  One run of a node on a fresh store: opened empty, then any sequence of insertions and reads.  Every state
  reached satisfies the invariant, and its store can be opened again, with the states of the window below the
  head rebuilt from the reverse diffs.
\<close>

section \<open>A fresh chain\<close>

lemma get_alloc:
  "mem_Get (mem_Commit d (foldl (put_alloc w) b xs)) k =
     (if \<exists>a \<in> fst ` set xs. k = accountKey a then Some (JAccount (world_Get w (THE a. k = accountKey a)))
      else mem_Get (mem_Commit d b) k)"
proof (induction xs arbitrary: b)
  case (Cons x xs)
  obtain a v where x: "x = (a, v)" by fastforce
  show ?case unfolding foldl_Cons Cons.IH by (auto simp: x put_alloc_def get_simps)
qed simp

lemma get_alloc_account:
  "mem_Get (mem_Commit d (foldl (put_alloc w) b xs)) (accountKey a) =
     (if a \<in> fst ` set xs then Some (JAccount (world_Get w a)) else mem_Get (mem_Commit d b) (accountKey a))"
  by (auto simp: get_alloc)

lemma get_alloc_other:
  "fst (key_tag k) \<noteq> 0x61 \<Longrightarrow> mem_Get (mem_Commit d (foldl (put_alloc w) b xs)) k = mem_Get (mem_Commit d b) k"
  by (auto simp: get_alloc)

lemma credit_alloc_only: "credit_alloc xs w = Some v \<Longrightarrow> a \<notin> fst ` set xs \<Longrightarrow> w_accounts v a = w_accounts w a"
  by (induction xs w rule: credit_alloc.induct) (auto simp: Credit_def Let_def world_simps)

definition init_batch :: "crypto \<Rightarrow> genesis \<Rightarrow> world \<Rightarrow> block \<Rightarrow> stored batch" where
  "init_batch E g w blk =
     putHash (batch_Put (foldl (put_alloc (ClearTouched w))
       (putTD (putHash (writeBlock E (putHash (putUint64 (putUint64 [] keySchema schemaVersion) keyChainID (g_ChainID g))
         keyGenesis (block_Hash E blk)) blk []) (canonicalKey 0) (block_Hash E blk)) (block_Hash E blk)
         (int (hd_difficulty (blk_header blk)))) (g_Alloc g))
       (revDiffKey (block_Hash E blk)) (JDiff \<lparr>sd_Entries = [], sd_BurnDelta = None\<rparr>)) keyHead (block_Hash E blk)"

lemma get_init:
  fixes E :: crypto and g :: genesis and w :: world and blk :: block
  defines "h \<equiv> block_Hash E blk" and "d \<equiv> mem_Commit NewMemory (init_batch E g w blk)"
  shows "mem_Get d (blockKey k) = (if k = h then Some (JBlock blk) else None)"
    "getTD d h = Inr (int (hd_difficulty (blk_header blk)))"
    "mem_Get d (canonicalKey n) = (if canonicalKey n = canonicalKey 0 then Some (Raw (hash_bytes h)) else None)"
    "mem_Get d (accountKey a) = (if a \<in> fst ` set (g_Alloc g) then Some (JAccount (world_Get (ClearTouched w) a)) else None)"
    "mem_Get d keyHead = Some (Raw (hash_bytes h))" "mem_Get d keyBurned = None"
    "mem_Get d keySchema = Some (Raw (be_fixed 8 schemaVersion))" "mem_Get d keyGenesis = Some (Raw (hash_bytes h))"
    "mem_Get d keyChainID = Some (Raw (be_fixed 8 (g_ChainID g)))" "mem_finite d"
    "fst (key_tag k') = 0x61 \<Longrightarrow> mem_Get d k' = Some v \<Longrightarrow> \<exists>a acc. k' = accountKey a \<and> v = JAccount acc"
proof -
  have new: "mem_Get NewMemory k = None" for k by (simp add: NewMemory_def mem_Get_def)
  have ne: "keyHead \<noteq> keyBurned" "keySchema \<noteq> keyHead" "keySchema \<noteq> keyGenesis" "keySchema \<noteq> keyChainID"
    "keyGenesis \<noteq> keyHead" "keyGenesis \<noteq> keyChainID" "keyChainID \<noteq> keyHead" "keyBurned \<noteq> keyHead" "keyBurned \<noteq> keySchema"
    "keyBurned \<noteq> keyChainID" "keyBurned \<noteq> keyGenesis" "keyChainID \<noteq> keyGenesis"
    by (simp_all add: singleton_keys)
  note d = d_def h_def init_batch_def put_defs get_simps get_alloc_other get_alloc_account apart new ne
  show "mem_Get d (blockKey k) = (if k = h then Some (JBlock blk) else None)"
    "mem_Get d (canonicalKey n) = (if canonicalKey n = canonicalKey 0 then Some (Raw (hash_bytes h)) else None)"
    "mem_Get d (accountKey a) = (if a \<in> fst ` set (g_Alloc g) then Some (JAccount (world_Get (ClearTouched w) a)) else None)"
    "mem_Get d keyHead = Some (Raw (hash_bytes h))" "mem_Get d keyBurned = None"
    "mem_Get d keySchema = Some (Raw (be_fixed 8 schemaVersion))" "mem_Get d keyGenesis = Some (Raw (hash_bytes h))"
    "mem_Get d keyChainID = Some (Raw (be_fixed 8 (g_ChainID g)))"
    by (simp_all add: d)
  show "getTD d h = Inr (int (hd_difficulty (blk_header blk)))"
    by (simp add: getTD_def get_raw_def db_Get_def d big_bytes_def)
  show "mem_finite d" unfolding d_def by (rule mem.finite_commit) (simp add: mem_finite_def NewMemory_def)
  show "\<exists>a acc. k' = accountKey a \<and> v = JAccount acc" if t: "fst (key_tag k') = 0x61" and v: "mem_Get d k' = Some v"
  proof -
    have "k' \<noteq> keyHead" "k' \<noteq> revDiffKey h" "k' \<noteq> tdKey h" "k' \<noteq> canonicalKey 0" "k' \<noteq> receiptsKey h" "k' \<noteq> blockKey h"
      "k' \<noteq> keyGenesis" "k' \<noteq> keyChainID" "k' \<noteq> keySchema"
      using t by auto
    then show ?thesis
      using v by (auto simp: d_def h_def [symmetric] init_batch_def put_defs get_simps get_alloc new split: if_splits)
  qed
qed

lemma fresh_chain:
  assumes "genesis_Validate g = Inr ()" and "genesis_Build E g = Some (w, blk)"
  shows "NewBlockchain E NewMemory g ret = Inr ((open_chain E NewMemory g ret w blk)\<lparr>
    ch_db := mem_Commit NewMemory (init_batch E g w blk), ch_head := blk,
    ch_blockCache := [block_Hash E blk \<mapsto> blk], ch_states := [block_Hash E blk \<mapsto> ClearTouched w]\<rparr>)"
  using assms
  by (simp add: NewBlockchain_def mem.has_get mem_Get_def NewMemory_def initialise_def open_chain_def init_batch_def Let_def)

lemma initialise_inv:
  assumes "NewBlockchain E NewMemory g ret = Inr bc"
  shows "\<exists>S. chain_inv E g S 0 bc"
proof -
  have val: "genesis_Validate g = Inr ()"
    using assms by (auto simp: NewBlockchain_def split: sum.splits)
  obtain w blk where b: "genesis_Build E g = Some (w, blk)" "world_ok w" "w_burned w = 0"
    "SumBalances w = genesis_Supply g" "blk_header blk = genesis_header E g w"
    by (rule genesis_ok [OF val, where E = E]) blast
  let ?h = "block_Hash E blk" and ?w = "ClearTouched w"
  let ?d = "mem_Commit NewMemory (init_batch E g w blk)"
  note i = get_init [where E = E and g = g and w = w and blk = blk]
  have bc: "bc = (open_chain E NewMemory g ret w blk)\<lparr>ch_db := ?d, ch_head := blk, ch_blockCache := [?h \<mapsto> blk],
      ch_states := [?h \<mapsto> ?w]\<rparr>"
    using assms fresh_chain [OF val b(1), of ret] by simp
  let ?S = "\<lambda>_ :: hash. ?w"
  have ok: "world_ok ?w" "w_burned ?w = 0" "w_accounts ?w = w_accounts w"
    using b(2,3) by (simp_all add: world_ok_fields) (simp_all add: ClearTouched_def)
  have ch: "chain E g (blk_header blk) ?w"
    using chain.chain_reload [OF chain.chain_genesis [OF val b(1)]] by (simp add: ClearTouched_def)
  have h0: "blk_height blk = 0" by (simp add: b(5) genesis_header_def)
  have st: "stored_block E ?d k c \<longleftrightarrow> k = ?h \<and> c = blk" for k c by (auto simp: stored_block_def i(1))
  have rt: "rooted E g ?S blk" using ch by (simp add: rooted_def)
  have canon: "canon E g ?h ?d ?S blk"
    by (rule canon.canon_genesis) (use st h0 rt in \<open>simp_all add: canon_at_def i(3)\<close>)
  have above: "mem_Get ?d (canonicalKey n) = None" if "0 < n" "n < 2 ^ 64" for n
    using canonicalKey_inject [of n 0] that by (simp add: i(3))
  have alloc: "w_accounts w a = None" if "a \<notin> fst ` set (g_Alloc g)" for a
    using credit_alloc_only [of "g_Alloc g" world_New w a] b(1) that
    by (auto simp: genesis_Build_def world_New_def split: option.splits)
  have "account_table ?d a = w_accounts ?w a" for a
  proof (cases "a \<in> fst ` set (g_Alloc g)")
    case True
    then show ?thesis
      using ok(1) by (auto simp: account_table_def i(4) world_Get_def world_ok_def vacant_iff split: option.splits)
  next
    case False
    then show ?thesis using alloc ok(3) by (simp add: account_table_def i(4))
  qed
  then have table: "account_table ?d = w_accounts ?w" by blast
  have "prefix [prefixAccount] k \<Longrightarrow> fst (key_tag k) = 0x61" for k by (cases k) (auto simp: key_tag_def prefixAccount_def)
  then have "accounts_ok ?d" using i(10,11) by (auto simp: accounts_ok_def)
  then have disk: "disk_ok E g ?h ?d ?h ?w"
    using table ok(2) by (simp add: disk_ok_def i getBigInt_def get_raw_def db_Get_def)
  have best: "best_ok E ?d blk" using st by (auto simp: best_ok_def dest: heaviest.choice_asym)
  have "chain_inv E g ?S 0 bc"
    unfolding chain_inv_def bc
    using val b(1,4) h0 ch st canon above disk best
    by (simp add: params_ok_def open_chain_def DefaultRetention_def cache_ok_def blocks_ok_def tree_ok_def held_ok_def
        head_ok_def i(1,2))
  then show ?thesis by blast
qed

section \<open>Everything a node does\<close>

inductive node :: "crypto \<Rightarrow> genesis \<Rightarrow> nat \<Rightarrow> blockchain \<Rightarrow> bool" for E g ret where
  node_open: "NewBlockchain E NewMemory g ret = Inr bc \<Longrightarrow> node E g ret bc"
| node_insert: "node E g ret bc \<Longrightarrow> block_bounds b \<Longrightarrow> InsertBlock E now bc b = (err, ro, bc') \<Longrightarrow> node E g ret bc'"
| node_read: "node E g ret bc \<Longrightarrow> node E g ret (snd (blockLocked E bc h))"

inductive_cases nodeE: "node E g ret bc"

lemma head_TD:
  assumes "chain_inv E g S L bc"
  obtains s where "getTD (ch_db bc) (block_Hash E (ch_head bc)) = Inr s"
  using chain_invD(3,6) [OF assms] canon_stored unfolding blocks_ok_def stored_block_def head_ok_def by metis

lemma node_inv: "node E g ret bc \<Longrightarrow> \<exists>S L. chain_inv E g S L bc"
proof (induction rule: node.induct)
  case (node_open bc)
  then show ?case using initialise_inv by blast
next
  case (node_insert bc b now err ro bc')
  then obtain S L where inv: "chain_inv E g S L bc" by blast
  obtain r bc2 where r: "insert_block E now bc b = (r, bc2)" by fastforce
  have "bc' = bc2" using node_insert(3) r by (auto simp: InsertBlock_def split: sum.splits)
  moreover obtain s where s: "getTD (ch_db bc) (block_Hash E (ch_head bc)) = Inr s" by (rule head_TD [OF inv])
  ultimately show ?case
    using inv_recached [OF _ inv] by (cases rule: insert_cases [OF inv node_insert(2) r s]) blast+
next
  case (node_read bc h)
  then show ?case using inv_recached [OF recached_blockLocked] by blast
qed

section \<open>A valid block on the head\<close>

lemma head_cached:
  assumes inv: "chain_inv E g S L bc"
  shows "ch_blockCache bc (block_Hash E (ch_head bc)) = Some (ch_head bc)"
    "stored_block E (ch_db bc) (block_Hash E (ch_head bc)) (ch_head bc)"
proof -
  note i = chain_invD [OF inv]
  obtain b where b: "ch_blockCache bc (block_Hash E (ch_head bc)) = Some b" using tree_okD [OF i(4,5)] by metis
  show s: "stored_block E (ch_db bc) (block_Hash E (ch_head bc)) (ch_head bc)"
    using i(6) canon_stored by (auto simp: head_ok_def)
  have "b = ch_head bc" using i(2) b s stored_block_unique unfolding cache_ok_def by metis
  then show "ch_blockCache bc (block_Hash E (ch_head bc)) = Some (ch_head bc)" using b by simp
qed

definition passes :: "crypto \<Rightarrow> int \<Rightarrow> blockchain \<Rightarrow> block \<Rightarrow> bool" where
  "passes E now bc b \<longleftrightarrow> blk_parent b = block_Hash E (ch_head bc) \<and> \<not> HasBlock bc (block_Hash E b) \<and>
     hd_timestamp (blk_header b) \<le> wrap_int64 (now + MaxFutureDriftMs) \<and>
     fst (RequiredDifficulty E bc (blk_header (ch_head bc))) = Some (hd_difficulty (blk_header b)) \<and>
     satisfiesPoW E (blk_header b) \<and> VerifyTxRoot E b \<and> (\<forall>tx \<in> set (blk_txs b). tx_SanityCheck E tx (ch_chainID bc) = Inr ())"

lemma passes_guard:
  assumes inv: "chain_inv E g S L bc" and p: "passes E now bc b"
  obtains bc1 where "insert_guard E now bc b = (Inr (ch_head bc), bc1)" "recached E bc bc1"
proof -
  obtain r bc1 where rd: "requiredDifficultyLocked E bc (blk_header (ch_head bc)) = (r, bc1)" by fastforce
  have "sanity_error E (ch_chainID bc) (blk_txs b) = None" using p by (simp add: passes_def sanity_error_None)
  then have "insert_guard E now bc b = (Inr (ch_head bc), bc1)"
    using p head_cached(1) [OF inv] rd
    by (simp add: passes_def insert_guard_def HasBlock_def RequiredDifficulty_def blockLocked_def Let_def)
  then show thesis using that recached_insert_guard [of E bc now b] by simp
qed

section \<open>Opening the store again\<close>

lemma agrees_Root: "agrees v w \<Longrightarrow> world_Root E v = world_Root E w"
proof -
  assume a: "agrees v w"
  then have "root_leaf v = root_leaf w" by (simp add: root_leaf_def fun_eq_iff agrees_def)
  then show ?thesis using a by (simp add: world_Root_def root_leaves_def Let_def agrees_def)
qed

lemma restore_entries:
  "world_ok prev \<Longrightarrow> w_accounts (foldl restore_entry w (map (diff_entry prev) as)) =
    (\<lambda>a. if a \<in> set as then w_accounts prev a else w_accounts w a)"
proof (induction as arbitrary: w)
  case (Cons a as)
  have "w_accounts (restore_entry w (diff_entry prev a)) = (w_accounts w)(a := w_accounts prev a)"
  proof (cases "w_accounts prev a")
    case None
    then show ?thesis
      by (simp add: restore_entry_def diff_entry_def Exists_def RestoreAccount_def world_simps account_vacant_def)
  next
    case (Some acc)
    then have "\<not> account_vacant acc" using Cons.prems by (auto simp: world_ok_def)
    then show ?thesis
      using Some by (cases acc) (simp add: restore_entry_def diff_entry_def Exists_def RestoreAccount_def world_simps
          world_Get_def Let_def)
  qed
  then show ?case using Cons by (auto simp: fun_eq_iff)
qed simp

lemma step_back_agrees:
  assumes "agrees cur w" and "changes prev w"
  shows "agrees (step_back cur (diff_of prev w)) prev"
proof -
  have "w_accounts (step_back cur (diff_of prev w)) = w_accounts prev"
    using assms restore_entries [of prev "world_Copy cur" "Touched w"] changes_back [OF assms(2)] Touched_set [OF assms(2)]
    by (auto simp: step_back_def diff_of_def Let_def ClearTouched_def SetBurned_def world_Copy_def agrees_def changes_def fun_eq_iff)
  moreover have "w_burned (step_back cur (diff_of prev w)) = w_burned prev"
    using assms(1) by (simp add: step_back_def diff_of_def Let_def ClearTouched_def SetBurned_def agrees_def)
  ultimately show ?thesis by (simp add: agrees_def)
qed

lemma rebuild_keeps:
  "ch_db (rebuildWindow E n bc b cur) = ch_db bc" "ch_head (rebuildWindow E n bc b cur) = ch_head bc"
  "ch_retention (rebuildWindow E n bc b cur) = ch_retention bc" "ch_genesis (rebuildWindow E n bc b cur) = ch_genesis bc"
  "ch_chainID (rebuildWindow E n bc b cur) = ch_chainID bc" "ch_rewards (rebuildWindow E n bc b cur) = ch_rewards bc"
  "ch_genesisDifficulty (rebuildWindow E n bc b cur) = ch_genesisDifficulty bc"
  "ch_genesisSupply (rebuildWindow E n bc b cur) = ch_genesisSupply bc"
  by (induction n arbitrary: bc b cur) (auto simp: Let_def split: sum.split)

text \<open>One step of the window: above genesis the parent's state is found and its root is right.\<close>

lemma rebuild_step:
  assumes c: "canon E g gh (ch_db bc) S b" and ag: "agrees cur (S (block_Hash E b))" and pos: "blk_height b \<noteq> 0"
  obtains p v where "canon E g gh (ch_db bc) S p" "blk_parent b = block_Hash E p" "blk_height b = Suc (blk_height p)"
    "agrees v (S (block_Hash E p))" "w_touched v = {}"
    "\<And>n. rebuildWindow E (Suc n) bc b cur = rebuildWindow E n (bc\<lparr>ch_states := (ch_states bc)(block_Hash E p \<mapsto> v),
       ch_blockCache := (ch_blockCache bc)(block_Hash E p \<mapsto> p)\<rparr>) p v"
proof -
  obtain p where p: "canon E g gh (ch_db bc) S p" "blk_parent b = block_Hash E p"
    "blk_height b = Suc (blk_height p)" "mem_Get (ch_db bc) (revDiffKey (block_Hash E b)) =
      Some (JDiff (diff_of (S (block_Hash E p)) (S (block_Hash E b))))" "changes (S (block_Hash E p)) (S (block_Hash E b))"
    using c pos by (cases rule: canon.cases) auto
  let ?v = "step_back cur (diff_of (S (block_Hash E p)) (S (block_Hash E b)))"
  have v: "agrees ?v (S (block_Hash E p))" by (rule step_back_agrees [OF ag p(5)])
  have t: "w_touched ?v = {}" by (simp add: step_back_def ClearTouched_def Let_def)
  have "loadBlock E (ch_db bc) (blk_parent b) = Inr p" using canon_stored [OF p(1)] p(2) by (simp add: loadBlock_stored)
  moreover have "loadStoredDiff (ch_db bc) (block_Hash E b) = Inr (diff_of (S (block_Hash E p)) (S (block_Hash E b)))"
    using p(4) by (simp add: loadStoredDiff_def db_Get_def)
  moreover have "world_Root E ?v = hd_stateroot (blk_header p)"
    using agrees_Root [OF v] rooted_Root [OF canon_rooted [OF p(1)]] by simp
  ultimately show thesis using that [OF p(1-3) v t] pos by (simp add: Let_def)
qed

text \<open>What is held after a restart: canonical blocks, with their accounts and no record of what they touched.\<close>

definition restored :: "crypto \<Rightarrow> genesis \<Rightarrow> (hash \<Rightarrow> world) \<Rightarrow> blockchain \<Rightarrow> bool" where
  "restored E g S bc \<longleftrightarrow> cache_ok E bc \<and> (\<forall>h v. ch_states bc h = Some v \<longrightarrow> agrees v (S h) \<and> w_touched v = {} \<and>
     (\<exists>c. ch_blockCache bc h = Some c \<and> block_Hash E c = h \<and> canon E g (ch_genesis bc) (ch_db bc) S c))"

lemma restored_add:
  assumes "restored E g S bc" and "canon E g (ch_genesis bc) (ch_db bc) S p" and "agrees v (S (block_Hash E p))" and "w_touched v = {}"
  shows "restored E g S (bc\<lparr>ch_states := (ch_states bc)(block_Hash E p \<mapsto> v),
    ch_blockCache := (ch_blockCache bc)(block_Hash E p \<mapsto> p)\<rparr>)"
  using assms canon_stored [OF assms(2)] by (auto simp: restored_def cache_ok_def)

lemma rebuild_restored:
  "canon E g (ch_genesis bc) (ch_db bc) S b \<Longrightarrow> agrees cur (S (block_Hash E b)) \<Longrightarrow> restored E g S bc \<Longrightarrow>
    restored E g S (rebuildWindow E n bc b cur)"
proof (induction n arbitrary: bc b cur)
  case (Suc n)
  show ?case
  proof (cases "blk_height b = 0")
    case True
    then show ?thesis using Suc.prems(3) by simp
  next
    case False
    from rebuild_step [OF Suc.prems(1,2) False] obtain p v where p: "canon E g (ch_genesis bc) (ch_db bc) S p"
      "agrees v (S (block_Hash E p))" "w_touched v = {}"
      and eq: "\<And>n. rebuildWindow E (Suc n) bc b cur = rebuildWindow E n (bc\<lparr>ch_states := (ch_states bc)(block_Hash E p \<mapsto> v),
       ch_blockCache := (ch_blockCache bc)(block_Hash E p \<mapsto> p)\<rparr>) p v" by metis
    show ?thesis unfolding eq by (rule Suc.IH [OF _ p(2) restored_add [OF Suc.prems(3) p]]) (simp add: p(1))
  qed
qed simp

lemma rebuild_window:
  assumes "canon E g gh (ch_db bc) S b" and "agrees cur (S (block_Hash E b))"
  shows "(\<forall>h y. stored_block E (ch_db bc) h y \<longrightarrow> blk_height b \<le> blk_height y \<longrightarrow>
      ch_states (rebuildWindow E n bc b cur) h = ch_states bc h) \<and>
    (\<forall>xs c. walk E (ch_db bc) b xs c \<longrightarrow> xs \<noteq> [] \<longrightarrow> length xs \<le> n \<longrightarrow> (\<forall>x \<in> set xs. 0 < blk_height x) \<longrightarrow>
      (\<exists>v. ch_states (rebuildWindow E n bc b cur) (block_Hash E c) = Some v \<and> agrees v (S (block_Hash E c))))"
  using assms
proof (induction n arbitrary: bc b cur)
  case (Suc n)
  show ?case
  proof (cases "blk_height b = 0")
    case True
    then have no: False if "walk E (ch_db bc) b xs c" "xs \<noteq> []" "\<forall>x \<in> set xs. 0 < blk_height x" for xs c
      using that by (cases xs) auto
    have "rebuildWindow E (Suc n) bc b cur = bc" using True by simp
    then show ?thesis using no by metis
  next
    case False
    obtain p v where p: "canon E g gh (ch_db bc) S p" "blk_parent b = block_Hash E p" "blk_height b = Suc (blk_height p)"
      and v: "agrees v (S (block_Hash E p))"
      and eq: "rebuildWindow E (Suc n) bc b cur = rebuildWindow E n (bc\<lparr>ch_states := (ch_states bc)(block_Hash E p \<mapsto> v),
        ch_blockCache := (ch_blockCache bc)(block_Hash E p \<mapsto> p)\<rparr>) p v"
      by (rule rebuild_step [OF Suc.prems False]) blast
    let ?bc = "bc\<lparr>ch_states := (ch_states bc)(block_Hash E p \<mapsto> v), ch_blockCache := (ch_blockCache bc)(block_Hash E p \<mapsto> p)\<rparr>"
    have sp: "stored_block E (ch_db bc) (block_Hash E p) p" by (rule canon_stored [OF p(1)])
    have IH: "(\<forall>h y. stored_block E (ch_db bc) h y \<longrightarrow> blk_height p \<le> blk_height y \<longrightarrow>
        ch_states (rebuildWindow E n ?bc p v) h = ch_states ?bc h) \<and>
      (\<forall>xs c. walk E (ch_db bc) p xs c \<longrightarrow> xs \<noteq> [] \<longrightarrow> length xs \<le> n \<longrightarrow> (\<forall>x \<in> set xs. 0 < blk_height x) \<longrightarrow>
        (\<exists>u. ch_states (rebuildWindow E n ?bc p v) (block_Hash E c) = Some u \<and> agrees u (S (block_Hash E c))))"
      using Suc.IH [of ?bc p v] p(1) v by simp
    have "ch_states (rebuildWindow E n ?bc p v) h = ch_states bc h"
      if h: "stored_block E (ch_db bc) h y" "blk_height b \<le> blk_height y" for h y
    proof -
      have "h \<noteq> block_Hash E p" using h sp p(3) stored_block_unique by force
      then show ?thesis using IH h p(3) by simp
    qed
    moreover have "\<exists>u. ch_states (rebuildWindow E n ?bc p v) (block_Hash E c) = Some u \<and> agrees u (S (block_Hash E c))"
      if w: "walk E (ch_db bc) b xs c" "xs \<noteq> []" "length xs \<le> Suc n" "\<forall>x \<in> set xs. 0 < blk_height x" for xs c
    proof -
      obtain x xs' where xs: "xs = x # xs'" using w(2) by (cases xs) auto
      then obtain q where "stored_block E (ch_db bc) (blk_parent b) q" "walk E (ch_db bc) q xs' c" using w(1) by auto
      then have wp: "walk E (ch_db bc) p xs' c" using sp p(2) stored_block_unique by metis
      show ?thesis
      proof (cases "xs' = []")
        case True
        then have "c = p" using wp by simp
        then show ?thesis using IH sp v by simp
      next
        case False
        then show ?thesis using IH wp w(3,4) xs by auto
      qed
    qed
    ultimately show ?thesis unfolding eq by blast
  qed
qed auto

text \<open>A block that the height index names is on the chain of the head.\<close>

lemma canon_path_at:
  assumes "canon E g gh d S b" and "stored_block E d h c" and "canon_at d h (blk_height c)" and "blk_height c \<le> blk_height b"
  shows "\<exists>xs. walk E d b xs c \<and> (\<forall>x \<in> set xs. 0 < blk_height x) \<and> length xs = blk_height b - blk_height c"
  using assms
proof (induction rule: canon.induct)
  case (canon_genesis b)
  then have "h = gh" by (simp add: canon_at_def)
  then have "c = b" using canon_genesis stored_block_unique by blast
  then show ?case by (intro exI [of _ "[]"]) simp
next
  case (canon_next p b)
  show ?case
  proof (cases "blk_height c = blk_height b")
    case True
    then have "h = block_Hash E b" using canon_next.hyps(6) canon_next.prems(2) by (simp add: canon_at_def)
    then have "c = b" using canon_next.prems(1) canon_next.hyps(2) stored_block_unique by blast
    then show ?thesis by (intro exI [of _ "[]"]) simp
  next
    case False
    then have "blk_height c \<le> blk_height p" using canon_next.prems(3) canon_next.hyps(4) by simp
    from canon_next.IH [OF canon_next.prems(1,2) this] obtain xs where "walk E d p xs c"
      "\<forall>x \<in> set xs. 0 < blk_height x" "length xs = blk_height p - blk_height c" by blast
    moreover have "stored_block E d (blk_parent b) p" using canon_stored [OF canon_next.hyps(1)] canon_next.hyps(3) by simp
    ultimately show ?thesis
      using canon_next.hyps(4) \<open>blk_height c \<le> blk_height p\<close> by (intro exI [of _ "b # xs"]) auto
  qed
qed

lemma resume_ok:
  fixes ret :: nat
  assumes inv: "chain_inv E g S L bc" and cid: "g_ChainID g < 2 ^ 64"
  defines "ret' \<equiv> if ret = 0 then DefaultRetention else ret"
  obtains bc' where "NewBlockchain E (ch_db bc) g ret = Inr bc'" "ch_head bc' = ch_head bc" "ch_db bc' = ch_db bc"
    "\<And>h c. stored_block E (ch_db bc) h c \<Longrightarrow> canon_at (ch_db bc) h (blk_height c) \<Longrightarrow>
      blk_height c \<le> blk_height (ch_head bc) \<Longrightarrow> blk_height (ch_head bc) \<le> blk_height c + ret' \<Longrightarrow>
      \<exists>v. ch_states bc' h = Some v \<and> agrees v (S h)"
    "restored E g S bc'" "params_ok E g bc'" "ch_genesis bc' = ch_genesis bc"
proof -
  note i = chain_invD [OF inv]
  let ?d = "ch_db bc" and ?hh = "block_Hash E (ch_head bc)"
  obtain w blk where g: "genesis_Validate g = Inr ()" "genesis_Build E g = Some (w, blk)" "ch_genesis bc = block_Hash E blk"
    using i(1) by (auto simp: params_ok_def)
  have sup: "SumBalances w = genesis_Supply g" using genesis_ok [OF g(1), of E] g(2) by (metis option.inject prod.inject)
  have ch: "canon E g (block_Hash E blk) ?d S (ch_head bc)" using i(6) g(3) by (simp add: head_ok_def)
  have dk: "accounts_ok ?d" "account_table ?d = w_accounts (S ?hh)" "mem_Get ?d keyHead = Some (Raw (hash_bytes ?hh))"
    "getBigInt ?d keyBurned = Inr (w_burned (S ?hh))" "mem_Get ?d keySchema = Some (Raw (be_fixed 8 schemaVersion))"
    "mem_Get ?d keyGenesis = Some (Raw (hash_bytes (block_Hash E blk)))"
    "mem_Get ?d keyChainID = Some (Raw (be_fixed 8 (g_ChainID g)))"
    using i(7) g(3) by (simp_all add: disk_ok_def)
  let ?st = "SetBurned (world_New\<lparr>w_accounts := account_table ?d\<rparr>) (Some (w_burned (S ?hh)))"
  have ag: "agrees ?st (S ?hh)" by (simp add: agrees_def SetBurned_def dk(2))
  have root: "world_Root E ?st = hd_stateroot (blk_header (ch_head bc))"
    using agrees_Root [OF ag] rooted_Root [OF canon_rooted [OF ch]] by simp
  let ?bc0 = "open_chain E ?d g ret w blk"
  let ?bc1 = "?bc0\<lparr>ch_head := ch_head bc, ch_blockCache := (ch_blockCache ?bc0)(?hh \<mapsto> ch_head bc),
      ch_states := (ch_states ?bc0)(?hh \<mapsto> ?st)\<rparr>"
  let ?bc' = "rebuildWindow E (ch_retention ?bc0) ?bc1 (ch_head bc) ?st"
  have db0: "ch_db ?bc0 = ?d" "ch_genesis ?bc0 = block_Hash E blk" "ch_chainID ?bc0 = g_ChainID g" "ch_retention ?bc0 = ret'"
    by (simp_all add: open_chain_def ret'_def)
  have load: "loadBlock E ?d ?hh = Inr (ch_head bc)" using canon_stored [OF ch] by (simp add: loadBlock_stored)
  have sch: "be_nat (be_fixed 8 schemaVersion) = schemaVersion" "be_nat (be_fixed 8 (g_ChainID g)) = g_ChainID g"
    using cid by (simp_all add: be_nat_be_fixed schemaVersion_def)
  have "resume E ?bc0 = Inr ?bc'"
    using dk root load sch
    by (simp add: resume_def db0 Let_def getUint64_def getHash_def get_raw_def db_Get_def HashFromBytes_hash_bytes
        loadState_ok)
  then have new: "NewBlockchain E ?d g ret = Inr ?bc'"
    using g dk(3) by (simp add: NewBlockchain_def mem.has_get Let_def)
  have win: "\<exists>v. ch_states ?bc' h = Some v \<and> agrees v (S h)"
    if h: "stored_block E ?d h c" "canon_at ?d h (blk_height c)" "blk_height c \<le> blk_height (ch_head bc)"
      "blk_height (ch_head bc) \<le> blk_height c + ret'" for h c
  proof -
    have hc: "h = block_Hash E c" using h(1) by (simp add: stored_block_def)
    obtain xs where xs: "walk E ?d (ch_head bc) xs c" "\<forall>x \<in> set xs. 0 < blk_height x"
      "length xs = blk_height (ch_head bc) - blk_height c"
      using canon_path_at [OF ch h(1,2,3)] by blast
    have c1: "canon E g (block_Hash E blk) (ch_db ?bc1) S (ch_head bc)" using ch db0(1) by simp
    note rw = rebuild_window [OF c1 ag, of "ch_retention ?bc0"]
    show ?thesis
    proof (cases "xs = []")
      case True
      then have "c = ch_head bc" using xs(1) by simp
      then show ?thesis using rw canon_stored [OF ch] ag hc db0(1) by auto
    next
      case False
      have "length xs \<le> ch_retention ?bc0" using xs(3) h(4) db0(4) by simp
      then show ?thesis using rw xs False hc db0(1) by auto
    qed
  qed
  have "restored E g S ?bc1"
    using canon_stored [OF ch] ch ag by (auto simp: restored_def cache_ok_def open_chain_def SetBurned_def world_New_def)
  then have "restored E g S ?bc'" by (intro rebuild_restored) (use ch ag db0 in simp_all)
  moreover have "params_ok E g ?bc'"
    using g(1,2) sup by (simp add: params_ok_def rebuild_keeps) (simp add: open_chain_def DefaultRetention_def)
  ultimately show thesis using that [OF new] win g(3) by (simp add: rebuild_keeps db0)
qed

end
