(* ===== verification/Blockchain_Restart.thy ===== *)
theory Blockchain_Restart
  imports Blockchain_Node
begin

text \<open>
  The life of a node over any number of restarts.  A restart loads the state of the head from the account
  table and steps back through the reverse diffs for the window below it; these states have the right accounts
  but no record of what their block touched.  A chain that holds such states is compared with one that holds
  the states the blocks were accepted with: both do the same as long as no reorganisation writes a block
  whose state was rebuilt.
\<close>

section \<open>The same chain with other states in memory\<close>

definition over :: "(hash \<rightharpoonup> world) \<Rightarrow> blockchain \<Rightarrow> blockchain" where
  "over \<sigma> bc = bc\<lparr>ch_states := \<sigma>\<rparr>"

lemma over_simps [simp]:
  "ch_db (over \<sigma> bc) = ch_db bc" "ch_blockCache (over \<sigma> bc) = ch_blockCache bc" "ch_head (over \<sigma> bc) = ch_head bc"
  "ch_states (over \<sigma> bc) = \<sigma>" "ch_retention (over \<sigma> bc) = ch_retention bc" "ch_rewards (over \<sigma> bc) = ch_rewards bc"
  "ch_chainID (over \<sigma> bc) = ch_chainID bc" "ch_genesis (over \<sigma> bc) = ch_genesis bc"
  "ch_genesisDifficulty (over \<sigma> bc) = ch_genesisDifficulty bc" "ch_genesisSupply (over \<sigma> bc) = ch_genesisSupply bc"
  by (simp_all add: over_def)

lemma over_self [simp]: "over (ch_states bc) bc = bc"
  by (simp add: over_def)

text \<open>Reading looks at no state.\<close>

lemma blockLocked_over: "blockLocked E (over \<sigma> bc) h = apsnd (over \<sigma>) (blockLocked E bc h)"
  by (simp add: blockLocked_def over_def split: option.split sum.split)

lemma BlockByHeight_over: "BlockByHeight E (over \<sigma> bc) n = apsnd (over \<sigma>) (BlockByHeight E bc n)"
  by (simp add: BlockByHeight_def blockLocked_over split: sum.split)

lemma parentOf_over: "parentOf E (over \<sigma> bc) b = apsnd (over \<sigma>) (parentOf E bc b)"
  by (simp add: parentOf_def blockLocked_over split: prod.split sum.split)

lemma lwma_walk_over: "lwma_walk E n (over \<sigma> bc) cur acc = apsnd (over \<sigma>) (lwma_walk E n bc cur acc)"
  by (induction n arbitrary: bc cur acc) (simp_all add: blockLocked_over split: prod.split sum.split)

lemma requiredDifficulty_over:
  "requiredDifficultyLocked E (over \<sigma> bc) p = apsnd (over \<sigma>) (requiredDifficultyLocked E bc p)"
  by (simp add: requiredDifficultyLocked_def lwma_walk_over Let_def split: prod.split option.split)

lemma passes_over: "passes E now (over \<sigma> bc) b = passes E now bc b"
  by (simp add: passes_def HasBlock_def RequiredDifficulty_def requiredDifficulty_over)

lemma insert_guard_over: "insert_guard E now (over \<sigma> bc) b = apsnd (over \<sigma>) (insert_guard E now bc b)"
  by (simp add: insert_guard_def blockLocked_over requiredDifficulty_over Let_def split: prod.split sum.split option.split)

lemma climb_over: "climb E n (over \<sigma> bc) a t acc = apsnd (over \<sigma>) (climb E n bc a t acc)"
  by (induction n arbitrary: bc a acc) (simp_all add: parentOf_over split: prod.split sum.split)

lemma meet_over: "meet E n (over \<sigma> bc) a b ds as = apsnd (over \<sigma>) (meet E n bc a b ds as)"
  by (induction n arbitrary: bc a b ds as) (simp_all add: parentOf_over split: prod.split sum.split)

lemma findFork_over: "findFork E (over \<sigma> bc) a b = apsnd (over \<sigma>) (findFork E bc a b)"
  unfolding findFork_def climb_over
  by (simp add: climb_over meet_over split: prod.split sum.split del: climb.simps meet.simps)

text \<open>Pruning and adopting drop the same states from both.\<close>

definition pruned :: "blockchain \<Rightarrow> (hash \<rightharpoonup> world) \<Rightarrow> hash \<rightharpoonup> world" where
  "pruned bc \<sigma> = ch_states (prune (over \<sigma> bc))"

lemma prune_over: "prune (over \<sigma> bc) = over (pruned bc \<sigma>) (prune bc)"
proof -
  have gc: "gcOrphans (over \<sigma>' bc') c = over \<sigma>' (gcOrphans bc' c)" for \<sigma>' bc' c
  proof -
    have "gc_below (over \<sigma>' bc') c xs = gc_below bc' c xs" for xs
      by (induction xs) (auto simp: Let_def split: stored.split)
    then show ?thesis by (simp add: gcOrphans_def over_def Let_def)
  qed
  have cache: "prune_cache c (over \<sigma> bc) = prune_cache c bc" for c
    by (simp add: prune_cache_def fun_eq_iff split: option.split)
  let ?c = "blk_height (ch_head bc) - ch_retention bc"
  let ?\<tau> = "prune_states ?c (over \<sigma> bc)"
  let ?bc = "bc\<lparr>ch_states := prune_states ?c bc, ch_blockCache := prune_cache ?c bc\<rparr>"
  have mem: "(over \<sigma> bc)\<lparr>ch_states := ?\<tau>, ch_blockCache := prune_cache ?c bc\<rparr> = over ?\<tau> ?bc"
    by (cases bc) (simp add: over_def)
  have "prune (over \<sigma> bc) = over (if blk_height (ch_head bc) \<le> ch_retention bc then \<sigma> else ?\<tau>) (prune bc)"
    by (simp add: prune_def Let_def cache mem gc)
  then show ?thesis by (auto simp: pruned_def)
qed

lemma pruned_get:
  "pruned bc \<sigma> h = (if blk_height (ch_head bc) \<le> ch_retention bc then \<sigma> h
     else case ch_blockCache bc h of None \<Rightarrow> None
       | Some b \<Rightarrow> if blk_height b < blk_height (ch_head bc) - ch_retention bc then None else \<sigma> h)"
  by (simp add: pruned_def prune_def prune_states_def gcOrphans_def Let_def split: option.split)

section \<open>States that agree\<close>

text \<open>\<open>shadows R \<sigma> \<tau>\<close>: the same blocks have a state, with the same accounts, and the same state outside \<open>R\<close>.\<close>

definition shadows :: "hash set \<Rightarrow> (hash \<rightharpoonup> world) \<Rightarrow> (hash \<rightharpoonup> world) \<Rightarrow> bool" where
  "shadows R \<sigma> \<tau> \<longleftrightarrow> (\<forall>h. rel_option agrees (\<sigma> h) (\<tau> h) \<and> (h \<notin> R \<longrightarrow> \<sigma> h = \<tau> h))"

lemma shadows_refl [simp]: "shadows R \<sigma> \<sigma>"
  by (simp add: shadows_def option.rel_refl)

lemma shadowsD:
  assumes "shadows R \<sigma> \<tau>"
  shows "\<sigma> h = None \<longleftrightarrow> \<tau> h = None" "\<sigma> h = Some v \<Longrightarrow> \<exists>w. \<tau> h = Some w \<and> agrees v w" "h \<notin> R \<Longrightarrow> \<sigma> h = \<tau> h"
    "\<tau> h = Some w \<Longrightarrow> \<exists>v. \<sigma> h = Some v \<and> agrees v w"
proof -
  have r: "rel_option agrees (\<sigma> h) (\<tau> h)" using assms by (simp add: shadows_def)
  show "\<sigma> h = None \<longleftrightarrow> \<tau> h = None" using r by (cases "\<sigma> h"; cases "\<tau> h") auto
  show "\<sigma> h = Some v \<Longrightarrow> \<exists>w. \<tau> h = Some w \<and> agrees v w" using r by (cases "\<tau> h") auto
  show "\<tau> h = Some w \<Longrightarrow> \<exists>v. \<sigma> h = Some v \<and> agrees v w" using r by (cases "\<sigma> h") auto
  show "h \<notin> R \<Longrightarrow> \<sigma> h = \<tau> h" using assms by (simp add: shadows_def)
qed

lemma shadows_upd: "shadows R \<sigma> \<tau> \<Longrightarrow> shadows (R - {h}) (\<sigma>(h \<mapsto> w)) (\<tau>(h \<mapsto> w))"
  by (simp add: shadows_def)

lemma shadows_mono: "shadows R \<sigma> \<tau> \<Longrightarrow> R \<subseteq> R' \<Longrightarrow> shadows R' \<sigma> \<tau>"
  by (auto simp: shadows_def)

lemma shadows_none: "shadows {} \<sigma> \<tau> \<longleftrightarrow> \<sigma> = \<tau>"
  by (auto simp: shadows_def option.rel_refl)

lemma shadows_pruned: "shadows R \<sigma> \<tau> \<Longrightarrow> shadows R (pruned bc \<sigma>) (pruned bc \<tau>)"
  by (simp add: shadows_def pruned_get split: option.split)

lemma write_agrees:
  assumes "agrees prev prev'"
  shows "writeAccountChanges E b blk next prev as = writeAccountChanges E b blk next prev' as"
proof -
  have "diff_entry prev = diff_entry prev'"
    using assms by (simp add: fun_eq_iff diff_entry_def agrees_def Exists_def world_Get_def Let_def)
  then show ?thesis using assms by (simp add: writeAccountChanges_def agrees_def)
qed

section \<open>Inserting\<close>

lemma adopt_over:
  assumes "shadows R \<sigma> (ch_states bc)"
  shows "\<exists>\<tau>. adopt E (over \<sigma> bc) batch b w = over \<tau> (adopt E bc batch b w) \<and>
    shadows (R - {block_Hash E b}) \<tau> (ch_states (adopt E bc batch b w))"
proof -
  let ?bc = "bc\<lparr>ch_db := mem_Commit (ch_db bc) batch, ch_blockCache := (ch_blockCache bc)(block_Hash E b \<mapsto> b),
    ch_states := (ch_states bc)(block_Hash E b \<mapsto> w), ch_head := b\<rparr>"
  let ?\<sigma> = "\<sigma>(block_Hash E b \<mapsto> w)"
  have "adopt E (over \<sigma> bc) batch b w = prune (over ?\<sigma> ?bc)" by (cases bc) (simp add: adopt_def over_def)
  moreover have "ch_states (prune ?bc) = pruned ?bc (ch_states ?bc)"
    unfolding pruned_def over_self by (rule refl)
  ultimately show ?thesis
    using shadows_pruned [OF shadows_upd [OF assms, of "block_Hash E b" w], of ?bc]
    by (intro exI [of _ "pruned ?bc ?\<sigma>"]) (simp add: adopt_def prune_over)
qed

lemma extend_over:
  assumes sh: "shadows R \<sigma> (ch_states bc)" and e: "extend E bc b rs w as td = (Inr (), bc1)"
  shows "\<exists>\<tau>. extend E (over \<sigma> bc) b rs w as td = (Inr (), over \<tau> bc1) \<and>
    shadows (R - {block_Hash E b}) \<tau> (ch_states bc1)"
proof -
  obtain prev where p: "ch_states bc (blk_parent b) = Some prev" using e by (auto simp: extend_def Let_def split: option.splits)
  obtain prev' where p': "\<sigma> (blk_parent b) = Some prev'" "agrees prev' prev" using shadowsD(4) [OF sh p] by blast
  show ?thesis using e p p' adopt_over [OF sh] by (auto simp: extend_def Let_def write_agrees [OF p'(2)])
qed

lemma replay_over:
  assumes sh: "shadows R \<sigma> (ch_states bc)" and "\<forall>y \<in> set ys. block_Hash E y \<notin> R"
  shows "replay E (over \<sigma> bc) nh w batch ys = replay E bc nh w batch ys"
  using assms(2)
proof (induction ys arbitrary: batch)
  case (Cons y ys)
  have y: "\<sigma> (block_Hash E y) = ch_states bc (block_Hash E y)" using shadowsD(3) [OF sh] Cons.prems by simp
  show ?case
  proof (cases "ch_states bc (blk_parent y)")
    case None
    then show ?thesis using shadowsD(1) [OF sh, of "blk_parent y"] y by (simp split: option.split)
  next
    case (Some prev)
    obtain prev' where p: "\<sigma> (blk_parent y) = Some prev'" "agrees prev' prev" using shadowsD(4) [OF sh Some] by blast
    show ?thesis using Cons p(1) Some y write_agrees [OF p(2)] by (simp add: Let_def split: option.split)
  qed
qed simp

lemma reorg_over:
  assumes sh: "shadows R \<sigma> (ch_states bc)" and cache: "cache_ok E bc"
    and r: "reorg E (over \<sigma> bc) b rs w td = (r, bc2)"
    and fresh: "\<And>ro y. r = Inr ro \<Longrightarrow> y \<in> set (ro_Added ro) \<Longrightarrow> block_Hash E y \<notin> R"
  shows "(\<exists>e bc1. r = Inl e \<and> bc2 = over \<sigma> bc1 \<and> recached E bc bc1) \<or>
    (\<exists>ro bc1 \<tau>. r = Inr ro \<and> reorg E bc b rs w td = (Inr ro, bc1) \<and> bc2 = over \<tau> bc1 \<and> shadows R \<tau> (ch_states bc1))"
proof -
  obtain q bc1 where fk: "findFork E bc (ch_head bc) b = (q, bc1)" by fastforce
  have rc: "recached E bc bc1" using recached_findFork [of E bc "ch_head bc" b] fk by simp
  have fo: "findFork E (over \<sigma> bc) (ch_head bc) b = (q, over \<sigma> bc1)" using fk by (simp add: findFork_over)
  show ?thesis
  proof (cases r)
    case (Inl e)
    then have "bc2 = over \<sigma> bc1" using r fo by (auto simp: reorg_def Let_def split: sum.splits prod.splits if_splits)
    then show ?thesis using rc Inl by blast
  next
    case (Inr ro)
    obtain dropped added anc where q: "q = Inr (dropped, added, anc)" using r fo Inr by (cases q) (auto simp: reorg_def)
    obtain b1 b2 where len: "\<not> ch_retention bc1 < length dropped"
      and u: "unwind E (ch_db bc1) (putTD (writeBlock E [] b rs) (block_Hash E b) td) (rev dropped) = Inr b1"
      and rp: "replay E (over \<sigma> bc1) b w b1 added = Inr b2"
      and ro: "ro = \<lparr>ro_CommonAncestor = anc, ro_Dropped = dropped, ro_Added = added\<rparr>"
      and bc2: "bc2 = adopt E (over \<sigma> bc1) (putBigInt (putHash b2 keyHead (block_Hash E b)) keyBurned (w_burned w)) b w"
      using r fo q Inr by (auto simp: reorg_def Let_def split: sum.splits if_splits)
    have sh1: "shadows R \<sigma> (ch_states bc1)" using sh recached_fields(3) [OF rc cache] by simp
    have "replay E bc1 b w b1 added = Inr b2" using rp replay_over [OF sh1] fresh [OF Inr] ro by simp
    then have "reorg E bc b rs w td =
        (Inr ro, adopt E bc1 (putBigInt (putHash b2 keyHead (block_Hash E b)) keyBurned (w_burned w)) b w)"
      using fk q len u ro by (simp add: reorg_def Let_def)
    then show ?thesis using adopt_over [OF sh1] bc2 Inr shadows_mono [OF _ Diff_subset] by blast
  qed
qed

lemma place_over:
  assumes inv: "chain_inv E g S L bc" and acc: "accepted E g bc S L p b w" and sh: "shadows R \<sigma> (ch_states bc)"
    and r: "place E (over \<sigma> bc) p b rs w = (r, bc2)"
    and fresh: "\<And>ro y. r = Inr (Some ro) \<Longrightarrow> y \<in> set (ro_Added ro) \<Longrightarrow> block_Hash E y \<notin> R"
  shows "\<exists>\<tau> bc1 S' L'. bc2 = over \<tau> bc1 \<and> chain_inv E g S' L' bc1 \<and> shadows R \<tau> (ch_states bc1)"
proof -
  have ph: "stored_block E (ch_db bc) (block_Hash E p) p" using acc by (simp add: accepted_def stored_block_def)
  obtain pt where pt: "getTD (ch_db bc) (block_Hash E p) = Inr pt"
    using chain_invD(3) [OF inv] ph unfolding blocks_ok_def stored_block_def by blast
  obtain s where s: "getTD (ch_db bc) (block_Hash E (ch_head bc)) = Inr s" by (rule head_TD [OF inv])
  let ?td = "pt + int (hd_difficulty (blk_header b))"
  have td: "0 \<le> ?td" using getTD_nonneg [OF pt] by simp
  let ?better = "Better E \<lparr>tip_header = blk_header b, tip_td = ?td\<rparr> \<lparr>tip_header = blk_header (ch_head bc), tip_td = s\<rparr>"
  show ?thesis
  proof (cases ?better)
    case False
    have "bc2 = over (\<sigma>(block_Hash E b \<mapsto> w)) (keep_side E bc b rs w ?td)"
      using r pt s False by (cases bc) (simp add: place_def keep_side_def over_def Let_def)
    moreover have "shadows R (\<sigma>(block_Hash E b \<mapsto> w)) (ch_states (keep_side E bc b rs w ?td))"
      using shadows_mono [OF shadows_upd [OF sh] Diff_subset] by (simp add: keep_side_def Let_def)
    ultimately show ?thesis using keep_side_inv(1) [OF inv acc td s False, of rs] by blast
  next
    case better: True
    show ?thesis
    proof (cases "blk_parent b = block_Hash E (ch_head bc)")
      case True
      obtain bc1 L' where e: "extend E bc b rs w (Touched w) ?td = (Inr (), bc1)"
        and inv1: "chain_inv E g (S(block_Hash E b := w)) L' bc1"
        using extend_inv(1,2) [OF inv acc td s better True, of rs] by (metis prod.collapse)
      obtain \<tau> where "extend E (over \<sigma> bc) b rs w (Touched w) ?td = (Inr (), over \<tau> bc1)" "shadows R \<tau> (ch_states bc1)"
        using extend_over [OF sh e] shadows_mono [OF _ Diff_subset] by blast
      then show ?thesis using r pt s better True inv1 by (auto simp: place_def Let_def)
    next
      case False
      obtain rr where rr: "reorg E (over \<sigma> bc) b rs w ?td = (rr, bc2)" and
        eq: "r = (case rr of Inl e \<Rightarrow> Inl e | Inr ro \<Rightarrow> Inr (Some ro))"
        using r pt s better False by (auto simp: place_def Let_def split: prod.splits sum.splits)
      have "(\<exists>e bc1. rr = Inl e \<and> bc2 = over \<sigma> bc1 \<and> recached E bc bc1) \<or>
        (\<exists>ro bc1 \<tau>. rr = Inr ro \<and> reorg E bc b rs w ?td = (Inr ro, bc1) \<and> bc2 = over \<tau> bc1 \<and> shadows R \<tau> (ch_states bc1))"
        by (rule reorg_over [OF sh chain_invD(2) [OF inv] rr]) (use fresh eq in simp)
      then show ?thesis
      proof (elim disjE exE conjE)
        fix e bc1
        assume "bc2 = over \<sigma> bc1" "recached E bc bc1"
        then show ?thesis using inv_recached [OF _ inv] recached_fields(3) [OF _ chain_invD(2) [OF inv]] sh by metis
      next
        fix ro bc1 \<tau>
        assume "reorg E bc b rs w ?td = (Inr ro, bc1)" and bc2: "bc2 = over \<tau> bc1" "shadows R \<tau> (ch_states bc1)"
        from reorg_inv [OF inv acc td s better this(1)] bc2 show ?thesis by auto
      qed
    qed
  qed
qed

lemma insert_over:
  assumes inv: "chain_inv E g S L bc" and sh: "shadows R \<sigma> (ch_states bc)" and bounds: "block_bounds b"
    and r: "insert_block E now (over \<sigma> bc) b = (r, bc2)"
    and fresh: "\<And>ro y. r = Inr (Some ro) \<Longrightarrow> y \<in> set (ro_Added ro) \<Longrightarrow> block_Hash E y \<notin> R"
  shows "\<exists>\<tau> bc1 S' L'. bc2 = over \<tau> bc1 \<and> chain_inv E g S' L' bc1 \<and> shadows R \<tau> (ch_states bc1)"
proof -
  obtain q bc1 where guard: "insert_guard E now bc b = (q, bc1)" by fastforce
  have go: "insert_guard E now (over \<sigma> bc) b = (q, over \<sigma> bc1)" using guard by (simp add: insert_guard_over)
  have rc: "recached E bc bc1" using recached_insert_guard [of E bc now b] guard by simp
  have sh1: "shadows R \<sigma> (ch_states bc1)" using sh recached_fields(3) [OF rc chain_invD(2) [OF inv]] by simp
  have no: ?thesis if "bc2 = over \<sigma> bc1" using that inv_recached [OF rc inv] sh1 by blast
  show ?thesis
  proof (cases q)
    case (Inl e)
    then show ?thesis using no r go by (simp add: insert_block_def)
  next
    case (Inr p)
    show ?thesis
    proof (cases "\<sigma> (block_Hash E p)")
      case None
      then show ?thesis using no r go Inr by (simp add: insert_block_def)
    next
      case (Some ps)
      obtain ps0 where ps0: "ch_states bc1 (block_Hash E p) = Some ps0" "agrees ps ps0" using shadowsD(2) [OF sh1 Some] by blast
      show ?thesis
      proof (cases "ApplyBlock E (ch_rewards bc1) ps b (Some (blk_header p))")
        case (Inl e)
        then show ?thesis using no r go Inr Some by (simp add: insert_block_def)
      next
        case app: (Inr wr)
        obtain w rs where wr: "wr = (w, rs)" by fastforce
        note acc = applied_accepted [OF inv guard [unfolded Inr] ps0 app [unfolded wr] bounds]
        have "place E (over \<sigma> bc1) p b rs w = (r, bc2)" using r go Inr Some app wr by (simp add: insert_block_def)
        then show ?thesis by (rule place_over [OF acc(2,1) sh1]) (rule fresh)
      qed
    qed
  qed
qed

section \<open>A valid block on the head\<close>

lemma extend_head_over:
  assumes inv: "chain_inv E g S L bc" and sh: "shadows R \<sigma> (ch_states bc)"
    and p: "passes E now bc b" and bounds: "block_bounds b" and st: "\<sigma> (block_Hash E (ch_head bc)) = Some ps"
    and app: "ApplyBlock E (ch_rewards bc) ps b (Some (blk_header (ch_head bc))) = Inr (w, rs)"
    and diff: "0 < hd_difficulty (blk_header b)"
  obtains \<tau> bc2 L' where "InsertBlock E now (over \<sigma> bc) b = (None, None, over \<tau> bc2)" "ch_head bc2 = b"
    "chain_inv E g (S(block_Hash E b := w)) L' bc2" "shadows (R - {block_Hash E b}) \<tau> (ch_states bc2)"
proof -
  let ?hh = "block_Hash E (ch_head bc)"
  obtain bc1 where guard: "insert_guard E now bc b = (Inr (ch_head bc), bc1)" and rc: "recached E bc bc1"
    by (rule passes_guard [OF inv p])
  note f = recached_fields [OF rc chain_invD(2) [OF inv]]
  have sh1: "shadows R \<sigma> (ch_states bc1)" using sh f by simp
  obtain ps0 where ps0: "ch_states bc1 ?hh = Some ps0" "agrees ps ps0" using shadowsD(2) [OF sh1 st] by blast
  have app1: "ApplyBlock E (ch_rewards bc1) ps b (Some (blk_header (ch_head bc))) = Inr (w, rs)" using app f by simp
  note acc = applied_accepted [OF inv guard ps0 app1 bounds]
  obtain s where s: "getTD (ch_db bc1) (block_Hash E (ch_head bc1)) = Inr s" by (rule head_TD [OF acc(2)])
  let ?td = "s + int (hd_difficulty (blk_header b))"
  have better: "Better E \<lparr>tip_header = blk_header b, tip_td = ?td\<rparr> \<lparr>tip_header = blk_header (ch_head bc1), tip_td = s\<rparr>"
    using diff by (simp add: Better_iff)
  have parent: "blk_parent b = block_Hash E (ch_head bc1)" using p f by (simp add: passes_def)
  have td: "0 \<le> ?td" using getTD_nonneg [OF s] by simp
  obtain bc2 L' where e: "extend E bc1 b rs w (Touched w) ?td = (Inr (), bc2)" "ch_head bc2 = b"
    and inv2: "chain_inv E g (S(block_Hash E b := w)) L' bc2"
    using extend_inv [OF acc(2,1) td s better parent, of rs] by (metis prod.collapse)
  obtain \<tau> where t: "extend E (over \<sigma> bc1) b rs w (Touched w) ?td = (Inr (), over \<tau> bc2)"
    "shadows (R - {block_Hash E b}) \<tau> (ch_states bc2)"
    using extend_over [OF sh1 e(1)] by blast
  have "place E (over \<sigma> bc1) (ch_head bc) b rs w = (Inr None, over \<tau> bc2)"
    using s better parent t(1) f by (simp add: place_def Let_def)
  then have "InsertBlock E now (over \<sigma> bc) b = (None, None, over \<tau> bc2)"
    using guard st app1 by (simp add: InsertBlock_def insert_block_def insert_guard_over)
  then show thesis using that e(2) inv2 t(2) by blast
qed

lemma insert_on_head:
  assumes inv: "chain_inv E g S L bc" and p: "passes E now bc b" and bounds: "block_bounds b"
    and app: "ApplyBlock E (ch_rewards bc) (S (block_Hash E (ch_head bc))) b (Some (blk_header (ch_head bc))) = Inr (w, rs)"
    and diff: "0 < hd_difficulty (blk_header b)"
  obtains bc2 L' where "InsertBlock E now bc b = (None, None, bc2)" "ch_head bc2 = b"
    "chain_inv E g (S(block_Hash E b := w)) L' bc2"
proof (rule extend_head_over [OF inv shadows_refl [of "{}"] p bounds chain_invD(5) [OF inv] app diff])
  fix \<tau> bc2 L'
  assume "InsertBlock E now (over (ch_states bc) bc) b = (None, None, over \<tau> bc2)" "ch_head bc2 = b"
    "chain_inv E g (S(block_Hash E b := w)) L' bc2" "shadows ({} - {block_Hash E b}) \<tau> (ch_states bc2)"
  then show thesis using that [of bc2 L'] by (simp add: shadows_none)
qed

section \<open>Restarting\<close>

lemma restored_held:
  assumes "canon E g gh d S c"
  shows "held_ok E g d S 0 (block_Hash E c) c"
proof -
  have "\<exists>p. stored_block E d (blk_parent c) p \<and> blk_height c = Suc (blk_height p) \<and> changes (S (blk_parent c)) (S (block_Hash E c))"
    if "0 < blk_height c"
    using assms that by (cases rule: canon.cases) (auto dest: canon_stored)
  then show ?thesis using canon_height [OF assms] canon_rooted [OF assms] by (simp add: held_ok_def rooted_def)
qed

lemma resume_over:
  assumes inv: "chain_inv E g S L bc" and cid: "g_ChainID g < 2 ^ 64" and new: "NewBlockchain E (ch_db bc) g ret = Inr bc'"
  shows "\<exists>bc1. bc' = over (ch_states bc') bc1 \<and> chain_inv E g S 0 bc1 \<and>
    shadows (dom (ch_states bc')) (ch_states bc') (ch_states bc1)"
proof -
  note i = chain_invD [OF inv]
  obtain bc2 where "NewBlockchain E (ch_db bc) g ret = Inr bc2"
    and f: "ch_head bc2 = ch_head bc" "ch_db bc2 = ch_db bc" "ch_genesis bc2 = ch_genesis bc"
    and held: "restored E g S bc2" and par: "params_ok E g bc2"
    and win: "\<And>h c. stored_block E (ch_db bc) h c \<Longrightarrow> canon_at (ch_db bc) h (blk_height c) \<Longrightarrow>
      blk_height c \<le> blk_height (ch_head bc) \<Longrightarrow> blk_height (ch_head bc) \<le> blk_height c + (if ret = 0 then DefaultRetention else ret) \<Longrightarrow>
      \<exists>v. ch_states bc2 h = Some v \<and> agrees v (S h)"
    by (rule resume_ok [OF inv cid, of ret]) blast
  then have eq: "bc2 = bc'" using new by simp
  let ?\<tau> = "\<lambda>h. map_option (\<lambda>_. S h) (ch_states bc2 h)"
  let ?hh = "block_Hash E (ch_head bc)"
  have ch: "canon E g (ch_genesis bc) (ch_db bc) S (ch_head bc)" using i(6) by (simp add: head_ok_def)
  have hs: "?\<tau> ?hh = Some (S ?hh)" using win [OF canon_stored [OF ch] canon_canon_at [OF ch]] by auto
  have "tree_ok E g S 0 (over ?\<tau> bc2)"
    unfolding tree_ok_def
  proof (intro allI impI)
    fix h w
    assume "ch_states (over ?\<tau> bc2) h = Some w"
    then obtain v where v: "ch_states bc2 h = Some v" "w = S h" by auto
    with held obtain c where "ch_blockCache bc2 h = Some c" "block_Hash E c = h" "canon E g (ch_genesis bc2) (ch_db bc2) S c"
      by (auto simp: restored_def)
    then show "w = S h \<and> (\<exists>b. ch_blockCache (over ?\<tau> bc2) h = Some b \<and> held_ok E g (ch_db (over ?\<tau> bc2)) S 0 h b)"
      using restored_held v(2) by (metis over_simps(1,2))
  qed
  moreover have "cache_ok E (over ?\<tau> bc2)" "params_ok E g (over ?\<tau> bc2)"
    using held par by (simp_all add: restored_def cache_ok_def params_ok_def)
  ultimately have "chain_inv E g S 0 (over ?\<tau> bc2)" using i(3,6-8) hs by (simp add: chain_inv_def f)
  moreover have "rel_option agrees (ch_states bc2 h) (?\<tau> h)" for h
    using held by (cases "ch_states bc2 h") (auto simp: restored_def)
  then have "shadows (dom (ch_states bc2)) (ch_states bc2) ?\<tau>" by (auto simp: shadows_def domIff)
  moreover have "bc2 = over (ch_states bc2) (over ?\<tau> bc2)" by (simp add: over_def)
  ultimately show ?thesis unfolding eq [symmetric] by (intro exI [of _ "over ?\<tau> bc2"] conjI) (simp_all only: over_simps)
qed

section \<open>Everything a node does, restarts included\<close>

text \<open>Writing a block from a state that a restart rebuilt leaves every account as the batch had it.\<close>

lemma restored_writes_nothing:
  assumes "restored E g S bc" and "ch_states bc h = Some st"
  shows "mem_Get (mem_Commit d (writeAccountChanges E batch blk st prev (Touched st))) (accountKey a) =
    mem_Get (mem_Commit d batch) (accountKey a)"
  using assms by (simp add: restored_def get_changes_written Touched_def)

text \<open>
  Opened on an empty store, then any sequence of insertions, reads and restarts, each restart with its own
  retention.  \<open>R\<close> is the set of blocks whose state the last restart rebuilt; a reorganisation adds none of them.
\<close>

inductive node_life :: "crypto \<Rightarrow> genesis \<Rightarrow> hash set \<Rightarrow> blockchain \<Rightarrow> bool" for E g where
  life_open: "NewBlockchain E NewMemory g ret = Inr bc \<Longrightarrow> node_life E g {} bc"
| life_insert: "node_life E g R bc \<Longrightarrow> block_bounds b \<Longrightarrow> InsertBlock E now bc b = (err, ro, bc') \<Longrightarrow>
    (\<And>r y. ro = Some r \<Longrightarrow> y \<in> set (ro_Added r) \<Longrightarrow> block_Hash E y \<notin> R) \<Longrightarrow> node_life E g R bc'"
| life_read: "node_life E g R bc \<Longrightarrow> node_life E g R (snd (blockLocked E bc h))"
| life_restart: "node_life E g R bc \<Longrightarrow> g_ChainID g < 2 ^ 64 \<Longrightarrow> NewBlockchain E (ch_db bc) g ret = Inr bc' \<Longrightarrow>
    node_life E g (dom (ch_states bc')) bc'"

lemma node_life_inv:
  "node_life E g R bc \<Longrightarrow> \<exists>\<sigma> bc1 S L. bc = over \<sigma> bc1 \<and> chain_inv E g S L bc1 \<and> shadows R \<sigma> (ch_states bc1)"
proof (induction rule: node_life.induct)
  case (life_open ret bc)
  obtain S where "chain_inv E g S 0 bc" using initialise_inv [OF life_open(1)] by blast
  then show ?case by (metis over_self shadows_refl)
next
  case (life_insert R bc b now err ro bc')
  then obtain \<sigma> bc1 S L where h: "bc = over \<sigma> bc1" "chain_inv E g S L bc1" "shadows R \<sigma> (ch_states bc1)" by blast
  obtain r where r: "insert_block E now (over \<sigma> bc1) b = (r, bc')" and ro: "r = Inr (Some x) \<Longrightarrow> ro = Some x" for x
    using life_insert(3) h(1) by (auto simp: InsertBlock_def split: prod.splits sum.splits)
  show ?case by (rule insert_over [OF h(2,3) life_insert(2) r]) (rule life_insert(4) [OF ro])
next
  case (life_read R bc h)
  then obtain \<sigma> bc1 S L where i: "bc = over \<sigma> bc1" "chain_inv E g S L bc1" "shadows R \<sigma> (ch_states bc1)" by blast
  have "snd (blockLocked E bc h) = over \<sigma> (snd (blockLocked E bc1 h))" by (simp add: i(1) blockLocked_over)
  moreover have "ch_states (snd (blockLocked E bc1 h)) = ch_states bc1"
    by (rule recached_fields(3) [OF recached_blockLocked chain_invD(2) [OF i(2)]])
  ultimately show ?case using i(3) inv_recached [OF recached_blockLocked i(2), of h] by metis
next
  case (life_restart R bc ret bc')
  then obtain \<sigma> bc1 S L where i: "bc = over \<sigma> bc1" "chain_inv E g S L bc1" by blast
  have "NewBlockchain E (ch_db bc1) g ret = Inr bc'" using life_restart(3) i(1) by simp
  from resume_over [OF i(2) life_restart(2) this] show ?case by blast
qed

lemma node_lives: "node E g ret bc \<Longrightarrow> node_life E g {} bc"
  by (induction rule: node.induct) (auto intro: node_life.intros)

end
