(* ===== verification/Blockchain_Properties.thy ===== *)
theory Blockchain_Properties
  imports Blockchain_Restart Transition_Properties
begin

text \<open>
  What the chain of a running node guarantees in every state it can reach.  Over any number of restarts
  (\<open>node_life\<close>): the store mirrors the state of the head, the height index is the path to genesis, value is
  conserved, a valid block is adopted, and a restart comes back to the same place.  Within one run of the process
  (\<open>node\<close>): insertion follows the fork choice, and nodes that accepted the same blocks agree.
\<close>

section \<open>A sample node\<close>

definition sample_node :: blockchain where
  "sample_node = projr (NewBlockchain sample_crypto NewMemory sample_genesis 0)"

lemma sample_node_fields:
  obtains w blk where "genesis_Build sample_crypto sample_genesis = Some (w, blk)"
    "blk_header blk = genesis_header sample_crypto sample_genesis w"
    "NewBlockchain sample_crypto NewMemory sample_genesis 0 = Inr sample_node"
    "ch_db sample_node = mem_Commit NewMemory (init_batch sample_crypto sample_genesis w blk)" "ch_head sample_node = blk"
    "ch_blockCache sample_node = [block_Hash sample_crypto blk \<mapsto> blk]"
    "ch_states sample_node = [block_Hash sample_crypto blk \<mapsto> ClearTouched w]" "ch_genesisDifficulty sample_node = 1"
proof -
  obtain w blk where b: "genesis_Build sample_crypto sample_genesis = Some (w, blk)"
    "blk_header blk = genesis_header sample_crypto sample_genesis w"
    using genesis_ok [OF sample_genesis_valid, of sample_crypto] by metis
  note f = fresh_chain [OF sample_genesis_valid b(1), of 0]
  have "hd_difficulty (blk_header blk) = 1" by (simp add: b(2) genesis_header_def sample_genesis_def MinDifficulty_def)
  then show thesis using that [OF b] f by (simp add: sample_node_def open_chain_def)
qed

lemma sample_node_reached: "node sample_crypto sample_genesis 0 sample_node"
  by (rule sample_node_fields) (rule node_open)

lemma sample_node_lives: "node_life sample_crypto sample_genesis {} sample_node"
  by (rule node_lives [OF sample_node_reached])

lemma sample_node_head:
  "blk_height (ch_head sample_node) = 0" "\<exists>w. head_state sample_crypto sample_node = Some w"
  by (rule sample_node_fields, simp add: genesis_header_def) (rule sample_node_fields, simp add: head_state_def)

definition sample_next :: block where
  "sample_next = \<lparr>blk_header = (empty_header sample_crypto (ch_rewards sample_node)
     (the (head_state sample_crypto sample_node)) (blk_header (ch_head sample_node)))\<lparr>hd_nonce := 1\<rparr>, blk_txs = []\<rparr>"

lemma sample_header_nonce: "unat (header_Hash sample_crypto h) mod 256 = (1 + hd_nonce h) mod 256"
proof -
  have "last (header_preimage h) = word_of_nat (hd_nonce h mod 256)"
    using be_fixed.simps(2) [of 7 "hd_nonce h"] by (simp add: header_preimage_def enc_Uint64_def del: be_fixed.simps)
  then have "header_Hash sample_crypto h = word_of_nat (1 + 256 * length (header_preimage h) + hd_nonce h mod 256)"
    by (simp add: header_Hash_def sample_crypto_def sample_keccak_def)
  moreover have "unat (word_of_nat k :: hash) mod 256 = k mod 256" for k
    using mod_mod_cancel [of 256 "2 ^ 256" k] by (simp add: unat_of_nat)
  ultimately have "unat (header_Hash sample_crypto h) mod 256 = (1 + 256 * length (header_preimage h) + hd_nonce h mod 256) mod 256"
    by metis
  moreover have "(1 + 256 * l + n mod 256) mod 256 = (1 + n) mod 256" for l n :: nat
    using mod_mult_self4 [of 256 l "1 + n"] mod_add_right_eq [of "1 + 256 * l" n 256] by (simp add: ac_simps)
  ultimately show ?thesis by simp
qed

lemma sample_next_valid:
  "passes sample_crypto 1800000000000 sample_node sample_next" "block_bounds sample_next"
  "0 < hd_difficulty (blk_header sample_next)"
  "\<exists>w rs. ApplyBlock sample_crypto (ch_rewards sample_node) (the (head_state sample_crypto sample_node)) sample_next
     (Some (blk_header (ch_head sample_node))) = Inr (w, rs)"
proof -
  obtain w blk where b: "blk_header blk = genesis_header sample_crypto sample_genesis w"
    and f: "ch_db sample_node = mem_Commit NewMemory (init_batch sample_crypto sample_genesis w blk)" "ch_head sample_node = blk"
    "ch_blockCache sample_node = [block_Hash sample_crypto blk \<mapsto> blk]" "ch_genesisDifficulty sample_node = 1"
    by (rule sample_node_fields)
  have p: "hd_height (blk_header blk) = 0" "hd_gaslimit (blk_header blk) = 30000000" "hd_nonce (blk_header blk) = 0"
    "hd_timestamp (blk_header blk) = 1700000000000" "hd_difficulty (blk_header blk) = 1"
    by (simp_all add: b genesis_header_def sample_genesis_def MinDifficulty_def)
  show "block_bounds sample_next" "0 < hd_difficulty (blk_header sample_next)"
    by (simp_all add: block_bounds_def sample_next_def empty_header_def f p gas_cap_def)
  have ne: "block_Hash sample_crypto sample_next \<noteq> block_Hash sample_crypto blk"
    using sample_header_nonce [of "blk_header sample_next"] sample_header_nonce [of "blk_header blk"] p(3)
    by (auto simp: block_Hash_def sample_next_def)
  have "uint (header_Hash sample_crypto (blk_header sample_next)) \<le> 2 ^ 256 - 1"
    using uint_lt2p [of "header_Hash sample_crypto (blk_header sample_next)"] by simp
  then have pow: "satisfiesPoW sample_crypto (blk_header sample_next)"
    by (simp add: satisfiesPoW_def powTarget_def maxTarget_def sample_next_def empty_header_def f p)
  have "fst (RequiredDifficulty sample_crypto sample_node (blk_header blk)) = Some 1"
    by (simp add: RequiredDifficulty_def requiredDifficultyLocked_def p f wrap_int64_def Let_def)
  then show "passes sample_crypto 1800000000000 sample_node sample_next"
    using ne pow
    by (simp add: passes_def HasBlock_def mem.has_get f get_init(1))
      (simp add: sample_next_def empty_header_def block_Hash_def f p VerifyTxRoot_def wrap_int64_def MaxFutureDriftMs_def)
  show "\<exists>w rs. ApplyBlock sample_crypto (ch_rewards sample_node) (the (head_state sample_crypto sample_node)) sample_next
     (Some (blk_header (ch_head sample_node))) = Inr (w, rs)"
    by (simp add: ApplyBlock_def VerifyTxRoot_def check_parent_def sample_next_def empty_header_def open_block_def Let_def
        f p MinBlockGasLimit_def GasLimitBoundDivisor_def add64_def)
qed

text \<open>The sample node after a block, and after a restart on top of that.\<close>

lemma sample_inserted:
  obtains bc' S L where "InsertBlock sample_crypto 1800000000000 sample_node sample_next = (None, None, bc')"
    "ch_head bc' = sample_next" "chain_inv sample_crypto sample_genesis S L bc'"
proof -
  obtain S L where inv: "chain_inv sample_crypto sample_genesis S L sample_node" using node_inv [OF sample_node_reached] by blast
  have h: "head_state sample_crypto sample_node = Some (S (block_Hash sample_crypto (ch_head sample_node)))"
    using chain_invD(5) [OF inv] by (simp add: head_state_def)
  obtain w rs where app: "ApplyBlock sample_crypto (ch_rewards sample_node) (S (block_Hash sample_crypto (ch_head sample_node)))
      sample_next (Some (blk_header (ch_head sample_node))) = Inr (w, rs)"
    using sample_next_valid(4) h by auto
  show thesis by (rule insert_on_head [OF inv sample_next_valid(1,2) app sample_next_valid(3)]) (rule that)
qed

lemma sample_restarted:
  obtains bc1 bc2 R where "InsertBlock sample_crypto 1800000000000 sample_node sample_next = (None, None, bc1)"
    "NewBlockchain sample_crypto (ch_db bc1) sample_genesis 0 = Inr bc2" "ch_head bc2 = sample_next"
    "node_life sample_crypto sample_genesis R bc2"
proof -
  have cid: "g_ChainID sample_genesis < 2 ^ 64" by (simp add: sample_genesis_def)
  obtain bc1 S L where bc1: "InsertBlock sample_crypto 1800000000000 sample_node sample_next = (None, None, bc1)"
    "ch_head bc1 = sample_next" and inv: "chain_inv sample_crypto sample_genesis S L bc1"
    by (rule sample_inserted)
  have "node_life sample_crypto sample_genesis {} bc1"
    by (rule node_lives [OF node_insert [OF sample_node_reached sample_next_valid(2) bc1(1)]])
  moreover obtain bc2 where bc2: "NewBlockchain sample_crypto (ch_db bc1) sample_genesis 0 = Inr bc2" "ch_head bc2 = ch_head bc1"
    by (rule resume_ok [OF inv cid, of 0])
  ultimately show thesis using that [OF bc1(1) bc2(1)] bc1(2) life_restart [OF _ cid] by metis
qed

section \<open>Store and head\<close>

text \<open>
  C3 In every state a node reaches, over any number of restarts, the store is an image of the head: the head
  pointer names the head block and loads it, loading the account table gives exactly the accounts of the state
  in memory, the burn total is the stored one, and the root the header commits to is the root of that state.
  The one history left out is a reorganisation that adds back a block whose state the last restart rebuilt
  (\<open>R\<close>): such a state has no record of what its block touched, and \<^verbatim>\<open>reorg\<close> writes only what was touched, so
  the accounts of that block would be missing from the table.
\<close>

theorem store_mirrors_head:
  assumes "node_life E g R bc"
  shows "\<exists>w v. head_state E bc = Some w \<and> world_ok w \<and> loadState (ch_db bc) = Inr v \<and>
    w_accounts v = w_accounts w \<and> getBigInt (ch_db bc) keyBurned = Inr (w_burned w) \<and>
    getHash (ch_db bc) keyHead = Inr (block_Hash E (ch_head bc)) \<and>
    loadBlock E (ch_db bc) (block_Hash E (ch_head bc)) = Inr (ch_head bc) \<and>
    world_Root E w = hd_stateroot (blk_header (ch_head bc))"
proof -
  obtain \<sigma> gc S L where bc: "bc = over \<sigma> gc" and inv: "chain_inv E g S L gc" and sh: "shadows R \<sigma> (ch_states gc)"
    using node_life_inv [OF assms] by blast
  note i = chain_invD [OF inv]
  let ?h = "block_Hash E (ch_head gc)"
  have c: "canon E g (ch_genesis gc) (ch_db gc) S (ch_head gc)" using i(6) by (simp add: head_ok_def)
  obtain w where w: "\<sigma> ?h = Some w" "agrees w (S ?h)" using shadowsD(4) [OF sh i(5)] by blast
  have "chain E g (blk_header (ch_head gc)) w" using agrees_chain [OF w(2)] canon_rooted [OF c] by (simp add: rooted_def)
  from chain_invariant [OF this] show ?thesis
    using i(7) w canon_stored [OF c]
    by (simp add: bc head_state_def disk_ok_def loadState_ok loadBlock_stored getHash_def get_raw_def db_Get_def
        HashFromBytes_hash_bytes agrees_def)
qed

theorem store_mirrors_head_witness:
  "\<exists>bc1 bc2 w v. InsertBlock sample_crypto 1800000000000 sample_node sample_next = (None, None, bc1) \<and>
    NewBlockchain sample_crypto (ch_db bc1) sample_genesis 0 = Inr bc2 \<and> ch_head bc2 = sample_next \<and>
    head_state sample_crypto bc2 = Some w \<and> world_ok w \<and> loadState (ch_db bc2) = Inr v \<and> w_accounts v = w_accounts w"
proof -
  obtain bc1 bc2 R where r: "InsertBlock sample_crypto 1800000000000 sample_node sample_next = (None, None, bc1)"
    "NewBlockchain sample_crypto (ch_db bc1) sample_genesis 0 = Inr bc2" "ch_head bc2 = sample_next"
    "node_life sample_crypto sample_genesis R bc2" by (rule sample_restarted)
  show ?thesis using r(1-3) store_mirrors_head [OF r(4)] by blast
qed

text \<open>The chain of blocks below a canonical one, by height.\<close>

lemma canon_at_height: "canon E g gh d S b \<Longrightarrow> n \<le> blk_height b \<Longrightarrow> \<exists>c. canon E g gh d S c \<and> blk_height c = n"
proof (induction rule: canon.induct)
  case (canon_genesis b)
  then show ?case using canon.canon_genesis by (intro exI [of _ b]) auto
next
  case (canon_next p b)
  have "canon E g gh d S b" using canon_next.hyps by (rule canon.canon_next)
  then show ?case
    using canon_next.IH canon_next.prems canon_next.hyps(4) by (cases "n = blk_height b") auto
qed

lemma BlockByHeight_canon:
  assumes inv: "chain_inv E g S L bc" and c: "canon E g (ch_genesis bc) (ch_db bc) S c"
  shows "fst (BlockByHeight E bc (blk_height c)) = Inr c"
proof -
  have s: "stored_block E (ch_db bc) (block_Hash E c) c" by (rule canon_stored [OF c])
  have "blk = c" if "ch_blockCache bc (block_Hash E c) = Some blk" for blk
    using chain_invD(2) [OF inv] that s stored_block_unique unfolding cache_ok_def by metis
  then show ?thesis
    using getHash_canon [OF canon_canon_at [OF c]] s [folded loadBlock_stored]
    by (auto simp: BlockByHeight_def blockLocked_def split: option.split)
qed

text \<open>
  C9 The height index is exactly the path from genesis to the head: every height up to the head's resolves to a
  block of that height whose parent is the block the index has one below; height 0 is the genesis block, the
  head's height is the head, and every height above it is unknown.  This holds across restarts, in the
  histories of C3.
\<close>

theorem height_index_exact:
  assumes "node_life E g R bc" and "n < 2 ^ 64"
  shows "if n \<le> blk_height (ch_head bc)
    then \<exists>b. fst (BlockByHeight E bc n) = Inr b \<and> blk_height b = n \<and>
      (n = blk_height (ch_head bc) \<longrightarrow> b = ch_head bc) \<and> (n = 0 \<longrightarrow> block_Hash E b = ch_genesis bc) \<and>
      (0 < n \<longrightarrow> (\<exists>p. fst (BlockByHeight E bc (n - 1)) = Inr p \<and> blk_parent b = block_Hash E p))
    else fst (BlockByHeight E bc n) = Inl ErrUnknownBlock"
proof -
  obtain \<sigma> gc S L where bc: "bc = over \<sigma> gc" and inv: "chain_inv E g S L gc" using node_life_inv [OF assms(1)] by blast
  let ?canon = "canon E g (ch_genesis gc) (ch_db gc) S"
  have h: "?canon (ch_head gc)" and above: "\<And>m. blk_height (ch_head gc) < m \<Longrightarrow> m < 2 ^ 64 \<Longrightarrow> mem_Get (ch_db gc) (canonicalKey m) = None"
    using chain_invD(6) [OF inv] by (simp_all add: head_ok_def)
  note at = BlockByHeight_canon [OF inv]
  have same: "fst (BlockByHeight E bc m) = fst (BlockByHeight E gc m)" "ch_head bc = ch_head gc" "ch_genesis bc = ch_genesis gc" for m
    by (simp_all add: bc BlockByHeight_over)
  show ?thesis
  proof (cases "n \<le> blk_height (ch_head gc)")
    case True
    obtain b where b: "?canon b" "blk_height b = n" using canon_at_height [OF h True] by blast
    have "b = ch_head gc" if "n = blk_height (ch_head gc)" using at [OF b(1)] at [OF h] b(2) that by (metis sum.inject(2))
    moreover have "block_Hash E b = ch_genesis gc" if "n = 0"
      using b that by (cases rule: canon.cases) (auto simp: stored_block_def)
    moreover have "\<exists>p. fst (BlockByHeight E gc (n - 1)) = Inr p \<and> blk_parent b = block_Hash E p" if "0 < n"
    proof -
      from b that obtain p where p: "?canon p" "blk_parent b = block_Hash E p" "blk_height p = n - 1"
        by (cases rule: canon.cases) auto
      then show ?thesis using at [OF p(1)] by metis
    qed
    ultimately show ?thesis unfolding same using at [OF b(1)] b(2) True by metis
  next
    case False
    then show ?thesis
      unfolding same using above [of n] assms(2) by (simp add: BlockByHeight_def getHash_def get_raw_def db_Get_def)
  qed
qed

theorem height_index_exact_witness:
  "fst (BlockByHeight sample_crypto sample_node 0) = Inr (ch_head sample_node) \<and>
   fst (BlockByHeight sample_crypto sample_node 1) = Inl ErrUnknownBlock"
  using height_index_exact [OF sample_node_lives, of 0] height_index_exact [OF sample_node_lives, of 1] sample_node_head
  by auto

text \<open>
  C8 The periodic self-check of the node never fires: in every state reached in the histories of C3, restarts
  included, the head's balances plus burn total equal genesis supply plus cumulative issuance at the head's
  height, and the check does return.
\<close>

theorem node_conserves_value:
  assumes "node_life E g R bc"
  shows "chain_Conserves E bc = Some True"
proof -
  obtain \<sigma> gc S L where bc: "bc = over \<sigma> gc" and inv: "chain_inv E g S L gc" and sh: "shadows R \<sigma> (ch_states gc)"
    using node_life_inv [OF assms] by blast
  note i = chain_invD [OF inv]
  obtain w where w: "\<sigma> (block_Hash E (ch_head gc)) = Some w" "agrees w (S (block_Hash E (ch_head gc)))"
    using shadowsD(4) [OF sh i(5)] by blast
  have "canon E g (ch_genesis gc) (ch_db gc) S (ch_head gc)" using i(6) by (simp add: head_ok_def)
  then have "chain E g (blk_header (ch_head gc)) w"
    using agrees_chain [OF w(2)] canon_rooted by (auto simp: rooted_def)
  from chain_invariant [OF this] show ?thesis
    using i(1) w(1)
    by (simp add: bc chain_Conserves_def head_state_def CheckConservation_def CumulativeIssued_sum supply_of_def params_ok_def)
qed

theorem node_conserves_value_witness: "chain_Conserves sample_crypto sample_node = Some True"
  by (rule node_conserves_value [OF sample_node_lives])

section \<open>Fork choice\<close>

text \<open>The abstract view of a chain: its head and the work behind it, moved only to a preferred tip.\<close>

definition head_tip :: "crypto \<Rightarrow> blockchain \<Rightarrow> tip" where
  "head_tip E bc = \<lparr>tip_header = blk_header (ch_head bc), tip_td = projr (getTD (ch_db bc) (block_Hash E (ch_head bc)))\<rparr>"

definition preferred :: "crypto \<Rightarrow> tip \<Rightarrow> tip \<Rightarrow> tip" where
  "preferred E current candidate = (if Better E candidate current then candidate else current)"

text \<open>The tip a block would be: its header on top of the work of its parent.\<close>

definition tip_of :: "blockchain \<Rightarrow> block \<Rightarrow> tip" where
  "tip_of bc b =
     \<lparr>tip_header = blk_header b, tip_td = projr (getTD (ch_db bc) (blk_parent b)) + int (hd_difficulty (blk_header b))\<rparr>"

text \<open>Feed a node blocks, each with the clock reading of its arrival; the tips of the accepted ones.\<close>

fun feed :: "crypto \<Rightarrow> blockchain \<Rightarrow> (int \<times> block) list \<Rightarrow> tip list \<times> blockchain" where
  "feed E bc [] = ([], bc)"
| "feed E bc ((now, b) # rest) =
     (case InsertBlock E now bc b of (err, ro, bc1) \<Rightarrow>
       case feed E bc1 rest of (tips, bc2) \<Rightarrow> (if err = None then tip_of bc b # tips else tips, bc2))"

lemma prefer_pick: "preferred E = heaviest.pick E"
  by (simp add: fun_eq_iff preferred_def heaviest.pick_def)

lemma insert_prefers:
  assumes n: "node E g ret bc" and b: "block_bounds b" and r: "InsertBlock E now bc b = (err, ro, bc')"
  shows "head_tip E bc' = (if err = None then preferred E (head_tip E bc) (tip_of bc b) else head_tip E bc)"
proof -
  obtain S L where inv: "chain_inv E g S L bc" using node_inv [OF n] by blast
  obtain s where s: "getTD (ch_db bc) (block_Hash E (ch_head bc)) = Inr s" by (rule head_TD [OF inv])
  obtain q where q: "insert_block E now bc b = (q, bc')" and e: "(err = None) = (\<exists>x. q = Inr x)"
    using r by (cases "insert_block E now bc b") (auto simp: InsertBlock_def split: sum.splits)
  show ?thesis
    using inv b q s
  proof (cases rule: insert_cases)
    case (refused e')
    then have "err \<noteq> None" using e by simp
    then show ?thesis using recached_fields [OF refused(2) chain_invD(2) [OF inv]] by (auto simp: head_tip_def)
  next
    case (kept w L' t)
    then show ?thesis using e s by (auto simp: head_tip_def preferred_def tip_of_def)
  next
    case (adopted ro w L' t)
    then show ?thesis using e s by (auto simp: head_tip_def preferred_def tip_of_def)
  qed
qed

lemma feed_prefers:
  "node E g ret bc \<Longrightarrow> list_all (\<lambda>x. block_bounds (snd x)) bs \<Longrightarrow> feed E bc bs = (tips, bc') \<Longrightarrow>
    head_tip E bc' = foldl (preferred E) (head_tip E bc) tips \<and> node E g ret bc'"
proof (induction E bc bs arbitrary: tips bc' rule: feed.induct)
  case (2 E bc now b rest)
  obtain err ro bc1 where i: "InsertBlock E now bc b = (err, ro, bc1)" by (rule prod_cases3)
  obtain tips1 bc2 where f: "feed E bc1 rest = (tips1, bc2)" by fastforce
  have b: "block_bounds b" "list_all (\<lambda>x. block_bounds (snd x)) rest" using 2(3) by simp_all
  have n: "node E g ret bc1" by (rule node_insert [OF 2(2) b(1) i])
  have t: "tips = (if err = None then tip_of bc b # tips1 else tips1)" "bc' = bc2" using 2(4) i f by auto
  show ?case using 2(1) [OF i [symmetric] refl n b(2) f] insert_prefers [OF 2(2) b(1) i] t by simp
qed simp

text \<open>
  C4 Insertion implements the fork choice.  Seen through its head and the work behind it, a node fed any
  sequence of blocks since it was opened on an empty store, in any order and on any branches, is the fold of
  the fork choice over the blocks it accepted: a block that is refused changes neither, an accepted one moves the head exactly when the choice
  prefers it, also when that takes a reorganisation or when the store is pruned on the way.
\<close>

theorem insertion_refines_fork_choice:
  assumes "node E g ret bc" and "list_all (\<lambda>x. block_bounds (snd x)) bs" and "feed E bc bs = (tips, bc')"
  shows "head_tip E bc' = foldl (preferred E) (head_tip E bc) tips"
  using feed_prefers [OF assms] by blast

text \<open>
  C5 Nodes converge.  Two nodes of the same genesis, fed different sequences of blocks in different orders,
  have the same head whenever the blocks they accepted are the same.
\<close>

theorem nodes_converge:
  assumes "NewBlockchain E NewMemory g ret = Inr bc"
    and "list_all (\<lambda>x. block_bounds (snd x)) bs1" and "feed E bc bs1 = (tips1, bc1)"
    and "list_all (\<lambda>x. block_bounds (snd x)) bs2" and "feed E bc bs2 = (tips2, bc2)"
    and "set tips1 = set tips2"
  shows "block_Hash E (ch_head bc1) = block_Hash E (ch_head bc2)"
proof -
  note n = node_open [OF assms(1)]
  have "head_tip E bc1 = heaviest.head_after E (head_tip E bc) tips1" "head_tip E bc2 = heaviest.head_after E (head_tip E bc) tips2"
    using feed_prefers [OF n assms(2,3)] feed_prefers [OF n assms(4,5)] by (simp_all add: prefer_pick heaviest.head_after_def)
  then have "header_Hash E (tip_header (head_tip E bc1)) = header_Hash E (tip_header (head_tip E bc2))"
    using heaviest.head_after_agree [of "head_tip E bc" tips1 "head_tip E bc" tips2 E] assms(6) by simp
  then show ?thesis by (simp add: head_tip_def block_Hash_def)
qed

text \<open>
  C7 A valid block on the head is adopted: when its parent is the head, it is new, not from the future, carries
  the required difficulty and the work for it, commits to its transactions, and its execution on the head's
  state succeeds, insertion reports neither error nor reorganisation and the block is the new head, its state
  the one the execution computed.  The node may have been restarted before, as in C3.
\<close>

theorem valid_extension_adopted:
  assumes "node_life E g R bc" and "head_state E bc = Some w" and "passes E now bc b" and "block_bounds b"
    and "ApplyBlock E (ch_rewards bc) w b (Some (blk_header (ch_head bc))) = Inr (w', rs)"
    and "0 < hd_difficulty (blk_header b)"
  shows "\<exists>bc'. InsertBlock E now bc b = (None, None, bc') \<and> ch_head bc' = b \<and> head_state E bc' = Some w'"
proof -
  obtain \<sigma> gc S L where bc: "bc = over \<sigma> gc" and inv: "chain_inv E g S L gc" and sh: "shadows R \<sigma> (ch_states gc)"
    using node_life_inv [OF assms(1)] by blast
  note a = assms(2,3,5) [unfolded bc passes_over head_state_def over_simps]
  obtain \<tau> bc2 L' where r: "InsertBlock E now (over \<sigma> gc) b = (None, None, over \<tau> bc2)" "ch_head bc2 = b"
    and inv2: "chain_inv E g (S(block_Hash E b := w')) L' bc2" and sh2: "shadows (R - {block_Hash E b}) \<tau> (ch_states bc2)"
    by (rule extend_head_over [OF inv sh a(2) assms(4) a(1,3) assms(6)])
  have "\<tau> (block_Hash E b) = Some w'" using chain_invD(5) [OF inv2] shadowsD(3) [OF sh2, of "block_Hash E b"] r(2) by simp
  then show ?thesis using r by (simp add: bc head_state_def)
qed

theorem valid_extension_adopted_witness:
  "\<exists>bc'. InsertBlock sample_crypto 1800000000000 sample_node sample_next = (None, None, bc') \<and> ch_head bc' = sample_next"
proof -
  obtain w where w: "head_state sample_crypto sample_node = Some w" using sample_node_head(2) by blast
  then obtain w' rs where "ApplyBlock sample_crypto (ch_rewards sample_node) w sample_next
     (Some (blk_header (ch_head sample_node))) = Inr (w', rs)" using sample_next_valid(4) by auto
  from valid_extension_adopted [OF sample_node_lives w sample_next_valid(1,2) this sample_next_valid(3)]
  show ?thesis by blast
qed

text \<open>Two deliveries of one block: the second is refused.\<close>

lemma sample_feed:
  obtains bc' where "feed sample_crypto sample_node [(1800000000000, sample_next)] = ([tip_of sample_node sample_next], bc')"
    "ch_head bc' = sample_next"
    "feed sample_crypto sample_node [(1800000000000, sample_next), (1800000000000, sample_next)] =
      ([tip_of sample_node sample_next], bc')"
proof -
  obtain bc' S L where bc': "InsertBlock sample_crypto 1800000000000 sample_node sample_next = (None, None, bc')"
    "ch_head bc' = sample_next" and inv': "chain_inv sample_crypto sample_genesis S L bc'"
    by (rule sample_inserted)
  have "ch_blockCache bc' (block_Hash sample_crypto sample_next) = Some sample_next"
    using head_cached(1) [OF inv'] bc'(2) by simp
  then have "InsertBlock sample_crypto 1800000000000 bc' sample_next = (Some ErrKnownBlock, None, bc')"
    by (simp add: InsertBlock_def insert_block_def insert_guard_def)
  then show thesis using that bc' by simp
qed

theorem insertion_refines_fork_choice_witness:
  "\<exists>bc'. head_tip sample_crypto bc' =
      foldl (preferred sample_crypto) (head_tip sample_crypto sample_node) [tip_of sample_node sample_next] \<and>
    ch_head bc' = sample_next"
proof -
  obtain bc' where f: "feed sample_crypto sample_node [(1800000000000, sample_next)] = ([tip_of sample_node sample_next], bc')"
    "ch_head bc' = sample_next" by (rule sample_feed)
  show ?thesis using insertion_refines_fork_choice [OF sample_node_reached _ f(1)] f(2) sample_next_valid(2) by auto
qed

theorem nodes_converge_witness:
  "\<exists>bc1 bc2. feed sample_crypto sample_node [(1800000000000, sample_next)] = ([tip_of sample_node sample_next], bc1) \<and>
    feed sample_crypto sample_node [(1800000000000, sample_next), (1800000000000, sample_next)] =
      ([tip_of sample_node sample_next], bc2) \<and>
    block_Hash sample_crypto (ch_head bc1) = block_Hash sample_crypto (ch_head bc2)"
proof -
  have new: "NewBlockchain sample_crypto NewMemory sample_genesis 0 = Inr sample_node" by (rule sample_node_fields)
  obtain bc' where f: "feed sample_crypto sample_node [(1800000000000, sample_next)] = ([tip_of sample_node sample_next], bc')"
    "feed sample_crypto sample_node [(1800000000000, sample_next), (1800000000000, sample_next)] =
      ([tip_of sample_node sample_next], bc')" by (rule sample_feed)
  show ?thesis using nodes_converge [OF new _ f(1) _ f(2) refl] f sample_next_valid(2) by auto
qed

section \<open>Restarting\<close>

text \<open>
  C6 A node can always be restarted, also one that was restarted before: opening its store again, with any
  retention, succeeds with the same head and the same store, and every block of the canonical chain within the
  retention window has its state back, with the accounts and the burn total it had before wherever the old
  process still held it, and the root its header commits to.  What such a state has lost is the record of what
  its block touched.  The histories covered are those of C3: no reorganisation added back a block whose state
  the restart before it had rebuilt.
\<close>

theorem restart_resumes:
  assumes "node_life E g R bc" and "g_ChainID g < 2 ^ 64"
  shows "\<exists>bc'. NewBlockchain E (ch_db bc) g ret = Inr bc' \<and> ch_head bc' = ch_head bc \<and> ch_db bc' = ch_db bc \<and>
    (\<forall>n \<le> blk_height (ch_head bc). blk_height (ch_head bc) \<le> n + (if ret = 0 then DefaultRetention else ret) \<longrightarrow>
      (\<exists>b v. fst (BlockByHeight E bc n) = Inr b \<and> ch_states bc' (block_Hash E b) = Some v \<and>
        world_Root E v = hd_stateroot (blk_header b) \<and> w_touched v = {} \<and>
        (\<forall>w. ch_states bc (block_Hash E b) = Some w \<longrightarrow> w_accounts v = w_accounts w \<and> w_burned v = w_burned w)))"
proof -
  obtain \<sigma> gc S L where bc: "bc = over \<sigma> gc" and inv: "chain_inv E g S L gc" and sh: "shadows R \<sigma> (ch_states gc)"
    using node_life_inv [OF assms(1)] by blast
  let ?d = "ch_db gc" and ?ret = "if ret = 0 then DefaultRetention else ret"
  obtain bc' where r: "NewBlockchain E ?d g ret = Inr bc'" "ch_head bc' = ch_head gc" "ch_db bc' = ?d" "restored E g S bc'"
    and win: "\<And>h c. stored_block E ?d h c \<Longrightarrow> canon_at ?d h (blk_height c) \<Longrightarrow>
      blk_height c \<le> blk_height (ch_head gc) \<Longrightarrow> blk_height (ch_head gc) \<le> blk_height c + ?ret \<Longrightarrow>
      \<exists>v. ch_states bc' h = Some v \<and> agrees v (S h)"
    by (rule resume_ok [OF inv assms(2), of ret]) blast
  have "\<exists>b v. fst (BlockByHeight E bc n) = Inr b \<and> ch_states bc' (block_Hash E b) = Some v \<and>
      world_Root E v = hd_stateroot (blk_header b) \<and> w_touched v = {} \<and>
      (\<forall>w. ch_states bc (block_Hash E b) = Some w \<longrightarrow> w_accounts v = w_accounts w \<and> w_burned v = w_burned w)"
    if n: "n \<le> blk_height (ch_head gc)" "blk_height (ch_head gc) \<le> n + ?ret" for n
  proof -
    have ch: "canon E g (ch_genesis gc) ?d S (ch_head gc)" using chain_invD(6) [OF inv] by (simp add: head_ok_def)
    obtain c where c: "canon E g (ch_genesis gc) ?d S c" "blk_height c = n" using canon_at_height [OF ch n(1)] by blast
    obtain v where v: "ch_states bc' (block_Hash E c) = Some v" "agrees v (S (block_Hash E c))"
      using win [OF canon_stored [OF c(1)] canon_canon_at [OF c(1)]] n c(2) by blast
    have t: "w_touched v = {}" using r(4) v(1) by (simp add: restored_def)
    have "agrees w (S (block_Hash E c))" if "\<sigma> (block_Hash E c) = Some w" for w
      using shadowsD(2) [OF sh that] chain_invD(4) [OF inv] by (auto simp: tree_ok_def)
    then have "w_accounts v = w_accounts w \<and> w_burned v = w_burned w" if "ch_states bc (block_Hash E c) = Some w" for w
      using that v(2) unfolding bc over_simps agrees_def by metis
    moreover have "fst (BlockByHeight E bc n) = Inr c"
      using BlockByHeight_canon [OF inv c(1)] c(2) by (simp add: bc BlockByHeight_over)
    moreover have "world_Root E v = hd_stateroot (blk_header c)"
      using agrees_Root [OF v(2)] rooted_Root [OF canon_rooted [OF c(1)]] by simp
    ultimately show ?thesis using v(1) t by blast
  qed
  then show ?thesis using r(1-3) unfolding bc over_simps by blast
qed

theorem restart_resumes_witness:
  "\<exists>bc1 bc2 bc3. InsertBlock sample_crypto 1800000000000 sample_node sample_next = (None, None, bc1) \<and>
    NewBlockchain sample_crypto (ch_db bc1) sample_genesis 0 = Inr bc2 \<and>
    NewBlockchain sample_crypto (ch_db bc2) sample_genesis 5 = Inr bc3 \<and> ch_head bc3 = sample_next \<and> ch_db bc3 = ch_db bc2"
proof -
  obtain bc1 bc2 R where r: "InsertBlock sample_crypto 1800000000000 sample_node sample_next = (None, None, bc1)"
    "NewBlockchain sample_crypto (ch_db bc1) sample_genesis 0 = Inr bc2" "ch_head bc2 = sample_next"
    "node_life sample_crypto sample_genesis R bc2" by (rule sample_restarted)
  have "g_ChainID sample_genesis < 2 ^ 64" by (simp add: sample_genesis_def)
  then show ?thesis using r(1-3) restart_resumes [OF r(4), of 5] by metis
qed

end
