(* ===== verification/Mempool.thy ===== *)
theory Mempool
  imports Transition "HOL-Library.AList" "HOL-Library.Multiset"
begin

text \<open>
  The pool of pending transactions (\<^verbatim>\<open>src/mempool/mempool.go\<close>, \<^verbatim>\<open>src/mempool/journal.go\<close>): admission against
  the head state, insertion with eviction, selection for a block, demotion, removal, re-injection and
  the journal of local transactions.

  A Go map is an association list without duplicate keys, \<^verbatim>\<open>len\<close> is its length, and a range loop
  visits its entries in the order \<open>wk n\<close>, any permutation of the \<open>n\<close> positions.  \<^verbatim>\<open>sort.Slice\<close> is not stable;
  a stable sort after an arbitrary walk covers its outcomes.  An absent inner map is nil in Go, and a write to
  it panics.  The journal file is the list of transactions its lines decode to; whether creating,
  renaming and reopening it succeed is an argument.
\<close>

section \<open>Go maps\<close>

type_synonym ('k, 'v) gomap = "('k \<times> 'v) list"
type_synonym walk_order = "nat \<Rightarrow> nat list"

definition visit :: "walk_order \<Rightarrow> 'a list \<Rightarrow> 'a list" where
  "visit wk xs = map ((!) xs) (wk (length xs))"

section \<open>State\<close>

datatype pool_error =
    ErrTxInvalid tx_error | ErrAlreadyKnown | ErrPoolFull | ErrNonceUsed | ErrNonceStale | ErrCannotPay
  | ErrUnderpriced | ErrAccountLimit | ErrPoolPanic

definition maxPerAccount :: nat where "maxPerAccount = 64"

record mempool =
  mp_maxSize :: int
  mp_minGasPrice :: "int option"
  mp_all :: "(hash, tx) gomap"
  mp_byAcct :: "(address, (nat, tx) gomap) gomap"
  mp_journalPath :: string
  mp_journalOpen :: bool
  mp_local :: "(hash, unit) gomap"
  mp_journal :: "tx list"

definition pool_New :: "int \<Rightarrow> mempool" where
  "pool_New maxSize = \<lparr>mp_maxSize = maxSize, mp_minGasPrice = None, mp_all = [], mp_byAcct = [],
     mp_journalPath = [], mp_journalOpen = False, mp_local = [], mp_journal = []\<rparr>"

definition SetMinGasPrice :: "mempool \<Rightarrow> int option \<Rightarrow> mempool" where
  "SetMinGasPrice m p = m\<lparr>mp_minGasPrice := p\<rparr>"

definition pool_Len :: "mempool \<Rightarrow> nat" where
  "pool_Len m = length (mp_all m)"

definition pool_Get :: "mempool \<Rightarrow> hash \<Rightarrow> tx option" where
  "pool_Get m h = map_of (mp_all m) h"

text \<open>A price; it is nil only in a transaction the sanity check refuses, which never enters the pool.\<close>

definition gas_price :: "tx \<Rightarrow> int" where
  "gas_price tx = (case tx_gasprice tx of None \<Rightarrow> 0 | Some p \<Rightarrow> p)"

definition CheckState :: "crypto \<Rightarrow> world \<Rightarrow> tx \<Rightarrow> pool_error option" where
  "CheckState E w tx =
     (case tx_Sender E tx of
        Inl e \<Rightarrow> Some (ErrTxInvalid e)
      | Inr sender \<Rightarrow>
          if tx_nonce tx < GetNonce w sender then Some ErrNonceStale
          else case tx_Cost tx of
            None \<Rightarrow> Some ErrPoolPanic
          | Some cost \<Rightarrow> if GetBalance w sender < cost then Some ErrCannotPay else None)"

section \<open>Adding\<close>

text \<open>The slots of an account; a nil map reads as empty.\<close>

definition slots_of :: "mempool \<Rightarrow> address \<Rightarrow> (nat, tx) gomap" where
  "slots_of m a = (case map_of (mp_byAcct m) a of None \<Rightarrow> [] | Some byNonce \<Rightarrow> byNonce)"

definition lowestPricedLocked :: "walk_order \<Rightarrow> mempool \<Rightarrow> tx option" where
  "lowestPricedLocked wk m =
     foldl (\<lambda>min (_, tx). case min of
         None \<Rightarrow> Some tx
       | Some t \<Rightarrow> if gas_price tx < gas_price t then Some tx else min) None (visit wk (mp_all m))"

text \<open>Clear one slot of an account, and the account with its last one.\<close>

definition clear_slot :: "mempool \<Rightarrow> address \<Rightarrow> nat \<Rightarrow> mempool" where
  "clear_slot m sender nonce =
     (case map_of (mp_byAcct m) sender of
        None \<Rightarrow> m
      | Some byNonce \<Rightarrow>
          let rest = AList.delete nonce byNonce in
          m\<lparr>mp_byAcct := (if length rest = 0 then AList.delete sender (mp_byAcct m)
             else AList.update sender rest (mp_byAcct m))\<rparr>)"

definition dropLocked :: "crypto \<Rightarrow> mempool \<Rightarrow> tx \<Rightarrow> mempool" where
  "dropLocked E m tx =
     (let m1 = m\<lparr>mp_all := AList.delete (tx_Hash E tx) (mp_all m)\<rparr> in
      case tx_Sender E tx of Inl _ \<Rightarrow> m1 | Inr sender \<Rightarrow> clear_slot m1 sender (tx_nonce tx))"

definition tail_of :: "walk_order \<Rightarrow> (nat, tx) gomap \<Rightarrow> tx option" where
  "tail_of wk byNonce =
     foldl (\<lambda>tail (_, t). case tail of
         None \<Rightarrow> Some t
       | Some u \<Rightarrow> if tx_nonce t > tx_nonce u then Some t else tail) None (visit wk byNonce)"

text \<open>Make room for \<open>tx\<close> in a full pool.\<close>

definition evict :: "crypto \<Rightarrow> walk_order \<Rightarrow> mempool \<Rightarrow> tx \<Rightarrow> pool_error + mempool" where
  "evict E wk m tx =
     (case lowestPricedLocked wk m of
        None \<Rightarrow> Inl ErrPoolFull
      | Some cheapest \<Rightarrow>
          if gas_price tx \<le> gas_price cheapest then Inl ErrPoolFull
          else case tx_Sender E cheapest of
            Inl _ \<Rightarrow> Inl ErrPoolFull
          | Inr victimSender \<Rightarrow>
              (case tail_of wk (slots_of m victimSender) of
                 None \<Rightarrow> Inl ErrPoolPanic
               | Some tail \<Rightarrow> Inr (dropLocked E m tail)))"

text \<open>The two writes at the end; the second panics when the account's map is gone.\<close>

definition take_slot :: "crypto \<Rightarrow> mempool \<Rightarrow> tx \<Rightarrow> address \<Rightarrow> pool_error option \<times> mempool" where
  "take_slot E m tx sender =
     (let m1 = m\<lparr>mp_all := AList.update (tx_Hash E tx) tx (mp_all m)\<rparr> in
      case map_of (mp_byAcct m1) sender of
        None \<Rightarrow> (Some ErrPoolPanic, m1)
      | Some slots \<Rightarrow>
          (None, m1\<lparr>mp_byAcct := AList.update sender (AList.update (tx_nonce tx) tx slots) (mp_byAcct m1)\<rparr>))"

definition pool_add :: "crypto \<Rightarrow> walk_order \<Rightarrow> mempool \<Rightarrow> tx \<Rightarrow> nat \<Rightarrow> bool \<Rightarrow> pool_error option \<times> mempool" where
  "pool_add E wk m tx chainID enforceFloor =
     (case tx_SanityCheck E tx chainID of Inl e \<Rightarrow> (Some (ErrTxInvalid e), m) | Inr _ \<Rightarrow>
      case tx_Sender E tx of Inl e \<Rightarrow> (Some (ErrTxInvalid e), m) | Inr sender \<Rightarrow>
      if enforceFloor \<and> (case mp_minGasPrice m of None \<Rightarrow> False | Some p \<Rightarrow> p > 0 \<and> gas_price tx < p)
      then (Some ErrUnderpriced, m)
      else if map_of (mp_all m) (tx_Hash E tx) \<noteq> None then (Some ErrAlreadyKnown, m)
      else
        let m1 = (if map_of (mp_byAcct m) sender = None
              then m\<lparr>mp_byAcct := AList.update sender [] (mp_byAcct m)\<rparr> else m);
            byNonce = slots_of m1 sender
        in if map_of byNonce (tx_nonce tx) \<noteq> None then (Some ErrNonceUsed, m1)
           else if length byNonce \<ge> maxPerAccount then (Some ErrAccountLimit, m1)
           else case (if int (length (mp_all m1)) \<ge> mp_maxSize m1 then evict E wk m1 tx else Inr m1) of
             Inl e \<Rightarrow> (Some e, m1)
           | Inr m2 \<Rightarrow> take_slot E m2 tx sender)"

definition pool_Add :: "crypto \<Rightarrow> walk_order \<Rightarrow> mempool \<Rightarrow> tx \<Rightarrow> nat \<Rightarrow> pool_error option \<times> mempool" where
  "pool_Add E wk m tx chainID = pool_add E wk m tx chainID True"

section \<open>Selecting transactions for a block\<close>

text \<open>
  The transactions of one account from nonce \<open>next\<close> up to the first gap.  The loop ends at a nonce that is
  not a key; the number of entries plus one is enough fuel.
\<close>

fun run_from :: "nat \<Rightarrow> (nat, tx) gomap \<Rightarrow> nat \<Rightarrow> tx list" where
  "run_from 0 byNonce next = []"
| "run_from (Suc fuel) byNonce next =
     (case map_of byNonce next of None \<Rightarrow> [] | Some tx \<Rightarrow> tx # run_from fuel byNonce (add64 next 1))"

definition acct_run :: "(nat, tx) gomap \<Rightarrow> nat \<Rightarrow> tx list" where
  "acct_run byNonce next = run_from (length byNonce + 1) byNonce next"

definition groups :: "walk_order \<Rightarrow> mempool \<Rightarrow> world \<Rightarrow> tx list list" where
  "groups wk m w =
     filter (\<lambda>g. length g > 0) (map (\<lambda>(sender, byNonce). acct_run byNonce (GetNonce w sender)) (visit wk (mp_byAcct m)))"

fun pack :: "nat \<Rightarrow> nat \<Rightarrow> tx list \<Rightarrow> tx list" where
  "pack gasLimit gas [] = []"
| "pack gasLimit gas (tx # txs) =
     (if add64 gas (tx_gaslimit tx) > gasLimit then []
      else tx # pack gasLimit (add64 gas (tx_gaslimit tx)) txs)"

definition Pending :: "walk_order \<Rightarrow> mempool \<Rightarrow> world \<Rightarrow> nat \<Rightarrow> tx list" where
  "Pending wk m w gasLimit =
     pack gasLimit 0 (concat (sort_key (\<lambda>g. - gas_price (g ! 0)) (groups wk m w)))"

fun nonce_from :: "nat \<Rightarrow> (nat, tx) gomap \<Rightarrow> nat \<Rightarrow> nat" where
  "nonce_from 0 byNonce next = next"
| "nonce_from (Suc fuel) byNonce next =
     (case map_of byNonce next of None \<Rightarrow> next | Some _ \<Rightarrow> nonce_from fuel byNonce (add64 next 1))"

definition PendingNonce :: "mempool \<Rightarrow> address \<Rightarrow> nat \<Rightarrow> nat" where
  "PendingNonce m addr base =
     (case map_of (mp_byAcct m) addr of
        None \<Rightarrow> base
      | Some byNonce \<Rightarrow> nonce_from (length byNonce + 1) byNonce base)"

section \<open>Leaving the pool\<close>

definition demote_slot :: "crypto \<Rightarrow> nat \<Rightarrow> (hash, tx) gomap \<times> (nat, tx) gomap \<times> nat \<Rightarrow> nat \<times> tx \<Rightarrow>
    (hash, tx) gomap \<times> (nat, tx) gomap \<times> nat" where
  "demote_slot E committed = (\<lambda>(all, byNonce, dropped) (nonce, tx).
     if nonce < committed then (AList.delete (tx_Hash E tx) all, AList.delete nonce byNonce, dropped + 1)
     else (all, byNonce, dropped))"

definition demote_acct :: "crypto \<Rightarrow> walk_order \<Rightarrow> world \<Rightarrow> mempool \<times> nat \<Rightarrow> address \<times> (nat, tx) gomap \<Rightarrow> mempool \<times> nat" where
  "demote_acct E wk w = (\<lambda>(m, dropped) (sender, byNonce).
     case foldl (demote_slot E (GetNonce w sender)) (mp_all m, byNonce, dropped) (visit wk byNonce) of
       (all, rest, n) \<Rightarrow>
         (m\<lparr>mp_all := all, mp_byAcct := (if length rest = 0 then AList.delete sender (mp_byAcct m)
             else AList.update sender rest (mp_byAcct m))\<rparr>, n))"

definition Demote :: "crypto \<Rightarrow> walk_order \<Rightarrow> mempool \<Rightarrow> world \<Rightarrow> nat \<times> mempool" where
  "Demote E wk m w =
     (case foldl (demote_acct E wk w) (m, 0) (visit wk (mp_byAcct m)) of (m1, n) \<Rightarrow> (n, m1))"

text \<open>Which file operations succeed.\<close>

record journal_io =
  jio_Create :: bool
  jio_Rename :: bool
  jio_OpenFile :: bool

definition rewriteJournalLocked :: "journal_io \<Rightarrow> walk_order \<Rightarrow> mempool \<Rightarrow> mempool" where
  "rewriteJournalLocked io wk m =
     (if mp_journalPath m = [] then m
      else let m1 = m\<lparr>mp_journalOpen := False\<rparr> in
        if \<not> jio_Create io then m1
        else let here = filter (\<lambda>(h, _). map_of (mp_all m1) h \<noteq> None);
                 lines = map (\<lambda>(h, _). the (map_of (mp_all m1) h)) (here (visit wk (mp_local m1)));
                 m2 = m1\<lparr>mp_local := here (mp_local m1)\<rparr>
             in if \<not> jio_Rename io then m2
                else m2\<lparr>mp_journal := lines, mp_journalOpen := jio_OpenFile io\<rparr>)"

definition remove_one :: "crypto \<Rightarrow> mempool \<times> bool \<Rightarrow> tx \<Rightarrow> mempool \<times> bool" where
  "remove_one E = (\<lambda>(m, removedLocal) tx.
     let h = tx_Hash E tx;
         m1 = m\<lparr>mp_all := AList.delete h (mp_all m)\<rparr>;
         isLocal = map_of (mp_local m1) h \<noteq> None;
         m2 = (if isLocal then m1\<lparr>mp_local := AList.delete h (mp_local m1)\<rparr> else m1);
         m3 = (case tx_Sender E tx of Inl _ \<Rightarrow> m2 | Inr sender \<Rightarrow> clear_slot m2 sender (tx_nonce tx))
     in (m3, removedLocal \<or> isLocal))"

definition Remove :: "crypto \<Rightarrow> journal_io \<Rightarrow> walk_order \<Rightarrow> mempool \<Rightarrow> tx list \<Rightarrow> mempool" where
  "Remove E io wk m txs =
     (case foldl (remove_one E) (m, False) txs of (m1, removedLocal) \<Rightarrow>
        if removedLocal then rewriteJournalLocked io wk m1 else m1)"

text \<open>A panic of \<^verbatim>\<open>add\<close> leaves the loop; every other error is swallowed.\<close>

fun Reinject :: "crypto \<Rightarrow> walk_order \<Rightarrow> mempool \<Rightarrow> tx list \<Rightarrow> nat \<Rightarrow> nat \<Rightarrow> (pool_error + nat) \<times> mempool" where
  "Reinject E wk m [] chainID accepted = (Inr accepted, m)"
| "Reinject E wk m (tx # txs) chainID accepted =
     (case pool_add E wk m tx chainID False of
        (None, m1) \<Rightarrow> Reinject E wk m1 txs chainID (accepted + 1)
      | (Some e, m1) \<Rightarrow> if e = ErrPoolPanic then (Inl e, m1) else Reinject E wk m1 txs chainID accepted)"

section \<open>The journal\<close>

definition appendJournalLocked :: "mempool \<Rightarrow> tx \<Rightarrow> mempool" where
  "appendJournalLocked m tx = (if \<not> mp_journalOpen m then m else m\<lparr>mp_journal := mp_journal m @ [tx]\<rparr>)"

definition AddLocal :: "crypto \<Rightarrow> walk_order \<Rightarrow> mempool \<Rightarrow> tx \<Rightarrow> nat \<Rightarrow> pool_error option \<times> mempool" where
  "AddLocal E wk m tx chainID =
     (case pool_Add E wk m tx chainID of
        (Some e, m1) \<Rightarrow> (Some e, m1)
      | (None, m1) \<Rightarrow>
          (None, appendJournalLocked (m1\<lparr>mp_local := AList.update (tx_Hash E tx) () (mp_local m1)\<rparr>) tx))"

fun replay_journal :: "crypto \<Rightarrow> walk_order \<Rightarrow> mempool \<Rightarrow> tx list \<Rightarrow> nat \<Rightarrow> nat \<Rightarrow> (pool_error + nat) \<times> mempool" where
  "replay_journal E wk m [] chainID loaded = (Inr loaded, m)"
| "replay_journal E wk m (tx # txs) chainID loaded =
     (case AddLocal E wk m tx chainID of
        (None, m1) \<Rightarrow> replay_journal E wk m1 txs chainID (loaded + 1)
      | (Some e, m1) \<Rightarrow> if e = ErrPoolPanic then (Inl e, m1) else replay_journal E wk m1 txs chainID loaded)"

text \<open>\<open>existing\<close> is what the lines of the file at \<open>path\<close> decode to, empty if it cannot be opened.\<close>

definition EnableJournal :: "crypto \<Rightarrow> journal_io \<Rightarrow> walk_order \<Rightarrow> mempool \<Rightarrow> string \<Rightarrow> tx list \<Rightarrow> nat \<Rightarrow>
    (pool_error + nat) \<times> mempool" where
  "EnableJournal E io wk m path existing chainID =
     (case replay_journal E wk (m\<lparr>mp_journalPath := path, mp_journal := existing\<rparr>) existing chainID 0 of
        (Inl e, m1) \<Rightarrow> (Inl e, m1)
      | (Inr loaded, m1) \<Rightarrow> (Inr loaded, rewriteJournalLocked io wk m1))"

end
