(* ===== verification/Mempool_Laws.thy ===== *)
theory Mempool_Laws
  imports Mempool
begin

text \<open>
  The pool invariant and that every operation keeps it, and the laws of selection: what a walk of an account
  collects, what packing keeps.
\<close>

section \<open>Go maps\<close>

definition fair :: "walk_order \<Rightarrow> bool" where
  "fair wk \<longleftrightarrow> (\<forall>n. mset (wk n) = mset [0..<n])"

lemma set_update_subset: "set (AList.update k v xs) \<subseteq> insert (k, v) (set xs)"
  by (induction xs) auto

lemma visit_mset: "fair wk \<Longrightarrow> mset (visit wk xs) = mset xs"
proof -
  assume "fair wk"
  then have "mset (visit wk xs) = image_mset ((!) xs) (mset [0..<length xs])" by (simp add: visit_def fair_def)
  also have "\<dots> = mset (map ((!) xs) [0..<length xs])" by simp
  finally show ?thesis by (simp add: map_nth)
qed

lemma visit_set: "fair wk \<Longrightarrow> set (visit wk xs) = set xs"
  using visit_mset by (metis set_mset_mset)

lemma length_delete:
  "distinct (map fst xs) \<Longrightarrow> length (AList.delete k xs) = length xs - (if map_of xs k = None then 0 else 1)"
proof (induction xs)
  case (Cons x xs)
  obtain a b where x: "x = (a, b)" by fastforce
  show ?case
  proof (cases "k = a")
    case True
    then have "map_of xs k = None" using Cons.prems x by (simp add: map_of_eq_None_iff)
    then show ?thesis using Cons x True by simp
  next
    case False
    moreover have "0 < length xs" if "map_of xs k \<noteq> None" using that by (cases xs) auto
    ultimately show ?thesis using Cons x by auto
  qed
qed simp

lemma length_update: "length (AList.update k v xs) = length xs + (if map_of xs k = None then 1 else 0)"
  by (induction xs) auto

lemmas gomap_simps = delete_conv' update_conv' length_update distinct_update distinct_delete

declare map_of_eq_Some_iff [simp del]

section \<open>The invariant\<close>

text \<open>A transaction in the slot of an account is the account's, has that nonce, passed the checks and is known by hash.\<close>

definition slot_ok :: "crypto \<Rightarrow> nat \<Rightarrow> (hash, tx) gomap \<Rightarrow> address \<Rightarrow> nat \<Rightarrow> tx \<Rightarrow> bool" where
  "slot_ok E cid all s n tx \<longleftrightarrow> tx_Sender E tx = Inr s \<and> tx_nonce tx = n \<and> tx_SanityCheck E tx cid = Inr () \<and>
     map_of all (tx_Hash E tx) = Some tx"

definition acct_ok :: "crypto \<Rightarrow> nat \<Rightarrow> (hash, tx) gomap \<Rightarrow> address \<Rightarrow> (nat, tx) gomap \<Rightarrow> bool" where
  "acct_ok E cid all s bn \<longleftrightarrow> distinct (map fst bn) \<and> length bn \<le> maxPerAccount \<and>
     (\<forall>n tx. map_of bn n = Some tx \<longrightarrow> slot_ok E cid all s n tx)"

definition pool_ok :: "crypto \<Rightarrow> nat \<Rightarrow> mempool \<Rightarrow> bool" where
  "pool_ok E cid m \<longleftrightarrow> distinct (map fst (mp_all m)) \<and> distinct (map fst (mp_byAcct m)) \<and>
     (\<forall>h tx. map_of (mp_all m) h = Some tx \<longrightarrow> tx_Hash E tx = h \<and> tx_SanityCheck E tx cid = Inr ()) \<and>
     (\<forall>s bn. map_of (mp_byAcct m) s = Some bn \<longrightarrow> acct_ok E cid (mp_all m) s bn) \<and>
     int (length (mp_all m)) \<le> max 0 (mp_maxSize m)"

lemma pool_ok_New: "pool_ok E cid (pool_New n)"
  by (simp add: pool_ok_def pool_New_def)

lemma pool_ok_acct: "pool_ok E cid m \<Longrightarrow> map_of (mp_byAcct m) s = Some bn \<Longrightarrow> acct_ok E cid (mp_all m) s bn"
  unfolding pool_ok_def by blast

lemma pool_okI:
  assumes "distinct (map fst (mp_all m))" "distinct (map fst (mp_byAcct m))"
    "\<And>h tx. map_of (mp_all m) h = Some tx \<Longrightarrow> tx_Hash E tx = h \<and> tx_SanityCheck E tx cid = Inr ()"
    "\<And>s bn. map_of (mp_byAcct m) s = Some bn \<Longrightarrow> acct_ok E cid (mp_all m) s bn"
    "int (length (mp_all m)) \<le> max 0 (mp_maxSize m)"
  shows "pool_ok E cid m"
  using assms unfolding pool_ok_def by blast

lemma pool_okD:
  assumes "pool_ok E cid m"
  shows "distinct (map fst (mp_all m))" "distinct (map fst (mp_byAcct m))"
    "map_of (mp_all m) h = Some tx \<Longrightarrow> tx_Hash E tx = h \<and> tx_SanityCheck E tx cid = Inr ()"
    "int (length (mp_all m)) \<le> max 0 (mp_maxSize m)"
  using assms unfolding pool_ok_def by blast+

lemma acct_ok_mono:
  assumes "acct_ok E cid all s bn" and "\<And>n tx. map_of bn n = Some tx \<Longrightarrow> map_of all' (tx_Hash E tx) = Some tx"
  shows "acct_ok E cid all' s bn"
  using assms by (auto simp: acct_ok_def slot_ok_def)

lemma acct_ok_delete: "acct_ok E cid all s bn \<Longrightarrow> acct_ok E cid all s (AList.delete n bn)"
  by (auto simp: acct_ok_def gomap_simps length_delete split: if_splits)

text \<open>Delete a hash together with the only slot that may hold it.\<close>

definition unlist :: "mempool \<Rightarrow> hash \<Rightarrow> address \<Rightarrow> nat \<Rightarrow> mempool" where
  "unlist m h s n = clear_slot (m\<lparr>mp_all := AList.delete h (mp_all m)\<rparr>) s n"

lemma unlist_fields:
  "mp_all (unlist m h s n) = AList.delete h (mp_all m)" "mp_maxSize (unlist m h s n) = mp_maxSize m"
  by (auto simp: unlist_def clear_slot_def Let_def split: option.split)

lemma unlist_byAcct:
  "map_of (mp_byAcct (unlist m h s n)) a =
     (if a = s then case map_of (mp_byAcct m) s of None \<Rightarrow> None
        | Some bn \<Rightarrow> if AList.delete n bn = [] then None else Some (AList.delete n bn)
      else map_of (mp_byAcct m) a)"
  by (auto simp: unlist_def clear_slot_def Let_def gomap_simps split: option.split)

lemma unlist_ok:
  assumes ok: "pool_ok E cid m"
    and only: "\<And>a bn k tx. map_of (mp_byAcct m) a = Some bn \<Longrightarrow> map_of bn k = Some tx \<Longrightarrow> tx_Hash E tx = h \<Longrightarrow> a = s \<and> k = n"
  shows "pool_ok E cid (unlist m h s n)"
proof -
  let ?m = "unlist m h s n"
  have "acct_ok E cid (mp_all ?m) a bn" if a: "map_of (mp_byAcct ?m) a = Some bn" for a bn
  proof -
    obtain bn0 where bn0: "map_of (mp_byAcct m) a = Some bn0" "bn = (if a = s then AList.delete n bn0 else bn0)"
      using a by (auto simp: unlist_byAcct split: if_splits option.splits)
    have "acct_ok E cid (mp_all m) a bn0" using ok bn0(1) by (simp add: pool_ok_def)
    then have "acct_ok E cid (mp_all m) a bn" using bn0(2) acct_ok_delete by auto
    moreover have "map_of (mp_all ?m) (tx_Hash E tx) = Some tx" if k: "map_of bn k = Some tx" for k tx
    proof -
      have "map_of bn0 k = Some tx" "\<not> (a = s \<and> k = n)" using k bn0(2) by (auto simp: delete_conv' split: if_splits)
      then have "tx_Hash E tx \<noteq> h" using only [OF bn0(1)] by blast
      moreover have "map_of (mp_all m) (tx_Hash E tx) = Some tx"
        using \<open>acct_ok E cid (mp_all m) a bn\<close> k by (simp add: acct_ok_def slot_ok_def)
      ultimately show ?thesis by (simp add: unlist_fields delete_conv')
    qed
    ultimately show ?thesis by (rule acct_ok_mono)
  qed
  moreover have "distinct (map fst (mp_byAcct ?m))"
    using ok by (auto simp: unlist_def clear_slot_def Let_def pool_ok_def gomap_simps split: option.split)
  moreover have "int (length (mp_all ?m)) \<le> max 0 (mp_maxSize m)"
    using ok length_delete_le [of h "mp_all m"] by (simp add: unlist_fields pool_ok_def)
  ultimately show ?thesis
    using ok by (auto simp: pool_ok_def unlist_fields gomap_simps split: if_splits)
qed

text \<open>Every transaction known by hash is in its slot.\<close>

definition slotted :: "crypto \<Rightarrow> mempool \<Rightarrow> bool" where
  "slotted E m \<longleftrightarrow> (\<forall>h tx. map_of (mp_all m) h = Some tx \<longrightarrow>
     (\<exists>s. tx_Sender E tx = Inr s \<and> map_of (slots_of m s) (tx_nonce tx) = Some tx))"

lemma slotted_cong: "slotted E m \<Longrightarrow> mp_all m' = mp_all m \<Longrightarrow> mp_byAcct m' = mp_byAcct m \<Longrightarrow> slotted E m'"
  by (simp add: slotted_def slots_of_def)

lemma unlist_slots:
  "map_of (slots_of (unlist m h s n) a) k = (if a = s \<and> k = n then None else map_of (slots_of m a) k)"
  by (auto simp: slots_of_def unlist_byAcct delete_conv' split: option.split dest: arg_cong [where f = "\<lambda>xs. map_of xs k"])

text \<open>A slot is cleared that is empty or holds the transaction of the hash.\<close>

lemma unlist_slotted:
  assumes ok: "pool_ok E cid m" and sl: "slotted E m"
    and own: "\<And>t. map_of (slots_of m s) n = Some t \<Longrightarrow> tx_Hash E t = h"
  shows "slotted E (unlist m h s n)"
  unfolding slotted_def
proof (intro allI impI)
  fix k u
  assume "map_of (mp_all (unlist m h s n)) k = Some u"
  then have k: "k \<noteq> h" "map_of (mp_all m) k = Some u" by (auto simp: unlist_fields delete_conv' split: if_splits)
  then obtain a where a: "tx_Sender E u = Inr a" "map_of (slots_of m a) (tx_nonce u) = Some u" using sl unfolding slotted_def by blast
  have "tx_Hash E u = k" using pool_okD(3) [OF ok k(2)] by blast
  then have "\<not> (a = s \<and> tx_nonce u = n)" using own [of u] a(2) k(1) by auto
  then show "\<exists>a. tx_Sender E u = Inr a \<and> map_of (slots_of (unlist m h s n) a) (tx_nonce u) = Some u"
    using a by (intro exI [of _ a]) (auto simp: unlist_slots)
qed

text \<open>A slot's transaction is in no other slot.\<close>

lemma slot_unique:
  assumes ok: "pool_ok E cid m" and "map_of (mp_byAcct m) s = Some bs" "map_of bs n = Some t"
    "map_of (mp_byAcct m) a = Some ba" "map_of ba k = Some u" "tx_Hash E u = tx_Hash E t"
  shows "a = s \<and> k = n"
proof -
  have "slot_ok E cid (mp_all m) s n t" "slot_ok E cid (mp_all m) a k u"
    using assms by (auto simp: pool_ok_def acct_ok_def)
  then show ?thesis using assms(6) by (auto simp: slot_ok_def)
qed

section \<open>Adding\<close>

lemma first_least:
  fixes f :: "'a \<Rightarrow> 'b :: linorder"
  defines "pick \<equiv> \<lambda>acc (_ :: 'k, t). case acc of None \<Rightarrow> Some t | Some u \<Rightarrow> if f t < f u then Some t else acc"
  shows "foldl pick acc xs = None \<longleftrightarrow> acc = None \<and> xs = []"
    "foldl pick acc xs = Some t \<Longrightarrow> t \<in> set_option acc \<union> snd ` set xs \<and> (\<forall>u \<in> set_option acc \<union> snd ` set xs. f t \<le> f u)"
proof (induction xs arbitrary: acc)
  case Nil
  { case 1 then show ?case by simp next case 2 then show ?case by simp }
next
  case (Cons x xs)
  obtain k u where x: "x = (k, u)" by fastforce
  { case 1 then show ?case using Cons.IH(1) [of "pick acc x"] by (auto simp: x pick_def split: option.splits)
  next case 2
    then have "t \<in> set_option (pick acc x) \<union> snd ` set xs" "\<forall>v \<in> set_option (pick acc x) \<union> snd ` set xs. f t \<le> f v"
      using Cons.IH(2) [of "pick acc x"] by simp_all
    then show ?case by (cases acc) (auto simp: x pick_def split: if_splits) }
qed

lemma lowestPriced_spec:
  assumes "fair wk"
  shows "lowestPricedLocked wk m = None \<longleftrightarrow> mp_all m = []"
    "lowestPricedLocked wk m = Some t \<Longrightarrow> t \<in> snd ` set (mp_all m) \<and> (\<forall>u \<in> snd ` set (mp_all m). gas_price t \<le> gas_price u)"
  using first_least [where f = gas_price and acc = None and xs = "visit wk (mp_all m)"] visit_set [OF assms, of "mp_all m"]
  unfolding lowestPricedLocked_def by auto

lemma tail_of_spec:
  assumes "fair wk"
  shows "tail_of wk bn = None \<longleftrightarrow> bn = []"
    "tail_of wk bn = Some t \<Longrightarrow> t \<in> snd ` set bn \<and> (\<forall>u \<in> snd ` set bn. tx_nonce u \<le> tx_nonce t)"
proof -
  have eq: "(tx_nonce u < tx_nonce t) = (- int (tx_nonce t) < - int (tx_nonce u))" for t u by simp
  note least = first_least [where f = "\<lambda>t. - int (tx_nonce t)" and acc = None and xs = "visit wk bn", folded eq]
  show "tail_of wk bn = None \<longleftrightarrow> bn = []"
    using least(1) visit_set [OF assms, of bn] by (auto simp: tail_of_def)
  show "tail_of wk bn = Some t \<Longrightarrow> t \<in> snd ` set bn \<and> (\<forall>u \<in> snd ` set bn. tx_nonce u \<le> tx_nonce t)"
    using least(2) visit_set [OF assms, of bn] by (simp add: tail_of_def)
qed

text \<open>Eviction: the tail of the cheapest resident's account goes, with the account's other slots kept.\<close>

lemma evict_cases:
  assumes f: "fair wk" and ok: "pool_ok E cid m"
  obtains (full) "evict E wk m tx = Inl ErrPoolFull"
  | (stranded) c s where "evict E wk m tx = Inl ErrPoolPanic" "c \<in> snd ` set (mp_all m)" "tx_Sender E c = Inr s"
      "slots_of m s = []" "gas_price c < gas_price tx" "lowestPricedLocked wk m = Some c"
  | (evicted) c s bn t where "evict E wk m tx = Inr (unlist m (tx_Hash E t) s (tx_nonce t))"
      "c \<in> snd ` set (mp_all m)" "\<forall>u \<in> snd ` set (mp_all m). gas_price c \<le> gas_price u" "gas_price c < gas_price tx"
      "tx_Sender E c = Inr s" "map_of (mp_byAcct m) s = Some bn" "map_of bn (tx_nonce t) = Some t"
      "\<forall>u \<in> snd ` set bn. tx_nonce u \<le> tx_nonce t" "lowestPricedLocked wk m = Some c"
proof (cases "lowestPricedLocked wk m")
  case None
  then show thesis using full by (simp add: evict_def)
next
  case (Some c)
  note c = lowestPriced_spec(2) [OF f Some]
  show thesis
  proof (cases "gas_price tx \<le> gas_price c \<or> (\<exists>e. tx_Sender E c = Inl e)")
    case True
    then show thesis using full Some by (auto simp: evict_def)
  next
    case False
    then obtain s where s: "tx_Sender E c = Inr s" "gas_price c < gas_price tx" by (cases "tx_Sender E c") auto
    show thesis
    proof (cases "tail_of wk (slots_of m s)")
      case None
      then have "evict E wk m tx = Inl ErrPoolPanic" "slots_of m s = []"
        using Some s None tail_of_spec(1) [OF f, of "slots_of m s"] by (simp_all add: evict_def)
      then show thesis using stranded c s Some by blast
    next
      case t: (Some t)
      note tt = tail_of_spec(2) [OF f t]
      then obtain bn where bn: "map_of (mp_byAcct m) s = Some bn" "slots_of m s = bn"
        by (cases "map_of (mp_byAcct m) s") (auto simp: slots_of_def)
      have a: "acct_ok E cid (mp_all m) s bn" using ok bn(1) by (simp add: pool_ok_def)
      obtain n where "(n, t) \<in> set bn" using tt bn(2) by auto
      then have n: "map_of bn n = Some t" using a by (simp add: acct_ok_def map_of_eq_Some_iff)
      then have nt: "tx_nonce t = n" "tx_Sender E t = Inr s" using a by (auto simp: acct_ok_def slot_ok_def)
      have "evict E wk m tx = Inr (unlist m (tx_Hash E t) s (tx_nonce t))"
        using Some s t nt(2) by (simp add: evict_def dropLocked_def unlist_def Let_def)
      then show thesis using evicted [of t s c bn] c s bn n nt(1) tt Some by simp
    qed
  qed
qed

text \<open>The pool a newcomer finds: its account's map exists, though maybe empty.\<close>

definition opened :: "mempool \<Rightarrow> address \<Rightarrow> mempool" where
  "opened m s = (if map_of (mp_byAcct m) s = None then m\<lparr>mp_byAcct := AList.update s [] (mp_byAcct m)\<rparr> else m)"

lemma opened_fields [simp]: "mp_all (opened m s) = mp_all m" "mp_maxSize (opened m s) = mp_maxSize m"
  "mp_local (opened m s) = mp_local m" "mp_minGasPrice (opened m s) = mp_minGasPrice m"
  by (simp_all add: opened_def)

lemma opened_ok: "pool_ok E cid m \<Longrightarrow> pool_ok E cid (opened m s)"
  by (auto simp: opened_def pool_ok_def gomap_simps acct_ok_def)

lemma opened_slots: "map_of (mp_byAcct (opened m s)) a = (if a = s then Some (slots_of m s) else map_of (mp_byAcct m) a)"
  by (auto simp: opened_def slots_of_def gomap_simps split: option.split)

text \<open>The newcomer takes its slot.\<close>

definition listed :: "crypto \<Rightarrow> mempool \<Rightarrow> tx \<Rightarrow> address \<Rightarrow> (nat, tx) gomap \<Rightarrow> mempool" where
  "listed E m tx s bn = m\<lparr>mp_all := AList.update (tx_Hash E tx) tx (mp_all m),
     mp_byAcct := AList.update s (AList.update (tx_nonce tx) tx bn) (mp_byAcct m)\<rparr>"

lemma known_ok:
  assumes ok: "pool_ok E cid m" and sane: "tx_SanityCheck E tx cid = Inr ()"
    and new: "map_of (mp_all m) (tx_Hash E tx) = None" and room: "int (length (mp_all m)) < max 0 (mp_maxSize m)"
  shows "pool_ok E cid (m\<lparr>mp_all := AList.update (tx_Hash E tx) tx (mp_all m)\<rparr>)"
proof -
  have "acct_ok E cid (AList.update (tx_Hash E tx) tx (mp_all m)) s bn" if "map_of (mp_byAcct m) s = Some bn" for s bn
  proof (rule acct_ok_mono)
    show a: "acct_ok E cid (mp_all m) s bn" using ok that by (simp add: pool_ok_def)
    show "map_of (AList.update (tx_Hash E tx) tx (mp_all m)) (tx_Hash E u) = Some u" if "map_of bn n = Some u" for n u
    proof -
      have "map_of (mp_all m) (tx_Hash E u) = Some u" using a that by (simp add: acct_ok_def slot_ok_def)
      then show ?thesis using new by (auto simp: update_conv')
    qed
  qed
  then show ?thesis using ok sane new room by (auto simp: pool_ok_def gomap_simps)
qed

lemma listed_ok:
  assumes ok: "pool_ok E cid m" and sane: "tx_SanityCheck E tx cid = Inr ()" "tx_Sender E tx = Inr s"
    and new: "map_of (mp_all m) (tx_Hash E tx) = None" and room: "int (length (mp_all m)) < max 0 (mp_maxSize m)"
    and bn: "map_of (mp_byAcct m) s = Some bn" "map_of bn (tx_nonce tx) = None" "length bn < maxPerAccount"
  shows "pool_ok E cid (listed E m tx s bn)"
proof -
  let ?all = "AList.update (tx_Hash E tx) tx (mp_all m)"
  have ok1: "pool_ok E cid (m\<lparr>mp_all := ?all\<rparr>)" by (rule known_ok [OF ok sane(1) new room])
  have "acct_ok E cid ?all s bn" using pool_ok_acct [OF ok1] bn(1) by simp
  then have new: "acct_ok E cid ?all s (AList.update (tx_nonce tx) tx bn)"
    using sane bn(2,3) by (auto simp: acct_ok_def slot_ok_def gomap_simps)
  show ?thesis
  proof (rule pool_okI)
    show "acct_ok E cid (mp_all (listed E m tx s bn)) a ba" if "map_of (mp_byAcct (listed E m tx s bn)) a = Some ba" for a ba
      using that new pool_ok_acct [OF ok1, of a ba] by (auto simp: listed_def update_conv' split: if_splits)
    show "tx_Hash E u = h \<and> tx_SanityCheck E u cid = Inr ()" if "map_of (mp_all (listed E m tx s bn)) h = Some u" for h u
      using that pool_okD(3) [OF ok1, of h u] by (simp add: listed_def)
  qed (use pool_okD(1,2,4) [OF ok1] in \<open>simp_all add: listed_def distinct_update\<close>)
qed

lemma single_slot:
  assumes "acct_ok E cid all s bn" and "map_of bn n = Some t" and "AList.delete n bn = []"
  shows "bn = [(n, t)]"
proof -
  have "length bn = 1" using length_delete [of bn n] assms by (cases bn) (auto simp: acct_ok_def)
  then show ?thesis using assms(2) by (cases bn) (auto split: if_splits)
qed

lemma evict_err: "evict E wk m tx = Inl e \<Longrightarrow> e = ErrPoolFull \<or> e = ErrPoolPanic"
  by (auto simp: evict_def split: option.splits sum.splits if_splits)

lemma take_slot_err: "take_slot E m tx s = (err, m') \<Longrightarrow> err = None \<or> err = Some ErrPoolPanic"
  by (auto simp: take_slot_def Let_def split: option.splits)

text \<open>Everything before the eviction: refused, or a newcomer with a free slot.\<close>

definition fits :: "crypto \<Rightarrow> nat \<Rightarrow> mempool \<Rightarrow> tx \<Rightarrow> address \<Rightarrow> bool" where
  "fits E cid m tx s \<longleftrightarrow> tx_Sender E tx = Inr s \<and> tx_SanityCheck E tx cid = Inr () \<and>
     map_of (mp_all m) (tx_Hash E tx) = None \<and> map_of (slots_of m s) (tx_nonce tx) = None \<and>
     length (slots_of m s) < maxPerAccount"

definition underpriced :: "mempool \<Rightarrow> tx \<Rightarrow> bool" where
  "underpriced m tx \<longleftrightarrow> (case mp_minGasPrice m of None \<Rightarrow> False | Some p \<Rightarrow> 0 < p \<and> gas_price tx < p)"

lemma add_fits:
  assumes "fits E cid m tx s" and "\<not> (floor \<and> underpriced m tx)"
  shows "pool_add E wk m tx cid floor =
    (case (if int (length (mp_all m)) \<ge> mp_maxSize m then evict E wk (opened m s) tx else Inr (opened m s)) of
       Inl e \<Rightarrow> (Some e, opened m s) | Inr m2 \<Rightarrow> take_slot E m2 tx s)"
proof -
  have slots: "slots_of (opened m s) s = slots_of m s" by (simp add: slots_of_def opened_slots)
  show ?thesis
    using assms slots
    by (auto simp: pool_add_def fits_def Let_def opened_def [symmetric] underpriced_def [symmetric])
qed

lemma add_guard:
  assumes r: "pool_add E wk m tx cid floor = (err, m')"
  obtains (refused) e where "err = Some e" "e \<noteq> ErrPoolPanic" "m' = m \<or> (\<exists>s. m' = opened m s)"
  | (fitting) s where "fits E cid m tx s" "\<not> (floor \<and> underpriced m tx)"
      "(err, m') = (case (if int (length (mp_all m)) \<ge> mp_maxSize m then evict E wk (opened m s) tx else Inr (opened m s)) of
         Inl e \<Rightarrow> (Some e, opened m s) | Inr m2 \<Rightarrow> take_slot E m2 tx s)"
proof (cases "tx_SanityCheck E tx cid")
  case (Inl e)
  then show thesis using r refused by (auto simp: pool_add_def)
next
  case sane: (Inr u)
  then obtain s where s: "tx_Sender E tx = Inr s"
    by (cases "tx_Sender E tx") (auto simp: tx_SanityCheck_def split: if_splits)
  note r1 = r [unfolded pool_add_def sane s sum.case, folded opened_def, unfolded Let_def]
  have slots: "slots_of (opened m s) s = slots_of m s" by (simp add: slots_of_def opened_slots)
  show thesis
  proof (cases "err = Some ErrUnderpriced \<or> err = Some ErrAlreadyKnown \<or> err = Some ErrNonceUsed \<or> err = Some ErrAccountLimit")
    case True
    then show thesis using r1 refused evict_err by (auto dest: take_slot_err evict_err split: if_splits sum.splits)
  next
    case False
    have new: "map_of (mp_all m) (tx_Hash E tx) = None" "map_of (slots_of m s) (tx_nonce tx) = None"
      "length (slots_of m s) < maxPerAccount"
      using r1 False slots by (auto split: if_splits)
    have floor: "\<not> (floor \<and> underpriced m tx)"
      using r1 False by (auto simp: underpriced_def split: if_splits)
    have "fits E cid m tx s" using new s sane by (simp add: fits_def)
    then show thesis using fitting [OF _ floor] add_fits [OF _ floor, of E cid s wk] r by simp
  qed
qed

lemma add_cases:
  assumes f: "fair wk" and ok: "pool_ok E cid m" and r: "pool_add E wk m tx cid floor = (err, m')"
  obtains (refused) e where "err = Some e" "e \<noteq> ErrPoolPanic" "m' = m \<or> (\<exists>s. m' = opened m s)"
  | (stranded) c v s where "err = Some ErrPoolPanic" "m' = opened m s" "fits E cid m tx s" "int (length (mp_all m)) \<ge> mp_maxSize m" "c \<in> snd ` set (mp_all m)"
      "tx_Sender E c = Inr v" "slots_of m v = []" "gas_price c < gas_price tx"
  | (crashed) s t c where "err = Some ErrPoolPanic" "fits E cid m tx s" "slots_of m s = [(tx_nonce t, t)]"
      "int (length (mp_all m)) \<ge> mp_maxSize m" "gas_price c < gas_price tx" "tx_Sender E c = Inr s"
      "c \<in> snd ` set (mp_all m)"
      "m' = (unlist m (tx_Hash E t) s (tx_nonce t))\<lparr>mp_all := AList.update (tx_Hash E tx) tx (AList.delete (tx_Hash E t) (mp_all m))\<rparr>"
  | (added) s where "err = None" "fits E cid m tx s" "int (length (mp_all m)) < mp_maxSize m"
      "m' = listed E (opened m s) tx s (slots_of m s)"
  | (replaced) s c v bn t where "err = None" "fits E cid m tx s" "int (length (mp_all m)) \<ge> mp_maxSize m"
      "c \<in> snd ` set (mp_all m)" "\<forall>u \<in> snd ` set (mp_all m). gas_price c \<le> gas_price u" "gas_price c < gas_price tx"
      "tx_Sender E c = Inr v" "map_of (mp_byAcct m) v = Some bn" "map_of bn (tx_nonce t) = Some t"
      "\<forall>u \<in> snd ` set bn. tx_nonce u \<le> tx_nonce t"
      "m' = listed E (unlist (opened m s) (tx_Hash E t) v (tx_nonce t)) tx s
         (if v = s then AList.delete (tx_nonce t) bn else slots_of m s)"
      "map_of (mp_byAcct (unlist (opened m s) (tx_Hash E t) v (tx_nonce t))) s =
         Some (if v = s then AList.delete (tx_nonce t) bn else slots_of m s)"
proof (cases rule: add_guard [OF r])
  case (1 e)
  then show thesis using refused by blast
next
  case (2 s)
  let ?o = "opened m s"
  show thesis
  proof (cases "int (length (mp_all m)) \<ge> mp_maxSize m")
    case False
    then show thesis using added 2 by (simp add: opened_slots listed_def take_slot_def Let_def)
  next
    case full: True
    note r3 = 2(3) [unfolded if_P [OF full]]
    show thesis
      using f opened_ok [OF ok, of s]
    proof (cases rule: evict_cases [where tx = tx])
      case full
      then show thesis using r3 refused by auto
    next
      case gone: (stranded c v)
      then have "slots_of m v = []" by (auto simp: slots_of_def opened_slots split: if_splits option.splits)
      then show thesis using r3 gone stranded 2(1) full by simp
    next
      case (evicted c v bn t)
      let ?u = "unlist ?o (tx_Hash E t) v (tx_nonce t)"
      have r4: "(err, m') = take_slot E ?u tx s" using r3 evicted(1) by simp
      have bn: "map_of (mp_byAcct m) v = Some bn"
        using evicted(6,7) by (auto simp: opened_slots slots_of_def split: if_splits option.splits)
      show thesis
      proof (cases "v = s \<and> AList.delete (tx_nonce t) bn = []")
        case True
        then have "m' = ?u\<lparr>mp_all := AList.update (tx_Hash E tx) tx (mp_all ?u)\<rparr>" "err = Some ErrPoolPanic"
          using r4 evicted(6) by (simp_all add: take_slot_def Let_def unlist_byAcct)
        moreover have "?o = m" "slots_of m s = bn" using bn True by (simp_all add: opened_def slots_of_def)
        moreover have "bn = [(tx_nonce t, t)]" using single_slot [OF pool_ok_acct [OF ok bn] evicted(7)] True by simp
        ultimately show thesis using crashed [of s t c] 2(1) full True evicted by (simp add: unlist_fields)
      next
        case keep: False
        let ?bn = "if v = s then AList.delete (tx_nonce t) bn else slots_of m s"
        have at: "map_of (mp_byAcct ?u) s = Some ?bn" using keep evicted(6) by (auto simp: unlist_byAcct opened_slots)
        then have "err = None" "m' = listed E ?u tx s ?bn"
          using r4 by (simp_all add: take_slot_def Let_def listed_def)
        then show thesis using replaced [of s c v bn t] 2(1) full evicted bn at by simp
      qed
    qed
  qed
qed

lemma pool_ok_cong:
  assumes "pool_ok E cid m" and "mp_all m' = mp_all m" "mp_byAcct m' = mp_byAcct m" "mp_maxSize m' = mp_maxSize m"
  shows "pool_ok E cid m'"
  using assms unfolding pool_ok_def by simp

text \<open>A slot's transaction leaves: its hash goes, and one place is free.\<close>

lemma evicted_ok:
  assumes ok: "pool_ok E cid m" and s: "map_of (mp_byAcct m) s = Some bn" "map_of bn n = Some t"
  shows "pool_ok E cid (unlist m (tx_Hash E t) s n)"
    "int (length (mp_all (unlist m (tx_Hash E t) s n))) < max 0 (mp_maxSize m)"
proof -
  show "pool_ok E cid (unlist m (tx_Hash E t) s n)"
    by (rule unlist_ok [OF ok]) (use slot_unique [OF ok s] in blast)
  have t: "map_of (mp_all m) (tx_Hash E t) = Some t" using pool_ok_acct [OF ok s(1)] s(2) by (simp add: acct_ok_def slot_ok_def)
  then have "length (AList.delete (tx_Hash E t) (mp_all m)) < length (mp_all m)"
    using length_delete [OF pool_okD(1) [OF ok], of "tx_Hash E t"] by (cases "mp_all m") auto
  then show "int (length (mp_all (unlist m (tx_Hash E t) s n))) < max 0 (mp_maxSize m)"
    using pool_okD(4) [OF ok] unfolding unlist_fields by linarith
qed

lemma add_ok:
  assumes f: "fair wk" and ok: "pool_ok E cid m" and r: "pool_add E wk m tx cid floor = (err, m')"
  shows "pool_ok E cid m' \<and> mp_maxSize m' = mp_maxSize m"
  using f ok r
proof (cases rule: add_cases)
  case (refused e)
  then show ?thesis using ok opened_ok [OF ok] by auto
next
  case (stranded c v s)
  then show ?thesis using opened_ok [OF ok] by simp
next
  case (crashed s t c)
  have bn: "map_of (mp_byAcct m) s = Some [(tx_nonce t, t)]" using crashed(3) by (auto simp: slots_of_def split: option.splits)
  let ?u = "unlist m (tx_Hash E t) s (tx_nonce t)"
  note u = evicted_ok [OF ok bn, of "tx_nonce t" t, simplified]
  have "pool_ok E cid (?u\<lparr>mp_all := AList.update (tx_Hash E tx) tx (mp_all ?u)\<rparr>)"
    by (rule known_ok) (use u crashed(2) in \<open>simp_all add: fits_def unlist_fields delete_conv'\<close>)
  then show ?thesis using crashed(8) by (simp add: unlist_fields)
next
  case (added s)
  have "pool_ok E cid (listed E (opened m s) tx s (slots_of m s))"
    by (rule listed_ok) (use added opened_ok [OF ok] in \<open>simp_all add: fits_def opened_slots\<close>)
  then show ?thesis using added by (simp add: listed_def)
next
  case (replaced s c v bn t)
  let ?u = "unlist (opened m s) (tx_Hash E t) v (tx_nonce t)" and ?bn = "if v = s then AList.delete (tx_nonce t) bn else slots_of m s"
  have bn: "map_of (mp_byAcct (opened m s)) v = Some bn" using replaced(8) by (auto simp: opened_slots slots_of_def)
  note u = evicted_ok [OF opened_ok [OF ok] bn replaced(9)]
  have fit: "map_of ?bn (tx_nonce tx) = None" "length ?bn < maxPerAccount"
    using replaced(2,8) length_delete_le [of "tx_nonce t" bn] by (auto simp: fits_def delete_conv' slots_of_def)
  have "pool_ok E cid (listed E ?u tx s ?bn)"
    by (rule listed_ok [OF u(1)]) (use replaced(2,12) u(2) fit in \<open>simp_all add: fits_def unlist_fields delete_conv'\<close>)
  then show ?thesis using replaced(11) by (simp add: listed_def unlist_fields)
qed

lemma opened_slots_of: "slots_of (opened m s) a = slots_of m a"
  by (auto simp: slots_of_def opened_slots split: option.split)

lemma opened_slotted: "slotted E m \<Longrightarrow> slotted E (opened m s)"
  by (simp add: slotted_def opened_slots_of)

lemma listed_slotted:
  assumes sl: "slotted E m" and s: "tx_Sender E tx = Inr s" "map_of (mp_byAcct m) s = Some bn" "map_of bn (tx_nonce tx) = None"
  shows "slotted E (listed E m tx s bn)"
  unfolding slotted_def
proof (intro allI impI)
  let ?m = "listed E m tx s bn"
  have slots: "map_of (slots_of ?m a) k = (if a = s \<and> k = tx_nonce tx then Some tx else map_of (slots_of m a) k)" for a k
    using s(2) by (auto simp: slots_of_def listed_def update_conv')
  fix k u
  assume "map_of (mp_all ?m) k = Some u"
  then have "u = tx \<or> map_of (mp_all m) k = Some u" by (auto simp: listed_def update_conv' split: if_splits)
  then show "\<exists>a. tx_Sender E u = Inr a \<and> map_of (slots_of ?m a) (tx_nonce u) = Some u"
  proof
    assume "u = tx"
    then show ?thesis using s(1) by (simp add: slots)
  next
    assume "map_of (mp_all m) k = Some u"
    then obtain a where a: "tx_Sender E u = Inr a" "map_of (slots_of m a) (tx_nonce u) = Some u" using sl unfolding slotted_def by blast
    then have "\<not> (a = s \<and> tx_nonce u = tx_nonce tx)" using s(2,3) by (auto simp: slots_of_def)
    then show ?thesis using a by (intro exI [of _ a]) (auto simp: slots)
  qed
qed

lemma add_slotted:
  assumes f: "fair wk" and ok: "pool_ok E cid m" and sl: "slotted E m" and r: "pool_add E wk m tx cid floor = (err, m')"
    and e: "err \<noteq> Some ErrPoolPanic"
  shows "slotted E m'"
  using f ok r
proof (cases rule: add_cases)
  case (refused e)
  then show ?thesis using sl opened_slotted [OF sl] by auto
next
  case (added s)
  then show ?thesis
    using listed_slotted [OF opened_slotted [OF sl, of s], of tx s "slots_of m s"] by (simp add: fits_def opened_slots)
next
  case (replaced s c v bn t)
  have bn: "map_of (mp_byAcct (opened m s)) v = Some bn" using replaced(8) by (auto simp: opened_slots slots_of_def)
  have "slotted E (unlist (opened m s) (tx_Hash E t) v (tx_nonce t))"
    by (rule unlist_slotted [OF opened_ok [OF ok] opened_slotted [OF sl]]) (use bn replaced(9) in \<open>auto simp: slots_of_def\<close>)
  moreover have "map_of (if v = s then AList.delete (tx_nonce t) bn else slots_of m s) (tx_nonce tx) = None"
    using replaced(2,8) by (auto simp: fits_def delete_conv' slots_of_def)
  ultimately show ?thesis using listed_slotted replaced(2,11,12) by (simp add: fits_def)
qed (use e in simp_all)

section \<open>Leaving the pool\<close>

lemma forget_ok:
  assumes ok: "pool_ok E cid m" and no: "\<And>a bn k tx. map_of (mp_byAcct m) a = Some bn \<Longrightarrow> map_of bn k = Some tx \<Longrightarrow> tx_Hash E tx \<noteq> h"
  shows "pool_ok E cid (m\<lparr>mp_all := AList.delete h (mp_all m)\<rparr>)"
proof (rule pool_okI)
  let ?m = "m\<lparr>mp_all := AList.delete h (mp_all m)\<rparr>"
  show "acct_ok E cid (mp_all ?m) s bn" if "map_of (mp_byAcct ?m) s = Some bn" for s bn
  proof (rule acct_ok_mono)
    show a: "acct_ok E cid (mp_all m) s bn" using pool_ok_acct [OF ok] that by simp
    show "map_of (mp_all ?m) (tx_Hash E tx) = Some tx" if "map_of bn n = Some tx" for n tx
      using a that no [of s bn n tx] \<open>map_of (mp_byAcct ?m) s = Some bn\<close> by (simp add: acct_ok_def slot_ok_def delete_conv')
  qed
  show "tx_Hash E tx = k \<and> tx_SanityCheck E tx cid = Inr ()" if "map_of (mp_all ?m) k = Some tx" for k tx
    using that pool_okD(3) [OF ok] by (auto simp: delete_conv' split: if_splits)
  show "int (length (mp_all ?m)) \<le> max 0 (mp_maxSize ?m)"
    using pool_okD(4) [OF ok] length_delete_le [of h "mp_all m"] by simp
qed (use pool_okD(1,2) [OF ok] in \<open>simp_all add: distinct_delete\<close>)

text \<open>No transaction of the pool shares its hash with a different one of \<open>txs\<close>.\<close>

definition collision_free :: "crypto \<Rightarrow> mempool \<Rightarrow> tx list \<Rightarrow> bool" where
  "collision_free E m txs \<longleftrightarrow> (\<forall>tx \<in> set txs. \<forall>u \<in> snd ` set (mp_all m). tx_Hash E u = tx_Hash E tx \<longrightarrow> u = tx)"

lemma slot_listed:
  "pool_ok E cid m \<Longrightarrow> map_of (mp_byAcct m) a = Some bn \<Longrightarrow> map_of bn k = Some u \<Longrightarrow>
    slot_ok E cid (mp_all m) a k u \<and> u \<in> snd ` set (mp_all m)"
  using pool_ok_acct [of E cid m a bn] map_of_SomeD [of "mp_all m" "tx_Hash E u" u]
  by (force simp: acct_ok_def slot_ok_def)

lemma remove_one_ok:
  assumes ok: "pool_ok E cid m" and cf: "collision_free E m (tx # txs)" and r: "remove_one E (m, l) tx = (m', l')"
  shows "pool_ok E cid m' \<and> collision_free E m' txs \<and> mp_maxSize m' = mp_maxSize m"
proof -
  let ?h = "tx_Hash E tx"
  let ?loc = "\<lambda>m. if map_of (mp_local m) ?h \<noteq> None then m\<lparr>mp_local := AList.delete ?h (mp_local m)\<rparr> else m"
  have all: "mp_all m' = AList.delete ?h (mp_all m)" "mp_maxSize m' = mp_maxSize m"
    using r by (auto simp: remove_one_def Let_def clear_slot_def split: sum.splits option.splits)
  then have cf': "collision_free E m' txs"
    using cf by (auto simp: collision_free_def AList.delete_eq)
  have slot: "u = tx" if "map_of (mp_byAcct m) a = Some bn" "map_of bn k = Some u" "tx_Hash E u = ?h" for a bn k u
    using slot_listed [OF ok that(1,2)] cf that(3) by (auto simp: collision_free_def)
  have "pool_ok E cid m'"
  proof (cases "tx_Sender E tx")
    case (Inl e)
    then have "tx_Hash E u \<noteq> ?h" if "map_of (mp_byAcct m) a = Some bn" "map_of bn k = Some u" for a bn k u
      using slot [OF that] slot_listed [OF ok that] by (auto simp: slot_ok_def)
    from forget_ok [OF ok this] show ?thesis
      by (rule pool_ok_cong) (use r Inl in \<open>auto simp: remove_one_def Let_def\<close>)
  next
    case (Inr s)
    have u: "pool_ok E cid (unlist m ?h s (tx_nonce tx))"
    proof (rule unlist_ok [OF ok])
      show "a = s \<and> k = tx_nonce tx" if "map_of (mp_byAcct m) a = Some bn" "map_of bn k = Some u" "tx_Hash E u = ?h" for a bn k u
        using slot [OF that] slot_listed [OF ok that(1,2)] Inr by (simp add: slot_ok_def)
    qed
    have "m' = clear_slot (?loc (m\<lparr>mp_all := AList.delete ?h (mp_all m)\<rparr>)) s (tx_nonce tx)"
      using r Inr by (simp add: remove_one_def Let_def)
    then have "mp_byAcct m' = mp_byAcct (unlist m ?h s (tx_nonce tx))"
      by (cases "map_of (mp_byAcct m) s") (simp_all add: unlist_def clear_slot_def Let_def)
    then show ?thesis by (intro pool_ok_cong [OF u]) (simp_all add: all unlist_fields)
  qed
  then show ?thesis using cf' all by blast
qed

lemma remove_all_ok:
  "pool_ok E cid m \<Longrightarrow> collision_free E m txs \<Longrightarrow> pool_ok E cid (fst (foldl (remove_one E) (m, l) txs))"
proof (induction txs arbitrary: m l)
  case (Cons tx txs)
  obtain m' l' where r: "remove_one E (m, l) tx = (m', l')" by fastforce
  show ?case using remove_one_ok [OF Cons.prems r] Cons.IH r by simp
qed simp

lemma rewrite_fields:
  "mp_all (rewriteJournalLocked io wk m) = mp_all m" "mp_byAcct (rewriteJournalLocked io wk m) = mp_byAcct m"
  "mp_maxSize (rewriteJournalLocked io wk m) = mp_maxSize m"
  by (simp_all add: rewriteJournalLocked_def Let_def)

lemma Remove_ok: "pool_ok E cid m \<Longrightarrow> collision_free E m txs \<Longrightarrow> pool_ok E cid (Remove E io wk m txs)"
  using remove_all_ok [of E cid m txs False]
  by (auto simp: Remove_def rewrite_fields split: prod.splits intro: pool_ok_cong)

text \<open>What is removed is in its slot, or the slot is empty.\<close>

definition own_slots :: "crypto \<Rightarrow> mempool \<Rightarrow> tx list \<Rightarrow> bool" where
  "own_slots E m txs \<longleftrightarrow> (\<forall>tx \<in> set txs. \<forall>s t. tx_Sender E tx = Inr s \<longrightarrow>
     map_of (slots_of m s) (tx_nonce tx) = Some t \<longrightarrow> tx_Hash E t = tx_Hash E tx)"

lemma remove_one_slots:
  assumes "remove_one E (m, l) tx = (m', l')"
  shows "mp_all m' = AList.delete (tx_Hash E tx) (mp_all m)"
    "mp_byAcct m' = (case tx_Sender E tx of Inl _ \<Rightarrow> mp_byAcct m | Inr s \<Rightarrow> mp_byAcct (unlist m (tx_Hash E tx) s (tx_nonce tx)))"
proof -
  let ?h = "tx_Hash E tx" and ?m = "m\<lparr>mp_all := AList.delete (tx_Hash E tx) (mp_all m)\<rparr>"
  let ?l = "if map_of (mp_local ?m) ?h \<noteq> None then ?m\<lparr>mp_local := AList.delete ?h (mp_local ?m)\<rparr> else ?m"
  have l: "mp_all ?l = mp_all ?m" "mp_byAcct ?l = mp_byAcct ?m" by simp_all
  have m': "m' = (case tx_Sender E tx of Inl _ \<Rightarrow> ?l | Inr s \<Rightarrow> clear_slot ?l s (tx_nonce tx))"
    using assms unfolding remove_one_def Let_def by auto
  have c: "mp_all (clear_slot x s n) = mp_all x"
    "mp_byAcct x = mp_byAcct y \<Longrightarrow> mp_byAcct (clear_slot x s n) = mp_byAcct (clear_slot y s n)" for x y s n
    by (simp_all add: clear_slot_def Let_def split: option.split)
  show "mp_all m' = AList.delete ?h (mp_all m)" by (cases "tx_Sender E tx") (simp_all add: m' c(1))
  show "mp_byAcct m' = (case tx_Sender E tx of Inl _ \<Rightarrow> mp_byAcct m | Inr s \<Rightarrow> mp_byAcct (unlist m ?h s (tx_nonce tx)))"
    using c(2) [OF l(2)] by (cases "tx_Sender E tx") (simp_all add: m' unlist_def)
qed

lemma remove_one_slotted:
  assumes ok: "pool_ok E cid m" and sl: "slotted E m" and own: "own_slots E m (tx # txs)" and r: "remove_one E (m, l) tx = (m', l')"
  shows "slotted E m' \<and> own_slots E m' txs"
proof (cases "tx_Sender E tx")
  case (Inl e)
  then have m': "mp_all m' = AList.delete (tx_Hash E tx) (mp_all m)" "slots_of m' = slots_of m"
    using remove_one_slots [OF r] by (simp_all add: slots_of_def fun_eq_iff)
  then show ?thesis using sl own by (auto simp: slotted_def own_slots_def delete_conv' split: if_splits)
next
  case (Inr s)
  let ?u = "unlist m (tx_Hash E tx) s (tx_nonce tx)"
  have m': "mp_all m' = mp_all ?u" "mp_byAcct m' = mp_byAcct ?u" using remove_one_slots [OF r] Inr by (simp_all add: unlist_fields)
  have "slotted E ?u" by (rule unlist_slotted [OF ok sl]) (use own Inr in \<open>simp add: own_slots_def\<close>)
  moreover have "slots_of m' = slots_of ?u" using m'(2) by (simp add: slots_of_def fun_eq_iff)
  ultimately show ?thesis using m' own by (auto simp: own_slots_def unlist_slots intro: slotted_cong split: if_splits)
qed

lemma Remove_slotted:
  assumes "pool_ok E cid m" and "slotted E m" and "collision_free E m txs" and "own_slots E m txs"
  shows "slotted E (Remove E io wk m txs)"
proof -
  have "slotted E (fst (foldl (remove_one E) (m, l) txs))" for l
    using assms
  proof (induction txs arbitrary: m l)
    case (Cons tx txs)
    obtain m' l' where r: "remove_one E (m, l) tx = (m', l')" by fastforce
    show ?case
      using Cons.IH [of m' l'] remove_one_ok [OF Cons.prems(1,3) r] remove_one_slotted [OF Cons.prems(1,2,4) r] r by simp
  qed simp
  from this [of False] show ?thesis
    by (auto simp: Remove_def rewrite_fields split: prod.splits intro: slotted_cong)
qed

text \<open>Demotion of one account: what is below \<open>c\<close> goes, from the slots and from the index.\<close>

lemma demote_fold:
  "foldl (demote_slot E c) (all, bn, k) xs = (all', bn', k') \<Longrightarrow> distinct (map fst all) \<Longrightarrow> distinct (map fst bn) \<Longrightarrow>
    map_of all' = (\<lambda>h. if \<exists>(n, tx) \<in> set xs. n < c \<and> tx_Hash E tx = h then None else map_of all h) \<and>
    map_of bn' = (\<lambda>n. if n < c \<and> n \<in> fst ` set xs then None else map_of bn n) \<and>
    distinct (map fst all') \<and> distinct (map fst bn') \<and> length all' \<le> length all \<and> length bn' \<le> length bn"
proof (induction xs arbitrary: all bn k)
  case (Cons x xs)
  obtain n tx where x: "x = (n, tx)" by fastforce
  show ?case
  proof (cases "n < c")
    case True
    have "foldl (demote_slot E c) (AList.delete (tx_Hash E tx) all, AList.delete n bn, k + 1) xs = (all', bn', k')"
      using Cons.prems(1) True by (simp add: demote_slot_def x)
    from Cons.IH [OF this] show ?thesis
      using Cons.prems(2,3) True length_delete_le [of "tx_Hash E tx" all] length_delete_le [of n bn]
      by (auto simp: x delete_conv' fun_eq_iff distinct_delete)
  next
    case False
    have "foldl (demote_slot E c) (all, bn, k) xs = (all', bn', k')"
      using Cons.prems(1) False by (simp add: demote_slot_def x)
    from Cons.IH [OF this] show ?thesis using Cons.prems(2,3) False by (auto simp: x fun_eq_iff)
  qed
qed simp

lemma demote_acct_ok:
  assumes f: "fair wk" and ok: "pool_ok E cid m" and s: "map_of (mp_byAcct m) s = Some bn"
    and r: "demote_acct E wk w (m, k) (s, bn) = (m', k')"
  shows "pool_ok E cid m'" "\<And>a. a \<noteq> s \<Longrightarrow> map_of (mp_byAcct m') a = map_of (mp_byAcct m) a" "mp_maxSize m' = mp_maxSize m"
    "map_of (slots_of m' s) = (\<lambda>n. if n < GetNonce w s then None else map_of bn n)" "slotted E m \<Longrightarrow> slotted E m'"
proof -
  let ?c = "GetNonce w s"
  obtain all rest where fold: "foldl (demote_slot E ?c) (mp_all m, bn, k) (visit wk bn) = (all, rest, k')"
    and m': "m' = m\<lparr>mp_all := all, mp_byAcct := (if length rest = 0 then AList.delete s (mp_byAcct m)
             else AList.update s rest (mp_byAcct m))\<rparr>"
    using r by (auto simp: demote_acct_def split: prod.splits)
  have a: "acct_ok E cid (mp_all m) s bn" by (rule pool_ok_acct [OF ok s])
  have entry: "(n, tx) \<in> set bn \<longleftrightarrow> map_of bn n = Some tx" for n tx using a by (simp add: acct_ok_def map_of_eq_Some_iff)
  note d = demote_fold [OF fold pool_okD(1) [OF ok]] 
  have d: "map_of all = (\<lambda>h. if \<exists>n tx. map_of bn n = Some tx \<and> n < ?c \<and> tx_Hash E tx = h then None else map_of (mp_all m) h)"
    "map_of rest = (\<lambda>n. if n < ?c then None else map_of bn n)" "distinct (map fst all)" "distinct (map fst rest)"
    "length all \<le> length (mp_all m)" "length rest \<le> length bn"
    using d a visit_set [OF f, of bn] by (auto simp: acct_ok_def fun_eq_iff entry [symmetric] map_of_eq_None_iff) 
  show "\<And>a. a \<noteq> s \<Longrightarrow> map_of (mp_byAcct m') a = map_of (mp_byAcct m) a" "mp_maxSize m' = mp_maxSize m"
    by (simp_all add: m' delete_conv' update_conv')
  show slots: "map_of (slots_of m' s) = (\<lambda>n. if n < GetNonce w s then None else map_of bn n)"
    using d(2) by (auto simp: slots_of_def m' delete_conv' update_conv' d(2) [symmetric])
  show "slotted E m'" if sl: "slotted E m"
    unfolding slotted_def
  proof (intro allI impI)
    fix h u
    assume "map_of (mp_all m') h = Some u"
    then have h: "map_of (mp_all m) h = Some u" "\<not> (\<exists>n tx. map_of bn n = Some tx \<and> n < ?c \<and> tx_Hash E tx = h)"
      by (auto simp: m' d(1) split: if_splits)
    then obtain b where b: "tx_Sender E u = Inr b" "map_of (slots_of m b) (tx_nonce u) = Some u" using sl unfolding slotted_def by blast
    have "tx_Hash E u = h" using pool_okD(3) [OF ok h(1)] by blast
    moreover have "map_of (slots_of m' b) = map_of (slots_of m b)" if "b \<noteq> s"
      using that by (simp add: slots_of_def m' delete_conv' update_conv')
    ultimately have "map_of (slots_of m' b) (tx_nonce u) = Some u"
      using h(2) b(2) s slots by (cases "b = s") (auto simp: slots_of_def)
    then show "\<exists>b. tx_Sender E u = Inr b \<and> map_of (slots_of m' b) (tx_nonce u) = Some u" using b(1) by blast
  qed
  have kept: "map_of all (tx_Hash E tx) = Some tx"
    if "map_of (mp_byAcct m) a = Some ba" "map_of ba n = Some tx" "a \<noteq> s \<or> \<not> n < ?c" for a ba n tx
  proof -
    have "\<not> (\<exists>n' t. map_of bn n' = Some t \<and> n' < ?c \<and> tx_Hash E t = tx_Hash E tx)"
      using slot_unique [OF ok s _ that(1,2)] that(3) by metis
    then show ?thesis using slot_listed [OF ok that(1,2)] by (simp add: d(1) slot_ok_def)
  qed
  show "pool_ok E cid m'"
  proof (rule pool_okI)
    show "acct_ok E cid (mp_all m') x bx" if x: "map_of (mp_byAcct m') x = Some bx" for x bx
    proof (cases "x = s")
      case True
      then have "bx = rest" using x by (auto simp: m' delete_conv' update_conv' split: if_splits)
      then show ?thesis
        using a d(2,4,6) kept [OF s] True by (auto simp: m' acct_ok_def slot_ok_def split: if_splits)
    next
      case False
      then have b: "map_of (mp_byAcct m) x = Some bx" using x by (auto simp: m' delete_conv' update_conv' split: if_splits)
      show ?thesis by (rule acct_ok_mono [OF pool_ok_acct [OF ok b]]) (use kept [OF b] False in \<open>simp add: m'\<close>)
    qed
    show "tx_Hash E tx = h \<and> tx_SanityCheck E tx cid = Inr ()" if "map_of (mp_all m') h = Some tx" for h tx
      using that pool_okD(3) [OF ok, of h tx] by (auto simp: m' d(1) split: if_splits)
    show "int (length (mp_all m')) \<le> max 0 (mp_maxSize m')" using d(5) pool_okD(4) [OF ok] by (simp add: m')
  qed (use d(3) pool_okD(2) [OF ok] in \<open>simp_all add: m' distinct_delete distinct_update\<close>)
qed

lemma demote_all_ok:
  assumes f: "fair wk"
  shows "pool_ok E cid m \<Longrightarrow> distinct (map fst xs) \<Longrightarrow> (\<And>a ba. (a, ba) \<in> set xs \<Longrightarrow> map_of (mp_byAcct m) a = Some ba) \<Longrightarrow>
    foldl (demote_acct E wk w) (m, k) xs = (m', k') \<Longrightarrow>
    pool_ok E cid m' \<and> mp_maxSize m' = mp_maxSize m \<and> (slotted E m \<longrightarrow> slotted E m') \<and>
    (\<forall>a. map_of (slots_of m' a) = (\<lambda>n. if a \<in> fst ` set xs \<and> n < GetNonce w a then None else map_of (slots_of m a) n))"
proof (induction xs arbitrary: m k)
  case (Cons x xs)
  obtain s bn where x: "x = (s, bn)" by fastforce
  obtain m1 k1 where step: "demote_acct E wk w (m, k) (s, bn) = (m1, k1)" by fastforce
  have s: "map_of (mp_byAcct m) s = Some bn" using Cons.prems(3) x by simp
  note one = demote_acct_ok [OF f Cons.prems(1) s step]
  have "map_of (mp_byAcct m1) a = Some ba" if "(a, ba) \<in> set xs" for a ba
  proof -
    have "a \<noteq> s" using that Cons.prems(2) x by force
    then show ?thesis using one(2) Cons.prems(3) that by simp
  qed
  moreover have "foldl (demote_acct E wk w) (m1, k1) xs = (m', k')" using Cons.prems(4) step x by simp
  ultimately have IH: "pool_ok E cid m'" "mp_maxSize m' = mp_maxSize m1" "slotted E m1 \<longrightarrow> slotted E m'"
    "\<And>a. map_of (slots_of m' a) = (\<lambda>n. if a \<in> fst ` set xs \<and> n < GetNonce w a then None else map_of (slots_of m1 a) n)"
    using Cons.IH [OF one(1)] Cons.prems(2) x by auto
  have "map_of (slots_of m' a) = (\<lambda>n. if a \<in> fst ` set (x # xs) \<and> n < GetNonce w a then None else map_of (slots_of m a) n)" for a
  proof (cases "a = s")
    case True
    then show ?thesis using IH(4) [of a] one(4) s by (auto simp: x slots_of_def fun_eq_iff)
  next
    case False
    then show ?thesis using IH(4) [of a] one(2) by (auto simp: x slots_of_def fun_eq_iff)
  qed
  then show ?case using IH(1,2,3) one(3,5) by simp
qed simp

end
