(* ===== verification/Mempool_Pending.thy ===== *)
theory Mempool_Pending
  imports Mempool_Laws "HOL-Library.Sublist"
begin

text \<open>
  Selection for a block: what the walk of one account collects, that each account contributes one run of
  consecutive nonces, and what packing by gas keeps.
\<close>

section \<open>One account\<close>

lemma run_from_nth:
  "next < 2 ^ 64 \<Longrightarrow> i < length (run_from fuel bn next) \<Longrightarrow> map_of bn ((next + i) mod 2 ^ 64) = Some (run_from fuel bn next ! i)"
proof (induction fuel bn "next" arbitrary: i rule: run_from.induct)
  case (2 fuel bn n)
  then obtain tx where tx: "map_of bn n = Some tx" by (cases "map_of bn n") auto
  show ?case
  proof (cases i)
    case 0
    then show ?thesis using 2(2) tx by simp
  next
    case (Suc j)
    have "map_of bn ((add64 n 1 + j) mod 2 ^ 64) = Some (run_from fuel bn (add64 n 1) ! j)"
      by (rule 2(1) [OF tx]) (use 2(3) tx Suc add64_less [of n 1] in simp_all)
    moreover have "(add64 n 1 + j) mod 2 ^ 64 = (n + i) mod 2 ^ 64" by (simp add: add64_def Suc mod_simps)
    ultimately show ?thesis using tx Suc by simp
  qed
qed simp

lemma run_from_stops:
  "next < 2 ^ 64 \<Longrightarrow> length (run_from fuel bn next) < fuel \<Longrightarrow> map_of bn ((next + length (run_from fuel bn next)) mod 2 ^ 64) = None"
proof (induction fuel bn "next" rule: run_from.induct)
  case (2 fuel bn n)
  show ?case
  proof (cases "map_of bn n")
    case None
    then show ?thesis using 2(2) by simp
  next
    case (Some tx)
    have "map_of bn ((add64 n 1 + length (run_from fuel bn (add64 n 1))) mod 2 ^ 64) = None"
      by (rule 2(1) [OF Some]) (use 2(3) Some add64_less [of n 1] in simp_all)
    moreover have "(add64 n 1 + k) mod 2 ^ 64 = (n + Suc k) mod 2 ^ 64" for k by (simp add: add64_def mod_simps)
    ultimately show ?thesis using Some by simp
  qed
qed simp

lemma mod_shift_inject:
  fixes n i j q :: nat
  assumes "i < q" "j < q" "(n + i) mod q = (n + j) mod q"
  shows "i = j"
proof -
  have less: "i = j" if "i \<le> j" "j < q" "(n + i) mod q = (n + j) mod q" for i j
  proof -
    have "q dvd (n + j) - (n + i)" using that mod_eq_dvd_iff_nat [of "n + i" "n + j" q] by simp
    moreover have "j - i < q" using that(2) by simp
    ultimately have "j - i = 0" using nat_dvd_not_less [of "j - i" q] by auto
    then show ?thesis using that(1) by simp
  qed
  show ?thesis using less [of i j] less [of j i] assms by (cases "i \<le> j") auto
qed

text \<open>The fuel is enough: the walk ends at a nonce that is not pending, not for lack of fuel.\<close>

lemma acct_run_spec:
  assumes d: "distinct (map fst bn)" and len: "length bn < 2 ^ 63" and n: "n < 2 ^ 64"
  shows "length (acct_run bn n) \<le> length bn"
    "i < length (acct_run bn n) \<Longrightarrow> map_of bn ((n + i) mod 2 ^ 64) = Some (acct_run bn n ! i)"
    "map_of bn ((n + length (acct_run bn n)) mod 2 ^ 64) = None"
proof -
  let ?r = "run_from (length bn + 1) bn n"
  have at: "map_of bn ((n + i) mod 2 ^ 64) = Some (?r ! i)" if "i < length ?r" for i by (rule run_from_nth [OF n that])
  have short: "length (run_from k bn n) \<le> k" for k by (induction k bn n rule: run_from.induct) (auto split: option.split)
  have "length bn + 1 \<le> 2 ^ 63" using len by simp
  then have bound: "length ?r < 2 ^ 64" using short [of "length bn + 1"] by (simp del: run_from.simps)
  have "inj_on (\<lambda>i. (n + i) mod 2 ^ 64) {..<length ?r}"
  proof (rule inj_onI)
    show "i = j" if "i \<in> {..<length ?r}" "j \<in> {..<length ?r}" "(n + i) mod 2 ^ 64 = (n + j) mod 2 ^ 64" for i j
      by (rule mod_shift_inject [OF _ _ that(3)])
        (use that(1,2) less_trans [OF _ bound] in \<open>simp_all add: lessThan_iff del: run_from.simps\<close>)
  qed
  then have "card ((\<lambda>i. (n + i) mod 2 ^ 64) ` {..<length ?r}) = length ?r" by (simp add: card_image)
  moreover have "(\<lambda>i. (n + i) mod 2 ^ 64) ` {..<length ?r} \<subseteq> fst ` set bn"
    using at by (force dest: map_of_SomeD)
  ultimately have "length ?r \<le> card (fst ` set bn)" using card_mono by (metis finite_imageI finite_set)
  also have "\<dots> = length bn" using d by (metis distinct_card length_map set_map)
  finally show len: "length (acct_run bn n) \<le> length bn" by (simp add: acct_run_def del: run_from.simps)
  show "map_of bn ((n + i) mod 2 ^ 64) = Some (acct_run bn n ! i)" if "i < length (acct_run bn n)"
    using at that by (simp add: acct_run_def del: run_from.simps)
  show "map_of bn ((n + length (acct_run bn n)) mod 2 ^ 64) = None"
    unfolding acct_run_def by (rule run_from_stops [OF n]) (use len in \<open>simp add: acct_run_def del: run_from.simps\<close>)
qed

section \<open>All accounts\<close>

definition sent_by :: "crypto \<Rightarrow> address \<Rightarrow> tx \<Rightarrow> bool" where
  "sent_by E a tx \<longleftrightarrow> tx_Sender E tx = Inr a"

abbreviation run_of :: "mempool \<Rightarrow> world \<Rightarrow> address \<Rightarrow> tx list" where
  "run_of m w a \<equiv> acct_run (slots_of m a) (GetNonce w a)"

lemma slots_ok:
  assumes "pool_ok E cid m"
  shows "acct_ok E cid (mp_all m) a (slots_of m a)" "length (slots_of m a) < 2 ^ 63" "distinct (map fst (slots_of m a))"
proof -
  show a: "acct_ok E cid (mp_all m) a (slots_of m a)"
    using pool_ok_acct [OF assms, of a] by (auto simp: slots_of_def acct_ok_def split: option.split)
  then show "length (slots_of m a) < 2 ^ 63" "distinct (map fst (slots_of m a))" by (auto simp: acct_ok_def maxPerAccount_def)
qed

lemma run_of_from:
  assumes ok: "pool_ok E cid m" and w: "world_ok w" and tx: "tx \<in> set (run_of m w a)"
  shows "tx_Sender E tx = Inr a" "tx \<in> snd ` set (mp_all m)" "tx_SanityCheck E tx cid = Inr ()"
proof -
  have n: "GetNonce w a < 2 ^ 64" using world_ok_Get [OF w, of a] by (simp add: account_ok_def GetNonce_def)
  obtain i where "i < length (run_of m w a)" "tx = run_of m w a ! i" using tx by (auto simp: in_set_conv_nth)
  then have "slot_ok E cid (mp_all m) a ((GetNonce w a + i) mod 2 ^ 64) tx"
    using acct_run_spec(2) [OF slots_ok(3,2) [OF ok] n] slots_ok(1) [OF ok] by (simp add: acct_ok_def)
  then show "tx_Sender E tx = Inr a" "tx \<in> snd ` set (mp_all m)" "tx_SanityCheck E tx cid = Inr ()"
    by (auto simp: slot_ok_def dest!: map_of_SomeD) force
qed

lemma groups_runs:
  assumes f: "fair wk" and ok: "pool_ok E cid m"
  shows "mset (groups wk m w) = image_mset (run_of m w) (filter_mset (\<lambda>a. run_of m w a \<noteq> []) (mset (map fst (mp_byAcct m))))"
proof -
  let ?f = "\<lambda>(s, bn). acct_run bn (GetNonce w s)"
  have "slots_of m s = bn" if "(s, bn) \<in> set (mp_byAcct m)" for s bn
    using map_of_is_SomeI [OF pool_okD(2) [OF ok] that] by (simp add: slots_of_def)
  then have "map ?f (visit wk (mp_byAcct m)) = map (run_of m w) (map fst (visit wk (mp_byAcct m)))"
    using visit_set [OF f, of "mp_byAcct m"] by auto
  then have "groups wk m w = filter (\<lambda>g. g \<noteq> []) (map (run_of m w) (map fst (visit wk (mp_byAcct m))))"
    by (simp add: groups_def del: map_map)
  then have "mset (groups wk m w) = filter_mset (\<lambda>g. g \<noteq> []) (image_mset (run_of m w) (image_mset fst (mset (visit wk (mp_byAcct m)))))"
    by (simp del: map_map)
  then show ?thesis by (simp add: visit_mset [OF f] filter_mset_image_mset)
qed

text \<open>In any order of the groups, what an account contributes is its run.\<close>

lemma filter_concat_runs:
  assumes f: "fair wk" and ok: "pool_ok E cid m" and w: "world_ok w" and gs: "mset gs = mset (groups wk m w)"
  shows "filter (sent_by E a) (concat gs) = run_of m w a"
proof -
  let ?f = "filter (sent_by E a)" and ?K = "mset (map fst (mp_byAcct m))"
  have own: "?f (run_of m w b) = (if b = a then run_of m w a else [])" for b
  proof -
    have "sent_by E a tx \<longleftrightarrow> b = a" if "tx \<in> set (run_of m w b)" for tx
      using run_of_from(1) [OF ok w that] by (auto simp: sent_by_def)
    then show ?thesis by (auto simp: filter_empty_conv intro!: filter_True)
  qed
  have one: "filter_mset (\<lambda>b. b = a) ?K = (if a \<in># ?K then {#a#} else {#})"
    using pool_okD(2) [OF ok] by (simp add: filter_eq_replicate_mset distinct_count_atmost_1)
  have key: "a \<in># ?K" if "run_of m w a \<noteq> []"
    using that by (cases "map_of (mp_byAcct m) a") (auto simp: slots_of_def acct_run_def dest!: map_of_SomeD intro: rev_image_eqI)
  have "mset (filter (\<lambda>g. ?f g \<noteq> []) gs) = filter_mset (\<lambda>g. ?f g \<noteq> []) (mset (groups wk m w))"
    using gs by simp
  also have "\<dots> = image_mset (run_of m w) (filter_mset (\<lambda>b. b = a \<and> run_of m w a \<noteq> []) ?K)"
    unfolding groups_runs [OF f ok] filter_mset_image_mset filter_filter_mset own
    by (rule arg_cong [where f = "image_mset (run_of m w)"], rule filter_mset_cong) auto
  also have "\<dots> = (if run_of m w a = [] then {#} else {#run_of m w a#})"
    using one key by (cases "run_of m w a = []") auto
  finally have "filter (\<lambda>g. ?f g \<noteq> []) gs = (if run_of m w a = [] then [] else [run_of m w a])"
    by (metis mset_single_iff mset_zero_iff)
  moreover have "?f (concat gs) = concat (map ?f (filter (\<lambda>g. ?f g \<noteq> []) gs))" by (induction gs) auto
  ultimately show ?thesis using own [of a] by simp
qed

section \<open>Packing\<close>

lemma pack_prefix: "prefix (pack lim g txs) txs"
  by (induction lim g txs rule: pack.induct) auto

text \<open>
  The running sum is a \<^verbatim>\<open>uint64\<close>: it is the sum of the limits modulo \<open>2 ^ 64\<close> that stays within the block's, and
  packing stops only at a transaction with which it would not.
\<close>

lemma pack_gas:
  "g \<le> lim \<Longrightarrow> g < 2 ^ 64 \<Longrightarrow>
    (g + sum_list (map tx_gaslimit (pack lim g txs))) mod 2 ^ 64 \<le> lim \<and>
    (pack lim g txs = txs \<or>
      (\<exists>tx \<in> set txs. lim < (g + sum_list (map tx_gaslimit (pack lim g txs)) + tx_gaslimit tx) mod 2 ^ 64))"
proof (induction lim g txs rule: pack.induct)
  case (2 lim g tx txs)
  let ?g = "add64 g (tx_gaslimit tx)"
  show ?case
  proof (cases "lim < ?g")
    case True
    then show ?thesis using 2(2,3) by (simp add: add64_def)
  next
    case False
    have mod: "(?g + k) mod 2 ^ 64 = (g + tx_gaslimit tx + k) mod 2 ^ 64" for k by (simp add: add64_def mod_simps)
    have "(?g + sum_list (map tx_gaslimit (pack lim ?g txs))) mod 2 ^ 64 \<le> lim \<and>
      (pack lim ?g txs = txs \<or> (\<exists>u \<in> set txs. lim <
        (?g + sum_list (map tx_gaslimit (pack lim ?g txs)) + tx_gaslimit u) mod 2 ^ 64))"
      using 2(1) [OF False] False add64_less [of g "tx_gaslimit tx"] by simp
    then show ?thesis using False unfolding add.assoc mod by (auto simp: add.assoc)
  qed
qed simp

text \<open>As long as no limit is so large that a sum within the block's limit and it leave 64 bits, nothing wraps.\<close>

lemma pack_no_wrap:
  "g \<le> lim \<Longrightarrow> \<forall>tx \<in> set txs. lim + tx_gaslimit tx < 2 ^ 64 \<Longrightarrow> g + sum_list (map tx_gaslimit (pack lim g txs)) \<le> lim"
proof (induction lim g txs rule: pack.induct)
  case (2 lim g tx txs)
  have "add64 g (tx_gaslimit tx) = g + tx_gaslimit tx" using 2(2,3) by (intro add64_id) auto
  then show ?case using 2 by (auto simp: add.assoc)
qed simp

lemma Pending_prefix:
  assumes "fair wk" and "pool_ok E cid m" and "world_ok w"
  shows "prefix (filter (sent_by E a) (Pending wk m w lim)) (run_of m w a)"
proof -
  let ?gs = "sort_key (\<lambda>g. - gas_price (g ! 0)) (groups wk m w)"
  have "prefix (filter (sent_by E a) (Pending wk m w lim)) (filter (sent_by E a) (concat ?gs))"
    unfolding Pending_def by (rule filter_mono_prefix [OF pack_prefix])
  then show ?thesis using filter_concat_runs [OF assms, of ?gs a] by simp
qed

lemma groups_in_pool:
  assumes f: "fair wk" and ok: "pool_ok E cid m" and w: "world_ok w"
  shows "\<Union> (set ` set (groups wk m w)) \<subseteq> snd ` set (mp_all m)"
proof -
  have "set (groups wk m w) \<subseteq> range (run_of m w)"
    using arg_cong [OF groups_runs [OF f ok, of w], of set_mset] by auto
  then show ?thesis using run_of_from(2) [OF ok w] by blast
qed

end
