(* ===== verification/Mempool_Properties.thy ===== *)
theory Mempool_Properties
  imports Mempool_Pending Transition_Properties
begin

text \<open>
  What holds of every pool a node can have, whatever order the runtime walks its maps in: the bounds on its size,
  what its two indexes say of each other, that a selection is executable, and when adding panics.
\<close>

section \<open>Everything that happens to a pool\<close>

inductive pool :: "crypto \<Rightarrow> nat \<Rightarrow> mempool \<Rightarrow> bool" for E cid where
  pool_new: "pool E cid (pool_New n)"
| pool_floor: "pool E cid m \<Longrightarrow> pool E cid (SetMinGasPrice m p)"
| pool_insert: "pool E cid m \<Longrightarrow> fair wk \<Longrightarrow> pool E cid (snd (pool_add E wk m tx cid floor))"
| pool_local: "pool E cid m \<Longrightarrow> fair wk \<Longrightarrow> pool E cid (snd (AddLocal E wk m tx cid))"
| pool_remove: "pool E cid m \<Longrightarrow> collision_free E m txs \<Longrightarrow> pool E cid (Remove E io wk m txs)"
| pool_demote: "pool E cid m \<Longrightarrow> fair wk \<Longrightarrow> pool E cid (snd (Demote E wk m w))"
| pool_reinject: "pool E cid m \<Longrightarrow> fair wk \<Longrightarrow> pool E cid (snd (Reinject E wk m txs cid 0))"
| pool_journal: "pool E cid m \<Longrightarrow> fair wk \<Longrightarrow> pool E cid (snd (EnableJournal E io wk m path txs cid))"

lemma add_snd_ok: "fair wk \<Longrightarrow> pool_ok E cid m \<Longrightarrow> pool_ok E cid (snd (pool_add E wk m tx cid floor))"
  using add_ok by (metis prod.collapse)

lemma AddLocal_ok:
  assumes "fair wk" and "pool_ok E cid m"
  shows "pool_ok E cid (snd (AddLocal E wk m tx cid))"
proof -
  obtain err m1 where r: "pool_add E wk m tx cid True = (err, m1)" by fastforce
  have ok: "pool_ok E cid m1" using add_ok [OF assms r] by blast
  show ?thesis
    by (rule pool_ok_cong [OF ok]) (use r in \<open>cases err; simp add: AddLocal_def pool_Add_def appendJournalLocked_def\<close>)+
qed

lemma Reinject_ok: "fair wk \<Longrightarrow> pool_ok E cid m \<Longrightarrow> pool_ok E cid (snd (Reinject E wk m txs cid k))"
proof (induction txs arbitrary: m k)
  case (Cons tx txs)
  have "pool_ok E cid (snd (pool_add E wk m tx cid False))" by (rule add_snd_ok [OF Cons.prems])
  then show ?case using Cons.IH [OF Cons.prems(1)] by (auto split: prod.split option.split)
qed simp

lemma replay_journal_ok: "fair wk \<Longrightarrow> pool_ok E cid m \<Longrightarrow> pool_ok E cid (snd (replay_journal E wk m txs cid k))"
proof (induction txs arbitrary: m k)
  case (Cons tx txs)
  have "pool_ok E cid (snd (AddLocal E wk m tx cid))" by (rule AddLocal_ok [OF Cons.prems])
  then show ?case using Cons.IH [OF Cons.prems(1)] by (auto split: prod.split option.split)
qed simp

lemma Demote_ok:
  assumes "fair wk" and "pool_ok E cid m"
  shows "pool_ok E cid (snd (Demote E wk m w))" "slotted E m \<Longrightarrow> slotted E (snd (Demote E wk m w))"
proof -
  obtain m' k where f: "foldl (demote_acct E wk w) (m, 0) (visit wk (mp_byAcct m)) = (m', k)" by fastforce
  have d: "distinct (map fst (mp_byAcct m))" by (rule pool_okD(2) [OF assms(2)])
  have "mset (map fst (visit wk (mp_byAcct m))) = mset (map fst (mp_byAcct m))" using visit_mset [OF assms(1)] by (metis mset_map)
  then have "distinct (map fst (visit wk (mp_byAcct m)))" using d using mset_eq_imp_distinct_iff by blast
  then have "pool_ok E cid m' \<and> (slotted E m \<longrightarrow> slotted E m')"
    using demote_all_ok [OF assms _ _ f] visit_set [OF assms(1), of "mp_byAcct m"] d by (auto simp: map_of_eq_Some_iff)
  then show "pool_ok E cid (snd (Demote E wk m w))" "slotted E m \<Longrightarrow> slotted E (snd (Demote E wk m w))"
    using f by (simp_all add: Demote_def)
qed

lemma pool_is_ok: "pool E cid m \<Longrightarrow> pool_ok E cid m"
proof (induction rule: pool.induct)
  case (pool_floor m p)
  show ?case by (rule pool_ok_cong [OF pool_floor.IH]) (simp_all add: SetMinGasPrice_def)
next
  case (pool_journal m wk io path txs)
  let ?m = "m\<lparr>mp_journalPath := path, mp_journal := txs\<rparr>"
  have "pool_ok E cid ?m" by (rule pool_ok_cong [OF pool_journal.IH]) simp_all
  then have ok: "pool_ok E cid (snd (replay_journal E wk ?m txs cid 0))"
    by (rule replay_journal_ok [OF pool_journal.hyps(2)])
  obtain r m1 where r: "replay_journal E wk ?m txs cid 0 = (r, m1)" by fastforce
  show ?case
    by (rule pool_ok_cong [OF ok]) (use r in \<open>cases r; simp add: EnableJournal_def rewrite_fields\<close>)+
qed (simp_all add: pool_ok_New add_snd_ok AddLocal_ok Remove_ok Demote_ok(1) Reinject_ok)

text \<open>
  The pools no transaction of which is stranded without a slot: no addition has panicked, and what is removed is
  alone in its slot.
\<close>

inductive neat :: "crypto \<Rightarrow> nat \<Rightarrow> mempool \<Rightarrow> bool" for E cid where
  neat_new: "neat E cid (pool_New n)"
| neat_floor: "neat E cid m \<Longrightarrow> neat E cid (SetMinGasPrice m p)"
| neat_insert: "neat E cid m \<Longrightarrow> fair wk \<Longrightarrow> pool_add E wk m tx cid floor = (err, m') \<Longrightarrow> err \<noteq> Some ErrPoolPanic \<Longrightarrow> neat E cid m'"
| neat_local: "neat E cid m \<Longrightarrow> fair wk \<Longrightarrow> AddLocal E wk m tx cid = (err, m') \<Longrightarrow> err \<noteq> Some ErrPoolPanic \<Longrightarrow> neat E cid m'"
| neat_remove: "neat E cid m \<Longrightarrow> collision_free E m txs \<Longrightarrow> own_slots E m txs \<Longrightarrow> neat E cid (Remove E io wk m txs)"
| neat_demote: "neat E cid m \<Longrightarrow> fair wk \<Longrightarrow> neat E cid (snd (Demote E wk m w))"
| neat_reinject: "neat E cid m \<Longrightarrow> fair wk \<Longrightarrow> Reinject E wk m txs cid 0 = (Inr k, m') \<Longrightarrow> neat E cid m'"
| neat_journal: "neat E cid m \<Longrightarrow> fair wk \<Longrightarrow> EnableJournal E io wk m path txs cid = (Inr k, m') \<Longrightarrow> neat E cid m'"

lemma AddLocal_slotted:
  assumes "fair wk" and "pool_ok E cid m" and "slotted E m" and "AddLocal E wk m tx cid = (err, m')" and "err \<noteq> Some ErrPoolPanic"
  shows "slotted E m'"
proof -
  obtain err1 m1 where r: "pool_add E wk m tx cid True = (err1, m1)" by fastforce
  then have e: "err1 = err" "mp_all m' = mp_all m1" "mp_byAcct m' = mp_byAcct m1"
    using assms(4) by (cases err1; auto simp: AddLocal_def pool_Add_def appendJournalLocked_def split: if_splits)+
  show ?thesis by (rule slotted_cong [OF add_slotted [OF assms(1,2,3) r] e(2,3)]) (use e(1) assms(5) in simp)
qed

lemma Reinject_slotted:
  "fair wk \<Longrightarrow> pool_ok E cid m \<Longrightarrow> slotted E m \<Longrightarrow> Reinject E wk m txs cid k = (Inr k', m') \<Longrightarrow> slotted E m'"
proof (induction txs arbitrary: m k)
  case (Cons tx txs)
  obtain err m1 where r: "pool_add E wk m tx cid False = (err, m1)" by fastforce
  have ne: "err \<noteq> Some ErrPoolPanic" using Cons.prems(4) r by auto
  have "pool_ok E cid m1" using add_ok [OF Cons.prems(1,2) r] by blast
  moreover have "slotted E m1" by (rule add_slotted [OF Cons.prems(1,2,3) r ne])
  moreover obtain j where "Reinject E wk m1 txs cid j = (Inr k', m')"
    using Cons.prems(4) r ne by (auto split: option.splits if_splits)
  ultimately show ?case using Cons.IH [OF Cons.prems(1)] by blast
qed simp

lemma replay_journal_slotted:
  "fair wk \<Longrightarrow> pool_ok E cid m \<Longrightarrow> slotted E m \<Longrightarrow> replay_journal E wk m txs cid k = (Inr k', m') \<Longrightarrow> slotted E m'"
proof (induction txs arbitrary: m k)
  case (Cons tx txs)
  obtain err m1 where r: "AddLocal E wk m tx cid = (err, m1)" by fastforce
  have ne: "err \<noteq> Some ErrPoolPanic" using Cons.prems(4) r by auto
  have "pool_ok E cid m1" using AddLocal_ok [OF Cons.prems(1,2), of tx] r by simp
  moreover have "slotted E m1" by (rule AddLocal_slotted [OF Cons.prems(1,2,3) r ne])
  moreover obtain j where "replay_journal E wk m1 txs cid j = (Inr k', m')"
    using Cons.prems(4) r ne by (auto split: option.splits if_splits)
  ultimately show ?case using Cons.IH [OF Cons.prems(1)] by blast
qed simp

lemma neat_pool: "neat E cid m \<Longrightarrow> pool E cid m"
proof (induction rule: neat.induct)
  case (neat_insert m wk tx floor err m')
  then show ?case using pool.pool_insert [of E cid m wk tx floor] by simp
next
  case (neat_local m wk tx err m')
  then show ?case using pool.pool_local [of E cid m wk tx] by simp
next
  case (neat_reinject m wk txs k m')
  then show ?case using pool.pool_reinject [of E cid m wk txs] by simp
next
  case (neat_journal m wk io path txs k m')
  then show ?case using pool.pool_journal [of E cid m wk io path txs] by simp
qed (auto intro: pool.intros)

lemma neat_slotted: "neat E cid m \<Longrightarrow> slotted E m"
proof (induction rule: neat.induct)
  case (neat_new n)
  show ?case by (simp add: slotted_def pool_New_def)
next
  case (neat_floor m p)
  show ?case by (rule slotted_cong [OF neat_floor.IH]) (simp_all add: SetMinGasPrice_def)
next
  case (neat_insert m wk tx floor err m')
  then show ?case using add_slotted pool_is_ok [OF neat_pool] by metis
next
  case (neat_local m wk tx err m')
  then show ?case using AddLocal_slotted pool_is_ok [OF neat_pool] by metis
next
  case (neat_remove m txs io wk)
  then show ?case using Remove_slotted pool_is_ok [OF neat_pool] by metis
next
  case (neat_demote m wk w)
  then show ?case using Demote_ok(2) pool_is_ok [OF neat_pool] by metis
next
  case (neat_reinject m wk txs k m')
  then show ?case using Reinject_slotted pool_is_ok [OF neat_pool] by metis
next
  case (neat_journal m wk io path txs k m')
  let ?m = "m\<lparr>mp_journalPath := path, mp_journal := txs\<rparr>"
  have ok: "pool_ok E cid ?m" by (rule pool_ok_cong [OF pool_is_ok [OF neat_pool [OF neat_journal.hyps(1)]]]) simp_all
  have s: "slotted E ?m" by (rule slotted_cong [OF neat_journal.IH]) simp_all
  obtain m1 where r: "replay_journal E wk ?m txs cid 0 = (Inr k, m1)" and m': "m' = rewriteJournalLocked io wk m1"
    using neat_journal.hyps(3) by (auto simp: EnableJournal_def split: prod.splits sum.splits)
  show ?case
    by (rule slotted_cong [OF replay_journal_slotted [OF neat_journal.hyps(2) ok s r]]) (simp_all add: m' rewrite_fields)
qed

section \<open>A sample pool\<close>

text \<open>One key signs everything, and signatures that end differently give different hashes.\<close>

definition pool_crypto :: crypto where
  "pool_crypto = sample_crypto\<lparr>recover_compact := (\<lambda>sig h. Some [1])\<rparr>"

definition pool_tx :: "nat \<Rightarrow> int \<Rightarrow> byte \<Rightarrow> tx" where
  "pool_tx nonce price b = \<lparr>tx_type = TxTypeTransfer, tx_chainid = 1, tx_nonce = nonce, tx_to = Some 7, tx_value = Some 0,
     tx_gaslimit = 21000, tx_gasprice = Some price, tx_data = [], tx_sig = 27 # replicate 31 0 @ [5] @ replicate 31 0 @ [b]\<rparr>"

definition pool_addr :: address where "pool_addr = addr_of_hash (sample_keccak [1])"

definition in_order :: walk_order where "in_order n = [0..<n]"

lemma fair_in_order: "fair in_order"
  by (simp add: fair_def in_order_def)

lemma pool_tx_sender:
  assumes "b < 100"
  shows "tx_Sender pool_crypto (pool_tx n p b) = Inr pool_addr"
proof -
  have "unat b < 100" using assms by (simp add: word_less_nat_alt)
  then show ?thesis
    by (simp add: tx_Sender_def pool_tx_def SignatureLength_def RecoverAddress_def checkLowS_def pool_crypto_def
        sample_crypto_def pool_addr_def be_nat_Cons be_nat_append be_nat_zeros)
qed

lemma pool_tx_sane: "b < 100 \<Longrightarrow> 0 \<le> p \<Longrightarrow> tx_SanityCheck pool_crypto (pool_tx n p b) 1 = Inr ()"
  using pool_tx_sender [of b n p]
  by (simp add: tx_SanityCheck_def pool_tx_def isKnownTxType_def IntrinsicGas_empty SignatureLength_def)

lemma pool_tx_hash: "tx_Hash pool_crypto (pool_tx n p b) = word_of_nat (26881 + unat b)"
  by (simp add: tx_Hash_def pool_tx_def TxTypeTransfer_def TxTypeEthLegacy_def pool_crypto_def sample_crypto_def
      sample_keccak_def enc_Bytes_def enc_Uint64_def hash_bytes_def)

definition sample_pool :: mempool where
  "sample_pool = snd (pool_add pool_crypto in_order (pool_New 1) (pool_tx 0 2 5) 1 True)"

lemma sample_pool_reached: "pool pool_crypto 1 sample_pool"
  unfolding sample_pool_def by (rule pool_insert [OF pool_new fair_in_order])

lemma sample_pool_fields:
  "mp_all sample_pool = [(word_of_nat 26886, pool_tx 0 2 5)]" "mp_byAcct sample_pool = [(pool_addr, [(0, pool_tx 0 2 5)])]"
  "mp_maxSize sample_pool = 1" "mp_minGasPrice sample_pool = None"
  by (simp_all add: sample_pool_def pool_add_def pool_tx_sane [unfolded One_nat_def] pool_tx_sender pool_tx_hash pool_New_def
      take_slot_def slots_of_def maxPerAccount_def)
    (simp_all add: pool_tx_def)

lemma sample_pool_neat: "neat pool_crypto 1 sample_pool"
proof (rule neat_insert [OF neat_new fair_in_order])
  show "pool_add pool_crypto in_order (pool_New 1) (pool_tx 0 2 5) 1 True = (None, sample_pool)"
    by (simp add: sample_pool_def pool_add_def pool_tx_sane [unfolded One_nat_def] pool_tx_sender pool_tx_hash pool_New_def
        take_slot_def slots_of_def maxPerAccount_def)
qed simp

section \<open>Bounds and consistency\<close>

text \<open>
  C12 Every pool is well-formed, however its operations interleave and in whatever order maps are walked: it holds
  at most its maximum of transactions and at most 64 of one account; a transaction in an account's slot is
  signed by that account, has the slot's nonce, passed the stateless checks and is found by its hash; and
  whatever is found by a hash has that hash and passed the checks.  The converse, that a transaction found by its
  hash has its slot, holds as long as no addition has panicked and no removal has cleared a slot another
  transaction was in (\<open>neat\<close>); \<^verbatim>\<open>Remove\<close> does clear such slots and leaves the other transaction without one.  What is
  removed is taken to collide in its hash with no different pooled transaction.
\<close>

theorem pool_well_formed:
  assumes "pool E cid m"
  shows "int (pool_Len m) \<le> max 0 (mp_maxSize m) \<and> length (slots_of m a) \<le> maxPerAccount \<and>
    (map_of (slots_of m a) n = Some tx \<longrightarrow> tx_Sender E tx = Inr a \<and> tx_nonce tx = n \<and>
       tx_SanityCheck E tx cid = Inr () \<and> pool_Get m (tx_Hash E tx) = Some tx) \<and>
    (pool_Get m h = Some u \<longrightarrow> tx_Hash E u = h \<and> tx_SanityCheck E u cid = Inr () \<and>
       (neat E cid m \<longrightarrow> (\<exists>s. tx_Sender E u = Inr s \<and> map_of (slots_of m s) (tx_nonce u) = Some u)))"
  using pool_is_ok [OF assms] slots_ok(1) [OF pool_is_ok [OF assms], of a] neat_slotted [of E cid m]
  by (auto simp: pool_ok_def pool_Len_def acct_ok_def slot_ok_def pool_Get_def slotted_def)

theorem pool_well_formed_witness:
  "int (pool_Len sample_pool) \<le> 1 \<and> length (slots_of sample_pool pool_addr) \<le> maxPerAccount \<and>
    pool_Get sample_pool (tx_Hash pool_crypto (pool_tx 0 2 5)) = Some (pool_tx 0 2 5) \<and> neat pool_crypto 1 sample_pool \<and>
    (\<exists>s. tx_Sender pool_crypto (pool_tx 0 2 5) = Inr s \<and> map_of (slots_of sample_pool s) 0 = Some (pool_tx 0 2 5))"
proof -
  have "tx_nonce (pool_tx 0 2 5) = 0" by (simp add: pool_tx_def)
  then show ?thesis
    using pool_well_formed [OF sample_pool_reached, of pool_addr 0 "pool_tx 0 2 5" "word_of_nat 26886" "pool_tx 0 2 5"] sample_pool_neat
    by (simp add: sample_pool_fields slots_of_def pool_Get_def)
qed

section \<open>Selection\<close>

text \<open>
  C13 A selection is executable: every transaction selected is in the pool and those of one account come in order
  with consecutive nonces from the account's own.  The gas limits selected, added as the code adds them, in 64 bits,
  are within the block's, and an account's run is cut short of the next pending nonce only if some pending
  transaction would take that sum over.  The true sum is within the block's limit whenever every pooled gas limit
  together with the block's is below \<open>2 ^ 64\<close>; the pool admits larger ones, and they make the sum wrap.
\<close>

theorem pending_executable:
  assumes "fair wk" and "pool E cid m" and "world_ok w"
  shows "set (Pending wk m w lim) \<subseteq> snd ` set (mp_all m) \<and>
    sum_list (map tx_gaslimit (Pending wk m w lim)) mod 2 ^ 64 \<le> lim \<and>
    ((\<forall>tx \<in> snd ` set (mp_all m). lim + tx_gaslimit tx < 2 ^ 64) \<longrightarrow>
      sum_list (map tx_gaslimit (Pending wk m w lim)) \<le> lim) \<and>
    (let mine = filter (sent_by E a) (Pending wk m w lim); n = length mine in
      map tx_nonce mine = map (\<lambda>i. (GetNonce w a + i) mod 2 ^ 64) [0..<n] \<and>
      (map_of (slots_of m a) ((GetNonce w a + n) mod 2 ^ 64) = None \<or>
       (\<exists>tx \<in> snd ` set (mp_all m).
          lim < (sum_list (map tx_gaslimit (Pending wk m w lim)) + tx_gaslimit tx) mod 2 ^ 64)))"
proof -
  note ok = pool_is_ok [OF assms(2)]
  let ?P = "Pending wk m w lim" and ?gs = "sort_key (\<lambda>g. - gas_price (g ! 0)) (groups wk m w)" and ?r = "run_of m w a"
  have n: "GetNonce w a < 2 ^ 64" using world_ok_Get [OF assms(3), of a] by (simp add: account_ok_def GetNonce_def)
  note run = acct_run_spec [OF slots_ok(3,2) [OF ok] n]
  have sub: "set (concat ?gs) \<subseteq> snd ` set (mp_all m)"
    using groups_in_pool [OF assms(1) ok assms(3)] by auto
  have P: "?P = pack lim 0 (concat ?gs)" by (simp add: Pending_def)
  then have inP: "set ?P \<subseteq> snd ` set (mp_all m)" using set_mono_prefix [OF pack_prefix] sub by fastforce
  have gas: "sum_list (map tx_gaslimit ?P) mod 2 ^ 64 \<le> lim"
    "?P = concat ?gs \<or> (\<exists>tx \<in> set (concat ?gs). lim < (sum_list (map tx_gaslimit ?P) + tx_gaslimit tx) mod 2 ^ 64)"
    using pack_gas [of 0 lim "concat ?gs"] unfolding P add_0 by simp_all
  have fit: "sum_list (map tx_gaslimit ?P) \<le> lim" if "\<forall>tx \<in> snd ` set (mp_all m). lim + tx_gaslimit tx < 2 ^ 64"
  proof -
    have "\<forall>tx \<in> set (concat ?gs). lim + tx_gaslimit tx < 2 ^ 64" using that sub by blast
    from pack_no_wrap [OF le0 this] show ?thesis unfolding P by simp
  qed
  obtain zs where zs: "?r = filter (sent_by E a) ?P @ zs"
    using Pending_prefix [OF assms(1) ok assms(3), of a lim] by (auto elim: prefixE)
  let ?k = "length (filter (sent_by E a) ?P)"
  have k: "filter (sent_by E a) ?P = take ?k ?r" "?k \<le> length ?r" unfolding zs by simp_all
  have nonce: "tx_nonce (?r ! i) = (GetNonce w a + i) mod 2 ^ 64" if "i < length ?r" for i
    using run(2) [OF that] slots_ok(1) [OF ok, of a] by (simp add: acct_ok_def slot_ok_def)
  have seq: "map tx_nonce (filter (sent_by E a) ?P) = map (\<lambda>i. (GetNonce w a + i) mod 2 ^ 64) [0..<?k]"
    by (subst k(1), rule nth_equalityI) (use nonce k(2) in simp_all)
  have whole: "map_of (slots_of m a) ((GetNonce w a + ?k) mod 2 ^ 64) = None" if "?P = concat ?gs"
    using filter_concat_runs [OF assms(1) ok assms(3), of ?gs a] that run(3) by simp
  have "map_of (slots_of m a) ((GetNonce w a + ?k) mod 2 ^ 64) = None \<or>
      (\<exists>tx \<in> snd ` set (mp_all m). lim < (sum_list (map tx_gaslimit ?P) + tx_gaslimit tx) mod 2 ^ 64)"
    using gas(2) whole sub by blast
  then show ?thesis unfolding Let_def using inP gas(1) fit seq by blast
qed

theorem pending_executable_witness:
  "set (Pending in_order sample_pool world_New 30000000) \<subseteq> {pool_tx 0 2 5} \<and>
   sum_list (map tx_gaslimit (Pending in_order sample_pool world_New 30000000)) \<le> 30000000"
  using pending_executable [OF fair_in_order sample_pool_reached world_ok_New, of 30000000 pool_addr]
  by (simp add: sample_pool_fields pool_tx_def)

section \<open>When adding panics\<close>

text \<open>
  C14 Adding panics in exactly two situations, both in a full pool whose cheapest transaction the newcomer
  outbids: the cheapest transaction's account has no slot left, so there is no tail to evict, or that account is the
  newcomer's own and the evicted tail was its only transaction, so the map the newcomer is written to is gone.
\<close>

theorem add_panics_iff:
  assumes "fair wk" and "pool E cid m"
  shows "fst (pool_add E wk m tx cid floor) = Some ErrPoolPanic \<longleftrightarrow>
    (\<exists>s c v. fits E cid m tx s \<and> \<not> (floor \<and> underpriced m tx) \<and> mp_maxSize m \<le> int (pool_Len m) \<and>
       lowestPricedLocked wk m = Some c \<and> gas_price c < gas_price tx \<and> tx_Sender E c = Inr v \<and>
       (slots_of m v = [] \<or> v = s \<and> length (slots_of m s) = 1))"
    (is "?lhs \<longleftrightarrow> (\<exists>s c v. ?P s c v)")
proof -
  note ok = pool_is_ok [OF assms(2)]
  have low: "lowestPricedLocked wk (opened m s) = lowestPricedLocked wk m" for s by (simp add: lowestPricedLocked_def)
  have none: "slots_of (opened m s) v = [] \<longleftrightarrow> slots_of m v = []" for s v by (auto simp: slots_of_def opened_slots split: option.split)
  have panics: "fst (pool_add E wk m tx cid floor) = Some ErrPoolPanic \<longleftrightarrow> (\<exists>c v. ?P s c v)"
    if s: "fits E cid m tx s" "\<not> (floor \<and> underpriced m tx)" for s
  proof (cases "mp_maxSize m \<le> int (length (mp_all m))")
    case False
    then show ?thesis using add_fits [OF s, of wk] by (simp add: take_slot_def Let_def opened_slots pool_Len_def)
  next
    case True
    note eq = add_fits [OF s, of wk, unfolded if_P [OF True]]
    show ?thesis
      using assms(1) opened_ok [OF ok, of s]
    proof (cases rule: evict_cases [where tx = tx])
      case full
      then have "\<not> (\<exists>c v. ?P s c v)"
        by (auto simp: evict_def low slots_of_def opened_slots split: option.splits)
      then show ?thesis using eq full by simp
    next
      case (stranded c v)
      then have "?P s c v" using s True by (auto simp: low none pool_Len_def)
      then show ?thesis using eq stranded by auto
    next
      case (evicted c v bn t)
      let ?u = "unlist (opened m s) (tx_Hash E t) v (tx_nonce t)"
      have bn: "slots_of m v = bn" "bn \<noteq> []"
        using evicted(6,7) by (auto simp: opened_slots slots_of_def split: if_splits option.splits)
      have one: "AList.delete (tx_nonce t) bn = [] \<longleftrightarrow> length bn = 1"
        using single_slot [OF pool_ok_acct [OF opened_ok [OF ok] evicted(6)] evicted(7)] length_delete [of bn "tx_nonce t"]
          pool_ok_acct [OF opened_ok [OF ok] evicted(6)] evicted(7) bn(2)
        by (auto simp: acct_ok_def)
      have "fst (take_slot E ?u tx s) = Some ErrPoolPanic \<longleftrightarrow> v = s \<and> length bn = 1"
        using evicted(6) one by (auto simp: take_slot_def Let_def unlist_byAcct opened_slots split: if_splits option.splits)
      moreover have "(\<exists>c v. ?P s c v) \<longleftrightarrow> v = s \<and> length bn = 1"
        using evicted(4,5,9) s True bn by (auto simp: low pool_Len_def)
      ultimately show ?thesis using eq evicted(1) by simp
    qed
  qed
  show ?thesis
  proof
    assume l: ?lhs
    obtain err m' where r: "pool_add E wk m tx cid floor = (err, m')" by fastforce
    then show "\<exists>s c v. ?P s c v"
    proof (cases rule: add_guard)
      case (fitting s)
      then show ?thesis using panics l by blast
    qed (use l r in simp)
  qed (use panics in blast)
qed

text \<open>A resident pays 2, the pool is full, and the same account offers 9 for its next nonce.\<close>

theorem add_panics_iff_witness:
  "fst (pool_add pool_crypto in_order sample_pool (pool_tx 1 9 6) 1 True) = Some ErrPoolPanic"
proof -
  have "fits pool_crypto 1 sample_pool (pool_tx 1 9 6) pool_addr"
    by (simp add: fits_def pool_tx_sender pool_tx_sane [unfolded One_nat_def] sample_pool_fields pool_tx_hash slots_of_def maxPerAccount_def)
      (simp add: pool_tx_def)
  moreover have "lowestPricedLocked in_order sample_pool = Some (pool_tx 0 2 5)"
    by (simp add: lowestPricedLocked_def sample_pool_fields visit_def in_order_def)
  moreover have "gas_price (pool_tx n p b) = p" for n p b by (simp add: gas_price_def pool_tx_def)
  ultimately show ?thesis
    using pool_tx_sender [of 5 0 2] unfolding add_panics_iff [OF fair_in_order sample_pool_reached]
    by (intro exI [of _ pool_addr] exI [of _ "pool_tx 0 2 5"])
      (simp add: underpriced_def sample_pool_fields pool_Len_def slots_of_def)
qed

end
