(* ===== verification/Producer.thy ===== *)
theory Producer
  imports Blockchain Mempool
begin

text \<open>
  Block production (\<^verbatim>\<open>src/core/producer.go\<close>) and the reorg hook of the pool (\<^verbatim>\<open>src/core/wiring.go\<close>).  The clock, the
  order of map walks, the success of file operations, and at which poll the watcher of a grinding miner
  says stop are arguments.  The block handed to the announcement callback is returned.
\<close>

section \<open>The reorg hook\<close>

fun reinject_blocks :: "crypto \<Rightarrow> walk_order \<Rightarrow> mempool \<Rightarrow> block list \<Rightarrow> nat \<Rightarrow> (pool_error + unit) \<times> mempool" where
  "reinject_blocks E wk m [] chainID = (Inr (), m)"
| "reinject_blocks E wk m (blk # blks) chainID =
     (case Reinject E wk m (blk_txs blk) chainID 0 of
        (Inl e, m1) \<Rightarrow> (Inl e, m1)
      | (Inr _, m1) \<Rightarrow> reinject_blocks E wk m1 blks chainID)"

definition BindMempool :: "crypto \<Rightarrow> journal_io \<Rightarrow> walk_order \<Rightarrow> nat \<Rightarrow> mempool \<Rightarrow> Reorg \<Rightarrow> (pool_error + unit) \<times> mempool" where
  "BindMempool E io wk chainID m r =
     (case reinject_blocks E wk m (ro_Dropped r) chainID of
        (Inl e, m1) \<Rightarrow> (Inl e, m1)
      | (Inr _, m1) \<Rightarrow> (Inr (), foldl (\<lambda>m blk. Remove E io wk m (blk_txs blk)) m1 (ro_Added r)))"

section \<open>The producer\<close>

record producer =
  pr_bc :: blockchain
  pr_pool :: mempool
  pr_coinbase :: address
  pr_blocksWon :: nat

definition NewProducer :: "blockchain \<Rightarrow> mempool \<Rightarrow> address \<Rightarrow> producer" where
  "NewProducer bc pool coinbase = \<lparr>pr_bc = bc, pr_pool = pool, pr_coinbase = coinbase, pr_blocksWon = 0\<rparr>"

definition BlocksWon :: "producer \<Rightarrow> nat" where "BlocksWon p = pr_blocksWon p"

datatype producer_error = ErrProduce chain_error | ErrMiningAborted | ErrGrindFuel | ErrHookPanic

definition IsMiningAborted :: "producer_error \<Rightarrow> bool" where
  "IsMiningAborted e \<longleftrightarrow> e = ErrMiningAborted"

text \<open>A panic of the transition becomes an error like any other.\<close>

definition applyTxSafe :: "crypto \<Rightarrow> world \<Rightarrow> tx \<Rightarrow> address \<Rightarrow> nat \<Rightarrow> (nat \<times> nat \<times> evlog list) option \<times> world" where
  "applyTxSafe E w tx coinbase gasLimit =
     (case ApplyTx E w tx coinbase gasLimit of
        (Inl _, v) \<Rightarrow> (None, v)
      | (Inr r, v) \<Rightarrow> (Some r, v))"

record building =
  bd_working :: world
  bd_gasUsed :: nat
  bd_minerFees :: int
  bd_included :: "tx list"
  bd_receipts :: "receipt list"

fun build_txs :: "crypto \<Rightarrow> address \<Rightarrow> nat \<Rightarrow> building \<Rightarrow> tx list \<Rightarrow> building" where
  "build_txs E coinbase gasLimit st [] = st"
| "build_txs E coinbase gasLimit st (tx # txs) =
     (case applyTxSafe E (world_Copy (bd_working st)) tx coinbase gasLimit of
        (None, _) \<Rightarrow> build_txs E coinbase gasLimit st txs
      | (Some (used, status, logs), trial) \<Rightarrow>
          let total = add64 (bd_gasUsed st) used in
          if total > gasLimit then st
          else let fee = int used * gas_price tx;
                   burn = fee * int FeeBurnBasisPoints div 10000
               in build_txs E coinbase gasLimit
                 \<lparr>bd_working = trial, bd_gasUsed = total, bd_minerFees = bd_minerFees st + (fee - burn),
                  bd_included = bd_included st @ [tx],
                  bd_receipts = bd_receipts st @
                    [\<lparr>rc_status = status, rc_cumulative = total, rc_gasused = used, rc_logs = logs\<rparr>]\<rparr> txs)"

definition build_timestamp :: "int \<Rightarrow> int \<Rightarrow> int" where
  "build_timestamp now parentTs = (if now \<le> parentTs then wrap_int64 (parentTs + 1) else now)"

definition BuildUnsealed :: "crypto \<Rightarrow> walk_order \<Rightarrow> int \<Rightarrow> producer \<Rightarrow> (producer_error + block \<times> int) \<times> producer" where
  "BuildUnsealed E wk nowMs p =
     (let bc = pr_bc p; parent = ch_head bc in
      case StateSnapshot E bc of
        None \<Rightarrow> (Inl (ErrProduce ErrPanic), p)
      | Some snapshot \<Rightarrow>
          let gasLimit = hd_gaslimit (blk_header parent);
              txs = Pending wk (pr_pool p) snapshot gasLimit;
              ts = build_timestamp nowMs (hd_timestamp (blk_header parent));
              height = add64 (blk_height parent) 1
          in case RequiredDifficulty E bc (blk_header parent) of
               (None, bc1) \<Rightarrow> (Inl (ErrProduce ErrPanic), p\<lparr>pr_bc := bc1\<rparr>)
             | (Some difficulty, bc1) \<Rightarrow>
                 let working = SetBlockContext (world_Copy snapshot) height (block_seconds ts) difficulty;
                     st = build_txs E (pr_coinbase p) gasLimit
                       \<lparr>bd_working = working, bd_gasUsed = 0, bd_minerFees = 0, bd_included = [], bd_receipts = []\<rparr> txs;
                     final = CreditBlockReward (ch_rewards bc) (bd_working st) (pr_coinbase p) height;
                     hdr = \<lparr>hd_parent = block_Hash E parent, hd_height = height, hd_timestamp = ts,
                       hd_txroot = TxRoot E (bd_included st), hd_receiptroot = ReceiptRoot E (bd_receipts st),
                       hd_stateroot = world_Root E final, hd_gasused = bd_gasUsed st, hd_gaslimit = gasLimit,
                       hd_proposer = pr_coinbase p, hd_difficulty = difficulty, hd_nonce = 0\<rparr>
                 in (Inr (\<lparr>blk_header = hdr, blk_txs = bd_included st\<rparr>, bd_minerFees st), p\<lparr>pr_bc := bc1\<rparr>))"

text \<open>\<open>fuel\<close> bounds the nonces tried; \<open>stop\<close> says at which poll the watcher has seen the head move.\<close>

definition Build :: "crypto \<Rightarrow> walk_order \<Rightarrow> nat \<Rightarrow> (nat \<Rightarrow> bool) \<Rightarrow> int \<Rightarrow> producer \<Rightarrow> (producer_error + block) \<times> producer" where
  "Build E wk fuel stop nowMs p =
     (case BuildUnsealed E wk nowMs p of
        (Inl e, p1) \<Rightarrow> (Inl e, p1)
      | (Inr (blk, _), p1) \<Rightarrow>
          (case mine fuel E (blk_header blk) stop of
             None \<Rightarrow> (Inl ErrGrindFuel, p1)
           | Some (ok, hdr) \<Rightarrow> if \<not> ok then (Inl ErrMiningAborted, p1) else (Inr (blk\<lparr>blk_header := hdr\<rparr>), p1)))"

definition Commit :: "crypto \<Rightarrow> journal_io \<Rightarrow> walk_order \<Rightarrow> int \<Rightarrow> producer \<Rightarrow> block \<Rightarrow> (producer_error + block) \<times> producer" where
  "Commit E io wk nowMs p block =
     (case InsertBlock E nowMs (pr_bc p) block of
        (Some e, _, bc1) \<Rightarrow> (Inl (ErrProduce e), p\<lparr>pr_bc := bc1\<rparr>)
      | (None, ro, bc1) \<Rightarrow>
          (case (case ro of None \<Rightarrow> (Inr (), pr_pool p) | Some r \<Rightarrow> BindMempool E io wk (ch_chainID bc1) (pr_pool p) r) of
             (Inl _, m1) \<Rightarrow> (Inl ErrHookPanic, p\<lparr>pr_bc := bc1, pr_pool := m1\<rparr>)
           | (Inr _, m1) \<Rightarrow>
               (Inr block, p\<lparr>pr_bc := bc1, pr_pool := Remove E io wk m1 (blk_txs block),
                  pr_blocksWon := add64 (pr_blocksWon p) 1\<rparr>)))"

definition Seal :: "crypto \<Rightarrow> journal_io \<Rightarrow> walk_order \<Rightarrow> nat \<Rightarrow> (nat \<Rightarrow> bool) \<Rightarrow> int \<Rightarrow> int \<Rightarrow> producer \<Rightarrow>
    (producer_error + block) \<times> producer" where
  "Seal E io wk fuel stop builtMs nowMs p =
     (case Build E wk fuel stop builtMs p of
        (Inl e, p1) \<Rightarrow> (Inl e, p1)
      | (Inr block, p1) \<Rightarrow> Commit E io wk nowMs p1 block)"

end
