(* ===== verification/Producer_Laws.thy ===== *)
theory Producer_Laws
  imports Producer Evm_Same Blockchain_Node Mempool_Pending Pow_Laws
begin

text \<open>
  What the producer executes is what the importer executes.  The producer runs every candidate on a
  copy of its working state and keeps the copy when the transaction goes through; the importer runs
  the included ones in place.  A transaction leaves no snapshot and no journal behind (\<open>clean\<close>), so
  the copies change nothing, and the worlds of the two runs differ at most in their touched sets.
\<close>

section \<open>Transactions leave clean worlds\<close>

definition clean :: "world \<Rightarrow> bool" where
  "clean w \<longleftrightarrow> w_snapshots w = [] \<and> w_journal w = []"

lemma clean_Copy [simp]: "clean (world_Copy w)" "clean w \<Longrightarrow> world_Copy w = w"
  by (simp_all add: clean_def world_Copy_def)

lemma clean_mutators [simp]:
  "clean w \<Longrightarrow> clean (Credit w a x)" "clean w \<Longrightarrow> clean (Burn w x)" "clean w \<Longrightarrow> clean (charge w a x)"
  "clean (DiscardSnapshots w)" "clean (SetBlockContext w n t d) = clean w" "clean (ClearTouched w) = clean w"
  by (simp_all add: clean_def world_mutators charge_def Let_def world_simps Burn_def DiscardSnapshots_def
      SetBlockContext_def ClearTouched_def)

lemma clean_distributeFee [simp]: "clean w \<Longrightarrow> clean (distributeFee w coinbase fee)"
  by (simp add: distributeFee_def Let_def)

lemma clean_tx_commit:
  assumes "clean w" and "tx_funded w tx sender intrinsic p v"
  shows "clean (snd (tx_commit E w tx sender coinbase lim intrinsic p v))"
proof -
  let ?w1 = "charge w sender (int (tx_gaslimit tx) * p)"
  let ?w3 = "SubBalance (snd (Snapshot ?w1)) sender v"
  obtain e used w4 where b: "tx_body E ?w3 tx sender coinbase lim v (tx_gaslimit tx - intrinsic) = (e, used, w4)"
    by (cases "tx_body E ?w3 tx sender coinbase lim v (tx_gaslimit tx - intrinsic)") auto
  note f = body_of_commit [OF assms(2) b]
  have "RevertToSnapshot w4 (fst (Snapshot ?w1)) = ?w1" by (rule revert_exact [OF f(3)])
  then show ?thesis
    using assms b f(7) by (simp add: tx_commit_def Let_def sub64_id case_prod_beta settle_def tx_funded_def)
qed

lemma clean_ApplyTx:
  assumes "clean w" and "world_ok w" and "tx_sane tx" and "0 < lim" and "lim \<le> gas_cap"
  shows "clean (snd (ApplyTx E w tx coinbase lim))"
  using assms(2-)
proof (cases rule: ApplyTx_cases [where E = E and coinbase = coinbase])
  case (applied sender p v)
  then show ?thesis using clean_tx_commit [OF assms(1)] by simp
qed (use assms(1) in simp)

section \<open>The two executions agree\<close>

definition share :: "int \<Rightarrow> int" where
  "share fee = fee - fee_burn fee"

fun miner_fees :: "tx list \<Rightarrow> receipt list \<Rightarrow> int" where
  "miner_fees (tx # txs) (r # rs) = share (int (rc_gasused r) * gas_price tx) + miner_fees txs rs"
| "miner_fees _ _ = 0"

lemma miner_fees_append: "length txs = length rs \<Longrightarrow> miner_fees (txs @ [tx]) (rs @ [r]) =
    miner_fees txs rs + share (int (rc_gasused r) * gas_price tx)"
  by (induction txs rs rule: list_induct2) simp_all

lemma apply_txs_snoc:
  "apply_txs E a lim w n rs txs = Inr (v, n', rs') \<Longrightarrow> ApplyTx E v tx a lim = (Inr (g, st, logs), u) \<Longrightarrow>
    add64 n' g \<le> lim \<Longrightarrow> apply_txs E a lim w n rs (txs @ [tx]) = Inr (u, add64 n' g,
      rs' @ [\<lparr>rc_status = st, rc_cumulative = add64 n' g, rc_gasused = g, rc_logs = logs\<rparr>])"
  by (induction txs arbitrary: w n rs) (auto simp: Let_def split: prod.splits sum.splits if_splits)

text \<open>The producer's running record against the importer's run of what is included so far.\<close>

definition mirrors :: "crypto \<Rightarrow> address \<Rightarrow> nat \<Rightarrow> world \<Rightarrow> building \<Rightarrow> bool" where
  "mirrors E a lim w0 st \<longleftrightarrow> clean (bd_working st) \<and> world_ok (bd_working st) \<and>
     length (bd_included st) = length (bd_receipts st) \<and>
     bd_minerFees st = miner_fees (bd_included st) (bd_receipts st) \<and>
     (\<exists>v. apply_txs E a lim w0 0 [] (bd_included st) = Inr (v, bd_gasUsed st, bd_receipts st) \<and> same v (bd_working st))"

lemma build_txs_mirrors:
  assumes "mirrors E a lim w0 st" and "\<forall>tx \<in> set txs. tx_sane tx" and "0 < lim" and "lim \<le> gas_cap"
  shows "mirrors E a lim w0 (build_txs E a lim st txs)"
  using assms
proof (induction txs arbitrary: st)
  case (Cons tx txs)
  obtain v where v: "apply_txs E a lim w0 0 [] (bd_included st) = Inr (v, bd_gasUsed st, bd_receipts st)"
      "same v (bd_working st)"
    and m: "clean (bd_working st)" "world_ok (bd_working st)" "length (bd_included st) = length (bd_receipts st)"
      "bd_minerFees st = miner_fees (bd_included st) (bd_receipts st)"
    using Cons.prems(1) by (auto simp: mirrors_def)
  have sane: "tx_sane tx" "\<forall>tx \<in> set txs. tx_sane tx" using Cons.prems(2) by auto
  obtain r u where r: "ApplyTx E (bd_working st) tx a lim = (r, u)" by fastforce
  show ?case
  proof (cases r)
    case (Inl e)
    then show ?thesis using r m(1) Cons.IH [OF Cons.prems(1) sane(2) Cons.prems(3,4)] by (simp add: applyTxSafe_def)
  next
    case (Inr q)
    obtain g s logs where q: "q = (g, s, logs)" by (cases q)
    obtain u' where u': "ApplyTx E v tx a lim = (Inr (g, s, logs), u')" "same u' u"
      using same_ApplyTx [OF v(2), of E tx a lim] r Inr q
      by (metis fst_conv snd_conv prod.collapse)
    have cu: "clean u" using clean_ApplyTx [OF m(1,2) sane(1) Cons.prems(3,4), of E a] r by simp
    have ku: "world_ok u" using ApplyTx_ok(1) [OF m(2) sane(1) Cons.prems(3,4)] r Inr q keeps_ok by blast
    let ?t = "add64 (bd_gasUsed st) g"
    show ?thesis
    proof (cases "?t > lim")
      case True
      then show ?thesis using r Inr q m(1) Cons.prems(1) by (simp add: applyTxSafe_def Let_def)
    next
      case False
      let ?r = "\<lparr>rc_status = s, rc_cumulative = ?t, rc_gasused = g, rc_logs = logs\<rparr>"
      have "mirrors E a lim w0 \<lparr>bd_working = u, bd_gasUsed = ?t,
          bd_minerFees = bd_minerFees st + (int g * gas_price tx - int g * gas_price tx * int FeeBurnBasisPoints div 10000),
          bd_included = bd_included st @ [tx], bd_receipts = bd_receipts st @ [?r]\<rparr>"
        using apply_txs_snoc [OF v(1) u'(1)] False u'(2) cu ku m
        by (simp add: mirrors_def miner_fees_append share_def fee_burn_def)
      from Cons.IH [OF this sane(2) Cons.prems(3,4)] False
      show ?thesis using r Inr q m(1) by (simp add: applyTxSafe_def Let_def)
    qed
  qed
qed simp

lemma build_txs_included:
  "set (bd_included (build_txs E a lim st txs)) \<subseteq> set (bd_included st) \<union> set txs"
proof (induction txs arbitrary: st)
  case (Cons tx txs)
  obtain r u where r: "applyTxSafe E (world_Copy (bd_working st)) tx a lim = (r, u)" by fastforce
  show ?case
  proof (cases r)
    case None
    then show ?thesis using Cons.IH [of st] r by auto
  next
    case (Some q)
    obtain g s logs where q: "q = (g, s, logs)" by (cases q)
    let ?t = "add64 (bd_gasUsed st) g" and ?f = "int g * gas_price tx"
    show ?thesis
      using Cons.IH [of "\<lparr>bd_working = u, bd_gasUsed = ?t,
          bd_minerFees = bd_minerFees st + (?f - ?f * int FeeBurnBasisPoints div 10000),
          bd_included = bd_included st @ [tx],
          bd_receipts = bd_receipts st @ [\<lparr>rc_status = s, rc_cumulative = ?t, rc_gasused = g, rc_logs = logs\<rparr>]\<rparr>"]
        r Some q by (auto simp: Let_def)
  qed
qed simp

lemma same_CreditBlockReward: "same w v \<Longrightarrow> same (CreditBlockReward cfg w a h) (CreditBlockReward cfg v a h)"
  by (simp add: CreditBlockReward_def Let_def same_mutators same_fields)


section \<open>A built block\<close>

text \<open>What building relies on: a head whose successor stays in range, and candidates a block may carry.\<close>

definition can_build :: "crypto \<Rightarrow> blockchain \<Rightarrow> int \<Rightarrow> mempool \<Rightarrow> bool" where
  "can_build E bc now m \<longleftrightarrow> pool_ok E (ch_chainID bc) m \<and> (\<forall>tx \<in> snd ` set (mp_all m). length (tx_data tx) < 2 ^ 63) \<and>
     blk_height (ch_head bc) + 1 < 2 ^ 64 \<and> MinBlockGasLimit \<le> hd_gaslimit (blk_header (ch_head bc)) \<and>
     hd_gaslimit (blk_header (ch_head bc)) \<le> gas_cap \<and>
     - (2 ^ 63) \<le> hd_timestamp (blk_header (ch_head bc)) \<and> hd_timestamp (blk_header (ch_head bc)) < 2 ^ 63 - 1"

lemma build_timestamp_after:
  "- (2 ^ 63) \<le> t \<Longrightarrow> t < 2 ^ 63 - 1 \<Longrightarrow> t < build_timestamp now t \<and> build_timestamp now t \<le> max now (t + 1)"
  by (auto simp: build_timestamp_def wrap_int64_def)

lemma Pending_in_pool:
  assumes "fair wk" and "pool_ok E cid m" and "world_ok w"
  shows "set (Pending wk m w lim) \<subseteq> snd ` set (mp_all m)"
proof -
  have "set (Pending wk m w lim) \<subseteq> set (concat (sort_key (\<lambda>g. - gas_price (g ! 0)) (groups wk m w)))"
    unfolding Pending_def by (rule set_mono_prefix [OF pack_prefix])
  then show ?thesis using groups_in_pool [OF assms] by auto
qed

lemma pooled_tx_sane:
  "pool_ok E cid m \<Longrightarrow> tx \<in> snd ` set (mp_all m) \<Longrightarrow> length (tx_data tx) < 2 ^ 63 \<Longrightarrow>
    tx_SanityCheck E tx cid = Inr () \<and> tx_sane tx"
  using SanityCheck_sane [of E tx cid "()"] unfolding pool_ok_def
  by (metis (no_types, lifting) imageE map_of_is_SomeI prod.collapse)

lemma head_world_ok:
  assumes "chain_inv E g S L bc"
  shows "world_ok (S (block_Hash E (ch_head bc)))"
proof -
  obtain b where "held_ok E g (ch_db bc) S L (block_Hash E (ch_head bc)) b"
    by (rule tree_okD [OF chain_invD(4,5) [OF assms]])
  then show ?thesis using chain_invariant by (auto simp: held_ok_def)
qed

lemma BuildUnsealed_valid:
  assumes inv: "chain_inv E g S L bc" and f: "fair wk" and cb: "can_build E bc now (pr_pool p)" and bc: "pr_bc p = bc"
    and b: "BuildUnsealed E wk now p = (Inr (blk, fees), p1)"
  defines "hh \<equiv> block_Hash E (ch_head bc)"
  obtains w rs where "ApplyBlock E (ch_rewards bc) (S hh) blk (Some (blk_header (ch_head bc))) = Inr (w, rs)"
    "fees = miner_fees (blk_txs blk) rs" "blk_parent blk = hh" "hd_proposer (blk_header blk) = pr_coinbase p"
    "fst (RequiredDifficulty E bc (blk_header (ch_head bc))) = Some (hd_difficulty (blk_header blk))"
    "VerifyTxRoot E blk" "\<forall>tx \<in> set (blk_txs blk). tx_SanityCheck E tx (ch_chainID bc) = Inr () \<and> length (tx_data tx) < 2 ^ 63"
    "blk_height blk = Suc (blk_height (ch_head bc))" "hd_gaslimit (blk_header blk) = hd_gaslimit (blk_header (ch_head bc))"
    "hd_timestamp (blk_header blk) = build_timestamp now (hd_timestamp (blk_header (ch_head bc)))"
    "p1 = p\<lparr>pr_bc := snd (RequiredDifficulty E bc (blk_header (ch_head bc)))\<rparr>"
    "set (blk_txs blk) \<subseteq> snd ` set (mp_all (pr_pool p))"
proof -
  let ?par = "blk_header (ch_head bc)" and ?w0 = "world_Copy (S hh)" and ?m = "pr_pool p" and ?a = "pr_coinbase p"
  let ?lim = "hd_gaslimit ?par" and ?ts = "build_timestamp now (hd_timestamp ?par)" and ?n = "add64 (hd_height ?par) 1"
  let ?txs = "Pending wk ?m ?w0 ?lim"
  have c: "pool_ok E (ch_chainID bc) ?m" "\<forall>tx \<in> snd ` set (mp_all ?m). length (tx_data tx) < 2 ^ 63"
    "hd_height ?par + 1 < 2 ^ 64" "MinBlockGasLimit \<le> ?lim" "?lim \<le> gas_cap"
    "- (2 ^ 63) \<le> hd_timestamp ?par" "hd_timestamp ?par < 2 ^ 63 - 1"
    using cb unfolding can_build_def by blast+
  have hs: "head_state E bc = Some (S hh)" using chain_invD(5) [OF inv] by (simp add: head_state_def hh_def)
  obtain d bc1 where rd: "RequiredDifficulty E bc ?par = (Some d, bc1)"
    using b bc hs by (auto simp: BuildUnsealed_def StateSnapshot_def Let_def split: prod.splits option.splits)
  let ?w1 = "SetBlockContext (world_Copy ?w0) ?n (block_seconds ?ts) d"
  let ?st = "build_txs E ?a ?lim \<lparr>bd_working = ?w1, bd_gasUsed = 0, bd_minerFees = 0, bd_included = [], bd_receipts = []\<rparr> ?txs"
  have eq: "blk_txs blk = bd_included ?st" "fees = bd_minerFees ?st" "p1 = p\<lparr>pr_bc := bc1\<rparr>"
    "blk_header blk = \<lparr>hd_parent = hh, hd_height = ?n, hd_timestamp = ?ts,
       hd_txroot = TxRoot E (bd_included ?st), hd_receiptroot = ReceiptRoot E (bd_receipts ?st),
       hd_stateroot = world_Root E (CreditBlockReward (ch_rewards bc) (bd_working ?st) ?a ?n), hd_gasused = bd_gasUsed ?st,
       hd_gaslimit = ?lim, hd_proposer = ?a, hd_difficulty = d, hd_nonce = 0\<rparr>"
    using b bc hs rd by (auto simp: BuildUnsealed_def StateSnapshot_def Let_def hh_def)
  have wok: "world_ok (S hh)" using head_world_ok [OF inv] by (simp add: hh_def)
  have w0ok: "world_ok ?w0" using wok by (simp add: world_ok_fields)
  have pend: "set ?txs \<subseteq> snd ` set (mp_all ?m)" by (rule Pending_in_pool [OF f c(1) w0ok])
  have ok: "tx_SanityCheck E tx (ch_chainID bc) = Inr () \<and> tx_sane tx \<and> length (tx_data tx) < 2 ^ 63"
    if "tx \<in> set ?txs" for tx
  proof -
    have "tx \<in> snd ` set (mp_all ?m)" using that pend by (rule rev_subsetD)
    with pooled_tx_sane [OF c(1) this] bspec [OF c(2) this] show ?thesis by simp
  qed
  then have sane: "\<forall>tx \<in> set ?txs. tx_sane tx" by simp
  have lim: "0 < ?lim" "?lim \<le> gas_cap" using c(4,5) by (simp_all add: MinBlockGasLimit_def)
  let ?o = "open_block (S hh) (blk_header blk)"
  have o: "same ?o ?w1" unfolding open_block_def eq(4) by (simp add: same_fields)
  have "mirrors E ?a ?lim ?o \<lparr>bd_working = ?w1, bd_gasUsed = 0, bd_minerFees = 0, bd_included = [], bd_receipts = []\<rparr>"
    using o w0ok by (simp add: mirrors_def world_ok_fields)
  from build_txs_mirrors [OF this sane lim]
  obtain v where v: "apply_txs E ?a ?lim ?o 0 [] (bd_included ?st) = Inr (v, bd_gasUsed ?st, bd_receipts ?st)"
      "same v (bd_working ?st)" "bd_minerFees ?st = miner_fees (bd_included ?st) (bd_receipts ?st)"
    by (auto simp: mirrors_def)
  let ?w = "CreditBlockReward (ch_rewards bc) v ?a ?n"
  have root: "world_Root E ?w = hd_stateroot (blk_header blk)"
    using same_Root [OF same_CreditBlockReward [OF v(2)]] eq(4) by simp
  have txr: "VerifyTxRoot E blk" using eq by (simp add: VerifyTxRoot_def)
  have "0 < ?lim div 1024" using c(4) by (simp add: MinBlockGasLimit_def div_greater_zero_iff)
  then have chk: "check_parent E (blk_header blk) (Some ?par) = None"
    using eq(4) build_timestamp_after [OF c(6,7), of now] c(4) by (simp add: check_parent_def hh_def block_Hash_def MinBlockGasLimit_def GasLimitBoundDivisor_def Let_def)
  have app: "ApplyBlock E (ch_rewards bc) (S hh) blk (Some ?par) = Inr (?w, bd_receipts ?st)"
    using txr chk v(1) root eq(1,4) by (simp add: ApplyBlock_def Let_def)
  have inc: "set (blk_txs blk) \<subseteq> set ?txs"
    using build_txs_included [of E ?a ?lim "\<lparr>bd_working = ?w1, bd_gasUsed = 0, bd_minerFees = 0, bd_included = [], bd_receipts = []\<rparr>"]
    unfolding eq(1) by fastforce
  have "\<forall>tx \<in> set (blk_txs blk). tx_SanityCheck E tx (ch_chainID bc) = Inr () \<and> length (tx_data tx) < 2 ^ 63"
    using inc ok by blast
  moreover have "?n = Suc (blk_height (ch_head bc))" using add64_id [OF c(3)] by simp
  ultimately show thesis using that [OF app] eq v(3) rd txr inc pend by auto
qed

end
