(* ===== verification/Producer_Properties.thy ===== *)
theory Producer_Properties
  imports Producer_Laws Blockchain_Properties Mempool_Properties
begin

text \<open>What block production guarantees on any node and any pool.\<close>

section \<open>Reading ahead does not matter\<close>

text \<open>The difficulty a chain requires depends on its store alone, not on what its cache happens to hold.\<close>

lemma lwma_walk_store:
  "cache_ok E bc \<Longrightarrow> cache_ok E bc' \<Longrightarrow> ch_db bc' = ch_db bc \<Longrightarrow>
    fst (lwma_walk E n bc' cur acc) = fst (lwma_walk E n bc cur acc)"
proof (induction n arbitrary: bc bc' cur acc)
  case (Suc n)
  let ?h = "hd_parent cur"
  obtain r1 c1 where r1: "blockLocked E bc ?h = (r1, c1)" by fastforce
  obtain r2 c2 where r2: "blockLocked E bc' ?h = (r2, c2)" by fastforce
  have s: "r1 = Inr b \<longleftrightarrow> stored_block E (ch_db bc) ?h b" "r2 = Inr b \<longleftrightarrow> stored_block E (ch_db bc) ?h b" for b
    using blockLocked_stored [OF Suc.prems(1), of ?h b] blockLocked_stored [OF Suc.prems(2), of ?h b] r1 r2 Suc.prems(3) by simp_all
  have f: "cache_ok E c1" "ch_db c1 = ch_db bc" "cache_ok E c2" "ch_db c2 = ch_db bc"
    using recached_fields(1,2) [OF recached_blockLocked Suc.prems(1), of ?h]
      recached_fields(1,2) [OF recached_blockLocked Suc.prems(2), of ?h] r1 r2 Suc.prems(3) by simp_all
  show ?case
  proof (cases r1)
    case (Inl e)
    then have "\<exists>e. r2 = Inl e" using s by (cases r2) auto
    then show ?thesis using Inl r1 r2 by auto
  next
    case (Inr b)
    then have "r2 = Inr b" using s by simp
    then show ?thesis using Inr r1 r2 Suc.IH [OF f(1,3), of "blk_header b"] f by simp
  qed
qed simp

lemma RequiredDifficulty_recached:
  assumes "recached E bc bc'" and "cache_ok E bc"
  shows "fst (RequiredDifficulty E bc' h) = fst (RequiredDifficulty E bc h)"
proof -
  note f = recached_fields [OF assms]
  have "fst (lwma_walk E n bc' h [h]) = fst (lwma_walk E n bc h [h])" for n
    by (rule lwma_walk_store [OF assms(2) f(1,2)])
  then show ?thesis
    by (auto simp: RequiredDifficulty_def requiredDifficultyLocked_def Let_def f split: prod.split option.split)
      (metis fst_conv option.distinct(1) option.inject)+
qed

lemma node_lwma_walk: "node E g ret bc \<Longrightarrow> node E g ret (snd (lwma_walk E n bc cur acc))"
proof (induction n arbitrary: bc cur acc)
  case (Suc n)
  then show ?case
    using node.node_read [OF Suc.prems, of "hd_parent cur"] by (auto split: prod.split sum.split)
qed simp

lemma node_RequiredDifficulty: "node E g ret bc \<Longrightarrow> node E g ret (snd (RequiredDifficulty E bc h))"
  using node_lwma_walk [of E g ret bc _ h "[h]"]
  by (auto simp: RequiredDifficulty_def requiredDifficultyLocked_def Let_def split: prod.split option.split)
    (metis snd_conv)+

lemma RequiredDifficulty_pos:
  assumes "chain_inv E g S L bc" and "fst (RequiredDifficulty E bc h) = Some d"
  shows "0 < d"
proof -
  have g: "0 < ch_genesisDifficulty bc"
    using chain_invD(1) [OF assms(1)]
    by (auto simp: params_ok_def genesis_Build_def genesis_header_def MinDifficulty_def split: option.splits)
  have l: "lwmaDifficulty ws = Some d \<Longrightarrow> 0 < d" for ws
    using clamp_difficulty_bounds(1) by (auto simp: lwmaDifficulty_def Let_def less_eq_Suc_le split: list.splits prod.splits if_splits)
  show ?thesis
    using assms(2) g l
    by (auto simp: RequiredDifficulty_def requiredDifficultyLocked_def Let_def split: prod.splits option.splits if_splits)
qed

section \<open>Sealing and committing\<close>

lemma mine_sound:
  "mine n E h stop = Some (True, h') \<Longrightarrow> \<exists>k. h' = h\<lparr>hd_nonce := k\<rparr> \<and> satisfiesPoW E h'"
  using grind_loop_sound [of n E h "powTarget (hd_difficulty h)" stop 0 0]
  by (auto simp: mine_def Grind_def satisfiesPoW_def)

lemma ApplyBlock_nonce:
  "ApplyBlock E cfg w (b\<lparr>blk_header := (blk_header b)\<lparr>hd_nonce := k\<rparr>\<rparr>) ph = ApplyBlock E cfg w b ph"
proof -
  have "check_parent E ((blk_header b)\<lparr>hd_nonce := k\<rparr>) ph = check_parent E (blk_header b) ph"
    "open_block w ((blk_header b)\<lparr>hd_nonce := k\<rparr>) = open_block w (blk_header b)"
    by (simp_all add: check_parent_def open_block_def split: option.split)
  then show ?thesis by (simp add: ApplyBlock_def VerifyTxRoot_def Let_def cong: option.case_cong sum.case_cong prod.case_cong if_cong)
qed

lemma remove_all_absent:
  "map_of (mp_all (fst (foldl (remove_one E) (m, l) txs))) h =
    (if h \<in> tx_Hash E ` set txs then None else map_of (mp_all m) h)"
proof (induction txs arbitrary: m l)
  case (Cons tx txs)
  obtain m1 l1 where r: "remove_one E (m, l) tx = (m1, l1)" by fastforce
  then have "mp_all m1 = AList.delete (tx_Hash E tx) (mp_all m)"
    by (auto simp: remove_one_def Let_def clear_slot_def split: sum.splits option.splits)
  then show ?case using Cons.IH [of m1 l1] r by (simp add: delete_conv')
qed simp

lemma Remove_absent: "tx \<in> set txs \<Longrightarrow> pool_Get (Remove E io wk m txs) (tx_Hash E tx) = None"
  using remove_all_absent [of E m False txs "tx_Hash E tx"]
  by (auto simp: pool_Get_def Remove_def rewrite_fields split: prod.split)


text \<open>
  C11 What the producer builds, the chain accepts: the block \<^verbatim>\<open>BuildUnsealed\<close> assembles on any reachable node
  from any pool of that chain executes on the state of the head to the state root, receipt root and gas
  it announces, carries only transactions of the pool, pays its rewards to the coinbase, requires the
  difficulty the chain requires, and the miner fees reported are the sum over its receipts of what the
  fee split leaves the miner.
\<close>

theorem template_valid:
  assumes "node E g ret (pr_bc p)" and "fair wk" and "can_build E (pr_bc p) now (pr_pool p)"
    and "BuildUnsealed E wk now p = (Inr (blk, fees), p1)"
  shows "\<exists>w rs. ApplyBlock E (ch_rewards (pr_bc p)) (the (head_state E (pr_bc p))) blk (Some (blk_header (ch_head (pr_bc p)))) =
      Inr (w, rs) \<and> fees = miner_fees (blk_txs blk) rs \<and> hd_proposer (blk_header blk) = pr_coinbase p \<and>
    fst (RequiredDifficulty E (pr_bc p) (blk_header (ch_head (pr_bc p)))) = Some (hd_difficulty (blk_header blk)) \<and>
    set (blk_txs blk) \<subseteq> snd ` set (mp_all (pr_pool p))"
proof -
  obtain S L where inv: "chain_inv E g S L (pr_bc p)" using node_inv [OF assms(1)] by blast
  have "the (head_state E (pr_bc p)) = S (block_Hash E (ch_head (pr_bc p)))"
    using chain_invD(5) [OF inv] by (simp add: head_state_def)
  then show ?thesis using BuildUnsealed_valid [OF inv assms(2,3) refl assms(4)] by metis
qed

text \<open>
  C10 A mined block is adopted: on any reachable node, a block that \<^verbatim>\<open>Build\<close> assembled and sealed is taken by
  \<^verbatim>\<open>Commit\<close> as the new head (unless the clock went back past the drift window or its hash is already
  known), the node stays reachable, none of its transactions is left in the pool, and the win is counted.
\<close>

theorem mined_block_adopted:
  assumes "node E g ret (pr_bc p)" and "fair wk" and "can_build E (pr_bc p) builtMs (pr_pool p)"
    and "Build E wk fuel stop builtMs p = (Inr blk, p1)"
    and "\<not> HasBlock (pr_bc p) (block_Hash E blk)"
    and "hd_timestamp (blk_header blk) \<le> wrap_int64 (nowMs + MaxFutureDriftMs)"
  shows "\<exists>p2. Commit E io wk nowMs p1 blk = (Inr blk, p2) \<and> ch_head (pr_bc p2) = blk \<and> node E g ret (pr_bc p2) \<and>
    pr_blocksWon p2 = add64 (pr_blocksWon p) 1 \<and>
    (\<forall>tx \<in> set (blk_txs blk). pool_Get (pr_pool p2) (tx_Hash E tx) = None)"
proof -
  let ?bc = "pr_bc p" and ?h = "blk_header (ch_head (pr_bc p))"
  obtain S L where inv: "chain_inv E g S L ?bc" using node_inv [OF assms(1)] by blast
  obtain tmp fees where bu: "BuildUnsealed E wk builtMs p = (Inr (tmp, fees), p1)"
    and mi: "\<exists>hdr. mine fuel E (blk_header tmp) stop = Some (True, hdr) \<and> blk = tmp\<lparr>blk_header := hdr\<rparr>"
    using assms(4) by (auto simp: Build_def split: prod.splits sum.splits option.splits if_splits)
  obtain k where k: "blk = tmp\<lparr>blk_header := (blk_header tmp)\<lparr>hd_nonce := k\<rparr>\<rparr>" "satisfiesPoW E (blk_header blk)"
    using mi mine_sound by (metis block.select_convs(1) block.surjective block.update_convs(1))
  obtain w rs where t: "ApplyBlock E (ch_rewards ?bc) (S (block_Hash E (ch_head ?bc))) tmp (Some ?h) = Inr (w, rs)"
    "blk_parent tmp = block_Hash E (ch_head ?bc)" "fst (RequiredDifficulty E ?bc ?h) = Some (hd_difficulty (blk_header tmp))"
    "VerifyTxRoot E tmp" "\<forall>tx \<in> set (blk_txs tmp). tx_SanityCheck E tx (ch_chainID ?bc) = Inr () \<and> length (tx_data tx) < 2 ^ 63"
    "blk_height tmp = Suc (blk_height (ch_head ?bc))" "hd_gaslimit (blk_header tmp) = hd_gaslimit ?h"
    "p1 = p\<lparr>pr_bc := snd (RequiredDifficulty E ?bc ?h)\<rparr>"
    by (rule BuildUnsealed_valid [OF inv assms(2,3) refl bu])
  let ?bc1 = "snd (RequiredDifficulty E ?bc ?h)"
  have rc: "recached E ?bc ?bc1" using recached_requiredDifficulty by (simp add: RequiredDifficulty_def)
  note f = recached_fields [OF rc chain_invD(2) [OF inv]]
  have inv1: "chain_inv E g S L ?bc1" by (rule inv_recached [OF rc inv])
  have n1: "node E g ret ?bc1" by (rule node_RequiredDifficulty [OF assms(1)])
  have "\<not> HasBlock ?bc1 (block_Hash E blk)"
    using assms(5) f(1,2) 
    by (cases "ch_blockCache ?bc1 (block_Hash E blk)") (auto simp: HasBlock_def cache_ok_def stored_block_def mem.has_get)
  then have ps: "passes E nowMs ?bc1 blk"
    using t k assms(6) RequiredDifficulty_recached [OF rc chain_invD(2) [OF inv], of ?h] f
    by (simp add: passes_def VerifyTxRoot_def)
  have bd: "block_bounds blk" using t(5-7) k(1) assms(3) by (simp add: block_bounds_def can_build_def)
  have app: "ApplyBlock E (ch_rewards ?bc1) (S (block_Hash E (ch_head ?bc1))) blk (Some (blk_header (ch_head ?bc1))) = Inr (w, rs)"
    using t(1) k(1) f by (simp add: ApplyBlock_nonce)
  have d: "0 < hd_difficulty (blk_header blk)" using RequiredDifficulty_pos [OF inv t(3)] k(1) by simp
  obtain bc2 where i: "InsertBlock E nowMs ?bc1 blk = (None, None, bc2)" "ch_head bc2 = blk"
    by (rule insert_on_head [OF inv1 ps bd app d])
  have "node E g ret bc2" by (rule node.node_insert [OF n1 bd i(1)])
  then show ?thesis using i t(8) Remove_absent by (auto simp: Commit_def)
qed


section \<open>A sample producer\<close>

text \<open>A hash that tells headers apart by height, so that the block mined next has a hash of its own.\<close>

definition height_crypto :: crypto where
  "height_crypto = sample_crypto\<lparr>keccak256 := (\<lambda>bs. if length bs < 40 then 0 else word_of_nat (unat (bs ! 39)))\<rparr>"

definition sample_producer :: producer where
  "sample_producer = NewProducer (projr (NewBlockchain height_crypto NewMemory sample_genesis 0)) (pool_New 10) 9"

lemma height_hash: "hd_height h < 256 \<Longrightarrow> header_Hash height_crypto h = word_of_nat (hd_height h)"
proof -
  assume "hd_height h < 256"
  moreover have "be_fixed 8 k ! 7 = word_of_nat (k mod 256)" for k
    using be_fixed.simps(2) [of 7 k] by (simp add: nth_append del: be_fixed.simps)
  ultimately have "header_preimage h ! 39 = word_of_nat (hd_height h)" "40 \<le> length (header_preimage h)"
    by (simp_all add: header_preimage_def enc_Uint64_def nth_append)
  then show ?thesis using \<open>hd_height h < 256\<close> by (simp add: header_Hash_def height_crypto_def unat_of_nat)
qed

lemma sample_producer_node:
  obtains w blk where "blk_header blk = genesis_header height_crypto sample_genesis w"
    "node height_crypto sample_genesis 0 (pr_bc sample_producer)" "ch_head (pr_bc sample_producer) = blk"
    "ch_db (pr_bc sample_producer) = mem_Commit NewMemory (init_batch height_crypto sample_genesis w blk)"
    "ch_blockCache (pr_bc sample_producer) = [block_Hash height_crypto blk \<mapsto> blk]"
    "ch_states (pr_bc sample_producer) = [block_Hash height_crypto blk \<mapsto> ClearTouched w]"
    "ch_genesisDifficulty (pr_bc sample_producer) = 1"
proof -
  obtain w blk where b: "genesis_Build height_crypto sample_genesis = Some (w, blk)"
    "blk_header blk = genesis_header height_crypto sample_genesis w"
    using genesis_ok [OF sample_genesis_valid, of height_crypto] by metis
  note f = fresh_chain [OF sample_genesis_valid b(1), of 0]
  have "NewBlockchain height_crypto NewMemory sample_genesis 0 = Inr (pr_bc sample_producer)"
    using f by (simp add: sample_producer_def NewProducer_def)
  moreover have "hd_difficulty (blk_header blk) = 1" by (simp add: b(2) genesis_header_def sample_genesis_def MinDifficulty_def)
  ultimately show thesis
    using that [OF b(2) node_open] f by (simp add: sample_producer_def NewProducer_def open_chain_def)
qed

lemma sample_build:
  obtains blk fees p1 where "BuildUnsealed height_crypto in_order 1800000000000 sample_producer = (Inr (blk, fees), p1)"
    "Build height_crypto in_order 1 (\<lambda>k. False) 1800000000000 sample_producer = (Inr blk, p1)"
    "can_build height_crypto (pr_bc sample_producer) 1800000000000 (pr_pool sample_producer)"
    "node height_crypto sample_genesis 0 (pr_bc sample_producer)"
    "\<not> HasBlock (pr_bc sample_producer) (block_Hash height_crypto blk)" "hd_timestamp (blk_header blk) = 1800000000000"
proof -
  obtain w b where s: "blk_header b = genesis_header height_crypto sample_genesis w"
    "node height_crypto sample_genesis 0 (pr_bc sample_producer)" "ch_head (pr_bc sample_producer) = b"
    "ch_db (pr_bc sample_producer) = mem_Commit NewMemory (init_batch height_crypto sample_genesis w b)"
    "ch_blockCache (pr_bc sample_producer) = [block_Hash height_crypto b \<mapsto> b]"
    "ch_states (pr_bc sample_producer) = [block_Hash height_crypto b \<mapsto> ClearTouched w]"
    "ch_genesisDifficulty (pr_bc sample_producer) = 1"
    by (rule sample_producer_node)
  have p: "hd_height (blk_header b) = 0" "hd_gaslimit (blk_header b) = 30000000" "hd_timestamp (blk_header b) = 1700000000000"
    by (simp_all add: s(1) genesis_header_def sample_genesis_def)
  have rd: "RequiredDifficulty height_crypto (pr_bc sample_producer) (blk_header b) = (Some 1, pr_bc sample_producer)"
    by (simp add: RequiredDifficulty_def requiredDifficultyLocked_def p s(7) wrap_int64_def Let_def)
  have pool: "pr_pool sample_producer = pool_New 10" by (simp add: sample_producer_def NewProducer_def)
  obtain blk fees where bu: "BuildUnsealed height_crypto in_order 1800000000000 sample_producer =
      (Inr (blk, fees), sample_producer\<lparr>pr_bc := pr_bc sample_producer\<rparr>)"
    and f: "hd_height (blk_header blk) = 1" "hd_timestamp (blk_header blk) = 1800000000000"
      "hd_difficulty (blk_header blk) = 1" "hd_nonce (blk_header blk) = 0"
    by (simp add: BuildUnsealed_def StateSnapshot_def head_state_def s(3,6) rd p Let_def build_timestamp_def add64_def)
  have "uint (header_Hash height_crypto (blk_header blk)) \<le> powTarget 1"
    using uint_bounded [of "header_Hash height_crypto (blk_header blk)"] by (simp add: powTarget_def maxTarget_def)
  moreover have nonce: "(blk_header blk)\<lparr>hd_nonce := 0\<rparr> = blk_header blk" using f(4) by (metis header.surjective header.update_convs(11))
  ultimately have m: "mine 1 height_crypto (blk_header blk) (\<lambda>k. False) = Some (True, blk_header blk)"
    unfolding mine_def Grind_def One_nat_def grind_loop.simps Let_def nonce f(3) by simp
  have "block_Hash height_crypto blk \<noteq> block_Hash height_crypto b"
    using f(1) p(1) by (simp add: block_Hash_def height_hash)
  then have "\<not> HasBlock (pr_bc sample_producer) (block_Hash height_crypto blk)"
    by (simp add: HasBlock_def mem.has_get s(4,5) get_init(1))
  moreover have "can_build height_crypto (pr_bc sample_producer) 1800000000000 (pr_pool sample_producer)"
    unfolding can_build_def s(3) p pool using pool_ok_New by (simp add: MinBlockGasLimit_def gas_cap_def pool_New_def)
  ultimately show thesis using that [OF bu] bu m f(2) s(2) by (simp add: Build_def)
qed

theorem template_valid_witness:
  "\<exists>blk fees p1 w rs. BuildUnsealed height_crypto in_order 1800000000000 sample_producer = (Inr (blk, fees), p1) \<and>
    ApplyBlock height_crypto (ch_rewards (pr_bc sample_producer)) (the (head_state height_crypto (pr_bc sample_producer))) blk
      (Some (blk_header (ch_head (pr_bc sample_producer)))) = Inr (w, rs) \<and> fees = miner_fees (blk_txs blk) rs"
  by (rule sample_build) (use template_valid [OF _ fair_in_order] in blast)

theorem mined_block_adopted_witness:
  "\<exists>blk p1 p2. Build height_crypto in_order 1 (\<lambda>k. False) 1800000000000 sample_producer = (Inr blk, p1) \<and>
    Commit height_crypto \<lparr>jio_Create = True, jio_Rename = True, jio_OpenFile = True\<rparr> in_order 1800000000000 p1 blk = (Inr blk, p2) \<and> ch_head (pr_bc p2) = blk"
  proof (rule sample_build)
  fix blk fees p1
  assume a: "Build height_crypto in_order 1 (\<lambda>k. False) 1800000000000 sample_producer = (Inr blk, p1)"
    "can_build height_crypto (pr_bc sample_producer) 1800000000000 (pr_pool sample_producer)"
    "node height_crypto sample_genesis 0 (pr_bc sample_producer)"
    "\<not> HasBlock (pr_bc sample_producer) (block_Hash height_crypto blk)" "hd_timestamp (blk_header blk) = 1800000000000"
  then have "hd_timestamp (blk_header blk) \<le> wrap_int64 (1800000000000 + MaxFutureDriftMs)"
    by (simp add: wrap_int64_def MaxFutureDriftMs_def)
  then show ?thesis using mined_block_adopted [OF a(3) fair_in_order a(2,1,4)] a(1) by blast
qed

end
