(* ===== verification/Gossip.thy ===== *)
theory Gossip
  imports Blockchain Mempool Complex_Main
begin

text \<open>
  Peer scoring (\<^verbatim>\<open>src/p2p/scorer.go\<close>), the per-peer rate limiter (\<^verbatim>\<open>src/p2p/ratelimit.go\<close>), block gossip with its
  orphan queue (\<^verbatim>\<open>src/p2p/gossip.go\<close>) and transaction gossip (\<^verbatim>\<open>src/p2p/txgossip.go\<close>).

  Scores and tokens are \<^verbatim>\<open>float64\<close> in Go and exact rationals here; instants are nanoseconds.  A message is its
  length and what its JSON decodes to.  A panic leaves the handler at that point.  Logging and the publication of messages on the network are left
  out; the signal to the syncer is a result.
\<close>

type_synonym peer_id = string

definition seconds :: "int \<Rightarrow> rat" where
  "seconds ns = of_int ns / 1000000000"

section \<open>The scorer\<close>

record score_entry =
  se_points :: rat
  se_last :: int

record scorer =
  sc_scores :: "(peer_id, score_entry) gomap"
  sc_banAt :: rat
  sc_decay :: rat
  sc_maxTracked :: int

definition DefaultBanThreshold :: int where "DefaultBanThreshold = 50"
definition DefaultScoreDecayPerSecond :: rat where "DefaultScoreDecayPerSecond = 1 / 10"
definition scorerMaxTracked :: int where "scorerMaxTracked = 8192"

definition newScorer :: "int \<Rightarrow> rat \<Rightarrow> int \<Rightarrow> scorer" where
  "newScorer banAt decay maxTracked =
     \<lparr>sc_scores = [], sc_banAt = of_int (if banAt \<le> 0 then DefaultBanThreshold else banAt), sc_decay = decay,
      sc_maxTracked = (if maxTracked < 1 then scorerMaxTracked else maxTracked)\<rparr>"

definition NewScorer :: "int \<Rightarrow> scorer" where
  "NewScorer banAt = newScorer banAt DefaultScoreDecayPerSecond scorerMaxTracked"

definition scorer_current :: "scorer \<Rightarrow> peer_id \<Rightarrow> int \<Rightarrow> rat \<times> scorer" where
  "scorer_current s p now =
     (case map_of (sc_scores s) p of
        None \<Rightarrow> (0, s)
      | Some e \<Rightarrow>
          let elapsed = seconds (now - se_last e);
              e1 = (if elapsed > 0 then \<lparr>se_points = max 0 (se_points e - elapsed * sc_decay s), se_last = now\<rparr> else e)
          in if se_points e1 = 0 then (0, s\<lparr>sc_scores := AList.delete p (sc_scores s)\<rparr>)
             else (se_points e1, s\<lparr>sc_scores := AList.update p e1 (sc_scores s)\<rparr>))"

text \<open>The walk of \<^verbatim>\<open>evict\<close>: entries that decayed to zero are dropped, the oldest of the others is remembered.\<close>

definition evict_step :: "scorer \<Rightarrow> int \<Rightarrow> (peer_id, score_entry) gomap \<times> peer_id \<times> int \<Rightarrow> peer_id \<times> score_entry \<Rightarrow>
    (peer_id, score_entry) gomap \<times> peer_id \<times> int" where
  "evict_step s now = (\<lambda>(scores, oldestID, oldest) (pid, e).
     if max 0 (se_points e - seconds (now - se_last e) * sc_decay s) = 0 then (AList.delete pid scores, oldestID, oldest)
     else if oldestID = [] \<or> se_last e < oldest then (scores, pid, se_last e)
     else (scores, oldestID, oldest))"

definition scorer_evict :: "walk_order \<Rightarrow> scorer \<Rightarrow> int \<Rightarrow> scorer" where
  "scorer_evict wk s now =
     (case foldl (evict_step s now) (sc_scores s, [], 0) (visit wk (sc_scores s)) of
        (scores, oldestID, _) \<Rightarrow>
          s\<lparr>sc_scores := (if int (length scores) \<ge> sc_maxTracked s \<and> oldestID \<noteq> [] then AList.delete oldestID scores
             else scores)\<rparr>)"

definition Penalize :: "walk_order \<Rightarrow> scorer \<Rightarrow> peer_id \<Rightarrow> int \<Rightarrow> int \<Rightarrow> bool \<times> scorer" where
  "Penalize wk s p points now =
     (case scorer_current s p now of (cur, s1) \<Rightarrow>
        let s2 = (if map_of (sc_scores s1) p = None \<and> int (length (sc_scores s1)) \<ge> sc_maxTracked s1
              then scorer_evict wk s1 now else s1);
            total = cur + of_int points
        in (total \<ge> sc_banAt s2,
            s2\<lparr>sc_scores := AList.update p \<lparr>se_points = total, se_last = now\<rparr> (sc_scores s2)\<rparr>))"

definition Banned :: "scorer \<Rightarrow> peer_id \<Rightarrow> int \<Rightarrow> bool \<times> scorer" where
  "Banned s p now = (case scorer_current s p now of (cur, s1) \<Rightarrow> (cur \<ge> sc_banAt s1, s1))"

definition Penalty :: "scorer \<Rightarrow> peer_id \<Rightarrow> int \<Rightarrow> int \<times> scorer" where
  "Penalty s p now = (case scorer_current s p now of (cur, s1) \<Rightarrow> (\<lfloor>cur\<rfloor>, s1))"

section \<open>The rate limiter\<close>

record tokenBucket =
  tb_tokens :: rat
  tb_last :: int

record txRateLimiter =
  rl_buckets :: "(peer_id, tokenBucket) gomap"
  rl_rate :: rat
  rl_burst :: rat
  rl_maxPeers :: int

definition newTxRateLimiter :: "rat \<Rightarrow> rat \<Rightarrow> txRateLimiter" where
  "newTxRateLimiter rate burst =
     (let r = (if rate \<le> 0 then 200 else rate) in
      \<lparr>rl_buckets = [], rl_rate = r, rl_burst = (if burst \<le> 0 then 2 * r else burst), rl_maxPeers = 8192\<rparr>)"

definition oldest_bucket :: "walk_order \<Rightarrow> (peer_id, tokenBucket) gomap \<Rightarrow> (peer_id \<times> int) option" where
  "oldest_bucket wk buckets =
     foldl (\<lambda>acc (pid, bk). case acc of
         None \<Rightarrow> Some (pid, tb_last bk)
       | Some (_, t) \<Rightarrow> if tb_last bk < t then Some (pid, tb_last bk) else acc) None (visit wk buckets)"

definition allow :: "walk_order \<Rightarrow> txRateLimiter \<Rightarrow> peer_id \<Rightarrow> int \<Rightarrow> bool \<times> txRateLimiter" where
  "allow wk r p now =
     (let r1 = (if map_of (rl_buckets r) p = None \<and> rl_maxPeers r > 0 \<and> int (length (rl_buckets r)) \<ge> rl_maxPeers r
            then r\<lparr>rl_buckets := (case oldest_bucket wk (rl_buckets r) of
                None \<Rightarrow> AList.delete [] (rl_buckets r) | Some (oldest, _) \<Rightarrow> AList.delete oldest (rl_buckets r))\<rparr> else r);
          b = (case map_of (rl_buckets r) p of None \<Rightarrow> \<lparr>tb_tokens = rl_burst r, tb_last = now\<rparr> | Some b \<Rightarrow> b);
          elapsed = seconds (now - tb_last b);
          b1 = (if elapsed > 0 then \<lparr>tb_tokens = min (tb_tokens b + elapsed * rl_rate r) (rl_burst r), tb_last = now\<rparr> else b);
          ok = (tb_tokens b1 \<ge> 1);
          b2 = (if ok then b1\<lparr>tb_tokens := tb_tokens b1 - 1\<rparr> else b1)
      in (ok, r1\<lparr>rl_buckets := AList.update p b2 (rl_buckets r1)\<rparr>))"

definition forget :: "txRateLimiter \<Rightarrow> peer_id \<Rightarrow> txRateLimiter" where
  "forget r p = r\<lparr>rl_buckets := AList.delete p (rl_buckets r)\<rparr>"

section \<open>Block gossip\<close>

definition maxBlockMessage :: nat where "maxBlockMessage = 8 * 2 ^ 20"
definition DefaultMaxOrphans :: int where "DefaultMaxOrphans = 256"
definition DefaultMaxOrphanBytes :: int where "DefaultMaxOrphanBytes = 32 * 2 ^ 20"

record orphanEntry =
  oe_blk :: block
  oe_from :: peer_id
  oe_size :: int

record gossip_stats =
  gs_Received :: nat
  gs_FastDuplicate :: nat
  gs_LateDuplicate :: nat
  gs_Accepted :: nat
  gs_Orphaned :: nat
  gs_Evicted :: nat
  gs_Rejected :: nat
  gs_Dropped :: nat
  gs_Deferred :: nat

record gossip =
  go_bc :: blockchain
  go_scorer :: "scorer option"
  go_maxOrphans :: int
  go_maxOrphansPerPeer :: int
  go_maxOrphanBytes :: int
  go_orphans :: "(hash, orphanEntry list) gomap"
  go_orphansByPeer :: "(peer_id, int) gomap"
  go_orphanOrder :: "hash list"
  go_orphanCount :: int
  go_orphanBytes :: int
  go_Stats :: gossip_stats

datatype gossip_error = ErrMessageTooLarge | ErrBadEncoding | ErrRejected chain_error | ErrGossipPanic

text \<open>What the JSON of a block message decodes to.\<close>

datatype block_message = Malformed | NilBlock | BlockMessage block

definition orphanBytesOf :: "block \<Rightarrow> int" where
  "orphanBytesOf blk = foldl (\<lambda>n tx. n + (160 + int (length (tx_data tx)))) 256 (blk_txs blk)"

text \<open>\<open>maxOrphans\<close>, the quota per peer and the byte budget are what the options set; 0 selects the defaults.\<close>

definition NewGossip :: "blockchain \<Rightarrow> scorer option \<Rightarrow> int \<Rightarrow> int \<Rightarrow> int \<Rightarrow> gossip" where
  "NewGossip bc sc maxOrphans perPeer maxBytes =
     \<lparr>go_bc = bc, go_scorer = sc, go_maxOrphans = maxOrphans,
      go_maxOrphansPerPeer = (if perPeer = 0 then (if maxOrphans \<ge> 0 then maxOrphans div 4 else - (- maxOrphans div 4)) + 1 else perPeer),
      go_maxOrphanBytes = (if maxBytes = 0 then DefaultMaxOrphanBytes else maxBytes),
      go_orphans = [], go_orphansByPeer = [], go_orphanOrder = [], go_orphanCount = 0, go_orphanBytes = 0,
      go_Stats = \<lparr>gs_Received = 0, gs_FastDuplicate = 0, gs_LateDuplicate = 0, gs_Accepted = 0, gs_Orphaned = 0,
        gs_Evicted = 0, gs_Rejected = 0, gs_Dropped = 0, gs_Deferred = 0\<rparr>\<rparr>"

definition penalize :: "walk_order \<Rightarrow> int \<Rightarrow> gossip \<Rightarrow> peer_id \<Rightarrow> gossip" where
  "penalize wk now g from =
     g\<lparr>go_Stats := (go_Stats g)\<lparr>gs_Rejected := gs_Rejected (go_Stats g) + 1\<rparr>,
       go_scorer := map_option (\<lambda>s. snd (Penalize wk s from 1 now)) (go_scorer g)\<rparr>"

text \<open>Take one entry off the tallies; a peer with none left is forgotten.\<close>

definition refund :: "gossip \<Rightarrow> orphanEntry \<Rightarrow> gossip" where
  "refund g e =
     (let n = (case map_of (go_orphansByPeer g) (oe_from e) of None \<Rightarrow> 0 | Some k \<Rightarrow> k) - 1 in
      g\<lparr>go_orphanBytes := go_orphanBytes g - oe_size e,
        go_orphansByPeer := (if n \<le> 0 then AList.delete (oe_from e) (go_orphansByPeer g)
          else AList.update (oe_from e) n (go_orphansByPeer g))\<rparr>)"

definition evict_entry :: "gossip \<Rightarrow> orphanEntry \<Rightarrow> gossip" where
  "evict_entry g e =
     (let g1 = refund g e in
      g1\<lparr>go_orphanCount := go_orphanCount g1 - 1,
         go_Stats := (go_Stats g1)\<lparr>gs_Evicted := gs_Evicted (go_Stats g1) + 1\<rparr>\<rparr>)"

definition waiting_for :: "gossip \<Rightarrow> hash \<Rightarrow> orphanEntry list" where
  "waiting_for g h = (case map_of (go_orphans g) h of None \<Rightarrow> [] | Some es \<Rightarrow> es)"

text \<open>Evict the oldest groups, in the given order, until the newcomer fits or none is left.\<close>

fun make_room :: "int \<Rightarrow> gossip \<Rightarrow> hash list \<Rightarrow> gossip" where
  "make_room sz g [] = g\<lparr>go_orphanOrder := []\<rparr>"
| "make_room sz g (oldest # order) =
     (if go_orphanCount g \<ge> go_maxOrphans g \<or> go_orphanBytes g + sz > go_maxOrphanBytes g
      then let g1 = foldl evict_entry g (waiting_for g oldest)
           in make_room sz (g1\<lparr>go_orphans := AList.delete oldest (go_orphans g1)\<rparr>) order
      else g\<lparr>go_orphanOrder := oldest # order\<rparr>)"

definition park :: "gossip \<Rightarrow> block \<Rightarrow> peer_id \<Rightarrow> int \<Rightarrow> gossip" where
  "park g blk from sz =
     (let parent = blk_parent blk in
      g\<lparr>go_orphanOrder := (if map_of (go_orphans g) parent = None then go_orphanOrder g @ [parent] else go_orphanOrder g),
        go_orphans := AList.update parent (waiting_for g parent @ [\<lparr>oe_blk = blk, oe_from = from, oe_size = sz\<rparr>]) (go_orphans g),
        go_orphansByPeer := AList.update from
          ((case map_of (go_orphansByPeer g) from of None \<Rightarrow> 0 | Some k \<Rightarrow> k) + 1) (go_orphansByPeer g),
        go_orphanCount := go_orphanCount g + 1, go_orphanBytes := go_orphanBytes g + sz,
        go_Stats := (go_Stats g)\<lparr>gs_Orphaned := gs_Orphaned (go_Stats g) + 1\<rparr>\<rparr>)"

definition queueOrphan :: "crypto \<Rightarrow> walk_order \<Rightarrow> int \<Rightarrow> gossip \<Rightarrow> block \<Rightarrow> peer_id \<Rightarrow> gossip" where
  "queueOrphan E wk now g blk from =
     (if \<exists>e \<in> set (waiting_for g (blk_parent blk)). block_Hash E (oe_blk e) = block_Hash E blk then g
      else if (case map_of (go_orphansByPeer g) from of None \<Rightarrow> 0 | Some k \<Rightarrow> k) \<ge> go_maxOrphansPerPeer g
      then penalize wk now g from
      else let sz = orphanBytesOf blk; g1 = make_room sz g (go_orphanOrder g) in
        if go_orphanBytes g1 + sz > go_maxOrphanBytes g1 then penalize wk now g1 from
        else park g1 blk from sz)"

text \<open>Take the blocks waiting for \<open>h\<close> out of the queue.\<close>

definition release :: "gossip \<Rightarrow> hash \<Rightarrow> gossip" where
  "release g h =
     (let es = waiting_for g h in
      if es = [] then g
      else let g1 = foldl refund (g\<lparr>go_orphans := AList.delete h (go_orphans g),
                 go_orphanCount := go_orphanCount g - int (length es)\<rparr>) es
           in g1\<lparr>go_orphanOrder := remove1 h (go_orphanOrder g1)\<rparr>)"

text \<open>Insert the released blocks; the result is the hashes of those accepted, \<open>None\<close> when an insertion panics.\<close>

fun insert_waiting :: "crypto \<Rightarrow> walk_order \<Rightarrow> int \<Rightarrow> gossip \<Rightarrow> hash list \<Rightarrow> orphanEntry list \<Rightarrow> hash list option \<times> gossip" where
  "insert_waiting E wk now g hs [] = (Some hs, g)"
| "insert_waiting E wk now g hs (e # es) =
     (case InsertBlock E (now div 1000000) (go_bc g) (oe_blk e) of
        (Some err, _, bc1) \<Rightarrow>
          let g1 = g\<lparr>go_bc := bc1\<rparr> in
          if err = ErrPanic then (None, g1)
          else insert_waiting E wk now (if err = ErrKnownBlock then g1 else penalize wk now g1 (oe_from e)) hs es
      | (None, _, bc1) \<Rightarrow>
          insert_waiting E wk now
            (g\<lparr>go_bc := bc1, go_Stats := (go_Stats g)\<lparr>gs_Accepted := gs_Accepted (go_Stats g) + 1\<rparr>\<rparr>)
            (hs @ [block_Hash E (oe_blk e)]) es)"

text \<open>The loop over the queue; every pass takes an entry off the queue or an orphan off the map.\<close>

function resolve :: "crypto \<Rightarrow> walk_order \<Rightarrow> int \<Rightarrow> gossip \<Rightarrow> hash list \<Rightarrow> bool \<times> gossip" where
  "resolve E wk now g [] = (True, g)"
| "resolve E wk now g (h # queue) =
     (case insert_waiting E wk now (release g h) queue (waiting_for g h) of
        (None, g1) \<Rightarrow> (False, g1)
      | (Some queue1, g1) \<Rightarrow> resolve E wk now g1 queue1)"
  by pat_completeness auto

definition orphan_total :: "gossip \<Rightarrow> nat" where
  "orphan_total g = sum_list (map (length \<circ> snd) (go_orphans g))"

lemma insert_waiting_keeps:
  "insert_waiting E wk now g hs es = (r, g1) \<Longrightarrow>
    go_orphans g1 = go_orphans g \<and> (\<forall>q. r = Some q \<longrightarrow> length q \<le> length hs + length es)"
proof (induction es arbitrary: g hs)
  case (Cons e es)
  obtain err ro bc1 where i: "InsertBlock E (now div 1000000) (go_bc g) (oe_blk e) = (err, ro, bc1)" by (rule prod_cases3)
  show ?case
  proof (cases err)
    case None
    then show ?thesis
      using Cons.IH [of "g\<lparr>go_bc := bc1, go_Stats := (go_Stats g)\<lparr>gs_Accepted := gs_Accepted (go_Stats g) + 1\<rparr>\<rparr>"
          "hs @ [block_Hash E (oe_blk e)]"] Cons.prems i by simp
  next
    case (Some x)
    then show ?thesis
      using Cons.IH [of "g\<lparr>go_bc := bc1\<rparr>" hs] Cons.IH [of "penalize wk now (g\<lparr>go_bc := bc1\<rparr>) (oe_from e)" hs] Cons.prems i
      by (fastforce simp: Let_def penalize_def split: if_splits)
  qed
qed auto

lemma total_delete: "sum_list (map (length \<circ> snd) (AList.delete h xs)) + length (case map_of xs h of None \<Rightarrow> [] | Some es \<Rightarrow> es) \<le>
    sum_list (map (length \<circ> snd) xs)"
  by (induction xs) (auto split: option.splits)

lemma refund_keeps: "go_orphans (foldl refund g es) = go_orphans g"
  by (induction es arbitrary: g) (auto simp: refund_def Let_def)

lemma release_total: "orphan_total (release g h) + length (waiting_for g h) \<le> orphan_total g"
  using total_delete [of h "go_orphans g"]
  by (auto simp: orphan_total_def release_def Let_def refund_keeps waiting_for_def split: option.splits)

termination resolve
proof (relation "measure (\<lambda>(E, wk, now, g, queue). length queue + orphan_total g)", goal_cases)
  case (2 E wk now g h queue r g1 q)
  then have "go_orphans g1 = go_orphans (release g h) \<and> length q \<le> length queue + length (waiting_for g h)"
    using insert_waiting_keeps [of E wk now "release g h" queue "waiting_for g h" "Some q" g1] by auto
  then show ?case using release_total [of g h] by (simp add: orphan_total_def)
qed simp

definition resolveOrphans :: "crypto \<Rightarrow> walk_order \<Rightarrow> int \<Rightarrow> gossip \<Rightarrow> hash \<Rightarrow> bool \<times> gossip" where
  "resolveOrphans E wk now g parent = resolve E wk now g [parent]"

text \<open>The second result is the gap signal.\<close>

definition gossip_insert :: "crypto \<Rightarrow> walk_order \<Rightarrow> int \<Rightarrow> gossip \<Rightarrow> block \<Rightarrow> peer_id \<Rightarrow> gossip_error option \<times> bool \<times> gossip" where
  "gossip_insert E wk now g blk from =
     (case InsertBlock E (now div 1000000) (go_bc g) blk of (err, _, bc1) \<Rightarrow>
        let g1 = g\<lparr>go_bc := bc1\<rparr>; st = go_Stats g in
        case err of
          None \<Rightarrow>
            (case resolveOrphans E wk now (g1\<lparr>go_Stats := st\<lparr>gs_Accepted := gs_Accepted st + 1\<rparr>\<rparr>) (block_Hash E blk) of
               (ok, g2) \<Rightarrow> (if ok then None else Some ErrGossipPanic, False, g2))
        | Some e \<Rightarrow>
            if e = ErrKnownBlock then (None, False, g1\<lparr>go_Stats := st\<lparr>gs_LateDuplicate := gs_LateDuplicate st + 1\<rparr>\<rparr>)
            else if e = ErrFutureBlock then (None, False, g1\<lparr>go_Stats := st\<lparr>gs_Deferred := gs_Deferred st + 1\<rparr>\<rparr>)
            else if e = ErrUnknownParent then (None, True, queueOrphan E wk now g1 blk from)
            else if e = ErrReorgTooDeep then (None, False, g1)
            else if e = ErrPanic then (Some ErrGossipPanic, False, g1)
            else (Some (ErrRejected e), False, penalize wk now g1 from))"

definition gossip_banned :: "int \<Rightarrow> gossip \<Rightarrow> peer_id \<Rightarrow> bool \<times> gossip" where
  "gossip_banned now g from =
     (case go_scorer g of
        None \<Rightarrow> (False, g)
      | Some s \<Rightarrow> (case Banned s from now of (b, s1) \<Rightarrow> (b, g\<lparr>go_scorer := Some s1\<rparr>)))"

definition onBlock :: "crypto \<Rightarrow> walk_order \<Rightarrow> int \<Rightarrow> gossip \<Rightarrow> peer_id \<Rightarrow> nat \<Rightarrow> block_message \<Rightarrow>
    gossip_error option \<times> bool \<times> gossip" where
  "onBlock E wk now g from len msg =
     (case gossip_banned now g from of (banned, g0) \<Rightarrow>
        let st = go_Stats g0 in
        if banned then (None, False, g0\<lparr>go_Stats := st\<lparr>gs_Dropped := gs_Dropped st + 1\<rparr>\<rparr>)
        else
          let g1 = g0\<lparr>go_Stats := st\<lparr>gs_Received := gs_Received st + 1\<rparr>\<rparr>; st1 = go_Stats g1 in
          if len > maxBlockMessage then (Some ErrMessageTooLarge, False, penalize wk now g1 from)
          else case msg of
            BlockMessage blk \<Rightarrow>
              if HasBlock (go_bc g1) (block_Hash E blk)
              then (None, False, g1\<lparr>go_Stats := st1\<lparr>gs_FastDuplicate := gs_FastDuplicate st1 + 1\<rparr>\<rparr>)
              else gossip_insert E wk now g1 blk from
          | _ \<Rightarrow> (Some ErrBadEncoding, False, penalize wk now g1 from))"

section \<open>Transaction gossip\<close>

definition maxTxMessage :: nat where "maxTxMessage = 128 * 2 ^ 10"

record txgossip =
  tg_bc :: blockchain
  tg_pool :: mempool
  tg_scorer :: "scorer option"
  tg_limiter :: txRateLimiter
  tg_Received :: nat
  tg_Duplicate :: nat
  tg_Accepted :: nat
  tg_Rejected :: nat
  tg_Dropped :: nat

datatype tx_gossip_error = ErrTxMessageTooLarge | ErrBadTxEncoding | ErrTransient pool_error | ErrInvalid pool_error | ErrTxPanic

text \<open>\<^verbatim>\<open>Accept\<close>: the admission gate of remote and local transactions.\<close>

definition tg_Accept :: "crypto \<Rightarrow> walk_order \<Rightarrow> txgossip \<Rightarrow> tx \<Rightarrow> pool_error option \<times> txgossip" where
  "tg_Accept E wk tg tx =
     (if pool_Get (tg_pool tg) (tx_Hash E tx) \<noteq> None then (Some ErrAlreadyKnown, tg)
      else case tx_SanityCheck E tx (ch_chainID (tg_bc tg)) of
        Inl e \<Rightarrow> (Some (ErrTxInvalid e), tg)
      | Inr _ \<Rightarrow>
          (case StateSnapshot E (tg_bc tg) of
             None \<Rightarrow> (Some ErrPoolPanic, tg)
           | Some w \<Rightarrow>
               (case CheckState E w tx of
                  Some e \<Rightarrow> (Some e, tg)
                | None \<Rightarrow>
                    (case pool_Add E wk (tg_pool tg) tx (ch_chainID (tg_bc tg)) of (err, m1) \<Rightarrow>
                       (err, tg\<lparr>tg_pool := m1\<rparr>)))))"

definition isTransientReject :: "pool_error \<Rightarrow> bool" where
  "isTransientReject e \<longleftrightarrow> e = ErrPoolFull \<or> e = ErrNonceUsed \<or> e = ErrNonceStale \<or> e = ErrCannotPay \<or> e = ErrUnderpriced"

definition tg_penalize :: "walk_order \<Rightarrow> int \<Rightarrow> txgossip \<Rightarrow> peer_id \<Rightarrow> txgossip" where
  "tg_penalize wk now tg from =
     tg\<lparr>tg_Rejected := tg_Rejected tg + 1, tg_scorer := map_option (\<lambda>s. snd (Penalize wk s from 1 now)) (tg_scorer tg)\<rparr>"

text \<open>The message is what its JSON decodes to, \<open>None\<close> when it does not or carries no transaction.\<close>

definition onTx :: "crypto \<Rightarrow> walk_order \<Rightarrow> int \<Rightarrow> txgossip \<Rightarrow> peer_id \<Rightarrow> nat \<Rightarrow> tx option \<Rightarrow> tx_gossip_error option \<times> txgossip" where
  "onTx E wk now tg from len msg =
     (case (case tg_scorer tg of None \<Rightarrow> (False, tg)
        | Some s \<Rightarrow> (case Banned s from now of (b, s1) \<Rightarrow> (b, tg\<lparr>tg_scorer := Some s1\<rparr>))) of (banned, tg0) \<Rightarrow>
      if banned then (None, tg0\<lparr>tg_Dropped := tg_Dropped tg0 + 1\<rparr>)
      else case allow wk (tg_limiter tg0) from now of (ok, rl) \<Rightarrow>
        let tg1 = tg0\<lparr>tg_limiter := rl\<rparr> in
        if \<not> ok then (None, tg1\<lparr>tg_Dropped := tg_Dropped tg1 + 1\<rparr>)
        else
          let tg2 = tg1\<lparr>tg_Received := tg_Received tg1 + 1\<rparr> in
          if len > maxTxMessage then (Some ErrTxMessageTooLarge, tg_penalize wk now tg2 from)
          else case msg of
            None \<Rightarrow> (Some ErrBadTxEncoding, tg_penalize wk now tg2 from)
          | Some tx \<Rightarrow>
              (case tg_Accept E wk tg2 tx of
                 (None, tg3) \<Rightarrow> (None, tg3\<lparr>tg_Accepted := tg_Accepted tg3 + 1\<rparr>)
               | (Some e, tg3) \<Rightarrow>
                   if e = ErrAlreadyKnown then (None, tg3\<lparr>tg_Duplicate := tg_Duplicate tg3 + 1\<rparr>)
                   else if e = ErrPoolPanic then (Some ErrTxPanic, tg3)
                   else if isTransientReject e then (Some (ErrTransient e), tg3\<lparr>tg_Dropped := tg_Dropped tg3 + 1\<rparr>)
                   else (Some (ErrInvalid e), tg_penalize wk now tg3 from)))"

end
