(* ===== verification/Gossip_Laws.thy ===== *)
theory Gossip_Laws
  imports Gossip Mempool_Laws
begin

text \<open>
  The orphan queue.  The parked blocks are the multiset of the entries in the map; the count, the byte
  total and the tally of each peer are functions of it, kept by every operation on the queue.
\<close>

section \<open>Entries and tallies\<close>

definition entries :: "(hash, orphanEntry list) gomap \<Rightarrow> orphanEntry multiset" where
  "entries os = mset (concat (map snd os))"

definition of_peer :: "orphanEntry multiset \<Rightarrow> peer_id \<Rightarrow> nat" where
  "of_peer M p = size (filter_mset (\<lambda>e. oe_from e = p) M)"

definition total_bytes :: "orphanEntry multiset \<Rightarrow> int" where
  "total_bytes M = sum_mset (image_mset oe_size M)"

definition tally_ok :: "orphanEntry multiset \<Rightarrow> gossip \<Rightarrow> bool" where
  "tally_ok M g \<longleftrightarrow> go_orphanBytes g = total_bytes M \<and>
     (\<forall>p. map_of (go_orphansByPeer g) p = (if of_peer M p = 0 then None else Some (int (of_peer M p))))"

lemma entries_simps [simp]:
  "entries [] = {#}" "entries (x # os) = mset (snd x) + entries os" "of_peer {#} p = 0" "total_bytes {#} = 0"
  "of_peer (add_mset e M) p = of_peer M p + (if oe_from e = p then 1 else 0)"
  "total_bytes (add_mset e M) = oe_size e + total_bytes M"
  by (simp_all add: entries_def of_peer_def total_bytes_def)

lemma entries_delete:
  "distinct (map fst os) \<Longrightarrow>
    entries os = mset (case map_of os h of None \<Rightarrow> [] | Some es \<Rightarrow> es) + entries (AList.delete h os)"
proof (induction os)
  case (Cons x os)
  then show ?case by (cases "fst x = h") (simp_all add: delete_idem ac_simps)
qed simp

lemma entries_update:
  "distinct (map fst os) \<Longrightarrow>
    entries (AList.update h ((case map_of os h of None \<Rightarrow> [] | Some es \<Rightarrow> es) @ [e]) os) = add_mset e (entries os)"
proof (induction os)
  case (Cons x os)
  then show ?case by (cases x) simp
qed simp

lemma map_of_subset:
  "set xs \<subseteq> set ys \<Longrightarrow> distinct (map fst ys) \<Longrightarrow> map_of xs k = None \<or> map_of xs k = map_of ys k"
  using map_of_SomeD [of xs k] by (cases "map_of xs k") auto

section \<open>Refunds\<close>

abbreviation queue_rest :: "gossip \<Rightarrow> (hash, orphanEntry list) gomap \<times> hash list \<times> int \<times> int \<times> int" where
  "queue_rest g \<equiv> (go_orphans g, go_orphanOrder g, go_maxOrphans g, go_maxOrphansPerPeer g, go_maxOrphanBytes g)"

lemma refund_tally: "tally_ok (add_mset e M) g \<Longrightarrow> tally_ok M (refund g e)"
  by (auto simp: tally_ok_def refund_def Let_def delete_conv' update_conv')

lemma refunds_tally: "tally_ok (mset es + M) g \<Longrightarrow> tally_ok M (foldl refund g es)"
  by (induction es arbitrary: g) (simp_all add: refund_tally)

lemma refunds_keep:
  "queue_rest (foldl refund g es) = queue_rest g" "go_orphanCount (foldl refund g es) = go_orphanCount g"
  by (induction es arbitrary: g) (auto simp: refund_def Let_def)

lemma refund_other:
  "refund (x\<lparr>go_orphans := a, go_orphanCount := c\<rparr>) e = (refund x e)\<lparr>go_orphans := a, go_orphanCount := c\<rparr>"
  by (simp add: refund_def Let_def)

lemma evict_tally: "tally_ok (add_mset e M) g \<Longrightarrow> tally_ok M (evict_entry g e)"
  using refund_tally by (simp add: evict_entry_def Let_def tally_ok_def)

lemma evicts_tally: "tally_ok (mset es + M) g \<Longrightarrow> tally_ok M (foldl evict_entry g es)"
  by (induction es arbitrary: g) (simp_all add: evict_tally)

lemma evicts_keep:
  "queue_rest (foldl evict_entry g es) = queue_rest g"
  "go_orphanCount (foldl evict_entry g es) = go_orphanCount g - int (length es)"
  by (induction es arbitrary: g) (auto simp: evict_entry_def refund_def Let_def)

section \<open>The invariant\<close>

text \<open>A group holds distinct blocks of the parent it is filed under, each charged its size.\<close>

definition group_ok :: "crypto \<Rightarrow> hash \<times> orphanEntry list \<Rightarrow> bool" where
  "group_ok E = (\<lambda>(h, es). distinct (map (\<lambda>e. block_Hash E (oe_blk e)) es) \<and>
     (\<forall>e \<in> set es. blk_parent (oe_blk e) = h \<and> oe_size e = orphanBytesOf (oe_blk e)))"

definition queue_ok :: "crypto \<Rightarrow> gossip \<Rightarrow> bool" where
  "queue_ok E g \<longleftrightarrow> distinct (map fst (go_orphans g)) \<and> (\<forall>x \<in> set (go_orphans g). group_ok E x) \<and>
     distinct (go_orphanOrder g) \<and> set (go_orphanOrder g) = fst ` set (go_orphans g) \<and>
     tally_ok (entries (go_orphans g)) g \<and> go_orphanCount g = int (size (entries (go_orphans g)))"

definition within_limits :: "gossip \<Rightarrow> bool" where
  "within_limits g \<longleftrightarrow> go_orphanCount g \<le> max 1 (go_maxOrphans g) \<and> go_orphanBytes g \<le> max 0 (go_maxOrphanBytes g) \<and>
     (\<forall>p. int (of_peer (entries (go_orphans g)) p) \<le> max 0 (go_maxOrphansPerPeer g))"

abbreviation queue_part :: "gossip \<Rightarrow> _" where
  "queue_part g \<equiv> (queue_rest g, go_orphansByPeer g, go_orphanCount g, go_orphanBytes g)"

lemma queue_ok_cong: "queue_part g = queue_part g' \<Longrightarrow> queue_ok E g = queue_ok E g' \<and> within_limits g = within_limits g'"
  by (simp add: queue_ok_def within_limits_def tally_ok_def)

lemma group_delete: "\<forall>x \<in> set os. group_ok E x \<Longrightarrow> \<forall>x \<in> set (AList.delete h os). group_ok E x"
  by (auto simp: AList.delete_eq)

lemma keys_delete: "fst ` set (AList.delete h os) = fst ` set os - {h}"
  by (auto simp: AList.delete_eq image_iff)

lemma drop_group:
  assumes ok: "queue_ok E g" and g1: "queue_rest g1 = queue_rest g"
    and t: "\<And>M. tally_ok (mset (waiting_for g h) + M) g \<Longrightarrow> tally_ok M g1"
    and c: "go_orphanCount g1 = go_orphanCount g - int (length (waiting_for g h))"
    and o: "distinct order" "set order = fst ` set (go_orphans g) - {h}"
  shows "queue_ok E (g1\<lparr>go_orphans := AList.delete h (go_orphans g1), go_orphanOrder := order\<rparr>)"
    "entries (go_orphans g) = mset (waiting_for g h) + entries (AList.delete h (go_orphans g))"
proof -
  show e: "entries (go_orphans g) = mset (waiting_for g h) + entries (AList.delete h (go_orphans g))"
    using entries_delete ok by (simp add: queue_ok_def waiting_for_def)
  have "tally_ok (entries (AList.delete h (go_orphans g))) g1" using t ok e by (simp add: queue_ok_def)
  then show "queue_ok E (g1\<lparr>go_orphans := AList.delete h (go_orphans g1), go_orphanOrder := order\<rparr>)"
    using ok g1 o c group_delete [of "go_orphans g" E h] e
    by (simp add: queue_ok_def tally_ok_def keys_delete distinct_delete)
qed

lemma of_peer_mono: "of_peer M p \<le> of_peer (N + M) p"
  by (simp add: of_peer_def)

lemma total_bytes_mono: "(\<And>e. e \<in># N \<Longrightarrow> 0 \<le> oe_size e) \<Longrightarrow> total_bytes M \<le> total_bytes (N + M)"
  by (induction N) (auto simp: add_increasing)

lemma orphanBytesOf_pos: "0 < orphanBytesOf blk"
proof -
  have "0 < n \<Longrightarrow> 0 < foldl (\<lambda>n tx. n + (160 + int (length (tx_data tx)))) n txs" for n and txs :: "tx list"
    by (induction txs arbitrary: n) simp_all
  then show ?thesis by (simp add: orphanBytesOf_def)
qed

section \<open>Eviction, parking, release\<close>

lemma make_room_ok:
  fixes sz g order
  assumes "queue_ok E (g\<lparr>go_orphanOrder := order\<rparr>)"
  defines "g' \<equiv> make_room sz g order"
  shows "queue_ok E g'" "go_maxOrphans g' = go_maxOrphans g" "go_maxOrphanBytes g' = go_maxOrphanBytes g"
    "go_maxOrphansPerPeer g' = go_maxOrphansPerPeer g"
    "go_orphanCount g' < go_maxOrphans g \<and> go_orphanBytes g' + sz \<le> go_maxOrphanBytes g \<or> go_orphans g' = []"
    "\<exists>N. entries (go_orphans g) = N + entries (go_orphans g')" "set (go_orphans g') \<subseteq> set (go_orphans g)"
proof -
  have "queue_ok E g' \<and> go_maxOrphans g' = go_maxOrphans g \<and> go_maxOrphanBytes g' = go_maxOrphanBytes g \<and>
    go_maxOrphansPerPeer g' = go_maxOrphansPerPeer g \<and>
    (go_orphanCount g' < go_maxOrphans g \<and> go_orphanBytes g' + sz \<le> go_maxOrphanBytes g \<or> go_orphans g' = []) \<and>
    (\<exists>N. entries (go_orphans g) = N + entries (go_orphans g')) \<and> set (go_orphans g') \<subseteq> set (go_orphans g)"
    using assms(1) unfolding g'_def
  proof (induction sz g order rule: make_room.induct)
    case (1 sz g)
    then show ?case by (auto simp: queue_ok_def)
  next
    case (2 sz g oldest order)
    let ?g0 = "g\<lparr>go_orphanOrder := oldest # order\<rparr>"
    let ?g1 = "foldl evict_entry g (waiting_for g oldest)"
    let ?g2 = "?g1\<lparr>go_orphans := AList.delete oldest (go_orphans ?g1)\<rparr>"
    have k: "queue_rest ?g1 = queue_rest g" "go_orphanCount ?g1 = go_orphanCount g - int (length (waiting_for g oldest))"
      by (rule evicts_keep)+
    have w: "waiting_for ?g0 oldest = waiting_for g oldest" by (simp add: waiting_for_def)
    have o: "distinct order" "set order = fst ` set (go_orphans ?g0) - {oldest}"
      using 2(2) by (auto simp: queue_ok_def)
    have t: "tally_ok M (?g1\<lparr>go_orphanOrder := oldest # order\<rparr>)" if "tally_ok (mset (waiting_for ?g0 oldest) + M) ?g0" for M
      using evicts_tally [of "waiting_for g oldest" M g] that w by (simp add: tally_ok_def)
    have "queue_rest (?g1\<lparr>go_orphanOrder := oldest # order\<rparr>) = queue_rest ?g0"
      "go_orphanCount (?g1\<lparr>go_orphanOrder := oldest # order\<rparr>) = go_orphanCount ?g0 - int (length (waiting_for ?g0 oldest))"
      using k w by simp_all
    note d = drop_group [OF 2(2) this(1) t this(2) o]
    have q: "queue_ok E (?g2\<lparr>go_orphanOrder := order\<rparr>)" using d(1) by simp
    have e: "entries (go_orphans g) = mset (waiting_for g oldest) + entries (AList.delete oldest (go_orphans g))"
      using d(2) w by simp
    show ?case
    proof (cases "go_orphanCount g \<ge> go_maxOrphans g \<or> go_orphanBytes g + sz > go_maxOrphanBytes g")
      case True
      have f: "go_maxOrphans ?g2 = go_maxOrphans g" "go_maxOrphanBytes ?g2 = go_maxOrphanBytes g"
        "go_maxOrphansPerPeer ?g2 = go_maxOrphansPerPeer g" "go_orphans ?g2 = AList.delete oldest (go_orphans g)"
        using k by simp_all
      have "set (AList.delete oldest (go_orphans g)) \<subseteq> set (go_orphans g)" by (auto simp: AList.delete_eq)
      with 2(1) [OF True refl q] True e show ?thesis
        unfolding f by (auto simp: Let_def union_assoc)
    next
      case False
      then show ?thesis using 2(2) by (auto simp: not_le not_less)
    qed
  qed
  then show "queue_ok E g'" "go_maxOrphans g' = go_maxOrphans g" "go_maxOrphanBytes g' = go_maxOrphanBytes g"
    "go_maxOrphansPerPeer g' = go_maxOrphansPerPeer g"
    "go_orphanCount g' < go_maxOrphans g \<and> go_orphanBytes g' + sz \<le> go_maxOrphanBytes g \<or> go_orphans g' = []"
    "\<exists>N. entries (go_orphans g) = N + entries (go_orphans g')" "set (go_orphans g') \<subseteq> set (go_orphans g)"
    by blast+
qed


lemma park_fields:
  "go_orphans (park g blk p sz) =
    AList.update (blk_parent blk) (waiting_for g (blk_parent blk) @ [\<lparr>oe_blk = blk, oe_from = p, oe_size = sz\<rparr>]) (go_orphans g)"
  "go_orphanCount (park g blk p sz) = go_orphanCount g + 1"
  by (simp_all add: park_def Let_def)

lemma park_ok:
  assumes ok: "queue_ok E g"
    and new: "\<forall>e \<in> set (waiting_for g (blk_parent blk)). block_Hash E (oe_blk e) \<noteq> block_Hash E blk"
  shows "queue_ok E (park g blk p (orphanBytesOf blk))"
    "entries (go_orphans (park g blk p sz)) = add_mset \<lparr>oe_blk = blk, oe_from = p, oe_size = sz\<rparr> (entries (go_orphans g))"
proof -
  let ?h = "blk_parent blk" and ?os = "go_orphans g"
  let ?e = "\<lambda>sz. \<lparr>oe_blk = blk, oe_from = p, oe_size = sz\<rparr>"
  let ?es = "\<lambda>sz. waiting_for g ?h @ [?e sz]"
  have d: "distinct (map fst ?os)" "\<forall>x \<in> set ?os. group_ok E x" using ok by (auto simp: queue_ok_def)
  have e: "entries (AList.update ?h (?es sz) ?os) = add_mset (?e sz) (entries ?os)" for sz
    using entries_update [OF d(1)] by (simp add: waiting_for_def)
  show "entries (go_orphans (park g blk p sz)) = add_mset (?e sz) (entries ?os)" using e by (simp add: park_def Let_def)
  have w: "group_ok E (?h, waiting_for g ?h)"
    using d(2) by (auto simp: waiting_for_def group_ok_def dest: map_of_SomeD split: option.split)
  then have w': "group_ok E (?h, ?es (orphanBytesOf blk))" using new by (auto simp: group_ok_def)
  have "\<forall>x \<in> set (AList.update ?h (?es (orphanBytesOf blk)) ?os). group_ok E x"
    using d w' set_update_subset [of ?h "?es (orphanBytesOf blk)" ?os] by blast
  moreover have "map_of ?os ?h = None \<longleftrightarrow> ?h \<notin> set (go_orphanOrder g)"
    using ok by (auto simp: queue_ok_def map_of_eq_None_iff)
  moreover have "tally_ok (add_mset (?e (orphanBytesOf blk)) (entries ?os)) (park g blk p (orphanBytesOf blk))"
    using ok by (simp add: queue_ok_def tally_ok_def park_def Let_def update_conv')
  ultimately show "queue_ok E (park g blk p (orphanBytesOf blk))"
    using ok d(1) unfolding queue_ok_def park_fields e
    by (simp add: park_def Let_def distinct_update dom_update insert_absorb)
qed

lemma release_ok:
  assumes ok: "queue_ok E g"
  shows "queue_ok E (release g h)" "\<exists>N. entries (go_orphans g) = N + entries (go_orphans (release g h))"
    "go_maxOrphans (release g h) = go_maxOrphans g" "go_maxOrphanBytes (release g h) = go_maxOrphanBytes g"
    "go_maxOrphansPerPeer (release g h) = go_maxOrphansPerPeer g"
proof -
  let ?es = "waiting_for g h"
  let ?g1 = "foldl refund g ?es"
  have k: "queue_rest ?g1 = queue_rest g" "go_orphanCount ?g1 = go_orphanCount g" by (rule refunds_keep)+
  let ?g2 = "?g1\<lparr>go_orphanCount := go_orphanCount g - int (length ?es)\<rparr>"
  have t: "tally_ok M ?g2" if "tally_ok (mset ?es + M) g" for M
    using refunds_tally [OF that] by (simp add: tally_ok_def)
  have o: "distinct (remove1 h (go_orphanOrder g))" "set (remove1 h (go_orphanOrder g)) = fst ` set (go_orphans g) - {h}"
    using ok by (auto simp: queue_ok_def)
  have "queue_rest ?g2 = queue_rest g" "go_orphanCount ?g2 = go_orphanCount g - int (length ?es)" using k by simp_all
  note d = drop_group [OF ok this(1) t this(2) o]
  have f: "foldl refund (x\<lparr>go_orphans := a, go_orphanCount := c\<rparr>) es = (foldl refund x es)\<lparr>go_orphans := a, go_orphanCount := c\<rparr>"
    for x a c es by (induction es arbitrary: x) (simp_all add: refund_other)
  have r: "release g h = (if ?es = [] then g else
      ?g2\<lparr>go_orphans := AList.delete h (go_orphans ?g2), go_orphanOrder := remove1 h (go_orphanOrder g)\<rparr>)"
    using k by (simp add: release_def Let_def f)
  show "queue_ok E (release g h)" unfolding r using ok d(1) by simp
  show "\<exists>N. entries (go_orphans g) = N + entries (go_orphans (release g h))" unfolding r using d(2) k by auto
  show "go_maxOrphans (release g h) = go_maxOrphans g" "go_maxOrphanBytes (release g h) = go_maxOrphanBytes g"
    "go_maxOrphansPerPeer (release g h) = go_maxOrphansPerPeer g"
    unfolding r using k by simp_all
qed

text \<open>Taking entries away keeps the limits.\<close>

lemma entry_sizes: "queue_ok E g \<Longrightarrow> e \<in># entries (go_orphans g) \<Longrightarrow> 0 \<le> oe_size e"
  using orphanBytesOf_pos less_imp_le by (fastforce simp: queue_ok_def entries_def group_ok_def)

lemma fewer_within:
  assumes "queue_ok E g" and "queue_ok E g'" and "entries (go_orphans g) = N + entries (go_orphans g')" and "within_limits g"
    and "go_maxOrphans g' = go_maxOrphans g" and "go_maxOrphanBytes g' = go_maxOrphanBytes g"
    and "go_maxOrphansPerPeer g' = go_maxOrphansPerPeer g"
  shows "within_limits g'"
proof -
  have "go_orphanCount g' \<le> go_orphanCount g" using assms(1-3) by (simp add: queue_ok_def)
  moreover have "go_orphanBytes g' \<le> go_orphanBytes g"
    using assms(1-3) total_bytes_mono [of N "entries (go_orphans g')"] entry_sizes [OF assms(1)]
    by (simp add: queue_ok_def tally_ok_def)
  moreover have "int (of_peer (entries (go_orphans g')) p) \<le> int (of_peer (entries (go_orphans g)) p)" for p
    using of_peer_mono [of "entries (go_orphans g')" p N] assms(3) by simp
  ultimately show ?thesis using assms(4-7) unfolding within_limits_def by (metis order_trans)
qed

lemma queueOrphan_ok:
  assumes ok: "queue_ok E g" and lim: "within_limits g"
  shows "queue_ok E (queueOrphan E wk now g blk p) \<and> within_limits (queueOrphan E wk now g blk p)"
proof -
  let ?sz = "orphanBytesOf blk"
  let ?g1 = "make_room ?sz g (go_orphanOrder g)"
  have "queue_ok E (g\<lparr>go_orphanOrder := go_orphanOrder g\<rparr>)" using ok by simp
  note m = make_room_ok [OF this, of ?sz]
  obtain N where N: "entries (go_orphans g) = N + entries (go_orphans ?g1)" using m(6) by blast
  have l1: "within_limits ?g1" by (rule fewer_within [OF ok m(1) N lim m(2-4)])
  have pen: "queue_part (penalize wk now x p) = queue_part x" for x by (simp add: penalize_def)
  note c = queue_ok_cong [OF pen, where E = E]
  define dup where "dup \<longleftrightarrow> (\<exists>e \<in> set (waiting_for g (blk_parent blk)). block_Hash E (oe_blk e) = block_Hash E blk)"
  define held where "held = (case map_of (go_orphansByPeer g) p of None \<Rightarrow> 0 | Some k \<Rightarrow> k)"
  have eq: "queueOrphan E wk now g blk p = (if dup then g else if held \<ge> go_maxOrphansPerPeer g then penalize wk now g p
      else if go_orphanBytes ?g1 + ?sz > go_maxOrphanBytes ?g1 then penalize wk now ?g1 p else park ?g1 blk p ?sz)"
    by (simp only: queueOrphan_def Let_def dup_def held_def)
  show ?thesis
  proof (cases "dup \<or> held \<ge> go_maxOrphansPerPeer g \<or> go_orphanBytes ?g1 + ?sz > go_maxOrphanBytes ?g1")
    case True
    have "P (queueOrphan E wk now g blk p)" if "P g" "P (penalize wk now g p)" "P (penalize wk now ?g1 p)" for P
      unfolding eq using True that by (cases dup; cases "held \<ge> go_maxOrphansPerPeer g"; simp)
    from this [of "\<lambda>x. queue_ok E x \<and> within_limits x"] show ?thesis using ok lim m(1) l1 by (simp add: c)
  next
    case False
    have d: "distinct (map fst (go_orphans g))" using ok by (simp add: queue_ok_def)
    have "waiting_for ?g1 (blk_parent blk) = [] \<or> waiting_for ?g1 (blk_parent blk) = waiting_for g (blk_parent blk)"
      unfolding waiting_for_def using map_of_subset [OF m(7) d, of "blk_parent blk"] by (elim disjE) simp_all
    then have new: "\<forall>e \<in> set (waiting_for ?g1 (blk_parent blk)). block_Hash E (oe_blk e) \<noteq> block_Hash E blk"
      using False by (auto simp: dup_def)
    note k = park_ok [OF m(1) new]
    have q: "queueOrphan E wk now g blk p = park ?g1 blk p ?sz" using False unfolding eq by simp
    have n: "int (of_peer (entries (go_orphans ?g1)) q) + (if p = q then 1 else 0) \<le> max 0 (go_maxOrphansPerPeer g)" for q
    proof -
      have "of_peer (entries (go_orphans ?g1)) q \<le> of_peer (entries (go_orphans g)) q" unfolding N by (rule of_peer_mono)
      moreover have "int (of_peer (entries (go_orphans g)) p) < go_maxOrphansPerPeer g"
        using False ok by (auto simp: queue_ok_def tally_ok_def held_def split: if_splits)
      ultimately show ?thesis using lim unfolding within_limits_def by (smt (verit) of_nat_mono)
    qed
    have cnt: "go_orphanCount ?g1 + 1 \<le> max 1 (go_maxOrphans g)"
      using m(1,5) by (auto simp: queue_ok_def)
    have pp: "int (of_peer (add_mset \<lparr>oe_blk = blk, oe_from = p, oe_size = ?sz\<rparr> (entries (go_orphans ?g1))) q) \<le>
        max 0 (go_maxOrphansPerPeer g)" for q
      using n [of q] by (cases "p = q") simp_all
    have f: "go_orphanCount (park ?g1 blk p ?sz) = go_orphanCount ?g1 + 1"
      "go_orphanBytes (park ?g1 blk p ?sz) = go_orphanBytes ?g1 + ?sz"
      "go_maxOrphans (park ?g1 blk p ?sz) = go_maxOrphans g" "go_maxOrphanBytes (park ?g1 blk p ?sz) = go_maxOrphanBytes g"
      "go_maxOrphansPerPeer (park ?g1 blk p ?sz) = go_maxOrphansPerPeer g"
      using m(2-4) by (simp_all add: park_def Let_def)
    have "within_limits (park ?g1 blk p ?sz)"
      unfolding within_limits_def k(2) f using False pp cnt m(3) by (simp add: max.coboundedI2 not_less)
    then show ?thesis using q k(1) by simp
  qed
qed

section \<open>Handlers\<close>

definition orphans_ok :: "crypto \<Rightarrow> gossip \<Rightarrow> bool" where
  "orphans_ok E g \<longleftrightarrow> queue_ok E g \<and> within_limits g"

lemma orphans_ok_cong: "orphans_ok E g \<Longrightarrow> queue_part g' = queue_part g \<Longrightarrow> orphans_ok E g'"
  using queue_ok_cong unfolding orphans_ok_def by blast

lemma insert_waiting_queue: "queue_part (snd (insert_waiting E wk now g hs es)) = queue_part g"
proof (induction es arbitrary: g hs)
  case (Cons e es)
  obtain err ro bc1 where i: "InsertBlock E (now div 1000000) (go_bc g) (oe_blk e) = (err, ro, bc1)" by (rule prod_cases3)
  show ?case using Cons.IH i by (cases err) (simp_all add: Let_def penalize_def)
qed simp

lemma release_orphans: "orphans_ok E g \<Longrightarrow> orphans_ok E (release g h)"
  using release_ok [of E g h] fewer_within [of E g "release g h"] unfolding orphans_ok_def by blast

lemma resolve_ok: "orphans_ok E g \<Longrightarrow> orphans_ok E (snd (resolve E wk now g queue))"
proof (induction E wk now g queue rule: resolve.induct)
  case (2 E wk now g h queue)
  obtain r g1 where r: "insert_waiting E wk now (release g h) queue (waiting_for g h) = (r, g1)" by fastforce
  have "orphans_ok E g1"
    using insert_waiting_queue [of E wk now "release g h" queue "waiting_for g h"] r
    by (intro orphans_ok_cong [OF release_orphans [OF 2(2)]]) simp
  then show ?case using 2(1) [OF r [symmetric]] r by (cases r) simp_all
qed simp

lemma gossip_insert_ok:
  assumes "orphans_ok E g"
  shows "orphans_ok E (snd (snd (gossip_insert E wk now g blk p)))"
proof -
  obtain err ro bc1 where i: "InsertBlock E (now div 1000000) (go_bc g) blk = (err, ro, bc1)" by (rule prod_cases3)
  have b: "orphans_ok E (g\<lparr>go_bc := bc1, go_Stats := st\<rparr>)" "orphans_ok E (g\<lparr>go_bc := bc1\<rparr>)"
    "orphans_ok E (penalize wk now (g\<lparr>go_bc := bc1\<rparr>) p)" for st
    by (rule orphans_ok_cong [OF assms], simp add: penalize_def)+
  have q: "orphans_ok E (queueOrphan E wk now (g\<lparr>go_bc := bc1\<rparr>) blk p)"
    using queueOrphan_ok b(2) unfolding orphans_ok_def by blast
  show ?thesis
  proof (cases err)
    case None
    let ?g = "g\<lparr>go_bc := bc1, go_Stats := (go_Stats g)\<lparr>gs_Accepted := gs_Accepted (go_Stats g) + 1\<rparr>\<rparr>"
    obtain ok g2 where r: "resolveOrphans E wk now ?g (block_Hash E blk) = (ok, g2)" by fastforce
    then have "orphans_ok E g2"
      using resolve_ok [OF b(1), where wk = wk and now = now and queue = "[block_Hash E blk]"] unfolding resolveOrphans_def by (metis snd_conv)
    then show ?thesis using i None r by (simp add: gossip_insert_def Let_def)
  next
    case (Some e)
    then show ?thesis using i b q by (simp add: gossip_insert_def Let_def)
  qed
qed

lemma onBlock_ok:
  assumes "orphans_ok E g"
  shows "orphans_ok E (snd (snd (onBlock E wk now g p len msg)))"
proof -
  obtain b g0 where b: "gossip_banned now g p = (b, g0)" by fastforce
  then have "queue_part g0 = queue_part g" by (auto simp: gossip_banned_def split: option.splits prod.splits)
  note o = orphans_ok_cong [OF assms this]
  have g0: "orphans_ok E (g0\<lparr>go_Stats := st\<rparr>)" "orphans_ok E (penalize wk now (g0\<lparr>go_Stats := st\<rparr>) p)" for st
    by (rule orphans_ok_cong [OF o], simp add: penalize_def)+
  show ?thesis
    using b g0 gossip_insert_ok [OF g0(1)] by (simp add: onBlock_def Let_def split: block_message.split)
qed

end
