(* ===== verification/Gossip_Properties.thy ===== *)
theory Gossip_Properties
  imports Gossip_Laws Types_Properties
begin

text \<open>What any sequence of block messages from any peers can make of the orphan queue.\<close>

inductive gossiping :: "crypto \<Rightarrow> gossip \<Rightarrow> bool" for E where
  gossip_start: "gossiping E (NewGossip bc sc maxOrphans perPeer maxBytes)"
| gossip_step: "gossiping E g \<Longrightarrow> onBlock E wk now g p len msg = (err, gap, g') \<Longrightarrow> gossiping E g'"

lemma gossiping_onBlock: "gossiping E g \<Longrightarrow> gossiping E (snd (snd (onBlock E wk now g p len msg)))"
  by (cases "onBlock E wk now g p len msg") (auto intro: gossip_step)

abbreviation parked :: "gossip \<Rightarrow> orphanEntry list" where
  "parked g \<equiv> concat (map snd (go_orphans g))"

lemma gossiping_ok: "gossiping E g \<Longrightarrow> orphans_ok E g"
proof (induction rule: gossiping.induct)
  case (gossip_start bc sc maxOrphans perPeer maxBytes)
  show ?case by (simp add: orphans_ok_def queue_ok_def within_limits_def tally_ok_def NewGossip_def)
next
  case (gossip_step g wk now p len msg err gap g')
  then show ?case using onBlock_ok [OF gossip_step(3), of wk now p len msg] by simp
qed

text \<open>
  C15 The orphan queue is bounded whatever arrives: after any sequence of block messages, from any
  peers, with any contents, the count, the byte total and the share of every peer are exactly those of
  the blocks parked, no block is parked twice under its parent, and none of the three exceeds its limit
  (a queue limited to fewer than one block still holds one).
\<close>

theorem orphan_queue_bounded:
  assumes "gossiping E g"
  shows "go_orphanCount g = int (length (parked g)) \<and> go_orphanCount g \<le> max 1 (go_maxOrphans g) \<and>
    go_orphanBytes g = sum_list (map (orphanBytesOf \<circ> oe_blk) (parked g)) \<and>
    go_orphanBytes g \<le> max 0 (go_maxOrphanBytes g) \<and>
    (\<forall>p. (case map_of (go_orphansByPeer g) p of None \<Rightarrow> 0 | Some k \<Rightarrow> k) = int (length (filter (\<lambda>e. oe_from e = p) (parked g))) \<and>
      int (length (filter (\<lambda>e. oe_from e = p) (parked g))) \<le> max 0 (go_maxOrphansPerPeer g)) \<and>
    (\<forall>h. distinct (map (\<lambda>e. block_Hash E (oe_blk e)) (waiting_for g h)))"
proof -
  have q: "queue_ok E g" and l: "within_limits g" using gossiping_ok [OF assms] by (simp_all add: orphans_ok_def)
  have e: "size (entries (go_orphans g)) = length (parked g)"
    "of_peer (entries (go_orphans g)) p = length (filter (\<lambda>e. oe_from e = p) (parked g))" for p
    by (simp_all add: entries_def of_peer_def flip: mset_filter)
  have "map oe_size (parked g) = map (orphanBytesOf \<circ> oe_blk) (parked g)"
    using q by (fastforce simp: queue_ok_def group_ok_def)
  then have b: "total_bytes (entries (go_orphans g)) = sum_list (map (orphanBytesOf \<circ> oe_blk) (parked g))"
    unfolding total_bytes_def entries_def by (metis mset_map sum_mset_sum_list)
  have d: "distinct (map (\<lambda>e. block_Hash E (oe_blk e)) (waiting_for g h))" for h
    using q by (auto simp: waiting_for_def queue_ok_def group_ok_def dest: map_of_SomeD split: option.split)
  show ?thesis using q l d unfolding queue_ok_def within_limits_def tally_ok_def e b by simp
qed

definition blank_chain :: blockchain where
  "blank_chain = \<lparr>ch_db = NewMemory, ch_chainID = 1, ch_genesis = 0, ch_genesisDifficulty = 1, ch_retention = 128,
     ch_genesisSupply = 0, ch_rewards = \<lparr>TreasuryRewardBasisPoints = 0, TreasuryRewardAddress = 0\<rparr>,
     ch_blockCache = Map.empty, ch_states = Map.empty, ch_head = \<lparr>blk_header = sample_header, blk_txs = []\<rparr>\<rparr>"

definition after_orphan :: gossip where
  "after_orphan = snd (snd (onBlock sample_crypto (\<lambda>n. [0..<n]) 0 (NewGossip blank_chain None 256 0 0) ''a'' 300
     (BlockMessage \<lparr>blk_header = sample_header, blk_txs = []\<rparr>)))"

theorem orphan_queue_bounded_witness:
  "gossiping sample_crypto after_orphan \<and> go_orphanCount after_orphan = 1 \<and> length (parked after_orphan) = 1 \<and>
    go_orphanCount after_orphan = int (length (parked after_orphan)) \<and>
    go_orphanBytes after_orphan = sum_list (map (orphanBytesOf \<circ> oe_blk) (parked after_orphan))"
proof -
  have g: "gossiping sample_crypto after_orphan"
    unfolding after_orphan_def by (intro gossiping_onBlock gossip_start)
  have "go_orphanCount after_orphan = 1"
    by (simp add: after_orphan_def onBlock_def gossip_banned_def NewGossip_def HasBlock_def blank_chain_def mem_Has_def
        NewMemory_def gossip_insert_def InsertBlock_def insert_block_def insert_guard_def blockLocked_def loadBlock_def
        db_Get_def mem_Get_def queueOrphan_def waiting_for_def park_def Let_def maxBlockMessage_def orphanBytesOf_def
        DefaultMaxOrphanBytes_def)
  then show ?thesis using g orphan_queue_bounded [OF g] by simp
qed

end
