(* ===== verification/Sync.thy ===== *)
theory Sync
  imports Gossip
begin

text \<open>
  Headers-first block sync (\<^verbatim>\<open>src/p2p/sync.go\<close>).  The network is the argument \<open>ask\<close>: the answer to the \<open>k\<close>-th
  request sent, \<open>None\<close> when it fails, otherwise the length of the message and what its JSON decodes to.  The
  clock \<open>clk\<close> (nanoseconds) is read once per exchange.  Logging is left out.
\<close>

section \<open>Messages and state\<close>

definition maxSyncMessage :: nat where "maxSyncMessage = 16 * 2 ^ 20"
definition maxHeadersPerRequest :: nat where "maxHeadersPerRequest = 256"
definition defaultSyncRate :: rat where "defaultSyncRate = 20"
definition defaultSyncBurst :: rat where "defaultSyncBurst = 40"

datatype sync_error =
    ErrTransport | ErrBadSyncRequest | ErrBadSyncEncoding | ErrHeaderChain | ErrHeadersUnlinked | ErrFutureHeader
  | ErrBodyMismatch | ErrLocalChain chain_error | ErrSearchFuel

datatype syncRequest = HeadersRequest nat nat | BodiesRequest "hash list" | OtherRequest

record syncResponse =
  rs_Headers :: "header option list"
  rs_Blocks :: "block option list"

type_synonym answer = "(nat \<times> syncResponse option) option"
type_synonym network = "nat \<Rightarrow> syncRequest \<Rightarrow> answer"

record syncer =
  sy_bc :: blockchain
  sy_scorer :: "scorer option"
  sy_limiter :: txRateLimiter
  sy_syncing :: bool
  sy_asked :: nat

definition NewSyncer :: "blockchain \<Rightarrow> scorer option \<Rightarrow> syncer" where
  "NewSyncer bc sc = \<lparr>sy_bc = bc, sy_scorer = sc, sy_limiter = newTxRateLimiter defaultSyncRate defaultSyncBurst,
     sy_syncing = False, sy_asked = 0\<rparr>"

section \<open>The server\<close>

fun serve_headers :: "crypto \<Rightarrow> blockchain \<Rightarrow> nat \<Rightarrow> nat \<Rightarrow> nat \<Rightarrow> header list \<times> blockchain" where
  "serve_headers E bc start 0 i = ([], bc)"
| "serve_headers E bc start (Suc n) i =
     (case BlockByHeight E bc (add64 start i) of
        (Inl e, bc1) \<Rightarrow> ([], bc1)
      | (Inr blk, bc1) \<Rightarrow> (case serve_headers E bc1 start n (i + 1) of (hs, bc2) \<Rightarrow> (blk_header blk # hs, bc2)))"

definition body_size :: "block \<Rightarrow> nat" where
  "body_size blk = foldl (\<lambda>sz tx. sz + (length (tx_data tx) + 384)) 1024 (blk_txs blk)"

fun serve_bodies :: "crypto \<Rightarrow> blockchain \<Rightarrow> nat \<Rightarrow> block list \<Rightarrow> hash list \<Rightarrow> block list \<times> blockchain" where
  "serve_bodies E bc approx acc [] = (acc, bc)"
| "serve_bodies E bc approx acc (h # hs) =
     (case BlockByHash E bc h of
        (Inl e, bc1) \<Rightarrow> serve_bodies E bc1 approx acc hs
      | (Inr blk, bc1) \<Rightarrow>
          if length acc > 0 \<and> approx + body_size blk > maxSyncMessage * 3 div 4 then (acc, bc1)
          else serve_bodies E bc1 (approx + body_size blk) (acc @ [blk]) hs)"

text \<open>\<open>req\<close> is what the JSON of a message of \<open>len\<close> bytes decodes to; marshalling the answer is left to the caller.\<close>

definition serve :: "crypto \<Rightarrow> walk_order \<Rightarrow> int \<Rightarrow> syncer \<Rightarrow> peer_id \<Rightarrow> nat \<Rightarrow> syncRequest option \<Rightarrow>
    (sync_error + syncResponse) \<times> syncer" where
  "serve E wk now s from len req =
     (case allow wk (sy_limiter s) from now of (ok, rl) \<Rightarrow>
        let s1 = s\<lparr>sy_limiter := rl\<rparr> in
        if \<not> ok then (Inl ErrBadSyncRequest, s1)
        else if len > maxSyncMessage then (Inl ErrBadSyncRequest, s1)
        else case req of
          None \<Rightarrow> (Inl ErrBadSyncRequest, s1)
        | Some (HeadersRequest start mx) \<Rightarrow>
            let n = (if mx = 0 \<or> mx > maxHeadersPerRequest then maxHeadersPerRequest else mx) in
            (case serve_headers E (sy_bc s1) start n 0 of (hs, bc1) \<Rightarrow>
               (Inr \<lparr>rs_Headers = map Some hs, rs_Blocks = []\<rparr>, s1\<lparr>sy_bc := bc1\<rparr>))
        | Some (BodiesRequest hashes) \<Rightarrow>
            if length hashes > maxHeadersPerRequest then (Inl ErrBadSyncRequest, s1)
            else (case serve_bodies E (sy_bc s1) 0 [] hashes of (bs, bc1) \<Rightarrow>
               (Inr \<lparr>rs_Headers = [], rs_Blocks = map Some bs\<rparr>, s1\<lparr>sy_bc := bc1\<rparr>))
        | Some OtherRequest \<Rightarrow> (Inl ErrBadSyncRequest, s1))"

section \<open>Asking a peer\<close>

definition exchange :: "network \<Rightarrow> syncer \<Rightarrow> syncRequest \<Rightarrow> (sync_error + syncResponse) \<times> syncer" where
  "exchange ask s req =
     (let s1 = s\<lparr>sy_asked := sy_asked s + 1\<rparr> in
      case ask (sy_asked s) req of
        None \<Rightarrow> (Inl ErrTransport, s1)
      | Some (len, resp) \<Rightarrow>
          if len > maxSyncMessage then (Inl ErrBadSyncRequest, s1)
          else (case resp of None \<Rightarrow> (Inl ErrBadSyncEncoding, s1) | Some r \<Rightarrow> (Inr r, s1)))"

definition getHeaders :: "network \<Rightarrow> syncer \<Rightarrow> nat \<Rightarrow> (sync_error + header list) \<times> syncer" where
  "getHeaders ask s start =
     (case exchange ask s (HeadersRequest start maxHeadersPerRequest) of
        (Inl e, s1) \<Rightarrow> (Inl e, s1)
      | (Inr resp, s1) \<Rightarrow>
          if length (rs_Headers resp) > maxHeadersPerRequest then (Inl ErrHeaderChain, s1)
          else if None \<in> set (rs_Headers resp) then (Inl ErrHeaderChain, s1)
          else (Inr (map the (rs_Headers resp)), s1))"

definition getHeaderAt :: "network \<Rightarrow> syncer \<Rightarrow> nat \<Rightarrow> (sync_error + header) \<times> syncer" where
  "getHeaderAt ask s height =
     (case exchange ask s (HeadersRequest height 1) of
        (Inl e, s1) \<Rightarrow> (Inl e, s1)
      | (Inr resp, s1) \<Rightarrow>
          (case rs_Headers resp of
             Some h # _ \<Rightarrow> if hd_height h \<noteq> height then (Inl ErrHeaderChain, s1) else (Inr h, s1)
           | _ \<Rightarrow> (Inl ErrHeaderChain, s1)))"

definition agreesAt :: "crypto \<Rightarrow> network \<Rightarrow> syncer \<Rightarrow> nat \<Rightarrow> (sync_error + bool) \<times> syncer" where
  "agreesAt E ask s height =
     (case getHeaderAt ask s height of
        (Inl e, s1) \<Rightarrow> (Inl e, s1)
      | (Inr ph, s1) \<Rightarrow>
          (case BlockByHeight E (sy_bc s1) height of
             (Inl e, bc1) \<Rightarrow> (Inl (ErrLocalChain e), s1\<lparr>sy_bc := bc1\<rparr>)
           | (Inr ours, bc1) \<Rightarrow> (Inr (header_Hash E ph = block_Hash E ours), s1\<lparr>sy_bc := bc1\<rparr>)))"

text \<open>
  The binary search.  \<^verbatim>\<open>lo + hi\<close> is a \<^verbatim>\<open>uint64\<close> sum that may wrap, so the loop is bounded by \<open>fuel\<close>; below
  \<open>2 ^ 63\<close> the distance is enough.
\<close>

fun ancestor_search :: "nat \<Rightarrow> crypto \<Rightarrow> network \<Rightarrow> syncer \<Rightarrow> nat \<Rightarrow> nat \<Rightarrow> (sync_error + nat) \<times> syncer" where
  "ancestor_search fuel E ask s lo hi =
     (if \<not> add64 lo 1 < hi then (Inr lo, s)
      else case fuel of
        0 \<Rightarrow> (Inl ErrSearchFuel, s)
      | Suc n \<Rightarrow>
          let mid = add64 lo hi div 2 in
          (case agreesAt E ask s mid of
             (Inl e, s1) \<Rightarrow> (Inl e, s1)
           | (Inr agree, s1) \<Rightarrow>
               if agree then ancestor_search n E ask s1 mid hi else ancestor_search n E ask s1 lo mid))"

text \<open>\<open>None\<close> is \<^verbatim>\<open>ok = false\<close>: the fork is below the retention window.\<close>

definition findCommonAncestor :: "nat \<Rightarrow> crypto \<Rightarrow> network \<Rightarrow> syncer \<Rightarrow> nat \<Rightarrow> (sync_error + nat option) \<times> syncer" where
  "findCommonAncestor fuel E ask s head =
     (let lo = (if head > ch_retention (sy_bc s) then sub64 head (ch_retention (sy_bc s)) else 0) in
      case agreesAt E ask s lo of
        (Inl e, s1) \<Rightarrow> (Inl e, s1)
      | (Inr agree, s1) \<Rightarrow>
          if \<not> agree then (Inr None, s1)
          else (case ancestor_search fuel E ask s1 lo head of
             (Inl e, s2) \<Rightarrow> (Inl e, s2)
           | (Inr anc, s2) \<Rightarrow> (Inr (Some anc), s2)))"

section \<open>Checking what it sent\<close>

fun check_links :: "crypto \<Rightarrow> int \<Rightarrow> header option \<Rightarrow> header list \<Rightarrow> sync_error option" where
  "check_links E nowMs prev [] = None"
| "check_links E nowMs prev (h # hs) =
     (if (case prev of None \<Rightarrow> False | Some p \<Rightarrow> hd_height h \<noteq> add64 (hd_height p) 1) then Some ErrHeaderChain
      else if (case prev of None \<Rightarrow> False | Some p \<Rightarrow> hd_parent h \<noteq> header_Hash E p) then Some ErrHeaderChain
      else if hd_timestamp h > wrap_int64 (nowMs + MaxFutureDriftMs) then Some ErrFutureHeader
      else if VerifyHeaderPoW E h \<noteq> None then Some ErrHeaderChain
      else check_links E nowMs (Some h) hs)"

text \<open>Called with a batch that is not empty.\<close>

definition checkHeaderChain :: "crypto \<Rightarrow> int \<Rightarrow> syncer \<Rightarrow> header list \<Rightarrow> nat \<Rightarrow> sync_error option \<times> syncer" where
  "checkHeaderChain E nowMs s headers start =
     (if hd_height (hd headers) \<noteq> start then (Some ErrHeaderChain, s)
      else case BlockByHeight E (sy_bc s) (sub64 start 1) of
        (Inl e, bc1) \<Rightarrow> (Some ErrHeadersUnlinked, s\<lparr>sy_bc := bc1\<rparr>)
      | (Inr anchor, bc1) \<Rightarrow>
          if hd_parent (hd headers) \<noteq> block_Hash E anchor then (Some ErrHeadersUnlinked, s\<lparr>sy_bc := bc1\<rparr>)
          else (check_links E nowMs None headers, s\<lparr>sy_bc := bc1\<rparr>))"

fun collect_bodies :: "crypto \<Rightarrow> hash set \<Rightarrow> (hash \<rightharpoonup> block) \<Rightarrow> block option list \<Rightarrow> sync_error + (hash \<rightharpoonup> block)" where
  "collect_bodies E wanted have [] = Inr have"
| "collect_bodies E wanted have (None # bs) = Inl ErrBodyMismatch"
| "collect_bodies E wanted have (Some b # bs) =
     (if block_Hash E b \<notin> wanted then Inl ErrBodyMismatch else collect_bodies E wanted (have(block_Hash E b \<mapsto> b)) bs)"

fun in_run :: "(hash \<rightharpoonup> block) \<Rightarrow> hash list \<Rightarrow> block list" where
  "in_run have [] = []"
| "in_run have (h # hs) = (case have h of None \<Rightarrow> [] | Some b \<Rightarrow> b # in_run have hs)"

definition getBodies :: "crypto \<Rightarrow> network \<Rightarrow> syncer \<Rightarrow> header list \<Rightarrow> (sync_error + block list) \<times> syncer" where
  "getBodies E ask s headers =
     (let want = map (header_Hash E) headers in
      case exchange ask s (BodiesRequest want) of
        (Inl e, s1) \<Rightarrow> (Inl e, s1)
      | (Inr resp, s1) \<Rightarrow>
          (case collect_bodies E (set want) Map.empty (rs_Blocks resp) of
             Inl e \<Rightarrow> (Inl e, s1)
           | Inr have \<Rightarrow> (Inr (in_run have want), s1)))"

section \<open>The driver\<close>

definition sync_penalize :: "walk_order \<Rightarrow> int \<Rightarrow> syncer \<Rightarrow> peer_id \<Rightarrow> syncer" where
  "sync_penalize wk now s peer = s\<lparr>sy_scorer := map_option (\<lambda>sc. snd (Penalize wk sc peer 1 now)) (sy_scorer s)\<rparr>"

text \<open>\<open>None\<close>: the sync stops here; otherwise the number of blocks that were new.\<close>

fun insert_bodies :: "crypto \<Rightarrow> walk_order \<Rightarrow> int \<Rightarrow> syncer \<Rightarrow> peer_id \<Rightarrow> nat \<Rightarrow> block list \<Rightarrow> nat option \<times> syncer" where
  "insert_bodies E wk now s peer newly [] = (Some newly, s)"
| "insert_bodies E wk now s peer newly (b # bs) =
     (case InsertBlock E (now div 1000000) (sy_bc s) b of (err, _, bc1) \<Rightarrow>
        let s1 = s\<lparr>sy_bc := bc1\<rparr> in
        case err of
          None \<Rightarrow> insert_bodies E wk now s1 peer (newly + 1) bs
        | Some e \<Rightarrow>
            if e = ErrKnownBlock then insert_bodies E wk now s1 peer newly bs
            else if e = ErrFutureBlock \<or> e = ErrReorgTooDeep \<or> e = ErrPanic then (None, s1)
            else (None, sync_penalize wk now s1 peer))"

text \<open>The headers to fetch bodies for: from the head on, or from the common ancestor when the peer is on a fork.\<close>

definition next_headers :: "crypto \<Rightarrow> walk_order \<Rightarrow> nat \<Rightarrow> network \<Rightarrow> (nat \<Rightarrow> int) \<Rightarrow> syncer \<Rightarrow> peer_id \<Rightarrow> header list option \<times> syncer" where
  "next_headers E wk fuel ask clk s peer =
     (let start = add64 (blk_height (ch_head (sy_bc s))) 1 in
      case getHeaders ask s start of
        (Inl e, s1) \<Rightarrow> (None, s1)
      | (Inr headers, s1) \<Rightarrow>
          if headers = [] then (None, s1)
          else let now = clk (sy_asked s1) in
            (case checkHeaderChain E (now div 1000000) s1 headers start of
               (None, s2) \<Rightarrow> (Some headers, s2)
             | (Some e, s2) \<Rightarrow>
                 if e = ErrFutureHeader then (None, s2)
                 else if e \<noteq> ErrHeadersUnlinked then (None, sync_penalize wk now s2 peer)
                 else
                   (case findCommonAncestor fuel E ask s2 (sub64 start 1) of
                      (Inl _, s3) \<Rightarrow> (None, s3)
                    | (Inr None, s3) \<Rightarrow> (None, s3)
                    | (Inr (Some anc), s3) \<Rightarrow>
                        (case getHeaders ask s3 (add64 anc 1) of
                           (Inl e, s4) \<Rightarrow> (None, s4)
                         | (Inr headers, s4) \<Rightarrow>
                             if headers = [] then (None, s4)
                             else let now = clk (sy_asked s4) in
                               (case checkHeaderChain E (now div 1000000) s4 headers (add64 anc 1) of
                                  (None, s5) \<Rightarrow> (Some headers, s5)
                                | (Some e, s5) \<Rightarrow> (None, sync_penalize wk now s5 peer))))))"

definition sync_round :: "crypto \<Rightarrow> walk_order \<Rightarrow> nat \<Rightarrow> network \<Rightarrow> (nat \<Rightarrow> int) \<Rightarrow> syncer \<Rightarrow> peer_id \<Rightarrow> nat option \<times> syncer" where
  "sync_round E wk fuel ask clk s peer =
     (case next_headers E wk fuel ask clk s peer of
        (None, s1) \<Rightarrow> (None, s1)
      | (Some headers, s1) \<Rightarrow>
          (case getBodies E ask s1 headers of
             (Inl e, s2) \<Rightarrow> (None, if e = ErrBodyMismatch then sync_penalize wk (clk (sy_asked s2)) s2 peer else s2)
           | (Inr blocks, s2) \<Rightarrow> insert_bodies E wk (clk (sy_asked s2)) s2 peer 0 blocks))"

text \<open>A peer may feed the loop for as long as it finds new blocks: \<open>rounds\<close> bounds it, \<open>False\<close> when it is not done.\<close>

fun sync_rounds :: "nat \<Rightarrow> crypto \<Rightarrow> walk_order \<Rightarrow> nat \<Rightarrow> network \<Rightarrow> (nat \<Rightarrow> int) \<Rightarrow> syncer \<Rightarrow> peer_id \<Rightarrow> bool \<times> syncer" where
  "sync_rounds 0 E wk fuel ask clk s peer = (False, s)"
| "sync_rounds (Suc n) E wk fuel ask clk s peer =
     (case sync_round E wk fuel ask clk s peer of
        (None, s1) \<Rightarrow> (True, s1)
      | (Some newly, s1) \<Rightarrow> if newly = 0 then (True, s1) else sync_rounds n E wk fuel ask clk s1 peer)"

definition SyncFrom :: "nat \<Rightarrow> crypto \<Rightarrow> walk_order \<Rightarrow> nat \<Rightarrow> network \<Rightarrow> (nat \<Rightarrow> int) \<Rightarrow> syncer \<Rightarrow> peer_id \<Rightarrow> bool \<times> syncer" where
  "SyncFrom rounds E wk fuel ask clk s peer =
     (if sy_syncing s then (True, s)
      else case (case sy_scorer s of None \<Rightarrow> (False, s)
          | Some sc \<Rightarrow> (case Banned sc peer (clk (sy_asked s)) of (b, sc1) \<Rightarrow> (b, s\<lparr>sy_scorer := Some sc1\<rparr>))) of
        (banned, s1) \<Rightarrow>
          if banned then (True, s1)
          else (case sync_rounds rounds E wk fuel ask clk (s1\<lparr>sy_syncing := True\<rparr>) peer of
             (done, s2) \<Rightarrow> (done, s2\<lparr>sy_syncing := False\<rparr>)))"

end
