(* ===== verification/Sync_Properties.thy ===== *)
theory Sync_Properties
  imports Sync Blockchain_Properties
begin

text \<open>
  The search for the common ancestor, against a peer that answers from one chain of linked headers: it
  returns the exact height at which the two chains part.
\<close>

declare ancestor_search.simps [simp del]

section \<open>Our chain and theirs\<close>

text \<open>The canonical blocks of a chain, height by height.\<close>

definition holds :: "crypto \<Rightarrow> blockchain \<Rightarrow> block list \<Rightarrow> bool" where
  "holds E bc bs \<longleftrightarrow> cache_ok E bc \<and> (\<forall>n < length bs. getHash (ch_db bc) (canonicalKey n) = Inr (block_Hash E (bs ! n)) \<and>
     stored_block E (ch_db bc) (block_Hash E (bs ! n)) (bs ! n) \<and> blk_height (bs ! n) = n) \<and>
     (\<forall>n. Suc n < length bs \<longrightarrow> blk_parent (bs ! Suc n) = block_Hash E (bs ! n))"

lemma holds_reads:
  assumes "holds E bc bs" and "n < length bs"
  obtains bc' where "BlockByHeight E bc n = (Inr (bs ! n), bc')" "recached E bc bc'" "holds E bc' bs"
proof -
  have h: "getHash (ch_db bc) (canonicalKey n) = Inr (block_Hash E (bs ! n))" "cache_ok E bc"
    "stored_block E (ch_db bc) (block_Hash E (bs ! n)) (bs ! n)"
    using assms by (auto simp: holds_def)
  obtain r bc' where r: "blockLocked E bc (block_Hash E (bs ! n)) = (r, bc')" by fastforce
  have "r = Inr (bs ! n)" using blockLocked_stored [OF h(2), of "block_Hash E (bs ! n)" "bs ! n"] h(3) r by simp
  moreover have rc: "recached E bc bc'" using recached_blockLocked [of E bc "block_Hash E (bs ! n)"] r by simp
  moreover have "holds E bc' bs" using recached_fields(1,2) [OF rc h(2)] assms(1) by (simp add: holds_def)
  ultimately show thesis using that r h(1) by (simp add: BlockByHeight_def)
qed

lemma node_holds:
  assumes "node E g ret bc"
  obtains bs where "holds E bc bs" "length bs = Suc (blk_height (ch_head bc))" "last bs = ch_head bc"
proof -
  obtain S L where inv: "chain_inv E g S L bc" using node_inv [OF assms] by blast
  have c: "canon E g (ch_genesis bc) (ch_db bc) S (ch_head bc)" using chain_invD(6) [OF inv] by (simp add: head_ok_def)
  then have "\<exists>bs. holds E bc bs \<and> length bs = Suc (blk_height (ch_head bc)) \<and> last bs = ch_head bc"
  proof (induction rule: canon.induct)
    case (canon_genesis b)
    then show ?case
      using getHash_canon [OF canon_canon_at [OF canon.canon_genesis]] canon_stored [OF canon.canon_genesis] chain_invD(2) [OF inv]
      by (intro exI [of _ "[b]"]) (auto simp: holds_def)
  next
    case (canon_next p b)
    then obtain bs where bs: "holds E bc bs" "length bs = Suc (blk_height p)" "last bs = p" by blast
    have cb: "canon E g (ch_genesis bc) (ch_db bc) S b" using canon_next.hyps by (rule canon.canon_next)
    have l: "bs ! blk_height p = p" using bs(2,3) by (metis diff_Suc_1 last_conv_nth length_0_conv nat.distinct(1))
    have "holds E bc (bs @ [b])"
      using bs(1,2) l canon_next.hyps getHash_canon [OF canon_canon_at [OF cb]] canon_stored [OF cb] canon_stored [OF canon_next.hyps(1)]
      by (auto simp: holds_def nth_append less_Suc_eq stored_block_def)
    then show ?case using bs(2) canon_next.hyps by (intro exI [of _ "bs @ [b]"]) auto
  qed
  then show thesis using that by blast
qed

text \<open>A peer that answers single-header requests from one chain of linked headers.\<close>

definition peer_chain :: "crypto \<Rightarrow> network \<Rightarrow> header list \<Rightarrow> bool" where
  "peer_chain E ask hs \<longleftrightarrow>
     (\<forall>k n. n < length hs \<longrightarrow> (\<exists>len r rest. ask k (HeadersRequest n 1) = Some (len, Some r) \<and> len \<le> maxSyncMessage \<and>
        rs_Headers r = Some (hs ! n) # rest \<and> hd_height (hs ! n) = n)) \<and>
     (\<forall>n. Suc n < length hs \<longrightarrow> hd_parent (hs ! Suc n) = header_Hash E (hs ! n))"

abbreviation shared :: "crypto \<Rightarrow> header list \<Rightarrow> block list \<Rightarrow> nat \<Rightarrow> bool" where
  "shared E hs bs n \<equiv> header_Hash E (hs ! n) = block_Hash E (bs ! n)"

lemma agreesAt_shared:
  assumes "peer_chain E ask hs" and "holds E (sy_bc s) bs" and "n < length hs" and "n < length bs"
  obtains s' where "agreesAt E ask s n = (Inr (shared E hs bs n), s')" "holds E (sy_bc s') bs"
proof -
  obtain len r rest where a: "ask (sy_asked s) (HeadersRequest n 1) = Some (len, Some r)" "len \<le> maxSyncMessage"
    "rs_Headers r = Some (hs ! n) # rest" "hd_height (hs ! n) = n"
    using assms(1,3) unfolding peer_chain_def by blast
  let ?s1 = "s\<lparr>sy_asked := sy_asked s + 1\<rparr>"
  have "getHeaderAt ask s n = (Inr (hs ! n), ?s1)" using a by (simp add: getHeaderAt_def exchange_def Let_def)
  moreover obtain bc' where "BlockByHeight E (sy_bc ?s1) n = (Inr (bs ! n), bc')" "holds E bc' bs"
    using holds_reads [OF assms(2,4)] by auto
  ultimately show thesis using that by (simp add: agreesAt_def)
qed

text \<open>Chains without a collision share a prefix.\<close>

lemma shared_below:
  assumes "peer_chain E ask hs" and "holds E bc bs" and "\<forall>n < length bs. shared E hs bs n \<longrightarrow> blk_header (bs ! n) = hs ! n"
    and "length bs \<le> length hs" and "n < length bs" and "shared E hs bs n" and "m \<le> n"
  shows "shared E hs bs m"
  using assms(7,5,6)
proof (induction n rule: nat_induct)
  case (Suc n)
  have "shared E hs bs n"
    using assms(1-4) Suc.prems(2,3) unfolding peer_chain_def holds_def by (metis Suc_lessD order_less_le_trans)
  then show ?case using Suc by (cases "m = Suc n") auto
qed simp

lemma search_exact:
  assumes p: "peer_chain E ask hs" and c: "\<forall>n < length bs. shared E hs bs n \<longrightarrow> blk_header (bs ! n) = hs ! n"
    and l: "length bs \<le> length hs"
  shows "holds E (sy_bc s) bs \<Longrightarrow> hi < length bs \<Longrightarrow> hi < 2 ^ 63 \<Longrightarrow> hi - lo \<le> fuel \<Longrightarrow> lo < hi \<Longrightarrow>
    shared E hs bs lo \<Longrightarrow> \<not> shared E hs bs hi \<Longrightarrow>
    \<exists>anc s'. ancestor_search fuel E ask s lo hi = (Inr anc, s') \<and> anc < hi \<and> lo \<le> anc \<and> shared E hs bs anc \<and> \<not> shared E hs bs (Suc anc)"
proof (induction fuel arbitrary: s lo hi)
  case (Suc fuel)
  let ?mid = "(lo + hi) div 2"
  have w: "add64 lo 1 = lo + 1" "add64 lo hi = lo + hi" using Suc.prems(3,5) by (simp_all add: add64_id)
  show ?case
  proof (cases "lo + 1 < hi")
    case True
    have m: "lo < ?mid" "?mid < hi" "?mid < length hs" "?mid < length bs" using True Suc.prems(2) l by linarith+
    obtain s' where s': "agreesAt E ask s ?mid = (Inr (shared E hs bs ?mid), s')" "holds E (sy_bc s') bs"
      by (rule agreesAt_shared [OF p Suc.prems(1) m(3,4)])
    have k: "hi - ?mid \<le> fuel" "?mid - lo \<le> fuel" using m Suc.prems(4) by linarith+
    show ?thesis
    proof (cases "shared E hs bs ?mid")
      case yes: True
      from Suc.IH [OF s'(2) Suc.prems(2,3) k(1) m(2) yes Suc.prems(7)]
      obtain anc s2 where r: "ancestor_search fuel E ask s' ?mid hi = (Inr anc, s2)" "anc < hi" "?mid \<le> anc"
        "shared E hs bs anc" "\<not> shared E hs bs (Suc anc)" by blast
      have "ancestor_search (Suc fuel) E ask s lo hi = (Inr anc, s2)"
        by (subst ancestor_search.simps) (use True w s'(1) yes r(1) in \<open>simp add: Let_def\<close>)
      then show ?thesis using r m(1) by (meson less_imp_le order_trans)
    next
      case no: False
      have "?mid < 2 ^ 63" using m(2) Suc.prems(3) by linarith
      from Suc.IH [OF s'(2) m(4) this k(2) m(1) Suc.prems(6) no]
      obtain anc s2 where r: "ancestor_search fuel E ask s' lo ?mid = (Inr anc, s2)" "anc < ?mid" "lo \<le> anc"
        "shared E hs bs anc" "\<not> shared E hs bs (Suc anc)" by blast
      have "ancestor_search (Suc fuel) E ask s lo hi = (Inr anc, s2)"
        by (subst ancestor_search.simps) (use True w s'(1) no r(1) in \<open>simp add: Let_def\<close>)
      then show ?thesis using r m(2) by (meson less_trans)
    qed
  next
    case False
    then have "hi = Suc lo" using Suc.prems(5) by simp
    then show ?thesis using False w Suc.prems(6,7) by (subst ancestor_search.simps) simp
  qed
qed simp


section \<open>The common ancestor\<close>

definition shares :: "crypto \<Rightarrow> blockchain \<Rightarrow> header list \<Rightarrow> nat \<Rightarrow> bool" where
  "shares E bc hs n \<longleftrightarrow> (\<exists>b. fst (BlockByHeight E bc n) = Inr b \<and> block_Hash E b = header_Hash E (hs ! n))"

lemma shares_shared:
  assumes "holds E bc bs" and "n < length bs"
  shows "shares E bc hs n \<longleftrightarrow> shared E hs bs n"
  using holds_reads [OF assms] by (metis shares_def fst_conv sum.inject(2))

text \<open>
  C16 The common ancestor search is exact and ends: against a peer on a fork that answers from a chain of
  linked headers, on any reachable node and without hash collisions between the two chains, it returns
  the height up to which the two chains share every block and above which they share none, or, when they
  already differ at the floor of the retention window, reports that the fork is too deep.
\<close>

theorem common_ancestor_exact:
  fixes s :: syncer
  defines "bc \<equiv> sy_bc s"
  defines "head \<equiv> blk_height (ch_head bc)"
  assumes "node E g ret bc" and "peer_chain E ask hs" and "head < length hs" and "head < 2 ^ 63" and "head \<le> fuel"
    and "\<forall>n \<le> head. \<forall>b. fst (BlockByHeight E bc n) = Inr b \<and> block_Hash E b = header_Hash E (hs ! n) \<longrightarrow> blk_header b = hs ! n"
    and "header_Hash E (hs ! head) \<noteq> block_Hash E (ch_head bc)"
  shows "\<exists>r s'. findCommonAncestor fuel E ask s head = (Inr r, s') \<and>
    (case r of None \<Rightarrow> \<not> shares E bc hs (head - ch_retention bc)
     | Some anc \<Rightarrow> anc < head \<and> (\<forall>n \<le> head. shares E bc hs n \<longleftrightarrow> n \<le> anc))"
proof -
  obtain bs where h: "holds E bc bs" and len: "length bs = Suc head" and last: "last bs = ch_head bc"
    using node_holds [OF assms(3)] unfolding head_def by blast
  have sh: "shares E bc hs n \<longleftrightarrow> shared E hs bs n" if "n \<le> head" for n
    using shares_shared [OF h] len that by simp
  have c: "\<forall>n < length bs. shared E hs bs n \<longrightarrow> blk_header (bs ! n) = hs ! n"
    using assms(8) holds_reads [OF h] len by (metis fst_conv less_Suc_eq_le)
  have l: "length bs \<le> length hs" using len assms(5) by simp
  have "bs ! head = ch_head bc" using last len by (metis diff_Suc_1 last_conv_nth length_0_conv nat.distinct(1))
  then have top: "\<not> shared E hs bs head" using assms(9) by simp
  let ?lo = "head - ch_retention bc"
  have lo: "(if head > ch_retention (sy_bc s) then sub64 head (ch_retention (sy_bc s)) else 0) = ?lo"
    using assms(6) by (simp add: bc_def [symmetric] sub64_id)
  have b: "?lo < length hs" "?lo < length bs" using len l by simp_all
  obtain s1 where s1: "agreesAt E ask s ?lo = (Inr (shared E hs bs ?lo), s1)" "holds E (sy_bc s1) bs"
    by (rule agreesAt_shared [OF assms(4) h [unfolded bc_def] b])
  show ?thesis
  proof (cases "shared E hs bs ?lo")
    case False
    then show ?thesis using s1(1) lo sh [of ?lo] by (simp add: findCommonAncestor_def)
  next
    case True
    then have "?lo < head" using top by (metis diff_le_self le_neq_implies_less)
    moreover have "head - ?lo \<le> fuel" "head < length bs" using assms(7) len by simp_all
    ultimately have "\<exists>anc s'. ancestor_search fuel E ask s1 ?lo head = (Inr anc, s') \<and> anc < head \<and> ?lo \<le> anc \<and>
        shared E hs bs anc \<and> \<not> shared E hs bs (Suc anc)"
      using search_exact [OF assms(4) c l s1(2)] True top assms(6) by blast
    then
    obtain anc s2 where r: "ancestor_search fuel E ask s1 ?lo head = (Inr anc, s2)" "anc < head"
      "shared E hs bs anc" "\<not> shared E hs bs (Suc anc)" by blast
    have below: "shared E hs bs m" if "shared E hs bs n" "n \<le> head" "m \<le> n" for m n
      by (rule shared_below [OF assms(4) h c l _ that(1,3)]) (use that(2) len in simp)
    have "shares E bc hs n \<longleftrightarrow> n \<le> anc" if n: "n \<le> head" for n
    proof
      assume "shares E bc hs n"
      then have "shared E hs bs n" using sh [OF n] by simp
      then show "n \<le> anc" using below [OF _ n, of "Suc anc"] r(4) by (meson not_less_eq_eq)
    next
      assume "n \<le> anc"
      then show "shares E bc hs n" using below [OF r(3)] r(2) sh [OF n] by simp
    qed
    then show ?thesis using s1(1) lo True r(1,2) by (simp add: findCommonAncestor_def)
  qed
qed

definition rival_peer :: "header list \<Rightarrow> network" where
  "rival_peer hs k req = (case req of
     HeadersRequest n m \<Rightarrow> Some (0, Some \<lparr>rs_Headers = map Some (take m (drop n hs)), rs_Blocks = []\<rparr>) | _ \<Rightarrow> None)"

lemma sample_fork:
  obtains s :: syncer and hs where "node sample_crypto sample_genesis 0 (sy_bc s)" "blk_height (ch_head (sy_bc s)) = 1"
    "peer_chain sample_crypto (rival_peer hs) hs" "length hs = 2" "shares sample_crypto (sy_bc s) hs 0"
    "\<forall>n \<le> 1. \<forall>b. fst (BlockByHeight sample_crypto (sy_bc s) n) = Inr b \<and> block_Hash sample_crypto b = header_Hash sample_crypto (hs ! n) \<longrightarrow>
      blk_header b = hs ! n"
    "header_Hash sample_crypto (hs ! 1) \<noteq> block_Hash sample_crypto (ch_head (sy_bc s))"
proof -
  obtain S L where inv: "chain_inv sample_crypto sample_genesis S L sample_node" using node_inv [OF sample_node_reached] by blast
  have "the (head_state sample_crypto sample_node) = S (block_Hash sample_crypto (ch_head sample_node))"
    using chain_invD(5) [OF inv] by (simp add: head_state_def)
  then obtain w rs where app: "ApplyBlock sample_crypto (ch_rewards sample_node) (S (block_Hash sample_crypto (ch_head sample_node))) sample_next
      (Some (blk_header (ch_head sample_node))) = Inr (w, rs)" using sample_next_valid(4) by auto
  obtain bc where i: "InsertBlock sample_crypto 1800000000000 sample_node sample_next = (None, None, bc)" "ch_head bc = sample_next"
    by (rule insert_on_head [OF inv sample_next_valid(1,2) app sample_next_valid(3)])
  have n: "node sample_crypto sample_genesis 0 bc"
    by (rule node.node_insert [OF sample_node_reached sample_next_valid(2) i(1)])
  have one: "blk_height sample_next = 1" by (simp add: sample_next_def empty_header_def sample_node_head)
  obtain bs where bs: "holds sample_crypto bc bs" "length bs = Suc (blk_height (ch_head bc))" "last bs = ch_head bc"
    by (rule node_holds [OF n])
  then obtain b where b: "bs = [b, sample_next]"
    using i(2) one by (auto simp: length_Suc_conv)
  then have z: "blk_height b = 0" "blk_parent sample_next = block_Hash sample_crypto b" using bs(1) by (auto simp: holds_def)
  let ?hs = "[blk_header b, (blk_header sample_next)\<lparr>hd_nonce := 2\<rparr>]"
  have ne: "header_Hash sample_crypto (?hs ! 1) \<noteq> block_Hash sample_crypto sample_next"
    using sample_header_nonce [of "?hs ! 1"] sample_header_nonce [of "blk_header sample_next"]
    by (auto simp: block_Hash_def sample_next_def)
  have p: "peer_chain sample_crypto (rival_peer ?hs) ?hs"
    using z one by (auto simp: peer_chain_def rival_peer_def less_Suc_eq numeral_2_eq_2 block_Hash_def)
  have rd: "fst (BlockByHeight sample_crypto bc 0) = Inr b" by (rule holds_reads [OF bs(1), of 0]) (simp_all add: b)
  have rd1: "fst (BlockByHeight sample_crypto bc 1) = Inr sample_next" by (rule holds_reads [OF bs(1), of 1]) (simp_all add: b)
  have q: "\<forall>n \<le> 1. \<forall>c. fst (BlockByHeight sample_crypto bc n) = Inr c \<and> block_Hash sample_crypto c = header_Hash sample_crypto (?hs ! n) \<longrightarrow>
      blk_header c = ?hs ! n"
    using rd rd1 ne by (auto simp: le_Suc_eq)
  have sh: "shares sample_crypto bc ?hs 0" using rd by (simp add: shares_def block_Hash_def)
  have sb: "sy_bc (NewSyncer bc None) = bc" by (simp add: NewSyncer_def)
  show thesis
    by (rule that [of "NewSyncer bc None" ?hs, unfolded sb i(2)]) (fact n one p ne q sh | simp)+
qed

theorem common_ancestor_exact_witness:
  "\<exists>s hs s'. node sample_crypto sample_genesis 0 (sy_bc s) \<and> length hs = 2 \<and>
    findCommonAncestor 1 sample_crypto (rival_peer hs) s 1 = (Inr (Some 0), s')"
proof (rule sample_fork)
  fix s :: syncer and hs
  assume a: "node sample_crypto sample_genesis 0 (sy_bc s)" "blk_height (ch_head (sy_bc s)) = 1"
    "peer_chain sample_crypto (rival_peer hs) hs" "length hs = 2" "shares sample_crypto (sy_bc s) hs 0"
    "\<forall>n \<le> 1. \<forall>b. fst (BlockByHeight sample_crypto (sy_bc s) n) = Inr b \<and> block_Hash sample_crypto b = header_Hash sample_crypto (hs ! n) \<longrightarrow>
      blk_header b = hs ! n"
    "header_Hash sample_crypto (hs ! 1) \<noteq> block_Hash sample_crypto (ch_head (sy_bc s))"
  have "0 < ch_retention (sy_bc s)"
    using node_inv [OF a(1)] chain_invD(1) by (force simp: params_ok_def)
  then have z: "1 - ch_retention (sy_bc s) = 0" by simp
  have "(1 :: nat) < length hs" "(1 :: nat) < 2 ^ 63" using a(4) by simp_all
  from common_ancestor_exact [OF a(1,3), unfolded a(2), OF this order_refl a(6,7)]
  obtain r s' where r: "findCommonAncestor 1 sample_crypto (rival_peer hs) s 1 = (Inr r, s')"
    "case r of None \<Rightarrow> \<not> shares sample_crypto (sy_bc s) hs (1 - ch_retention (sy_bc s))
      | Some anc \<Rightarrow> anc < 1 \<and> (\<forall>n \<le> 1. shares sample_crypto (sy_bc s) hs n \<longleftrightarrow> n \<le> anc)" by blast
  then have "r = Some 0" using a(5) unfolding z by (cases r) auto
  then show ?thesis using r(1) a(1,4) by blast
qed

end
