(* ===== verification/MiningPool.thy ===== *)
theory MiningPool
  imports Producer
begin

text \<open>
  The mining pool (\<^verbatim>\<open>src/pool/server.go\<close>, \<^verbatim>\<open>src/pool/persist.go\<close>): templates, shares, the PPLNS ledger, maturity and
  payouts.  The pool shares its chain and its transaction pool with its producer.  The signature of the
  pool key is the argument \<open>signer\<close>; instants are nanoseconds; a panic leaves the engine at that point.
  The frozen JSON of a template, the broadcast callback and logging are left out.
\<close>

section \<open>Configuration and state\<close>

record pool_config =
  cf_ShareDiffDivisor :: nat
  cf_MinShareDiff :: nat
  cf_FeeBps :: nat
  cf_Confirmations :: nat
  cf_WindowFactor :: nat
  cf_PayoutMin :: "int option"
  cf_StatePath :: string
  cf_RefreshInterval :: int

definition fillDefaults :: "pool_config \<Rightarrow> pool_config" where
  "fillDefaults c =
     c\<lparr>cf_ShareDiffDivisor := (if cf_ShareDiffDivisor c = 0 then 64 else cf_ShareDiffDivisor c),
       cf_MinShareDiff := (if cf_MinShareDiff c = 0 then 50000 else cf_MinShareDiff c),
       cf_Confirmations := (if cf_Confirmations c = 0 then 12 else cf_Confirmations c),
       cf_WindowFactor := (if cf_WindowFactor c = 0 then 2 else cf_WindowFactor c),
       cf_PayoutMin := (case cf_PayoutMin c of
           None \<Rightarrow> Some (OneLXS div 2) | Some x \<Rightarrow> if x \<le> 0 then Some (OneLXS div 2) else Some x),
       cf_RefreshInterval := (if cf_RefreshInterval c = 0 then 10 * 1000000000 else cf_RefreshInterval c)\<rparr>"

definition payoutGasReserve :: int where "payoutGasReserve = 2000000"
definition maxRing :: nat where "maxRing = 100000"

record work_template =
  wt_id :: hash
  wt_hdr :: header
  wt_txs :: "tx list"
  wt_minerFees :: int
  wt_shareDiff :: nat
  wt_shareTarget :: int
  wt_blockTarget :: int
  wt_built :: int
  wt_parent :: hash
  wt_seen :: "nat set"

record share_entry =
  sh_addr :: address
  sh_diff :: nat

record foundBlock =
  fb_Height :: nat
  fb_Hash :: hash
  fb_Payouts :: "(address, int) gomap"

record ledger =
  lg_balances :: "(address, int) gomap"
  lg_pending :: "foundBlock list"
  lg_totalShares :: nat
  lg_totalBlocks :: nat
  lg_totalOrphans :: nat
  lg_totalPaid :: int

datatype ledger_file = NoFile | Unreadable | Corrupt | LedgerFile ledger

record pool_server =
  ps_cfg :: pool_config
  ps_prod :: producer
  ps_addr :: address
  ps_templates :: "(hash, work_template) gomap"
  ps_current :: hash
  ps_ring :: "share_entry list"
  ps_pending :: "foundBlock list"
  ps_balances :: "(address, int) gomap"
  ps_lastSeen :: "(address, int) gomap"
  ps_recent :: "(int \<times> nat) list"
  ps_nextNonce :: nat
  ps_nonceInit :: bool
  ps_totalShares :: nat
  ps_totalBlocks :: nat
  ps_totalOrphans :: nat
  ps_totalPaid :: int
  ps_file :: ledger_file

section \<open>Persistence\<close>

definition saveLocked :: "bool \<Rightarrow> pool_server \<Rightarrow> pool_server" where
  "saveLocked saved s =
     (if cf_StatePath (ps_cfg s) = [] \<or> \<not> saved then s
      else s\<lparr>ps_file := LedgerFile \<lparr>lg_balances = ps_balances s, lg_pending = ps_pending s, lg_totalShares = ps_totalShares s,
        lg_totalBlocks = ps_totalBlocks s, lg_totalOrphans = ps_totalOrphans s, lg_totalPaid = ps_totalPaid s\<rparr>\<rparr>)"

text \<open>The balances and payouts of the file are decoded into maps, the last entry of a key winning.\<close>

definition pool_load :: "pool_server \<Rightarrow> pool_server option" where
  "pool_load s =
     (if cf_StatePath (ps_cfg s) = [] then Some s
      else case ps_file s of
        NoFile \<Rightarrow> Some s
      | Unreadable \<Rightarrow> None
      | Corrupt \<Rightarrow> None
      | LedgerFile l \<Rightarrow>
          Some (s\<lparr>ps_balances := foldl (\<lambda>m (a, x). AList.update a x m) (ps_balances s) (lg_balances l),
            ps_pending := ps_pending s @ lg_pending l, ps_totalShares := lg_totalShares l,
            ps_totalBlocks := lg_totalBlocks l, ps_totalOrphans := lg_totalOrphans l, ps_totalPaid := lg_totalPaid l\<rparr>))"

definition NewServer :: "pool_config \<Rightarrow> producer \<Rightarrow> address \<Rightarrow> ledger_file \<Rightarrow> pool_server option" where
  "NewServer cfg p addr file =
     pool_load \<lparr>ps_cfg = fillDefaults cfg, ps_prod = p, ps_addr = addr, ps_templates = [], ps_current = 0, ps_ring = [],
       ps_pending = [], ps_balances = [], ps_lastSeen = [], ps_recent = [], ps_nextNonce = 0, ps_nonceInit = False,
       ps_totalShares = 0, ps_totalBlocks = 0, ps_totalOrphans = 0, ps_totalPaid = 0, ps_file = file\<rparr>"

section \<open>Templates\<close>

definition share_difficulty :: "pool_config \<Rightarrow> nat \<Rightarrow> nat" where
  "share_difficulty cfg difficulty =
     (let d = difficulty div cf_ShareDiffDivisor cfg;
          d1 = (if d < cf_MinShareDiff cfg then cf_MinShareDiff cfg else d)
      in if d1 > difficulty then difficulty else d1)"

definition rebuildLocked :: "crypto \<Rightarrow> walk_order \<Rightarrow> int \<Rightarrow> bool \<Rightarrow> pool_server \<Rightarrow> pool_server" where
  "rebuildLocked E wk now headMoved s =
     (let s1 = (if headMoved then s\<lparr>ps_templates := []\<rparr> else s) in
      case BuildUnsealed E wk (now div 1000000) (ps_prod s1) of
        (Inl e, p1) \<Rightarrow> s1\<lparr>ps_prod := p1\<rparr>
      | (Inr (blk, fees), p1) \<Rightarrow>
          let hdr = blk_header blk;
              sd = share_difficulty (ps_cfg s1) (hd_difficulty hdr);
              t = \<lparr>wt_id = header_Hash E hdr, wt_hdr = hdr, wt_txs = blk_txs blk, wt_minerFees = fees, wt_shareDiff = sd,
                wt_shareTarget = PowTarget sd, wt_blockTarget = PowTarget (hd_difficulty hdr), wt_built = now,
                wt_parent = hd_parent hdr, wt_seen = {}\<rparr>;
              ts = (if length (ps_templates s1) \<ge> 64 then [] else ps_templates s1)
          in s1\<lparr>ps_prod := p1, ps_templates := AList.update (wt_id t) t ts, ps_current := wt_id t\<rparr>)"

section \<open>Shares\<close>

text \<open>The work of the window, newest share first, by address; the second result is its sum.\<close>

fun pplns_window :: "int \<Rightarrow> share_entry list \<Rightarrow> (address, int) gomap \<times> int \<Rightarrow> (address, int) gomap \<times> int" where
  "pplns_window win [] acc = acc"
| "pplns_window win (sh # shs) (perAddr, totalD) =
     (if totalD < win
      then pplns_window win shs
        (AList.update (sh_addr sh)
           ((case map_of perAddr (sh_addr sh) of None \<Rightarrow> 0 | Some cur \<Rightarrow> cur) + int (sh_diff sh)) perAddr,
         totalD + int (sh_diff sh))
      else (perAddr, totalD))"

definition pplnsLocked :: "walk_order \<Rightarrow> pool_server \<Rightarrow> int \<Rightarrow> nat \<Rightarrow> (address, int) gomap" where
  "pplnsLocked wk s pot blockDiff =
     (case pplns_window (int blockDiff * int (cf_WindowFactor (ps_cfg s))) (rev (ps_ring s)) ([], 0) of
        (perAddr, totalD) \<Rightarrow>
          if totalD = 0 then []
          else foldl (\<lambda>out (addr, d). let amt = pot * d div totalD in if amt > 0 then AList.update addr amt out else out)
            [] (visit wk perAddr))"

definition found_pot :: "pool_config \<Rightarrow> nat \<Rightarrow> int \<Rightarrow> int" where
  "found_pot cfg height minerFees =
     (let pot0 = BlockRewardAt height + minerFees;
          pot1 = (if cf_FeeBps cfg > 0 then pot0 - pot0 * int (cf_FeeBps cfg) div 10000 else pot0);
          pot2 = pot1 - payoutGasReserve
      in if pot2 < 0 then 0 else pot2)"

datatype share_result = ErrStale | ErrDuplicate | ErrBadShare | ShareCredited | BlockWon | SharePanic

text \<open>Crediting the work of a share, block or not.\<close>

definition credit_share :: "int \<Rightarrow> pool_server \<Rightarrow> hash \<Rightarrow> work_template \<Rightarrow> nat \<Rightarrow> address \<Rightarrow> pool_server" where
  "credit_share now s workID t nonce addr =
     (let ring = ps_ring s @ [\<lparr>sh_addr = addr, sh_diff = wt_shareDiff t\<rparr>];
          seen = AList.update addr now (ps_lastSeen s);
          recent = ps_recent s @ [(now, wt_shareDiff t)]
      in s\<lparr>ps_templates := AList.update workID (t\<lparr>wt_seen := insert nonce (wt_seen t)\<rparr>) (ps_templates s),
           ps_ring := (if length ring > maxRing then drop (length ring - maxRing) ring else ring),
           ps_totalShares := add64 (ps_totalShares s) 1,
           ps_lastSeen := (if length seen > 10000 then filter (\<lambda>(a, seen_at). \<not> now - seen_at > 3600 * 1000000000) seen else seen),
           ps_recent := (if length recent > 10000 then drop (length recent - 10000) recent else recent)\<rparr>)"

definition handleShare :: "crypto \<Rightarrow> journal_io \<Rightarrow> walk_order \<Rightarrow> bool \<Rightarrow> int \<Rightarrow> pool_server \<Rightarrow> hash \<Rightarrow> nat \<Rightarrow> address \<Rightarrow>
    share_result \<times> pool_server" where
  "handleShare E io wk saved now s workID nonce addr =
     (case map_of (ps_templates s) workID of
        None \<Rightarrow> (ErrStale, s)
      | Some t \<Rightarrow>
          if nonce \<in> wt_seen t then (ErrDuplicate, s)
          else
            let hdr = (wt_hdr t)\<lparr>hd_nonce := nonce\<rparr>;
                t1 = t\<lparr>wt_hdr := hdr\<rparr>;
                val = uint (header_Hash E hdr)
            in if val > wt_shareTarget t then (ErrBadShare, s\<lparr>ps_templates := AList.update workID t1 (ps_templates s)\<rparr>)
               else let s1 = credit_share now s workID t1 nonce addr in
                 if val > wt_blockTarget t then (ShareCredited, s1)
                 else
                   let blk = \<lparr>blk_header = hdr, blk_txs = wt_txs t\<rparr> in
                   (case Commit E io wk (now div 1000000) (ps_prod s1) blk of
                      (Inl e, p1) \<Rightarrow>
                        (if e = ErrHookPanic \<or> e = ErrProduce ErrPanic then SharePanic else ShareCredited, s1\<lparr>ps_prod := p1\<rparr>)
                    | (Inr _, p1) \<Rightarrow>
                        let fb = \<lparr>fb_Height = hd_height hdr, fb_Hash = block_Hash E blk,
                              fb_Payouts = pplnsLocked wk s1 (found_pot (ps_cfg s1) (hd_height hdr) (wt_minerFees t)) (hd_difficulty hdr)\<rparr>;
                            s2 = s1\<lparr>ps_prod := p1, ps_pending := ps_pending s1 @ [fb], ps_totalBlocks := add64 (ps_totalBlocks s1) 1\<rparr>
                        in (BlockWon, rebuildLocked E wk now True (saveLocked saved s2))))"

section \<open>Maturity\<close>

definition credit_payouts :: "walk_order \<Rightarrow> (address, int) gomap \<Rightarrow> (address, int) gomap \<Rightarrow> (address, int) gomap" where
  "credit_payouts wk balances payouts =
     foldl (\<lambda>m (addr, amt). AList.update addr (case map_of m addr of None \<Rightarrow> amt | Some cur \<Rightarrow> cur + amt) m) balances (visit wk payouts)"

text \<open>One pending block: kept, orphaned, or credited; the flag says whether the ledger changed.\<close>

definition mature_one :: "crypto \<Rightarrow> walk_order \<Rightarrow> nat \<Rightarrow> pool_server \<times> bool \<Rightarrow> foundBlock \<Rightarrow> pool_server \<times> bool" where
  "mature_one E wk headHeight = (\<lambda>(s, changed) fb.
     if headHeight < add64 (fb_Height fb) (cf_Confirmations (ps_cfg s))
     then (s\<lparr>ps_pending := ps_pending s @ [fb]\<rparr>, changed)
     else case BlockByHeight E (pr_bc (ps_prod s)) (fb_Height fb) of
       (r, bc1) \<Rightarrow>
         let s1 = s\<lparr>ps_prod := (ps_prod s)\<lparr>pr_bc := bc1\<rparr>\<rparr> in
         if (case r of Inl _ \<Rightarrow> True | Inr b \<Rightarrow> block_Hash E b \<noteq> fb_Hash fb)
         then (s1\<lparr>ps_totalOrphans := add64 (ps_totalOrphans s1) 1\<rparr>, True)
         else (s1\<lparr>ps_balances := credit_payouts wk (ps_balances s1) (fb_Payouts fb)\<rparr>, True))"

definition matureLocked :: "crypto \<Rightarrow> walk_order \<Rightarrow> bool \<Rightarrow> nat \<Rightarrow> pool_server \<Rightarrow> pool_server" where
  "matureLocked E wk saved headHeight s =
     (if ps_pending s = [] then s
      else case foldl (mature_one E wk headHeight) (s\<lparr>ps_pending := []\<rparr>, False) (ps_pending s) of
        (s1, changed) \<Rightarrow> if changed then saveLocked saved s1 else s1)"

section \<open>Payouts\<close>

definition payout_tx :: "pool_server \<Rightarrow> address \<Rightarrow> int \<Rightarrow> tx" where
  "payout_tx s to amount =
     \<lparr>tx_type = TxTypeTransfer, tx_chainid = ch_chainID (pr_bc (ps_prod s)), tx_nonce = ps_nextNonce s, tx_to = Some to,
      tx_value = Some amount, tx_gaslimit = 21000, tx_gasprice = Some 1, tx_data = [], tx_sig = []\<rparr>"

text \<open>The first result is false once a panic of the transaction pool has left the loop.\<close>

definition payout_one :: "crypto \<Rightarrow> walk_order \<Rightarrow> (hash \<Rightarrow> bytes option) \<Rightarrow> world \<Rightarrow> bool \<times> bool \<times> pool_server \<Rightarrow>
    address \<times> int \<Rightarrow> bool \<times> bool \<times> pool_server" where
  "payout_one E wk signer snap = (\<lambda>(alive, changed, s) (addr, bal).
     if \<not> alive \<or> bal < the (cf_PayoutMin (ps_cfg s)) then (alive, changed, s)
     else
       let tx0 = payout_tx s addr bal in
       case signer (SigningHash E tx0) of
         None \<Rightarrow> (alive, changed, s)
       | Some sig \<Rightarrow>
           let tx = tx0\<lparr>tx_sig := sig\<rparr> in
           if CheckState E snap tx \<noteq> None then (alive, changed, s)
           else case pool_Add E wk (pr_pool (ps_prod s)) tx (ch_chainID (pr_bc (ps_prod s))) of
             (Some e, m1) \<Rightarrow> (e \<noteq> ErrPoolPanic, changed, s\<lparr>ps_prod := (ps_prod s)\<lparr>pr_pool := m1\<rparr>\<rparr>)
           | (None, m1) \<Rightarrow>
               (alive, True, s\<lparr>ps_prod := (ps_prod s)\<lparr>pr_pool := m1\<rparr>, ps_balances := AList.delete addr (ps_balances s),
                  ps_nextNonce := add64 (ps_nextNonce s) 1, ps_totalPaid := ps_totalPaid s + bal\<rparr>))"

definition payoutLocked :: "crypto \<Rightarrow> walk_order \<Rightarrow> (hash \<Rightarrow> bytes option) \<Rightarrow> bool \<Rightarrow> pool_server \<Rightarrow> bool \<times> pool_server" where
  "payoutLocked E wk signer saved s =
     (case StateSnapshot E (pr_bc (ps_prod s)) of
        None \<Rightarrow> (False, s)
      | Some snap \<Rightarrow>
          let committed = GetNonce snap (ps_addr s);
              s1 = (if \<not> ps_nonceInit s \<or> committed > ps_nextNonce s
                then s\<lparr>ps_nextNonce := committed, ps_nonceInit := True\<rparr> else s)
          in case foldl (payout_one E wk signer snap) (True, False, s1) (visit wk (ps_balances s1)) of
               (alive, changed, s2) \<Rightarrow> (alive, if alive \<and> changed then saveLocked saved s2 else s2))"

definition pool_tick :: "crypto \<Rightarrow> walk_order \<Rightarrow> (hash \<Rightarrow> bytes option) \<Rightarrow> bool \<Rightarrow> int \<Rightarrow> pool_server \<Rightarrow> bool \<times> pool_server" where
  "pool_tick E wk signer saved now s =
     (let head = ch_head (pr_bc (ps_prod s)) in
      case payoutLocked E wk signer saved (matureLocked E wk saved (blk_height head) s) of
        (False, s1) \<Rightarrow> (False, s1)
      | (True, s1) \<Rightarrow>
          (True,
           case map_of (ps_templates s1) (ps_current s1) of
             None \<Rightarrow> rebuildLocked E wk now True s1
           | Some cur \<Rightarrow>
               let headMoved = (wt_parent cur \<noteq> block_Hash E head) in
               if headMoved \<or> now - wt_built cur \<ge> cf_RefreshInterval (ps_cfg s1) then rebuildLocked E wk now headMoved s1
               else s1))"

end
