(* ===== verification/MiningPool_Properties.thy ===== *)
theory MiningPool_Properties
  imports MiningPool Producer_Properties
begin

text \<open>What the pool owes against what the blocks it won brought in.\<close>

section \<open>Sums over maps\<close>

definition owed :: "(address, int) gomap \<Rightarrow> int" where
  "owed m = sum_list (map snd m)"

lemma owed_simps [simp]: "owed [] = 0" "owed (x # m) = snd x + owed m" "owed (m @ n) = owed m + owed n"
  by (simp_all add: owed_def)

lemma owed_update:
  "owed (AList.update k v m) = owed m + v - (case map_of m k of None \<Rightarrow> 0 | Some x \<Rightarrow> x)"
  by (induction m) auto

lemma owed_delete: "distinct (map fst m) \<Longrightarrow> map_of m k = Some x \<Longrightarrow> owed (AList.delete k m) = owed m - x"
proof (induction m)
  case (Cons y m)
  then show ?case by (cases "fst y = k") (auto simp: delete_idem image_iff)
qed simp

lemma owed_visit: "fair wk \<Longrightarrow> owed (visit wk m) = owed m"
  unfolding owed_def using visit_mset [of wk m] by (metis mset_map sum_mset_sum_list)

lemma visit_distinct: "fair wk \<Longrightarrow> distinct (map fst m) \<Longrightarrow> distinct (map fst (visit wk m))"
  using visit_mset [of wk m] by (metis mset_eq_imp_distinct_iff mset_map)

section \<open>The split of a pot\<close>

definition nonneg :: "(address, int) gomap \<Rightarrow> bool" where
  "nonneg m \<longleftrightarrow> distinct (map fst m) \<and> (\<forall>x \<in> set m. 0 \<le> snd x)"

lemma nonneg_owed: "nonneg m \<Longrightarrow> 0 \<le> owed m"
  unfolding nonneg_def owed_def by (intro sum_list_nonneg) auto

lemma update_new: "map_of m k = None \<Longrightarrow> AList.update k v m = m @ [(k, v)]"
  by (induction m) (auto split: if_splits)

lemma nonneg_update: "nonneg m \<Longrightarrow> 0 \<le> v \<Longrightarrow> nonneg (AList.update k v m)"
  using set_update_subset [of k v m] by (auto simp: nonneg_def distinct_update)

lemma nonneg_delete: "nonneg m \<Longrightarrow> nonneg (AList.delete k m)"
proof -
  have "set (AList.delete k m) \<subseteq> set m" by (auto simp: AList.delete_eq)
  then show "nonneg m \<Longrightarrow> nonneg (AList.delete k m)" by (auto simp: nonneg_def distinct_delete)
qed

lemma nonneg_lookup: "nonneg m \<Longrightarrow> map_of m k = Some x \<Longrightarrow> 0 \<le> x"
  unfolding nonneg_def by (metis map_of_SomeD snd_conv)

lemma pplns_window_sum:
  "pplns_window win shs (m, t) = (m', t') \<Longrightarrow> nonneg m \<Longrightarrow> owed m = t \<Longrightarrow> nonneg m' \<and> owed m' = t'"
proof (induction shs arbitrary: m t)
  case (Cons sh shs)
  let ?d = "(case map_of m (sh_addr sh) of None \<Rightarrow> 0 | Some cur \<Rightarrow> cur) + int (sh_diff sh)"
  have "0 \<le> ?d" using nonneg_lookup [OF Cons.prems(2)] by (auto split: option.split)
  then have n: "nonneg (AList.update (sh_addr sh) ?d m)" by (rule nonneg_update [OF Cons.prems(2)])
  have o: "owed (AList.update (sh_addr sh) ?d m) = t + int (sh_diff sh)"
    using Cons.prems(3) by (simp add: owed_update split: option.split)
  show ?case
  proof (cases "t < win")
    case True
    then show ?thesis using Cons.IH [OF _ n o] Cons.prems(1) by simp
  qed (use Cons.prems in simp)
qed simp

lemma sum_div_le: "0 < t \<Longrightarrow> (\<Sum>x \<leftarrow> xs. f x div t) \<le> (\<Sum>x \<leftarrow> xs. f x) div (t :: int)"
proof (induction xs)
  case (Cons x xs)
  have "f x div t + (\<Sum>x \<leftarrow> xs. f x) div t \<le> (f x + (\<Sum>x \<leftarrow> xs. f x)) div t"
    using Cons.prems pos_imp_zdiv_nonneg_iff [of t "f x mod t + (\<Sum>x \<leftarrow> xs. f x) mod t"]
    by (subst div_add1_eq [of "f x"]) simp
  then show ?case using Cons by simp
qed simp

lemma split_pot:
  assumes "distinct (map fst (out @ xs))" and "\<forall>x \<in> set xs. 0 \<le> snd x" and "0 \<le> pot" and "0 < t" and "nonneg out"
  shows "let r = foldl (\<lambda>out (addr, d). let amt = pot * d div t in if amt > 0 then AList.update addr amt out else out) out xs in
    nonneg r \<and> owed r = owed out + (\<Sum>x \<leftarrow> xs. pot * snd x div t)"
  using assms
proof (induction xs arbitrary: out)
  case (Cons x xs)
  obtain a d where x: "x = (a, d)" by (cases x)
  let ?amt = "pot * d div t"
  have amt: "0 \<le> ?amt" using Cons.prems(2-4) x by (simp add: pos_imp_zdiv_nonneg_iff)
  have a: "map_of out a = None" using Cons.prems(1) x by (auto simp: map_of_eq_None_iff)
  let ?o = "if ?amt > 0 then AList.update a ?amt out else out"
  have u: "AList.update a ?amt out = out @ [(a, ?amt)]" by (rule update_new [OF a])
  have "distinct (map fst (?o @ xs))" using Cons.prems(1) x u by auto
  moreover have "nonneg ?o" using nonneg_update [OF Cons.prems(5) amt] Cons.prems(5) by simp
  moreover have "owed ?o = owed out + ?amt" using a amt by (simp add: owed_update)
  ultimately show ?case using Cons.IH [of ?o] Cons.prems(2-4) x by (simp add: Let_def)
qed simp

lemma pplns_within_pot:
  assumes "fair wk" and "0 \<le> pot"
  shows "nonneg (pplnsLocked wk s pot d)" "owed (pplnsLocked wk s pot d) \<le> pot"
proof -
  obtain m t where w: "pplns_window (int d * int (cf_WindowFactor (ps_cfg s))) (rev (ps_ring s)) ([], 0) = (m, t)" by fastforce
  have m: "nonneg m" "owed m = t" using pplns_window_sum [OF w] by (simp_all add: nonneg_def)
  have "nonneg (pplnsLocked wk s pot d) \<and> owed (pplnsLocked wk s pot d) \<le> pot"
  proof (cases "t = 0")
    case True
    then show ?thesis using w assms(2) by (simp add: pplnsLocked_def nonneg_def)
  next
    case False
    then have t: "0 < t" using nonneg_owed [OF m(1)] m(2) by simp
    let ?xs = "visit wk m"
    have xs: "distinct (map fst ([] @ ?xs))" "\<forall>x \<in> set ?xs. 0 \<le> snd x"
      using m(1) visit_distinct [OF assms(1), of m] visit_set [OF assms(1), of m] by (simp_all add: nonneg_def)
    have "nonneg []" by (simp add: nonneg_def)
    note r = split_pot [OF xs assms(2) t this]
    have "(\<Sum>x \<leftarrow> ?xs. pot * snd x) = pot * owed ?xs" by (simp add: owed_def sum_list_const_mult o_def)
    then have "(\<Sum>x \<leftarrow> ?xs. pot * snd x div t) \<le> pot"
      using sum_div_le [OF t, of "\<lambda>x. pot * snd x" ?xs] owed_visit [OF assms(1), of m] m(2) t by simp
    then show ?thesis using r w False by (simp add: pplnsLocked_def Let_def)
  qed
  then show "nonneg (pplnsLocked wk s pot d)" "owed (pplnsLocked wk s pot d) \<le> pot" by blast+
qed

lemma credit_payouts_sum:
  assumes "fair wk" and "nonneg m" and "nonneg payouts"
  shows "nonneg (credit_payouts wk m payouts)" "owed (credit_payouts wk m payouts) = owed m + owed payouts"
proof -
  let ?f = "\<lambda>m (addr, amt). AList.update addr (case map_of m addr of None \<Rightarrow> amt | Some cur \<Rightarrow> cur + amt) m"
  have "nonneg m \<Longrightarrow> \<forall>x \<in> set xs. 0 \<le> snd x \<Longrightarrow> nonneg (foldl ?f m xs) \<and> owed (foldl ?f m xs) = owed m + owed xs" for m xs
  proof (induction xs arbitrary: m)
    case (Cons x xs)
    obtain a v where x: "x = (a, v)" by (cases x)
    let ?m = "?f m (a, v)"
    have "nonneg ?m" using nonneg_lookup [OF Cons.prems(1)] Cons.prems x
      by (auto intro!: nonneg_update split: option.split)
    moreover have "owed ?m = owed m + v" by (simp add: owed_update split: option.split)
    ultimately show ?case using Cons.IH [of ?m] Cons.prems(2) x by simp
  qed simp
  note r = this [OF assms(2), of "visit wk payouts"]
  have "\<forall>x \<in> set (visit wk payouts). 0 \<le> snd x" using assms(3) visit_set [OF assms(1), of payouts] by (simp add: nonneg_def)
  with r show "nonneg (credit_payouts wk m payouts)" "owed (credit_payouts wk m payouts) = owed m + owed payouts"
    using owed_visit [OF assms(1), of payouts] by (simp_all add: credit_payouts_def)
qed


section \<open>The ledger\<close>

definition pending_owed :: "foundBlock list \<Rightarrow> int" where
  "pending_owed fbs = sum_list (map (\<lambda>fb. owed (fb_Payouts fb)) fbs)"

lemma pending_owed_simps [simp]:
  "pending_owed [] = 0" "pending_owed (fb # fbs) = owed (fb_Payouts fb) + pending_owed fbs"
  "pending_owed (fbs @ gbs) = pending_owed fbs + pending_owed gbs"
  by (simp_all add: pending_owed_def)

text \<open>\<open>rest\<close> are pending blocks still to be looked at.\<close>

definition backed :: "pool_server \<Rightarrow> foundBlock list \<Rightarrow> int \<Rightarrow> bool" where
  "backed s rest pots \<longleftrightarrow> nonneg (ps_balances s) \<and> (\<forall>fb \<in> set (ps_pending s) \<union> set rest. nonneg (fb_Payouts fb)) \<and>
     0 \<le> ps_totalPaid s \<and> owed (ps_balances s) + pending_owed (ps_pending s) + pending_owed rest + ps_totalPaid s \<le> pots"

abbreviation ledger_part :: "pool_server \<Rightarrow> _" where
  "ledger_part s \<equiv> (ps_balances s, ps_pending s, ps_totalPaid s)"

lemma backed_cong: "backed s rest pots \<Longrightarrow> ledger_part s' = ledger_part s \<Longrightarrow> backed s' rest pots"
  by (simp add: backed_def)

lemma saveLocked_keeps: "ledger_part (saveLocked ok s) = ledger_part s"
  by (simp add: saveLocked_def)

lemma rebuildLocked_keeps: "ledger_part (rebuildLocked E wk now moved s) = ledger_part s"
  by (auto simp: rebuildLocked_def Let_def split: prod.split sum.split)

lemma mature_one_backed:
  assumes "fair wk" and "backed s (fb # rest) pots"
  shows "backed (fst (mature_one E wk h (s, c) fb)) rest pots"
proof -
  have n: "nonneg (ps_balances s)" "nonneg (fb_Payouts fb)" using assms(2) by (simp_all add: backed_def)
  obtain r bc1 where r: "BlockByHeight E (pr_bc (ps_prod s)) (fb_Height fb) = (r, bc1)" by fastforce
  show ?thesis
    using assms(2) n credit_payouts_sum [OF assms(1) n] nonneg_owed [OF n(2)]
    by (auto simp: mature_one_def r Let_def backed_def)
qed

lemma mature_all_backed:
  "fair wk \<Longrightarrow> backed s rest pots \<Longrightarrow> backed (fst (foldl (mature_one E wk h) (s, c) rest)) [] pots"
proof (induction rest arbitrary: s c)
  case (Cons fb rest)
  obtain s1 c1 where r: "mature_one E wk h (s, c) fb = (s1, c1)" by fastforce
  then show ?case using Cons.IH mature_one_backed [OF Cons.prems, of E h c] Cons.prems(1) by simp
qed simp

lemma matureLocked_backed:
  assumes "fair wk" and "backed s [] pots"
  shows "backed (matureLocked E wk ok h s) [] pots"
proof -
  have "backed (s\<lparr>ps_pending := []\<rparr>) (ps_pending s) pots" using assms(2) by (simp add: backed_def)
  from mature_all_backed [OF assms(1) this, of E h False] assms(2) show ?thesis
    by (auto simp: matureLocked_def split: prod.split intro: backed_cong [OF _ saveLocked_keeps])
qed

lemma payout_one_backed:
  assumes "backed s [] pots" and "map_of (ps_balances s) a = Some x"
  shows "backed (snd (snd (payout_one E wk signer snap (alive, c, s) (a, x)))) [] pots"
    "b \<noteq> a \<Longrightarrow> map_of (ps_balances (snd (snd (payout_one E wk signer snap (alive, c, s) (a, x))))) b = map_of (ps_balances s) b"
proof -
  have n: "nonneg (ps_balances s)" using assms(1) by (simp add: backed_def)
  have d: "nonneg (AList.delete a (ps_balances s))" "owed (AList.delete a (ps_balances s)) = owed (ps_balances s) - x" "0 \<le> x"
    using n owed_delete [OF _ assms(2)] nonneg_lookup [OF n assms(2)] nonneg_delete [OF n] by (simp_all add: nonneg_def)
  show "backed (snd (snd (payout_one E wk signer snap (alive, c, s) (a, x)))) [] pots"
    using assms(1) d by (auto simp: payout_one_def Let_def backed_def split: option.split prod.split)
  show "map_of (ps_balances (snd (snd (payout_one E wk signer snap (alive, c, s) (a, x))))) b = map_of (ps_balances s) b" if "b \<noteq> a"
    using that by (auto simp: payout_one_def Let_def delete_conv' split: option.split prod.split)
qed

lemma payout_all_backed:
  "backed s [] pots \<Longrightarrow> distinct (map fst xs) \<Longrightarrow> \<forall>(a, x) \<in> set xs. map_of (ps_balances s) a = Some x \<Longrightarrow>
    backed (snd (snd (foldl (payout_one E wk signer snap) (alive, c, s) xs))) [] pots"
proof (induction xs arbitrary: alive c s)
  case (Cons y xs)
  obtain a x where y: "y = (a, x)" by (cases y)
  obtain alive1 c1 s1 where r: "payout_one E wk signer snap (alive, c, s) (a, x) = (alive1, c1, s1)" by (rule prod_cases3)
  have m: "map_of (ps_balances s) a = Some x" using Cons.prems(3) y by simp
  have "backed s1 [] pots" using payout_one_backed(1) [OF Cons.prems(1) m, of E wk signer snap alive c] r by simp
  moreover have "\<forall>(b, v) \<in> set xs. map_of (ps_balances s1) b = Some v"
    using payout_one_backed(2) [OF Cons.prems(1) m, of _ E wk signer snap alive c] r Cons.prems(2,3) y by (force simp: image_iff)
  ultimately show ?case using Cons.IH Cons.prems(2) y r by simp
qed simp

lemma payoutLocked_backed:
  assumes "fair wk" and "backed s [] pots"
  shows "backed (snd (payoutLocked E wk signer ok s)) [] pots"
proof (cases "StateSnapshot E (pr_bc (ps_prod s))")
  case (Some snap)
  define s1 where "s1 = (if \<not> ps_nonceInit s \<or> GetNonce snap (ps_addr s) > ps_nextNonce s
    then s\<lparr>ps_nextNonce := GetNonce snap (ps_addr s), ps_nonceInit := True\<rparr> else s)"
  have b: "backed s1 [] pots" using assms(2) by (simp add: s1_def backed_def)
  have d: "distinct (map fst (ps_balances s1))" using b by (simp add: backed_def nonneg_def)
  have "distinct (map fst (visit wk (ps_balances s1)))" "\<forall>(a, x) \<in> set (visit wk (ps_balances s1)). map_of (ps_balances s1) a = Some x"
    using visit_distinct [OF assms(1) d] visit_set [OF assms(1), of "ps_balances s1"] d by (auto intro: map_of_is_SomeI)
  note r = payout_all_backed [OF b this, of E wk signer snap True False]
  obtain alive c s2 where f: "foldl (payout_one E wk signer snap) (True, False, s1) (visit wk (ps_balances s1)) = (alive, c, s2)"
    by (rule prod_cases3)
  have "backed s2 [] pots" using r f by simp
  moreover have "payoutLocked E wk signer ok s = (alive, if alive \<and> c then saveLocked ok s2 else s2)"
    unfolding payoutLocked_def Let_def Some option.case s1_def [symmetric] f by simp
  ultimately show ?thesis using backed_cong [OF _ saveLocked_keeps] by simp
qed (use assms(2) in \<open>simp add: payoutLocked_def\<close>)

section \<open>The running pool\<close>

definition won_pot :: "pool_server \<Rightarrow> hash \<Rightarrow> int" where
  "won_pot s workID = (case map_of (ps_templates s) workID of None \<Rightarrow> 0
     | Some t \<Rightarrow> found_pot (ps_cfg s) (hd_height (wt_hdr t)) (wt_minerFees t))"

text \<open>A pool started without a ledger, and the pots of the blocks it won since.\<close>

inductive serving :: "crypto \<Rightarrow> pool_server \<Rightarrow> int \<Rightarrow> bool" for E where
  serving_new: "NewServer cfg p addr NoFile = Some s \<Longrightarrow> serving E s 0"
| serving_share: "serving E s pots \<Longrightarrow> fair wk \<Longrightarrow> handleShare E io wk ok now s workID nonce addr = (r, s') \<Longrightarrow>
    serving E s' (pots + (if r = BlockWon then won_pot s workID else 0))"
| serving_tick: "serving E s pots \<Longrightarrow> fair wk \<Longrightarrow> pool_tick E wk signer ok now s = (alive, s') \<Longrightarrow> serving E s' pots"

lemma found_pot_nonneg: "0 \<le> found_pot cfg h fees"
  by (simp add: found_pot_def Let_def)

lemma handleShare_backed:
  assumes f: "fair wk" and b: "backed s [] pots" and r: "handleShare E io wk ok now s workID nonce addr = (r, s')"
  shows "backed s' [] (pots + (if r = BlockWon then won_pot s workID else 0))"
proof (cases "map_of (ps_templates s) workID")
  case None
  then show ?thesis using b r by (simp add: handleShare_def)
next
  case (Some t)
  let ?hdr = "(wt_hdr t)\<lparr>hd_nonce := nonce\<rparr>"
  define s1 where "s1 = credit_share now s workID (t\<lparr>wt_hdr := ?hdr\<rparr>) nonce addr"
  define blk where "blk = \<lparr>blk_header = ?hdr, blk_txs = wt_txs t\<rparr>"
  define pot where "pot = found_pot (ps_cfg s1) (hd_height ?hdr) (wt_minerFees t)"
  have k: "ledger_part s1 = ledger_part s" "ps_cfg s1 = ps_cfg s" by (simp_all add: s1_def credit_share_def Let_def)
  have won: "won_pot s workID = pot" using Some k by (simp add: won_pot_def pot_def)
  obtain c p1 where c: "Commit E io wk (now div 1000000) (ps_prod s1) blk = (c, p1)" by fastforce
  define fb where "fb = \<lparr>fb_Height = hd_height ?hdr, fb_Hash = block_Hash E blk, fb_Payouts = pplnsLocked wk s1 pot (hd_difficulty ?hdr)\<rparr>"
  define s2 where "s2 = s1\<lparr>ps_prod := p1, ps_pending := ps_pending s1 @ [fb], ps_totalBlocks := add64 (ps_totalBlocks s1) 1\<rparr>"
  have cases: "(r \<noteq> BlockWon \<and> ledger_part s' = ledger_part s) \<or> (r = BlockWon \<and> s' = rebuildLocked E wk now True (saveLocked ok s2))"
    using r Some k c
    by (auto simp: handleShare_def Let_def s1_def [symmetric] blk_def [symmetric] pot_def fb_def s2_def
        split: if_splits sum.splits)
  have "0 \<le> pot" by (simp add: pot_def found_pot_nonneg)
  note w = pplns_within_pot [OF f this, of s1 "hd_difficulty ?hdr"]
  have "backed s2 [] (pots + pot)" using b k w by (auto simp: s2_def fb_def backed_def)
  then have "backed (rebuildLocked E wk now True (saveLocked ok s2)) [] (pots + pot)"
    by (intro backed_cong [OF backed_cong [OF _ saveLocked_keeps] rebuildLocked_keeps])
  then show ?thesis using cases b won by (auto intro: backed_cong)
qed

lemma serving_backed: "serving E s pots \<Longrightarrow> backed s [] pots"
proof (induction rule: serving.induct)
  case (serving_new cfg p addr s)
  then show ?case by (auto simp: NewServer_def pool_load_def backed_def nonneg_def split: if_splits)
next
  case (serving_share s pots wk io ok now workID nonce addr r s')
  then show ?case using handleShare_backed by blast
next
  case (serving_tick s pots wk signer ok now alive s')
  let ?h = "blk_height (ch_head (pr_bc (ps_prod s)))"
  obtain a s1 where p: "payoutLocked E wk signer ok (matureLocked E wk ok ?h s) = (a, s1)" by fastforce
  have "backed s1 [] pots"
    using payoutLocked_backed [OF serving_tick(2) matureLocked_backed [OF serving_tick(2) serving_tick(4)], of E signer ok E ok ?h] p by simp
  moreover have "ledger_part s' = ledger_part s1"
    using serving_tick(3) p rebuildLocked_keeps by (cases a) (auto simp: pool_tick_def Let_def split: option.splits if_splits)
  ultimately show ?case by (rule backed_cong)
qed


text \<open>
  C17 The pool never owes more than the blocks it won: whatever shares arrive and however its ticks
  interleave with them, the balances, the payouts waiting for maturity and everything already paid out add
  up to at most the pots of the blocks won, and no balance is negative.
\<close>

theorem pool_ledger_backed:
  assumes "serving E s pots"
  shows "owed (ps_balances s) + pending_owed (ps_pending s) + ps_totalPaid s \<le> pots \<and>
    (\<forall>x \<in> set (ps_balances s). 0 \<le> snd x) \<and> 0 \<le> pending_owed (ps_pending s) \<and> 0 \<le> ps_totalPaid s"
proof -
  have b: "backed s [] pots" by (rule serving_backed [OF assms])
  then have "0 \<le> pending_owed (ps_pending s)"
    unfolding pending_owed_def backed_def by (intro sum_list_nonneg) (auto simp: nonneg_owed)
  then show ?thesis using b by (simp add: backed_def nonneg_def)
qed

text \<open>
  C18 The pot of a won block ignores the treasury cut: with a reward split in force and no operator fee, what
  the pool promises its workers exceeds what the block credits to the pool wallet by the treasury cut less the
  gas reserve.
\<close>

theorem pool_pot_exceeds_income:
  assumes "0 < TreasuryRewardBasisPoints rc" and "TreasuryRewardAddress rc \<noteq> 0" and "TreasuryRewardAddress rc \<noteq> a"
    and "cf_FeeBps cfg = 0" and "payoutGasReserve \<le> BlockRewardAt h + fees"
  shows "found_pot cfg h fees =
    (GetBalance (CreditBlockReward rc w a h) a - GetBalance w a) + fees + (treasuryCut rc (BlockRewardAt h) - payoutGasReserve)"
  using assms by (simp add: CreditBlockReward_def Let_def found_pot_def GetBalance_mutators)

section \<open>Samples\<close>

definition sample_config :: pool_config where
  "sample_config = \<lparr>cf_ShareDiffDivisor = 0, cf_MinShareDiff = 0, cf_FeeBps = 0, cf_Confirmations = 0, cf_WindowFactor = 0,
     cf_PayoutMin = None, cf_StatePath = [], cf_RefreshInterval = 0\<rparr>"

definition sample_server :: pool_server where
  "sample_server = the (NewServer sample_config sample_producer 9 NoFile)"

lemma sample_server_serves: "serving E sample_server 0"
  by (rule serving_new [of sample_config sample_producer 9])
    (simp add: sample_server_def NewServer_def pool_load_def fillDefaults_def sample_config_def)

theorem pool_ledger_backed_witness:
  "owed (ps_balances (snd (pool_tick height_crypto in_order (\<lambda>h. None) True 0 sample_server))) +
    pending_owed (ps_pending (snd (pool_tick height_crypto in_order (\<lambda>h. None) True 0 sample_server))) \<le> 0"
proof -
  have "serving height_crypto (snd (pool_tick height_crypto in_order (\<lambda>h. None) True 0 sample_server)) 0"
    by (rule serving_tick [OF sample_server_serves fair_in_order]) (rule prod.collapse [symmetric])
  from pool_ledger_backed [OF this] show ?thesis by simp
qed

theorem pool_pot_exceeds_income_witness:
  "found_pot sample_config 1 0 =
    (GetBalance (CreditBlockReward \<lparr>TreasuryRewardBasisPoints = 1000, TreasuryRewardAddress = 5\<rparr> world_New 9 1) 9 - GetBalance world_New 9) +
      (treasuryCut \<lparr>TreasuryRewardBasisPoints = 1000, TreasuryRewardAddress = 5\<rparr> (BlockRewardAt 1) - payoutGasReserve) \<and>
    payoutGasReserve < treasuryCut \<lparr>TreasuryRewardBasisPoints = 1000, TreasuryRewardAddress = 5\<rparr> (BlockRewardAt 1)"
proof -
  let ?rc = "\<lparr>TreasuryRewardBasisPoints = 1000, TreasuryRewardAddress = 5\<rparr>"
  have r: "BlockRewardAt 1 = 25 * 10 ^ 18"
    by (simp add: BlockRewardAt_def HalvingInterval_def BaseBlockReward_def LXS_def OneLXS_def Decimals_def)
  have "payoutGasReserve \<le> BlockRewardAt 1 + 0" "payoutGasReserve < treasuryCut ?rc (BlockRewardAt 1)"
    unfolding r by (simp_all add: payoutGasReserve_def treasuryCut_def)
  then show ?thesis
    using pool_pot_exceeds_income [of ?rc 9 sample_config 1 0 world_New] by (simp add: sample_config_def)
qed

end
