(* ===== verification/Spec2Isabelle.thy ===== *)
theory Spec2Isabelle
  imports Transition_Properties Pow_Properties Evm_Same Blockchain_Properties Mempool_Properties
    Producer_Properties Gossip_Properties Sync_Properties MiningPool_Properties
begin

text \<open>
  \<^bold>\<open>A verification of the LXS node.\<close>

  LXS (\<^verbatim>\<open>src/\<close>) is a proof-of-work blockchain node in Go with an Ethereum virtual machine.  A transaction is
  signed (\<^verbatim>\<open>types\<close>, \<^verbatim>\<open>crypto\<close>), encoded and hashed (\<^verbatim>\<open>common\<close>, \<^verbatim>\<open>rlp\<close>), waits in the \<^verbatim>\<open>mempool\<close>, is packed into a block by
  the producer or by a mining \<^verbatim>\<open>pool\<close>, and is executed by the \<^verbatim>\<open>state\<close> transition, which runs contract code in
  the \<^verbatim>\<open>vm\<close>.  \<^verbatim>\<open>core\<close> keeps the tree of blocks in a key-value \<^verbatim>\<open>store\<close>, follows the chain with the most work, undoes
  and replays blocks when another branch wins, and resumes from the store after a restart.  Nodes exchange blocks
  by gossip and by headers-first sync (\<^verbatim>\<open>p2p\<close>).

  \<^bold>\<open>Conventions.\<close>  A \<^verbatim>\<open>uint64\<close> is a \<^typ>\<open>nat\<close> whose wrap-around is written out (\<^term>\<open>add64\<close>, \<^term>\<open>sub64\<close>, \<^term>\<open>mul64\<close>), an \<^verbatim>\<open>int64\<close> an
  \<^typ>\<open>int\<close> with \<^term>\<open>wrap_int64\<close>, a \<^verbatim>\<open>*big.Int\<close> an \<^typ>\<open>int\<close> (an option where the source tests for nil), an address a
  160-bit and a hash or machine word a 256-bit word, a byte an 8-bit word.  Errors are values of sum or option
  types, one constructor per error of the source; a panic of the Go runtime is a constructor of its own, so that its
  absence is a theorem.  A Go map is an association list, and a loop over a map takes the order of its visit as
  the argument \<open>wk\<close>: theorems hold for every \<open>fair\<close> order.  Code outside \<^verbatim>\<open>src/\<close> (Keccak, the curve, the
  pairing library) is the record \<open>crypto\<close>, an argument of everything that uses it; what a theorem needs of it
  is a hypothesis of that theorem (that the hash separates a finite set of strings, that the signatures of a
  concrete run recover) and every such theorem has a witness with a concrete instance.  Locks are left out: each
  exported method holds the lock of its structure for its whole body, so a run is a sequence of whole operations.
\<close>

text \<open>
  \<^bold>\<open>Encoding and types.\<close>
  \<^item> \<^verbatim>\<open>Prelude\<close>: bytes, machine integers, Go maps, the generic lemmas of the library.
  \<^item> \<^verbatim>\<open>Encoding\<close>: \<^verbatim>\<open>src/common\<close>, the canonical encoder, event logs, hexadecimal text, denominations.
  \<^item> \<^verbatim>\<open>Rlp\<close>: \<^verbatim>\<open>src/rlp/rlp.go\<close> and \<^verbatim>\<open>src/state/rlp.go\<close>.  The decoder accepts exactly what the encoder produces.
  \<^item> \<^verbatim>\<open>Types\<close>: transactions with their native and EIP-155 signing rules, headers, receipts, Merkle roots
    (\<^verbatim>\<open>src/types\<close>, \<^verbatim>\<open>src/crypto/keys.go\<close>).  \<^verbatim>\<open>Types_Merkle\<close>, \<^verbatim>\<open>Types_Codec\<close> and \<^verbatim>\<open>Types_Properties\<close> show that each hash
    commits to every field below it, and that raw transactions round-trip.  The cached hashes of the source are
    values of a pure function and are recomputed.

  \<^bold>\<open>State and virtual machine.\<close>
  \<^item> \<^verbatim>\<open>World\<close>: \<^verbatim>\<open>src/state/state.go\<close>; accounts, journal, snapshots, touched set, supply and burn total.
    \<^verbatim>\<open>World_Laws\<close> has its invariant \<open>world_ok\<close> and the laws of every mutator.
  \<^item> \<^verbatim>\<open>Evm_Word\<close>, \<^verbatim>\<open>Evm_Frame\<close>, \<^verbatim>\<open>Digest\<close>, \<^verbatim>\<open>Evm_Precompiles\<close>, \<^verbatim>\<open>Evm_Exec\<close>: the whole of \<^verbatim>\<open>src/vm\<close>: arithmetic, stack, memory and gas
    of a frame, RIPEMD-160 and SHA-256, the precompiled contracts, every instruction, calls and creation.
    The interpreter recurses on fuel; \<open>execute\<close> supplies the gas plus one.  This is always enough and more changes
    nothing (\<^verbatim>\<open>Evm_Properties\<close>, \<^verbatim>\<open>Evm_Fuel\<close>), because each step pays at least one unit of gas or ends the frame.
  \<^item> \<^verbatim>\<open>Evm_Logic\<close> and \<^verbatim>\<open>Evm_Sound\<close>: a program logic for frame operations, and a locale \<open>world_rel\<close> whose laws each
    world operation of the machine discharges.  \<^verbatim>\<open>Evm_Properties\<close> interprets it for conservation of value, for read-only
    static calls, for the touched set and for reverting; \<^verbatim>\<open>Evm_Same\<close> for worlds that differ only in bookkeeping.
  \<^item> \<^verbatim>\<open>Transition\<close>: \<^verbatim>\<open>src/state/transition.go\<close>; \<open>ApplyTx\<close>, \<open>ApplyBlock\<close>, fees, rewards, read-only calls, gas estimation.
    \<^verbatim>\<open>Transition_Laws\<close>, \<^verbatim>\<open>Issuance\<close> and \<^verbatim>\<open>Transition_Properties\<close> show conservation, atomicity, exact effects, freedom from
    panics, the issuance schedule and tight estimates.  The loop over eras takes 100 rounds: the reward is zero
    after 65 halvings, so it always ends (\<open>cumulative_issued_exact\<close>).

  \<^bold>\<open>Consensus and chain.\<close>
  \<^item> \<^verbatim>\<open>Pow\<close>: targets, the LWMA retarget, grinding, fork choice (\<^verbatim>\<open>src/core/pow.go\<close>, \<^verbatim>\<open>src/core/forkchoice.go\<close>); \<^verbatim>\<open>Pow_Laws\<close> and
    \<^verbatim>\<open>Pow_Properties\<close> bound the retarget and show the fork choice a strict total order.  Grinding may run
    forever, so it takes a number of tries and returns \<open>None\<close> beyond it; that enough tries reach the first winning
    nonce is the theorem about it.
  \<^item> \<^verbatim>\<open>Genesis\<close>, \<^verbatim>\<open>Store\<close>, \<^verbatim>\<open>Schema\<close>: \<^verbatim>\<open>src/core/genesis.go\<close>, \<^verbatim>\<open>src/store/memory.go\<close>, \<^verbatim>\<open>src/core/schema.go\<close>.  The interface of
    \<^verbatim>\<open>src/store/store.go\<close> is the locale \<open>kv_store\<close>, interpreted on the in-memory store.
  \<^item> \<^verbatim>\<open>Blockchain\<close>: \<^verbatim>\<open>src/core/blockchain.go\<close>; opening, resuming, validating, inserting, reorganising, pruning,
    reading.  \<^verbatim>\<open>Blockchain_Inv\<close> states the invariant of a node's memory and store, \<^verbatim>\<open>Blockchain_Insert\<close> and \<^verbatim>\<open>Blockchain_Reorg\<close> that
    insertion keeps it, \<^verbatim>\<open>Blockchain_Node\<close> that every state of one run (\<open>node\<close>, an inductive predicate over opening an
    empty store, insertions and reads) has it, and \<^verbatim>\<open>Blockchain_Restart\<close> that runs with any number of restarts
    (\<open>node_life\<close>) behave like one that never stopped, as long as no reorganisation adds back a block whose state
    the last restart rebuilt: such states have lost the record of what their block touched, and \<^verbatim>\<open>reorg\<close> writes
    only that.  \<^verbatim>\<open>Blockchain_Properties\<close> draws the contract: the store mirrors the head, the height index is the path to
    genesis, value is conserved, a valid block is adopted and a restart resumes, all over \<open>node_life\<close>; insertion
    refines the fold of the fork choice and nodes converge, from a fresh store.
\<close>

text \<open>
  \<^bold>\<open>Pool, production, network.\<close>
  \<^item> \<^verbatim>\<open>Mempool\<close>: \<^verbatim>\<open>src/mempool\<close>; admission, eviction, selection, demotion, reinjection, the journal.  \<^verbatim>\<open>Mempool_Laws\<close>,
    \<^verbatim>\<open>Mempool_Pending\<close> and \<^verbatim>\<open>Mempool_Properties\<close>: the invariant of every reachable pool, selections that execute, and exactly
    when admission panics.
  \<^item> \<^verbatim>\<open>Producer\<close>: \<^verbatim>\<open>src/core/producer.go\<close>, \<^verbatim>\<open>src/core/wiring.go\<close>; building, sealing, committing.  \<^verbatim>\<open>Producer_Laws\<close> shows that the
    producer, which runs each candidate on a copy, and the importer, which runs in place, compute the same;
    \<^verbatim>\<open>Producer_Properties\<close> that a built block is valid and a mined one becomes the head.
  \<^item> \<^verbatim>\<open>Gossip\<close>: \<^verbatim>\<open>src/p2p/scorer.go\<close>, \<^verbatim>\<open>ratelimit.go\<close>, \<^verbatim>\<open>gossip.go\<close>, \<^verbatim>\<open>txgossip.go\<close>; scores, token buckets, message handlers, the
    queue of orphan blocks.  \<^verbatim>\<open>Gossip_Laws\<close> and \<^verbatim>\<open>Gossip_Properties\<close>: the accounting of the queue is exact and bounded.  Floating
    point is exact rational arithmetic there.
  \<^item> \<^verbatim>\<open>Sync\<close>: \<^verbatim>\<open>src/p2p/sync.go\<close>; serving, checking and fetching headers and bodies, with the peer as a
    function from requests to answers.  A peer can keep the driver's loop going, so it takes a number of rounds and
    reports whether it ended; the binary search takes fuel, and the height of the head is enough because every
    probe shortens the interval (part of \<open>common_ancestor_exact\<close>).  \<^verbatim>\<open>Sync_Properties\<close>: the search finds the exact fork point.
  \<^item> \<^verbatim>\<open>MiningPool\<close>: \<^verbatim>\<open>src/pool/server.go\<close>, \<^verbatim>\<open>src/pool/persist.go\<close>; templates, shares, the PPLNS ledger, maturity and
    payouts.  \<^verbatim>\<open>MiningPool_Properties\<close>: the ledger never owes more than the pots credited to it, and the pot of a
    block is larger than its income when a treasury cut is set.

  \<^bold>\<open>Not modelled.\<close>  The libp2p transport and the in-process network (adapters to a third-party library; the protocols
  take the network as an argument); the Pebble engine (third-party, behind the storage contract); the JSON-RPC server,
  its HTTP middleware and client (decoding of requests and rendering of results of operations modelled
  above); the health monitor (samples the process, holds no chain state); the process wiring of \<^verbatim>\<open>src/node\<close> with timers
  and HTTP; the compiled contracts of \<^verbatim>\<open>src/contracts\<close> (bytecode, data for the modelled machine); the
  command-line programs of \<^verbatim>\<open>src/cmd\<close>; reading and writing of files.  Goroutine interleavings below the granularity
  of a locked method are outside the model.
\<close>

end
